(* ===== verification/Prelude.thy ===== *)
theory Prelude
  imports Main "HOL-Library.Word" "HOL-Library.Multiset" "HOL-Library.Monad_Syntax"
begin

text \<open>
  Generic material shared by the component theories: the reading of Go's run-time panics,
  Go's 64-bit signed arithmetic, slices, loops over a slice, and lemmas on lists.

  A function that may panic (nil dereference, index out of range) or fail to return has
  result type \<open>option\<close>; \<open>None\<close> is the panic (or the loop that never ends). A nilable
  pointer is an \<open>option\<close> of an address, so \<open>do { p \<leftarrow> ptr; ... }\<close> is a dereference that
  panics on nil.
\<close>

named_theorems go_const "the constants of package constant"
named_theorems frame "which fields of the state an operation leaves alone"

section \<open>Go's signed 64-bit integers\<close>

text \<open>
  \<open>int64\<close> and \<open>int\<close> values are modelled as \<open>int\<close>; \<open>i64\<close> is the two's-complement
  wrap-around, written where the code's arithmetic can leave the range.
\<close>

definition i64 :: "int \<Rightarrow> int" where
  "i64 x = (x + 2 ^ 63) mod 2 ^ 64 - 2 ^ 63"

definition in_i64 :: "int \<Rightarrow> bool" where
  "in_i64 x \<longleftrightarrow> - (2 ^ 63) \<le> x \<and> x < 2 ^ 63"

lemma i64_id: "in_i64 x \<Longrightarrow> i64 x = x"
  by (simp add: i64_def in_i64_def)

lemma i64_in: "in_i64 (i64 x)"
  by (simp add: i64_def in_i64_def)

lemma i64_cong: "i64 x mod 2 ^ 64 = x mod 2 ^ 64"
  by (simp add: i64_def mod_diff_left_eq)

text \<open>Go's \<open>/\<close> and \<open>%\<close> truncate towards zero.\<close>

definition go_quo :: "int \<Rightarrow> int \<Rightarrow> int" where
  "go_quo a b = sgn a * sgn b * (\<bar>a\<bar> div \<bar>b\<bar>)"

definition go_rem :: "int \<Rightarrow> int \<Rightarrow> int" where
  "go_rem a b = a - b * go_quo a b"

lemma go_rem_nonneg: "0 \<le> a \<Longrightarrow> 0 < b \<Longrightarrow> go_rem a b = a mod b"
  by (cases "a = 0") (simp_all add: go_rem_def go_quo_def sgn_if minus_div_mult_eq_mod [symmetric] mult.commute)

section \<open>float64 on integers\<close>

text \<open>
  The code takes minima with \<open>math.Min(float64(a), float64(b))\<close>. \<open>f64 x\<close> is the value of
  \<open>float64(x)\<close> for an integer: exact up to \<open>2^53\<close>, otherwise rounded to 53 significant bits,
  ties to even. \<open>i64_of_f64\<close> is the conversion back; out of range it yields the least
  \<open>int64\<close>, as the amd64 instruction does (the language leaves the value open).
\<close>

fun bit_length :: "nat \<Rightarrow> nat" where
  "bit_length n = (if n = 0 then 0 else Suc (bit_length (n div 2)))"

declare bit_length.simps [simp del]

definition f64 :: "int \<Rightarrow> int" where
  "f64 x =
     (if \<bar>x\<bar> \<le> 2 ^ 53 then x
      else let k = bit_length (nat \<bar>x\<bar>) - 53; q = \<bar>x\<bar> div 2 ^ k; r = \<bar>x\<bar> mod 2 ^ k;
               q' = (if 2 * r > 2 ^ k \<or> (2 * r = 2 ^ k \<and> odd q) then q + 1 else q)
        in sgn x * (q' * 2 ^ k))"

definition i64_of_f64 :: "int \<Rightarrow> int" where
  "i64_of_f64 x = (if in_i64 x then x else - (2 ^ 63))"

definition minf :: "int \<Rightarrow> int \<Rightarrow> int" where
  "minf a b = i64_of_f64 (min (f64 a) (f64 b))"

lemma f64_small: "\<bar>x\<bar> \<le> 2 ^ 53 \<Longrightarrow> f64 x = x"
  by (simp add: f64_def)

lemma minf_small: "\<bar>a\<bar> \<le> 2 ^ 53 \<Longrightarrow> \<bar>b\<bar> \<le> 2 ^ 53 \<Longrightarrow> minf a b = min a b"
proof -
  assume "\<bar>a\<bar> \<le> 2 ^ 53" "\<bar>b\<bar> \<le> 2 ^ 53"
  then have "minf a b = i64_of_f64 (min a b)" "in_i64 (min a b)"
    by (auto simp: minf_def f64_small in_i64_def)
  then show ?thesis by (simp add: i64_of_f64_def)
qed

section \<open>Slices\<close>

text \<open>
  \<open>slice xs a b\<close> is Go's \<open>xs[a:b]\<close> for bounds within the length of \<open>xs\<close>;
  \<open>slice_from xs a\<close> is \<open>xs[a:]\<close>, which panics exactly when \<open>a\<close> is negative or exceeds
  the length.
\<close>

definition slice :: "'a list \<Rightarrow> int \<Rightarrow> int \<Rightarrow> 'a list option" where
  "slice xs a b =
     (if 0 \<le> a \<and> a \<le> b \<and> b \<le> int (length xs)
      then Some (take (nat (b - a)) (drop (nat a) xs)) else None)"

definition slice_from :: "'a list \<Rightarrow> int \<Rightarrow> 'a list option" where
  "slice_from xs a = slice xs a (int (length xs))"

lemma slice_from_nat [simp]:
  "slice_from xs (int n) = (if n \<le> length xs then Some (drop n xs) else None)"
  by (auto simp: slice_from_def slice_def nat_diff_distrib)

lemma slice_Some_conv:
  "slice xs a b = Some ys \<longleftrightarrow>
     0 \<le> a \<and> a \<le> b \<and> b \<le> int (length xs) \<and> ys = take (nat (b - a)) (drop (nat a) xs)"
  by (auto simp: slice_def)

lemma slice_whole [simp]: "slice xs 0 (int (length xs)) = Some xs"
  by (simp add: slice_def)

definition nth_opt :: "'a list \<Rightarrow> nat \<Rightarrow> 'a option" where
  "nth_opt xs i = (if i < length xs then Some (xs ! i) else None)"

section \<open>Loops over a slice\<close>

text \<open>
  \<open>foldM\<close> runs a body over the elements of a slice; \<open>iterate\<close> also lets the body break out.
\<close>

fun foldM :: "('a \<Rightarrow> 's \<Rightarrow> 's option) \<Rightarrow> 'a list \<Rightarrow> 's \<Rightarrow> 's option" where
  "foldM f [] s = Some s"
| "foldM f (x # xs) s = do { s \<leftarrow> f x s; foldM f xs s }"

fun iterate :: "('a \<Rightarrow> 's \<Rightarrow> (bool \<times> 's) option) \<Rightarrow> 'a list \<Rightarrow> 's \<Rightarrow> 's option" where
  "iterate f [] s = Some s"
| "iterate f (x # xs) s =
     do { (bk, s) \<leftarrow> f x s; if bk then Some s else iterate f xs s }"

lemma foldM_append: "foldM f (xs @ ys) s = do { s \<leftarrow> foldM f xs s; foldM f ys s }"
  by (induction xs arbitrary: s) (auto split: Option.bind_split)

lemma foldM_total:
  "(\<And>x s. x \<in> set xs \<Longrightarrow> f x s = Some (g x s)) \<Longrightarrow> foldM f xs s = Some (fold g xs s)"
  by (induction xs arbitrary: s) auto

lemma foldM_inv:
  assumes "foldM f xs s = Some t" and "P s"
    and "\<And>x s t. x \<in> set xs \<Longrightarrow> P s \<Longrightarrow> f x s = Some t \<Longrightarrow> P t"
  shows "P t"
  using assms
proof (induction xs arbitrary: s)
  case (Cons x xs)
  from Cons.prems(1) obtain u where u: "f x s = Some u" "foldM f xs u = Some t"
    by (auto split: Option.bind_splits)
  have "P u" using Cons.prems(2,3) u(1) by (meson list.set_intros(1))
  with u(2) show ?case
    by (rule Cons.IH) (use Cons.prems(3) in auto)
qed simp

section \<open>Lists\<close>

lemma mset_swap_update:
  "i < length xs \<Longrightarrow> j < length xs \<Longrightarrow> mset (xs[i := xs ! j, j := xs ! i]) = mset xs"
  by (rule mset_swap)

lemma mset_remove_nth:
  "i < length xs \<Longrightarrow> mset (take i xs @ drop (Suc i) xs) = mset xs - {#xs ! i#}"
  by (metis add_mset_remove_trivial append_Cons append_take_drop_id id_take_nth_drop
      mset.simps(2) mset_append union_mset_add_mset_right)

lemma butlast_nth_less: "i < length xs - 1 \<Longrightarrow> butlast xs ! i = xs ! i"
  by (simp add: nth_butlast)

lemma mset_butlast: "xs \<noteq> [] \<Longrightarrow> mset (butlast xs) = mset xs - {#last xs#}"
  by (metis add_mset_remove_trivial append_butlast_last_id mset.simps(1) mset.simps(2)
      mset_append union_mset_add_mset_right add.right_neutral)

end
