(* ===== verification/Bytes.thy ===== *)
theory Bytes
  imports Prelude
begin

text \<open>
  The byte-string helpers of \<open>utils/str.go\<close> and \<open>utils/tube.go\<close>, with the parts of Go's
  \<open>bytes\<close>, \<open>strconv\<close> and \<open>fmt\<close> they and the protocol code use. A \<open>[]byte\<close> or \<open>string\<close>
  is a \<open>string\<close> of the model: a \<open>char\<close> of Isabelle is one byte.
\<close>

abbreviation CR :: char where "CR \<equiv> CHR 0x0D"
abbreviation LF :: char where "LF \<equiv> CHR 0x0A"
abbreviation SP :: char where "SP \<equiv> CHR 0x20"
abbreviation CRLF :: string where "CRLF \<equiv> [CR, LF]"

datatype str_err = FmtError | ParseError | InvalidTubeName

section \<open>Go's bytes, strconv and fmt\<close>

fun bytes_index :: "string \<Rightarrow> string \<Rightarrow> nat option" where
  "bytes_index [] sub = (if sub = [] then Some 0 else None)"
| "bytes_index (c # s) sub =
     (if take (length sub) (c # s) = sub then Some 0 else map_option Suc (bytes_index s sub))"

definition bytes_Index :: "string \<Rightarrow> string \<Rightarrow> int" where
  "bytes_Index s sub = (case bytes_index s sub of None \<Rightarrow> -1 | Some n \<Rightarrow> int n)"

fun bytes_Split :: "char \<Rightarrow> string \<Rightarrow> string list" where
  "bytes_Split d [] = [[]]"
| "bytes_Split d (c # s) =
     (if c = d then [] # bytes_Split d s
      else (case bytes_Split d s of [] \<Rightarrow> [[c]] | w # ws \<Rightarrow> (c # w) # ws))"

definition is_digit :: "char \<Rightarrow> bool" where
  "is_digit c \<longleftrightarrow> 48 \<le> (of_char c :: nat) \<and> (of_char c :: nat) \<le> 57"

definition digit_val :: "char \<Rightarrow> nat" where
  "digit_val c = of_char c - 48"

definition digits_val :: "string \<Rightarrow> nat" where
  "digits_val s = foldl (\<lambda>n c. 10 * n + digit_val c) 0 s"

text \<open>\<open>strconv.ParseInt(s, 10, 64)\<close>: an optional sign, at least one digit, nothing else, and a
  value in range; \<open>None\<close> is the error.\<close>

definition parse_digits :: "string \<Rightarrow> nat option" where
  "parse_digits s = (if s \<noteq> [] \<and> list_all is_digit s then Some (digits_val s) else None)"

definition ParseInt :: "string \<Rightarrow> int option" where
  "ParseInt s =
     (case s of
        [] \<Rightarrow> None
      | c # r \<Rightarrow>
         if c = CHR ''-'' then
           (case parse_digits r of None \<Rightarrow> None
            | Some n \<Rightarrow> if n \<le> 2 ^ 63 then Some (- int n) else None)
         else
           (case parse_digits (if c = CHR ''+'' then r else s) of None \<Rightarrow> None
            | Some n \<Rightarrow> if n < 2 ^ 63 then Some (int n) else None))"

text \<open>For evaluation: the bound is compared as an \<open>int\<close>.\<close>

lemma ParseInt_code [code]:
  "ParseInt s =
     (case s of
        [] \<Rightarrow> None
      | c # r \<Rightarrow>
         if c = CHR ''-'' then
           (case parse_digits r of None \<Rightarrow> None
            | Some n \<Rightarrow> if int n \<le> 9223372036854775808 then Some (- int n) else None)
         else
           (case parse_digits (if c = CHR ''+'' then r else s) of None \<Rightarrow> None
            | Some n \<Rightarrow> if int n < 9223372036854775808 then Some (int n) else None))"
proof -
  have e: "int n \<le> 9223372036854775808 \<longleftrightarrow> n \<le> 2 ^ 63" "int n < 9223372036854775808 \<longleftrightarrow> n < 2 ^ 63" for n
    by auto
  show ?thesis unfolding ParseInt_def e ..
qed

text \<open>The verb \<open>%d\<close>.\<close>

definition digit_char :: "nat \<Rightarrow> char" where
  "digit_char n = char_of (48 + n)"

fun dec_nat :: "nat \<Rightarrow> string" where
  "dec_nat n = (if n < 10 then [digit_char n] else dec_nat (n div 10) @ [digit_char (n mod 10)])"

declare dec_nat.simps [simp del]

definition dec_int :: "int \<Rightarrow> string" where
  "dec_int i = (if i < 0 then CHR ''-'' # dec_nat (nat (- i)) else dec_nat (nat i))"

section \<open>utils/str.go\<close>

definition StrLen :: "string \<Rightarrow> int" where
  "StrLen s = (let l = bytes_Index s [CR] in if l = -1 then int (length s) else l)"

definition ToStr :: "string \<Rightarrow> string option" where
  "ToStr s = slice s 0 (bytes_Index s [CR])"

definition StrTol :: "string \<Rightarrow> str_err + int" where
  "StrTol str =
     (case ParseInt (takeWhile is_digit str) of None \<Rightarrow> Inl ParseError | Some i \<Rightarrow> Inr i)"

text \<open>
  \<open>ReadInt(buf, idx)\<close>: the outer \<open>None\<close> is the panic of \<open>buf[begin]\<close> on a buffer of spaces
  only. On success the result holds the number and the advanced index.
\<close>

definition ReadInt :: "string \<Rightarrow> int \<Rightarrow> (str_err + int \<times> int) option" where
  "ReadInt buf idx =
     (let begin = length (takeWhile (\<lambda>c. c = SP) buf) in
      do {
        c \<leftarrow> nth_opt buf begin;
        if \<not> is_digit c then Some (Inl FmtError)
        else
          let data = takeWhile is_digit (drop begin buf); end = begin + length data in
          (case ParseInt data of
             None \<Rightarrow> Some (Inl ParseError)
           | Some i \<Rightarrow> Some (Inr (i, idx + int end)))
      })"

definition ReadDuration :: "string \<Rightarrow> int \<Rightarrow> (str_err + int \<times> int) option" where
  "ReadDuration buf idx =
     do {
       r \<leftarrow> ReadInt buf idx;
       (case r of
          Inl e \<Rightarrow> Some (Inl e)
        | Inr (t, idx) \<Rightarrow> Some (Inr (i64 (t * 1000000000), idx)))
     }"

section \<open>utils/tube.go\<close>

definition nameCharts :: string where
  "nameCharts = ''ABCDEFGHIJKLMNOPQRSTUVWXYZabcdefghijklmnopqrstuvwxyz0123456789-+/;.$_()''"

text \<open>\<open>chartsAry[c] != 0\<close> holds for the characters of \<open>nameCharts\<close> and no others.\<close>

definition charts_ok :: "char \<Rightarrow> bool" where
  "charts_ok c \<longleftrightarrow> c \<in> set nameCharts"

definition StrSpn :: "string \<Rightarrow> int" where
  "StrSpn s = int (length (takeWhile charts_ok s))"

definition MaxTubeNameLen :: int where
  [go_const]: "MaxTubeNameLen = 201"

definition IsValidTube :: "string \<Rightarrow> bool" where
  "IsValidTube name \<longleftrightarrow>
     (let l = StrLen name in
      0 < l \<and> l \<le> MaxTubeNameLen - 1 \<and> StrSpn name = l \<and> name ! 0 \<noteq> CHR ''-'')"

definition ReadTubeName :: "string \<Rightarrow> int \<Rightarrow> str_err + string \<times> int" where
  "ReadTubeName buf idx =
     (let begin = length (takeWhile (\<lambda>c. c = SP) buf); l = StrSpn (drop begin buf) in
      if l = 0 then Inl InvalidTubeName
      else Inr (take (nat l) (drop begin buf), idx + int begin + l))"

section \<open>Searching for the end of a line\<close>

lemma bytes_index_Some:
  "bytes_index s [c] = Some n \<Longrightarrow> n < length s \<and> s ! n = c \<and> c \<notin> set (take n s)"
proof (induction s arbitrary: n)
  case (Cons a s)
  then show ?case by (cases "a = c") (auto split: if_splits)
qed simp

lemma bytes_index_None: "bytes_index s [c] = None \<longleftrightarrow> c \<notin> set s"
  by (induction s) auto

lemma StrLen_eq: "StrLen s = int (length (takeWhile (\<lambda>c. c \<noteq> CR) s))"
proof (induction s)
  case (Cons a s)
  then show ?case
    by (cases "a = CR") (auto simp: StrLen_def bytes_Index_def Let_def split: option.splits)
qed (simp add: StrLen_def bytes_Index_def)

lemma bytes_Split_hd: "hd (bytes_Split d s) = takeWhile (\<lambda>c. c \<noteq> d) s"
  and bytes_Split_nonempty: "bytes_Split d s \<noteq> []"
  by (induction s) (auto split: list.splits)

lemma crlf_index:
  "bytes_index s CRLF = Some n \<Longrightarrow> Suc n < length s \<and> s ! n = CR \<and> s ! Suc n = LF"
proof (induction s arbitrary: n)
  case (Cons a s)
  show ?case
  proof (cases "take 2 (a # s) = CRLF")
    case True
    then have "n = 0" using Cons.prems by (auto simp: numeral_2_eq_2)
    then show ?thesis using True by (cases s) (auto simp: numeral_2_eq_2)
  next
    case False
    then obtain m where "bytes_index s CRLF = Some m" "n = Suc m"
      using Cons.prems by (auto simp: numeral_2_eq_2 split: if_splits)
    then show ?thesis using Cons.IH by auto
  qed
qed simp

section \<open>Decimal numbers\<close>

lemma digit_char_digit: "n < 10 \<Longrightarrow> is_digit (digit_char n)"
  and digit_val_char: "n < 10 \<Longrightarrow> digit_val (digit_char n) = n"
  by (auto simp: is_digit_def digit_char_def digit_val_def of_char_of)

lemma dec_nat_nonempty: "dec_nat n \<noteq> []"
  by (subst dec_nat.simps) simp

lemma dec_nat_digits: "list_all is_digit (dec_nat n)"
proof (induction n rule: dec_nat.induct)
  case (1 n)
  then show ?case by (subst dec_nat.simps) (auto simp: digit_char_digit)
qed

lemma digits_val_snoc: "digits_val (s @ [c]) = 10 * digits_val s + digit_val c"
  by (simp add: digits_val_def)

lemma digits_val_single: "digits_val [c] = digit_val c"
  by (simp add: digits_val_def)

lemma digits_val_dec: "digits_val (dec_nat n) = n"
proof (induction n rule: dec_nat.induct)
  case (1 n)
  then show ?case
    by (subst dec_nat.simps) (auto simp: digit_val_char digits_val_snoc digits_val_single)
qed

lemma digit_not_sign: "is_digit c \<Longrightarrow> c \<noteq> CHR ''-'' \<and> c \<noteq> CHR ''+'' \<and> c \<noteq> SP \<and> c \<noteq> CR"
  by (auto simp: is_digit_def)

lemma ParseInt_digits:
  assumes "s \<noteq> []" "list_all is_digit s"
  shows "ParseInt s = (if digits_val s < 2 ^ 63 then Some (int (digits_val s)) else None)"
  using assms digit_not_sign [of "hd s"]
  by (cases s) (auto simp: ParseInt_def parse_digits_def)

lemma ParseInt_nil [simp]: "ParseInt [] = None"
  by (simp add: ParseInt_def)

lemma ParseInt_range: "ParseInt s = Some i \<Longrightarrow> in_i64 i"
  by (auto simp: ParseInt_def in_i64_def split: list.splits option.splits if_splits)

section \<open>What ReadInt accepts\<close>

lemma takeWhile_spaces:
  "w \<noteq> [] \<Longrightarrow> hd w \<noteq> SP \<Longrightarrow> takeWhile (\<lambda>c. c = SP) (replicate k SP @ w) = replicate k SP"
  by (induction k) (auto simp: neq_Nil_conv)

lemma takeWhile_digits:
  "list_all is_digit ds \<Longrightarrow> rest = [] \<or> \<not> is_digit (hd rest) \<Longrightarrow> takeWhile is_digit (ds @ rest) = ds"
  by (induction ds) (auto simp: takeWhile_eq_Nil_iff)

lemma ReadInt_number:
  assumes ds: "ds \<noteq> []" "list_all is_digit ds" and rest: "rest = [] \<or> \<not> is_digit (hd rest)"
  shows "ReadInt (replicate k SP @ ds @ rest) idx =
    Some (if digits_val ds < 2 ^ 63 then Inr (int (digits_val ds), idx + int k + int (length ds))
          else Inl ParseError)"
proof -
  have hd: "is_digit (hd ds)" using ds by (cases ds) auto
  have "takeWhile (\<lambda>c. c = SP) (replicate k SP @ ds @ rest) = replicate k SP"
    using ds hd digit_not_sign [OF hd] by (intro takeWhile_spaces) auto
  moreover have "nth_opt (replicate k SP @ ds @ rest) k = Some (hd ds)"
    using ds by (auto simp: nth_opt_def nth_append hd_conv_nth)
  ultimately show ?thesis
    using hd takeWhile_digits [OF ds(2) rest] ParseInt_digits [OF ds]
    by (simp add: ReadInt_def Let_def)
qed

lemma ReadInt_not_digit:
  assumes "c \<noteq> SP" "\<not> is_digit c"
  shows "ReadInt (replicate k SP @ c # rest) idx = Some (Inl FmtError)"
proof -
  have "takeWhile (\<lambda>c. c = SP) (replicate k SP @ c # rest) = replicate k SP"
    using assms by (intro takeWhile_spaces) auto
  then show ?thesis using assms by (simp add: ReadInt_def nth_opt_def nth_append)
qed

lemma ReadInt_spaces: "ReadInt (replicate k SP) idx = None"
  by (simp add: ReadInt_def nth_opt_def)

text \<open>Every buffer is of exactly one of the three shapes.\<close>

lemma ReadInt_shapes:
  obtains (spaces) k where "buf = replicate k SP"
  | (bad) k c rest where "buf = replicate k SP @ c # rest" "c \<noteq> SP" "\<not> is_digit c"
  | (number) k ds rest where "buf = replicate k SP @ ds @ rest" "ds \<noteq> []" "list_all is_digit ds"
      "rest = [] \<or> \<not> is_digit (hd rest)"
proof -
  define k where "k = length (takeWhile (\<lambda>c. c = SP) buf)"
  define w where "w = dropWhile (\<lambda>c. c = SP) buf"
  have "takeWhile (\<lambda>c. c = SP) buf = replicate k SP"
    by (rule replicate_eqI) (auto simp: k_def dest: set_takeWhileD)
  then have buf: "buf = replicate k SP @ w" unfolding w_def by (metis takeWhile_dropWhile_id)
  show thesis
  proof (cases w)
    case Nil
    then show thesis using buf spaces by simp
  next
    case (Cons c v)
    have c: "c \<noteq> SP" using Cons hd_dropWhile [of "\<lambda>c. c = SP" buf] by (auto simp: w_def)
    show thesis
    proof (cases "is_digit c")
      case True
      have "w = takeWhile is_digit w @ dropWhile is_digit w" by simp
      moreover have "takeWhile is_digit w \<noteq> []" using Cons True by simp
      moreover have "list_all is_digit (takeWhile is_digit w)"
        by (auto simp: list_all_iff dest: set_takeWhileD)
      moreover have "dropWhile is_digit w = [] \<or> \<not> is_digit (hd (dropWhile is_digit w))"
        using hd_dropWhile by blast
      ultimately show thesis using number buf by metis
    next
      case False
      then show thesis using bad c buf Cons by simp
    qed
  qed
qed

lemma ReadInt_in_i64: "ReadInt buf idx = Some (Inr (n, idx')) \<Longrightarrow> in_i64 n \<and> 0 \<le> n"
  by (cases buf rule: ReadInt_shapes)
    (auto simp: ReadInt_spaces ReadInt_not_digit ReadInt_number in_i64_def split: if_splits)

section \<open>Tube names\<close>

lemma StrSpn_le: "StrSpn s \<le> int (length s)"
  by (simp add: StrSpn_def length_takeWhile_le)

lemma StrSpn_all: "StrSpn s = int (length s) \<longleftrightarrow> list_all charts_ok s"
proof
  assume "StrSpn s = int (length s)"
  then have "takeWhile charts_ok s = s"
    by (metis StrSpn_def of_nat_eq_iff takeWhile_eq_take take_all_iff order_refl)
  then show "list_all charts_ok s" by (metis list_all_iff set_takeWhileD)
qed (simp add: StrSpn_def list_all_iff takeWhile_eq_all_conv [THEN iffD2])

lemma charts_not_cr: "charts_ok c \<Longrightarrow> c \<noteq> CR"
  by (auto simp: charts_ok_def nameCharts_def)

lemma StrLen_charts: "list_all charts_ok s \<Longrightarrow> StrLen s = int (length s)"
  using charts_not_cr
  by (auto simp: StrLen_eq list_all_iff takeWhile_eq_all_conv [THEN iffD2])

text \<open>A string \<open>ReadTubeName\<close> returns consists of name characters.\<close>

lemma ReadTubeName_chars:
  assumes "ReadTubeName buf idx = Inr (name, idx')"
  shows "list_all charts_ok name" "name \<noteq> []"
proof -
  have *: "take (length (takeWhile P xs)) xs = takeWhile P xs" for P :: "char \<Rightarrow> bool" and xs
    by (metis takeWhile_eq_take)
  show "list_all charts_ok name" "name \<noteq> []"
    using assms by (auto simp: ReadTubeName_def Let_def StrSpn_def * list_all_iff
        split: if_splits dest: set_takeWhileD)
qed

lemma IsValidTube_chars:
  "list_all charts_ok name \<Longrightarrow>
     IsValidTube name \<longleftrightarrow> name \<noteq> [] \<and> length name \<le> 200 \<and> hd name \<noteq> CHR ''-''"
  using StrSpn_all [of name] StrLen_charts [of name]
  by (auto simp: IsValidTube_def Let_def MaxTubeNameLen_def hd_conv_nth)

section \<open>What the readers accept\<close>

lemma dec_nat_60: "dec_nat 60 = ''60''"
  by code_simp

text \<open>C34: \<open>ReadInt\<close> reads back every number the program prints, after any number of spaces and
  up to the first character that is not a digit, and advances the index past it; a number of
  \<open>2^63\<close> or more is a parse error.\<close>

theorem ReadInt_prints:
  assumes "rest = [] \<or> \<not> is_digit (hd rest)"
  shows "ReadInt (replicate k SP @ dec_nat n @ rest) idx =
    Some (if n < 2 ^ 63 then Inr (int n, idx + int k + int (length (dec_nat n))) else Inl ParseError)"
  using ReadInt_number [OF dec_nat_nonempty dec_nat_digits assms, where k = k and idx = idx]
  by (simp add: digits_val_dec)

theorem ReadInt_prints_witness: "ReadInt ''  60 1'' 4 = Some (Inr (60, 8))"
proof -
  have "replicate 2 SP @ dec_nat 60 @ '' 1'' = ''  60 1''" by code_simp
  then show ?thesis using ReadInt_prints [of "'' 1''" 2 60 4] by (simp add: is_digit_def dec_nat_60)
qed

text \<open>\<open>ReadInt\<close> panics exactly on a buffer of nothing but spaces (the empty buffer
  included); every number it returns is in the range of a non-negative \<open>int64\<close>.\<close>

lemma ReadInt_panics:
  "(ReadInt buf idx = None \<longleftrightarrow> set buf \<subseteq> {SP}) \<and>
   (\<forall>n idx'. ReadInt buf idx = Some (Inr (n, idx')) \<longrightarrow> 0 \<le> n \<and> n < 2 ^ 63 \<and> idx < idx')"
proof
  show "ReadInt buf idx = None \<longleftrightarrow> set buf \<subseteq> {SP}"
  proof (cases buf rule: ReadInt_shapes)
    case (spaces k)
    then show ?thesis using ReadInt_spaces by auto
  next
    case (bad k c rest)
    then show ?thesis using ReadInt_not_digit [of c k rest idx] by auto
  next
    case (number k ds rest)
    then have "hd ds \<in> set buf" "hd ds \<noteq> SP"
      using digit_not_sign [of "hd ds"] by (auto simp: list_all_iff)
    then have "\<not> set buf \<subseteq> {SP}" by blast
    moreover have "ReadInt buf idx \<noteq> None" using number ReadInt_number [of ds rest k idx] by simp
    ultimately show ?thesis by simp
  qed
  show "\<forall>n idx'. ReadInt buf idx = Some (Inr (n, idx')) \<longrightarrow> 0 \<le> n \<and> n < 2 ^ 63 \<and> idx < idx'"
    by (cases buf rule: ReadInt_shapes)
      (auto simp: ReadInt_spaces ReadInt_not_digit ReadInt_number add_nonneg_pos split: if_splits)
qed

text \<open>\<open>ReadDuration\<close> turns a number of seconds into nanoseconds exactly as long as the
  product fits an \<open>int64\<close>; beyond, the product wraps around, and 9223372037 seconds (292
  years) become a negative duration.\<close>

lemma ReadDuration_seconds:
  assumes "rest = [] \<or> \<not> is_digit (hd rest)" "n < 2 ^ 63"
  shows "ReadDuration (replicate k SP @ dec_nat n @ rest) idx =
      Some (Inr (i64 (int n * 1000000000), idx + int k + int (length (dec_nat n)))) \<and>
    (n \<le> 9223372036 \<longrightarrow> i64 (int n * 1000000000) = int n * 1000000000) \<and>
    i64 (9223372037 * 1000000000) < 0"
  using ReadInt_number [OF dec_nat_nonempty dec_nat_digits assms(1), where k = k and idx = idx] assms(2)
  by (auto simp: ReadDuration_def digits_val_dec in_i64_def intro!: i64_id) (simp add: i64_def)

lemma ReadDuration_60: "ReadDuration ''60'' 4 = Some (Inr (60000000000, 6))"
  using ReadDuration_seconds [of "[]" 60 0 4]
  by (simp add: dec_nat_60 i64_def)

text \<open>\<open>ReadTubeName\<close> skips spaces and takes the longest run of name characters; what it
  returns is accepted by \<open>IsValidTube\<close> exactly when it has at most 200 characters and does not
  start with a dash.\<close>

lemma ReadTubeName_valid:
  assumes "ReadTubeName buf idx = Inr (name, idx')"
  shows "(IsValidTube name \<longleftrightarrow> length name \<le> 200 \<and> hd name \<noteq> CHR ''-'') \<and>
    (\<exists>k rest. buf = replicate k SP @ name @ rest \<and> (rest = [] \<or> \<not> charts_ok (hd rest)) \<and>
       idx' = idx + int k + int (length name))"
proof
  show "IsValidTube name \<longleftrightarrow> length name \<le> 200 \<and> hd name \<noteq> CHR ''-''"
    using ReadTubeName_chars [OF assms] IsValidTube_chars by simp
  let ?b = "takeWhile (\<lambda>c. c = SP) buf" and ?w = "dropWhile (\<lambda>c. c = SP) buf"
  have w: "drop (length ?b) buf = ?w" by (metis dropWhile_eq_drop)
  have n: "name = takeWhile charts_ok ?w" "idx' = idx + int (length ?b) + int (length name)"
    using assms takeWhile_eq_take [of charts_ok ?w]
    by (auto simp: ReadTubeName_def StrSpn_def w Let_def split: if_splits)
  have "?b = replicate (length ?b) SP" by (rule replicate_eqI) (auto dest: set_takeWhileD)
  then have "buf = replicate (length ?b) SP @ name @ dropWhile charts_ok ?w"
    using n(1) by (metis takeWhile_dropWhile_id)
  then show "\<exists>k rest. buf = replicate k SP @ name @ rest \<and> (rest = [] \<or> \<not> charts_ok (hd rest)) \<and>
       idx' = idx + int k + int (length name)"
    using n(2) hd_dropWhile by blast
qed

end
