(* ===== verification/HeapQueue.thy ===== *)
theory HeapQueue
  imports Prelude
begin

text \<open>
  The priority queue of \<open>structure/heap.go\<close>: the slice of items kept by \<open>mHeap\<close>, and the
  algorithms of Go's \<open>container/heap\<close> (\<open>up\<close>, \<open>down\<close>, \<open>Push\<close>, \<open>Pop\<close>, \<open>Remove\<close>) that the
  file runs on it. The comparison \<open>lessFn\<close> reads the objects the items point to, so it is
  an argument here: the callers pass the comparison over their current store.

  The items are values of the model: the code allocates a new \<open>Item\<close> for every \<open>Push\<close> and
  no caller keeps a pointer to one.
\<close>

section \<open>Items and the slice operations of mHeap\<close>

record 'v item =
  Value :: 'v
  item_index :: int

type_synonym 'v mHeap = "'v item list"

definition newItem :: "'v \<Rightarrow> 'v item" where
  "newItem v = \<lparr>Value = v, item_index = 0\<rparr>"

definition heap_Index :: "'v item \<Rightarrow> int" where
  "heap_Index it = item_index it"

definition heap_Len :: "'v mHeap \<Rightarrow> nat" where
  "heap_Len h = length h"

definition mHeap_Less :: "('v \<Rightarrow> 'v \<Rightarrow> bool) \<Rightarrow> 'v mHeap \<Rightarrow> nat \<Rightarrow> nat \<Rightarrow> bool" where
  "mHeap_Less lt h i j = lt (Value (h ! i)) (Value (h ! j))"

definition mHeap_Swap :: "nat \<Rightarrow> nat \<Rightarrow> 'v mHeap \<Rightarrow> 'v mHeap" where
  "mHeap_Swap i j h =
     h[i := (h ! j)\<lparr>item_index := int i\<rparr>, j := (h ! i)\<lparr>item_index := int j\<rparr>]"

definition mHeap_Push :: "'v item \<Rightarrow> 'v mHeap \<Rightarrow> 'v mHeap" where
  "mHeap_Push x h = h @ [x\<lparr>item_index := int (length h)\<rparr>]"

definition mHeap_Pop :: "'v mHeap \<Rightarrow> ('v item \<times> 'v mHeap) option" where
  "mHeap_Pop h =
     (if h = [] then None else Some ((last h)\<lparr>item_index := -1\<rparr>, butlast h))"

section \<open>container/heap on mHeap\<close>

function heap_up :: "('v \<Rightarrow> 'v \<Rightarrow> bool) \<Rightarrow> 'v mHeap \<Rightarrow> nat \<Rightarrow> 'v mHeap" where
  "heap_up lt h j =
     (let i = (j - 1) div 2 in
      if i = j \<or> \<not> mHeap_Less lt h j i then h
      else heap_up lt (mHeap_Swap i j h) i)"
  by pat_completeness auto
termination
  by (relation "measure (\<lambda>(lt, h, j). j)") auto

function heap_down :: "('v \<Rightarrow> 'v \<Rightarrow> bool) \<Rightarrow> 'v mHeap \<Rightarrow> nat \<Rightarrow> nat \<Rightarrow> 'v mHeap \<times> nat" where
  "heap_down lt h i n =
     (let j1 = 2 * i + 1 in
      if j1 \<ge> n then (h, i)
      else let j2 = j1 + 1; j = (if j2 < n \<and> mHeap_Less lt h j2 j1 then j2 else j1) in
        if \<not> mHeap_Less lt h j i then (h, i)
        else heap_down lt (mHeap_Swap i j h) j n)"
  by pat_completeness auto
termination
  by (relation "measure (\<lambda>(lt, h, i, n). n - i)") (auto simp: Let_def)

declare heap_up.simps [simp del] heap_down.simps [simp del]

definition heap_Push :: "('v \<Rightarrow> 'v \<Rightarrow> bool) \<Rightarrow> 'v item \<Rightarrow> 'v mHeap \<Rightarrow> bool \<times> 'v mHeap" where
  "heap_Push lt x h =
     (let h = mHeap_Push x h in (True, heap_up lt h (length h - 1)))"

text \<open>
  \<open>heap.Pop\<close> and \<open>heap.Remove\<close>: on an index out of range (in particular on an empty heap)
  the first \<open>Swap\<close>, or the final \<open>Pop\<close>, indexes the slice out of range and panics.
\<close>

definition heap_Pop :: "('v \<Rightarrow> 'v \<Rightarrow> bool) \<Rightarrow> 'v mHeap \<Rightarrow> ('v item \<times> 'v mHeap) option" where
  "heap_Pop lt h =
     (if h = [] then None
      else let n = length h - 1; h = mHeap_Swap 0 n h; (h, _) = heap_down lt h 0 n
        in mHeap_Pop h)"

definition heap_Remove :: "('v \<Rightarrow> 'v \<Rightarrow> bool) \<Rightarrow> int \<Rightarrow> 'v mHeap \<Rightarrow> ('v item \<times> 'v mHeap) option"
  where
  "heap_Remove lt idx h =
     (if idx < 0 \<or> int (length h) \<le> idx then None
      else let i = nat idx; n = length h - 1 in
        mHeap_Pop
          (if n \<noteq> i
           then let h = mHeap_Swap i n h; (h', i') = heap_down lt h i n
             in if i' > i then h' else heap_up lt h' i
           else h))"

definition heap_Take :: "int \<Rightarrow> 'v mHeap \<Rightarrow> 'v item option" where
  "heap_Take i h = (if i < 0 \<or> int (length h) \<le> i then None else Some (h ! nat i))"

text \<open>
  \<open>Heap.Set\<close>, the only place that calls \<open>setPos\<close>: the callback is an optional state
  transformer.
\<close>

definition heap_Set ::
  "('v item \<Rightarrow> int \<Rightarrow> 's \<Rightarrow> 's) option \<Rightarrow> int \<Rightarrow> 'v item \<Rightarrow> 'v mHeap \<Rightarrow> 's \<Rightarrow> 'v mHeap \<times> 's"
  where
  "heap_Set setPos k it h s =
     (case setPos of
        None \<Rightarrow> (h, s)
      | Some f \<Rightarrow>
          if k < 0 \<or> int (length h) \<le> k then (h, s)
          else (h[nat k := (h ! nat k)\<lparr>Value := Value it\<rparr>], f it k s))"

section \<open>Swaps: contents, lengths, recorded indices\<close>

text \<open>\<open>heap_vals h\<close> is the bag of the queue's contents, the abstract view of a heap.\<close>

definition heap_vals :: "'v mHeap \<Rightarrow> 'v multiset" where
  "heap_vals h = mset (map Value h)"

definition indexed :: "'v mHeap \<Rightarrow> bool" where
  "indexed h \<longleftrightarrow> (\<forall>i<length h. item_index (h ! i) = int i)"

lemma length_Swap [simp]: "length (mHeap_Swap i j h) = length h"
  by (simp add: mHeap_Swap_def)

lemma Value_Swap:
  assumes "i < length h" "j < length h" "k < length h"
  shows "Value (mHeap_Swap i j h ! k) =
    (if k = j then Value (h ! i) else if k = i then Value (h ! j) else Value (h ! k))"
  using assms by (simp add: mHeap_Swap_def nth_list_update)

lemma Swap_outside: "k \<noteq> i \<Longrightarrow> k \<noteq> j \<Longrightarrow> mHeap_Swap i j h ! k = h ! k"
  by (simp add: mHeap_Swap_def)

lemma vals_Swap:
  assumes "i < length h" "j < length h"
  shows "heap_vals (mHeap_Swap i j h) = heap_vals h"
proof -
  have "map Value (mHeap_Swap i j h) = (map Value h)[i := map Value h ! j, j := map Value h ! i]"
    using assms by (simp add: mHeap_Swap_def map_update)
  then show ?thesis using assms mset_swap_update [of i "map Value h" j]
    by (simp only: heap_vals_def length_map)
qed

lemma indexed_Swap: "i < length h \<Longrightarrow> j < length h \<Longrightarrow> indexed h \<Longrightarrow> indexed (mHeap_Swap i j h)"
  by (auto simp: indexed_def mHeap_Swap_def nth_list_update)

text \<open>\<open>up\<close> and \<open>down\<close> only swap: they keep the length, the contents and the indices.\<close>

lemma up_frame:
  "j < length h \<Longrightarrow>
     length (heap_up lt h j) = length h \<and> heap_vals (heap_up lt h j) = heap_vals h \<and>
     (indexed h \<longrightarrow> indexed (heap_up lt h j)) \<and>
     (\<forall>k>j. k < length h \<longrightarrow> heap_up lt h j ! k = h ! k)"
proof (induction lt h j rule: heap_up.induct)
  case (1 lt h j)
  let ?i = "(j - 1) div 2"
  show ?case
  proof (cases "?i = j \<or> \<not> mHeap_Less lt h j ?i")
    case True
    then show ?thesis by (simp add: heap_up.simps [of lt h j])
  next
    case False
    then have ij: "?i < j" by auto
    from "1.IH" [OF refl False] "1.prems" ij
    have IH: "length (heap_up lt (mHeap_Swap ?i j h) ?i) = length h"
      "heap_vals (heap_up lt (mHeap_Swap ?i j h) ?i) = heap_vals h"
      "indexed h \<longrightarrow> indexed (heap_up lt (mHeap_Swap ?i j h) ?i)"
      "\<forall>k>j. k < length h \<longrightarrow> heap_up lt (mHeap_Swap ?i j h) ?i ! k = h ! k"
      by (auto simp: vals_Swap indexed_Swap Swap_outside)
    with False show ?thesis by (simp add: heap_up.simps [of lt h j] Let_def)
  qed
qed

lemma down_frame:
  "n \<le> length h \<Longrightarrow>
     length (fst (heap_down lt h i n)) = length h \<and>
     heap_vals (fst (heap_down lt h i n)) = heap_vals h \<and>
     (indexed h \<longrightarrow> indexed (fst (heap_down lt h i n))) \<and>
     i \<le> snd (heap_down lt h i n) \<and>
     (\<forall>k. k < i \<or> n \<le> k \<longrightarrow> fst (heap_down lt h i n) ! k = h ! k)"
proof (induction lt h i n rule: heap_down.induct)
  case (1 lt h i n)
  let ?j1 = "2 * i + 1"
  define j where "j = (if ?j1 + 1 < n \<and> mHeap_Less lt h (?j1 + 1) ?j1 then ?j1 + 1 else ?j1)"
  note unf = heap_down.simps [of lt h i n, folded j_def, unfolded Let_def, folded j_def]
  show ?case
  proof (cases "?j1 \<ge> n \<or> \<not> mHeap_Less lt h j i")
    case True
    then show ?thesis by (auto simp: unf)
  next
    case False
    then have j: "i < j" "j < n" by (auto simp: j_def)
    have "heap_down lt h i n = heap_down lt (mHeap_Swap i j h) j n"
      using False by (simp add: unf)
    moreover have "?j1 < n" "mHeap_Less lt h j i" using False by auto
    moreover note "1.IH" [OF refl _ refl j_def]
    ultimately show ?thesis using "1.prems" j
      by (auto simp: vals_Swap indexed_Swap Swap_outside)
  qed
qed

section \<open>The order requirement and the heap property\<close>

text \<open>
  What the queue needs of its \<open>lessFn\<close>: a strict weak order, in the form used below
  (asymmetric, and "not less" is transitive). The job and connection comparisons are
  interpreted as instances in the theories that define them.
\<close>

locale weak_less =
  fixes lt :: "'v \<Rightarrow> 'v \<Rightarrow> bool"
  assumes asym: "lt a b \<Longrightarrow> \<not> lt b a"
    and neg_trans: "\<not> lt b a \<Longrightarrow> \<not> lt c b \<Longrightarrow> \<not> lt c a"

definition edge_ok :: "('v \<Rightarrow> 'v \<Rightarrow> bool) \<Rightarrow> 'v mHeap \<Rightarrow> nat \<Rightarrow> nat \<Rightarrow> bool" where
  "edge_ok lt h p c \<longleftrightarrow> \<not> lt (Value (h ! c)) (Value (h ! p))"

definition heap_upto :: "('v \<Rightarrow> 'v \<Rightarrow> bool) \<Rightarrow> 'v mHeap \<Rightarrow> nat \<Rightarrow> bool" where
  "heap_upto lt h n \<longleftrightarrow> (\<forall>i<n. 0 < i \<longrightarrow> edge_ok lt h ((i - 1) div 2) i)"

definition heap_ok :: "('v \<Rightarrow> 'v \<Rightarrow> bool) \<Rightarrow> 'v mHeap \<Rightarrow> bool" where
  "heap_ok lt h \<longleftrightarrow> heap_upto lt h (length h)"

text \<open>
  The hole: all edges away from \<open>k\<close> are in order, and \<open>k\<close>'s parent is in order with
  \<open>k\<close>'s children. \<open>hole_up\<close>: the edge above \<open>k\<close> is in order; \<open>hole_down\<close>: those below.
\<close>

definition hole :: "('v \<Rightarrow> 'v \<Rightarrow> bool) \<Rightarrow> 'v mHeap \<Rightarrow> nat \<Rightarrow> nat \<Rightarrow> bool" where
  "hole lt h n k \<longleftrightarrow>
     (\<forall>i<n. 0 < i \<longrightarrow> i \<noteq> k \<longrightarrow> (i - 1) div 2 \<noteq> k \<longrightarrow> edge_ok lt h ((i - 1) div 2) i) \<and>
     (\<forall>i<n. 0 < i \<longrightarrow> (i - 1) div 2 = k \<longrightarrow> 0 < k \<longrightarrow> edge_ok lt h ((k - 1) div 2) i)"

definition hole_up :: "('v \<Rightarrow> 'v \<Rightarrow> bool) \<Rightarrow> 'v mHeap \<Rightarrow> nat \<Rightarrow> bool" where
  "hole_up lt h k \<longleftrightarrow> (0 < k \<longrightarrow> edge_ok lt h ((k - 1) div 2) k)"

definition hole_down :: "('v \<Rightarrow> 'v \<Rightarrow> bool) \<Rightarrow> 'v mHeap \<Rightarrow> nat \<Rightarrow> nat \<Rightarrow> bool" where
  "hole_down lt h n k \<longleftrightarrow> (\<forall>i<n. 0 < i \<longrightarrow> (i - 1) div 2 = k \<longrightarrow> edge_ok lt h k i)"

lemma heap_upto_iff_hole:
  "hole lt h n k \<Longrightarrow> hole_up lt h k \<Longrightarrow> hole_down lt h n k \<Longrightarrow> heap_upto lt h n"
  unfolding heap_upto_def hole_def hole_up_def hole_down_def by metis

lemma parent_less: "0 < (i::nat) \<Longrightarrow> (i - 1) div 2 < i"
  by simp

lemma children: "0 < i \<Longrightarrow> (i - 1) div 2 = k \<longleftrightarrow> i = 2 * k + 1 \<or> i = 2 * k + (2::nat)"
  by auto

context weak_less
begin

lemma irrefl: "\<not> lt a a"
  using asym by blast

text \<open>One step of \<open>down\<close>: the smaller child moves up, the hole moves to its place, and the
  edge above the new hole is in order.\<close>

lemma down_step:
  assumes hole: "hole lt h n i" and n: "n \<le> length h" and j: "j < n" "0 < j" "(j - 1) div 2 = i"
    and smaller: "\<And>c. c < n \<Longrightarrow> 0 < c \<Longrightarrow> (c - 1) div 2 = i \<Longrightarrow> edge_ok lt h j c"
    and lt: "lt (Value (h ! j)) (Value (h ! i))"
  shows "hole lt (mHeap_Swap i j h) n j" and "hole_up lt (mHeap_Swap i j h) j"
proof -
  have ij: "i < j" using j parent_less by blast
  have len: "i < length h" "j < length h" using n j ij by auto
  have nv: "Value (mHeap_Swap i j h ! k) =
      (if k = j then Value (h ! i) else if k = i then Value (h ! j) else Value (h ! k))"
    if "k < n" for k using Value_Swap [OF len, of k] that n by auto
  show "hole_up lt (mHeap_Swap i j h) j"
    using j ij asym [OF lt] by (simp add: hole_up_def edge_ok_def nv)
  have above: "edge_ok lt h ((i - 1) div 2) j" if "0 < i"
    using hole j that by (auto simp: hole_def)
  show "hole lt (mHeap_Swap i j h) n j"
    unfolding hole_def
  proof (intro conjI allI impI)
    fix k assume k: "k < n" "0 < k" "k \<noteq> j" "(k - 1) div 2 \<noteq> j"
    have pk: "(k - 1) div 2 < n" using k parent_less [of k] by linarith
    consider "k = i" | "(k - 1) div 2 = i" "k \<noteq> i" | "k \<noteq> i" "(k - 1) div 2 \<noteq> i" by blast
    then show "edge_ok lt (mHeap_Swap i j h) ((k - 1) div 2) k"
    proof cases
      case 1
      then show ?thesis using above k ij pk parent_less [of i] by (auto simp: edge_ok_def nv)
    next
      case 2
      then show ?thesis using smaller [of k] k pk ij by (auto simp: edge_ok_def nv)
    next
      case 3
      then show ?thesis using hole k pk by (auto simp: edge_ok_def nv hole_def)
    qed
  next
    fix c assume c: "c < n" "0 < c" "(c - 1) div 2 = j" "0 < j"
    then have "c \<noteq> j" "c \<noteq> i" using ij parent_less [of c] by auto
    moreover have "edge_ok lt h j c" using hole c calculation ij by (auto simp: hole_def)
    ultimately show "edge_ok lt (mHeap_Swap i j h) ((j - 1) div 2) c"
      using c j ij by (auto simp: edge_ok_def nv)
  qed
qed

lemma down_cases:
  obtains (stop) "heap_down lt h i n = (h, i)" "hole_down lt h n i"
  | (swap) j where "j < n" "0 < j" "(j - 1) div 2 = i" "i < j"
      "\<And>c. c < n \<Longrightarrow> 0 < c \<Longrightarrow> (c - 1) div 2 = i \<Longrightarrow> edge_ok lt h j c"
      "lt (Value (h ! j)) (Value (h ! i))"
      "heap_down lt h i n = heap_down lt (mHeap_Swap i j h) j n"
proof -
  let ?j1 = "2 * i + 1"
  define j where "j = (if ?j1 + 1 < n \<and> mHeap_Less lt h (?j1 + 1) ?j1 then ?j1 + 1 else ?j1)"
  note unf = heap_down.simps [of lt h i n, folded j_def, unfolded Let_def, folded j_def]
  have small: "edge_ok lt h j c" if "c < n" "0 < c" "(c - 1) div 2 = i" for c
    using that asym irrefl children [of c i]
    by (auto simp: j_def edge_ok_def mHeap_Less_def)
  show thesis
  proof (cases "?j1 \<ge> n \<or> \<not> mHeap_Less lt h j i")
    case True
    have "hole_down lt h n i"
      unfolding hole_down_def
    proof (intro allI impI)
      fix c assume c: "c < n" "0 < c" "(c - 1) div 2 = i"
      then have "?j1 < n" using children [of c i] by auto
      then show "edge_ok lt h i c"
        using True small [OF c] neg_trans by (auto simp: edge_ok_def mHeap_Less_def)
    qed
    moreover have "heap_down lt h i n = (h, i)" using True by (auto simp: unf)
    ultimately show thesis by (rule stop [rotated])
  next
    case False
    have "j < n" "0 < j" "(j - 1) div 2 = i" "i < j" using False by (auto simp: j_def)
    moreover have "lt (Value (h ! j)) (Value (h ! i))" using False by (simp add: mHeap_Less_def)
    moreover have "heap_down lt h i n = heap_down lt (mHeap_Swap i j h) j n"
      using False by (simp add: unf)
    ultimately show thesis using small swap by blast
  qed
qed

lemma down_heap:
  "hole lt h n i \<Longrightarrow> hole_up lt h i \<Longrightarrow> n \<le> length h \<Longrightarrow> heap_upto lt (fst (heap_down lt h i n)) n"
proof (induction "n - i" arbitrary: h i rule: less_induct)
  case less
  show ?case
  proof (cases rule: down_cases [of h i n])
    case stop
    then show ?thesis using less.prems heap_upto_iff_hole by auto
  next
    case (swap j)
    have "n - j < n - i" using swap by linarith
    moreover note down_step [OF less.prems(1,3) swap(1,2,3,5,6)]
    ultimately show ?thesis using less.hyps [of j "mHeap_Swap i j h"] less.prems(3) swap(7) by simp
  qed
qed

text \<open>Started at a hole with nothing known above it, \<open>down\<close> either moves and repairs the heap,
  or stays and has established the order below.\<close>

lemma down_hole:
  assumes "hole lt h n i" "n \<le> length h"
  shows "(fst (heap_down lt h i n) = h \<and> snd (heap_down lt h i n) = i \<and> hole_down lt h n i) \<or>
         (i < snd (heap_down lt h i n) \<and> heap_upto lt (fst (heap_down lt h i n)) n)"
proof (cases rule: down_cases [of h i n])
  case stop
  then show ?thesis by simp
next
  case (swap j)
  have "heap_upto lt (fst (heap_down lt (mHeap_Swap i j h) j n)) n"
    using down_heap down_step [OF assms swap(1,2,3,5,6)] assms(2) by simp
  moreover have "j \<le> snd (heap_down lt (mHeap_Swap i j h) j n)"
    using down_frame [of n "mHeap_Swap i j h" lt j] assms(2) by simp
  ultimately show ?thesis using swap(4,7) by simp
qed

lemma up_step:
  assumes hole: "hole lt h n k" and down: "hole_down lt h n k"
    and k: "k < n" "0 < k" "n \<le> length h" and lt: "lt (Value (h ! k)) (Value (h ! ((k - 1) div 2)))"
  defines "p \<equiv> (k - 1) div 2"
  shows "hole lt (mHeap_Swap p k h) n p" and "hole_down lt (mHeap_Swap p k h) n p"
proof -
  have ltp: "lt (Value (h ! k)) (Value (h ! p))" using lt by (simp add: p_def)
  have pk: "p < k" using k parent_less by (simp add: p_def)
  have len: "p < length h" "k < length h" using k pk by auto
  have nv: "Value (mHeap_Swap p k h ! c) =
      (if c = k then Value (h ! p) else if c = p then Value (h ! k) else Value (h ! c))"
    if "c < n" for c using Value_Swap [OF len, of c] that k by auto
  have sib: "edge_ok lt h p c" if "c < n" "0 < c" "(c - 1) div 2 = p" "c \<noteq> k" for c
    using hole that pk by (auto simp: hole_def)
  have pp: "edge_ok lt h ((p - 1) div 2) p" if "0 < p"
    using hole that pk k parent_less [of p] by (auto simp: hole_def)
  show "hole_down lt (mHeap_Swap p k h) n p"
    unfolding hole_down_def
  proof (intro allI impI)
    fix c assume c: "c < n" "0 < c" "(c - 1) div 2 = p"
    have pn: "p < n" using pk k by simp
    show "edge_ok lt (mHeap_Swap p k h) p c"
    proof (cases "c = k")
      case True
      then show ?thesis using asym [OF ltp] k pk pn by (simp add: edge_ok_def nv)
    next
      case False
      then have "\<not> lt (Value (h ! c)) (Value (h ! p))" using sib c by (simp add: edge_ok_def)
      then have "\<not> lt (Value (h ! c)) (Value (h ! k))" using neg_trans asym [OF ltp] by blast
      then show ?thesis using False c pn pk parent_less [of c] by (auto simp: edge_ok_def nv)
    qed
  qed
  show "hole lt (mHeap_Swap p k h) n p"
    unfolding hole_def
  proof (intro conjI allI impI)
    fix c assume c: "c < n" "0 < c" "c \<noteq> p" "(c - 1) div 2 \<noteq> p"
    have pc: "(c - 1) div 2 < n" using c parent_less [of c] by linarith
    have ck: "c \<noteq> k" using c by (auto simp: p_def)
    show "edge_ok lt (mHeap_Swap p k h) ((c - 1) div 2) c"
    proof (cases "(c - 1) div 2 = k")
      case True
      then have "edge_ok lt h p c" using hole c k by (auto simp: hole_def p_def)
      then show ?thesis using True c pc ck by (auto simp: edge_ok_def nv)
    next
      case False
      then have "edge_ok lt h ((c - 1) div 2) c" using hole c ck by (auto simp: hole_def)
      then show ?thesis using False c pc ck by (auto simp: edge_ok_def nv)
    qed
  next
    fix c assume c: "c < n" "0 < c" "(c - 1) div 2 = p" "0 < p"
    have q: "(p - 1) div 2 < p" using c parent_less by blast
    show "edge_ok lt (mHeap_Swap p k h) ((p - 1) div 2) c"
      using pp c q pk k sib [of c] neg_trans [of "Value (h ! p)" "Value (h ! ((p - 1) div 2))" "Value (h ! c)"]
        parent_less [of c]
      by (auto simp: edge_ok_def nv neg_trans)
  qed
qed

lemma up_heap:
  "hole lt h n k \<Longrightarrow> hole_down lt h n k \<Longrightarrow> k < n \<Longrightarrow> n \<le> length h \<Longrightarrow>
   heap_upto lt (heap_up lt h k) n"
proof (induction k arbitrary: h rule: less_induct)
  case (less k)
  let ?p = "(k - 1) div 2"
  show ?case
  proof (cases "0 < k \<and> lt (Value (h ! k)) (Value (h ! ?p))")
    case True
    then have "?p < k" "heap_up lt h k = heap_up lt (mHeap_Swap ?p k h) ?p"
      using parent_less [of k] by (auto simp: heap_up.simps [of lt h k] Let_def mHeap_Less_def)
    with True up_step [of h n k] less.prems less.IH [of ?p "mHeap_Swap ?p k h"]
    show ?thesis by simp
  next
    case False
    then have "heap_up lt h k = h" "hole_up lt h k"
      by (auto simp: heap_up.simps [of lt h k] Let_def mHeap_Less_def hole_up_def edge_ok_def)
    then show ?thesis using less.prems heap_upto_iff_hole by simp
  qed
qed

lemma hole_after_swap:
  assumes "heap_ok lt h" and n: "n = length h - 1" and i: "i < n"
  shows "hole lt (mHeap_Swap i n h) n i"
proof -
  have E: "edge_ok lt h ((c - 1) div 2) c" if "c < length h" "0 < c" for c
    using assms(1) that by (simp add: heap_ok_def heap_upto_def)
  have same: "mHeap_Swap i n h ! k = h ! k" if "k < n" "k \<noteq> i" for k
    using that by (intro Swap_outside) auto
  show ?thesis
    unfolding hole_def
  proof (intro conjI allI impI)
    fix c assume c: "c < n" "0 < c" "c \<noteq> i" "(c - 1) div 2 \<noteq> i"
    then show "edge_ok lt (mHeap_Swap i n h) ((c - 1) div 2) c"
      using E [of c] same [of c] same [of "(c - 1) div 2"] parent_less [of c] n
      by (auto simp: edge_ok_def)
  next
    fix c assume c: "c < n" "0 < c" "(c - 1) div 2 = i" "0 < i"
    have q: "(i - 1) div 2 < i" "i < c" using c parent_less by blast+
    have "\<not> lt (Value (h ! i)) (Value (h ! ((i - 1) div 2)))" "\<not> lt (Value (h ! c)) (Value (h ! i))"
      using E [of i] E [of c] c i n by (auto simp: edge_ok_def)
    then show "edge_ok lt (mHeap_Swap i n h) ((i - 1) div 2) c"
      using neg_trans same [of c] same [of "(i - 1) div 2"] c q i by (auto simp: edge_ok_def)
  qed
qed

lemma push_ok:
  assumes "heap_ok lt h"
  shows "heap_ok lt (snd (heap_Push lt x h))"
proof -
  let ?h = "mHeap_Push x h"
  have len: "length ?h = Suc (length h)" by (simp add: mHeap_Push_def)
  have same: "?h ! k = h ! k" if "k < length h" for k
    using that by (simp add: mHeap_Push_def nth_append)
  have "hole lt ?h (length ?h) (length h)"
    unfolding hole_def
  proof (intro conjI allI impI)
    fix i assume i: "i < length ?h" "0 < i" "i \<noteq> length h" "(i - 1) div 2 \<noteq> length h"
    then have "i < length h" "(i - 1) div 2 < length h" using len parent_less [of i] by linarith+
    then show "edge_ok lt ?h ((i - 1) div 2) i"
      using assms same i by (auto simp: heap_ok_def heap_upto_def edge_ok_def)
  next
    fix i assume "i < length ?h" "0 < i" "(i - 1) div 2 = length h" "0 < length h"
    then show "edge_ok lt ?h ((length h - 1) div 2) i" using len parent_less [of i] by linarith
  qed
  moreover have "hole_down lt ?h (length ?h) (length h)"
    unfolding hole_down_def
  proof (intro allI impI)
    fix i assume "i < length ?h" "0 < i" "(i - 1) div 2 = length h"
    then show "edge_ok lt ?h (length h) i" using len parent_less [of i] by linarith
  qed
  ultimately have "heap_upto lt (heap_up lt ?h (length h)) (length ?h)"
    using up_heap [of ?h "length ?h" "length h"] len by simp
  then show ?thesis
    using up_frame [of "length h" ?h lt] len
    by (simp add: heap_ok_def heap_Push_def Let_def)
qed

text \<open>What \<open>Remove\<close> hands to the final \<open>mHeap.Pop\<close>: a slice whose last item is the removed one,
  and whose other items form a heap.\<close>

lemma remove_prepared:
  assumes "heap_ok lt h" and i: "i < length h" and n: "n = length h - 1" "n \<noteq> i"
  defines "h1 \<equiv> mHeap_Swap i n h"
  defines "g \<equiv> (if snd (heap_down lt h1 i n) > i then fst (heap_down lt h1 i n)
               else heap_up lt (fst (heap_down lt h1 i n)) i)"
  shows "length g = length h" "heap_vals g = heap_vals h" "indexed h \<Longrightarrow> indexed g"
    "Value (last g) = Value (h ! i)" "heap_upto lt g n"
proof -
  have in_: "i < n" "n < length h" using i n by auto
  have len1: "length h1 = length h" by (simp add: h1_def)
  have hole: "hole lt h1 n i" using hole_after_swap assms in_ by (simp add: h1_def)
  note df = down_frame [of n h1 lt i]
  note uf = up_frame [of i "fst (heap_down lt h1 i n)" lt]
  have hn: "Value (h1 ! n) = Value (h ! i)"
    using Value_Swap [of i h n n] in_ i by (simp add: h1_def)
  show leng: "length g = length h" and "heap_vals g = heap_vals h" and "indexed h \<Longrightarrow> indexed g"
    using df uf in_ i len1 vals_Swap [of i h n] indexed_Swap [of i h n]
    by (auto simp: g_def h1_def)
  have "g ! n = h1 ! n"
    using df uf in_ len1 by (auto simp: g_def)
  moreover have "g \<noteq> []" using leng in_ by auto
  ultimately show "Value (last g) = Value (h ! i)"
    using leng n hn by (simp add: last_conv_nth)
  show "heap_upto lt g n"
    using down_hole [OF hole] up_heap [of h1 n i] hole in_ len1 by (auto simp: g_def)
qed

lemma heap_upto_butlast:
  "heap_upto lt g (length g - 1) \<Longrightarrow> heap_ok lt (butlast g)"
  using parent_less
  by (simp add: heap_ok_def heap_upto_def edge_ok_def nth_butlast less_imp_diff_less)

lemma remove_ok:
  assumes "heap_ok lt h" and "heap_Remove lt idx h = Some (x, h')"
  shows "heap_ok lt h'"
proof -
  from assms(2) have idx: "0 \<le> idx" "nat idx < length h"
    by (auto simp: heap_Remove_def split: if_splits)
  show ?thesis
  proof (cases "length h - 1 = nat idx")
    case True
    then have "h' = butlast h" using assms(2) idx
      by (auto simp: heap_Remove_def mHeap_Pop_def Let_def split: if_splits)
    moreover have "heap_upto lt h (length h - 1)"
      using assms(1) by (simp add: heap_ok_def heap_upto_def)
    ultimately show ?thesis by (simp add: heap_upto_butlast)
  next
    case False
    note P = remove_prepared [OF assms(1) idx(2) refl False]
    show ?thesis using assms(2) idx False P(5) heap_upto_butlast P(1)
      by (auto simp: heap_Remove_def mHeap_Pop_def Let_def case_prod_unfold split: if_splits)
  qed
qed

lemma root_min:
  assumes "heap_ok lt h" "k < length h"
  shows "\<not> lt (Value (h ! k)) (Value (h ! 0))"
  using assms(2)
proof (induction k rule: less_induct)
  case (less k)
  show ?case
  proof (cases "k = 0")
    case True
    then show ?thesis using irrefl by simp
  next
    case False
    let ?p = "(k - 1) div 2"
    have "?p < k" using False by simp
    moreover have "\<not> lt (Value (h ! k)) (Value (h ! ?p))"
      using assms(1) False less.prems by (simp add: heap_ok_def heap_upto_def edge_ok_def)
    ultimately show ?thesis using less.IH [of ?p] less.prems neg_trans by auto
  qed
qed

end

section \<open>The queue's contract\<close>

text \<open>Contents and indices, on every branch; these need nothing of the order.\<close>

lemma push_vals:
  "fst (heap_Push lt x h) = True"
  "heap_vals (snd (heap_Push lt x h)) = add_mset (Value x) (heap_vals h)"
  "length (snd (heap_Push lt x h)) = Suc (length h)"
  "indexed h \<Longrightarrow> indexed (snd (heap_Push lt x h))"
proof -
  let ?h = "mHeap_Push x h"
  have "indexed h \<Longrightarrow> indexed ?h"
    by (auto simp: indexed_def mHeap_Push_def nth_append less_Suc_eq)
  moreover have "heap_vals ?h = add_mset (Value x) (heap_vals h)" "length ?h = Suc (length h)"
    by (simp_all add: mHeap_Push_def heap_vals_def)
  moreover note up_frame [of "length h" ?h lt]
  ultimately show "fst (heap_Push lt x h) = True"
    "heap_vals (snd (heap_Push lt x h)) = add_mset (Value x) (heap_vals h)"
    "length (snd (heap_Push lt x h)) = Suc (length h)"
    "indexed h \<Longrightarrow> indexed (snd (heap_Push lt x h))"
    by (auto simp: heap_Push_def Let_def)
qed

lemma vals_butlast: "g \<noteq> [] \<Longrightarrow> heap_vals g = add_mset (Value (last g)) (heap_vals (butlast g))"
  by (metis append_butlast_last_id heap_vals_def list.simps(8,9) map_append mset.simps(1,2)
      mset_append union_mset_add_mset_right add.right_neutral)

lemma indexed_butlast: "indexed g \<Longrightarrow> indexed (butlast g)"
  by (simp add: indexed_def nth_butlast)

lemma mHeap_Pop_vals:
  assumes "mHeap_Pop g = Some (x, h)"
  shows "Value x = Value (last g)" "item_index x = -1" "h = butlast g"
    "heap_vals g = add_mset (Value x) (heap_vals h)" "length g = Suc (length h)"
    "indexed g \<Longrightarrow> indexed h"
  using assms vals_butlast [of g] indexed_butlast [of g]
  by (auto simp: mHeap_Pop_def split: if_splits)

lemma heap_Remove_cases:
  assumes "0 \<le> idx" "idx < int (length h)"
  obtains g where "heap_Remove lt idx h = mHeap_Pop g" "length g = length h"
    "heap_vals g = heap_vals h" "indexed h \<longrightarrow> indexed g" "Value (last g) = Value (h ! nat idx)"
proof (cases "length h - 1 = nat idx")
  case True
  then have "h \<noteq> []" using assms by auto
  then have "last h = h ! nat idx" using True by (simp add: last_conv_nth)
  then show thesis using True assms that [of h] by (simp add: heap_Remove_def Let_def)
next
  case False
  define i where "i = nat idx"
  define n where "n = length h - 1"
  define h1 where "h1 = mHeap_Swap i n h"
  define g where "g = (if snd (heap_down lt h1 i n) > i then fst (heap_down lt h1 i n)
               else heap_up lt (fst (heap_down lt h1 i n)) i)"
  have in_: "i < n" "n < length h" "i < length h" using False assms by (auto simp: i_def n_def)
  have len1: "length h1 = length h" by (simp add: h1_def)
  note df = down_frame [of n h1 lt i]
  note uf = up_frame [of i "fst (heap_down lt h1 i n)" lt]
  have g: "length g = length h" "heap_vals g = heap_vals h" "indexed h \<longrightarrow> indexed g"
    "g ! n = h1 ! n"
    using df uf in_ len1 vals_Swap [of i h n] indexed_Swap [of i h n]
    by (auto simp: g_def h1_def)
  have "g \<noteq> []" using g(1) in_ by auto
  then have "Value (last g) = Value (h ! i)"
    using g(1,4) Value_Swap [of i h n n] in_ by (simp add: last_conv_nth h1_def n_def)
  moreover have "heap_Remove lt idx h = mHeap_Pop g"
    using False assms
    by (simp add: heap_Remove_def Let_def case_prod_unfold g_def h1_def i_def n_def)
  ultimately show thesis using that g by (simp add: i_def)
qed

lemma remove_vals:
  assumes "heap_Remove lt idx h = Some (x, h')"
  shows "0 \<le> idx" "idx < int (length h)" "Value x = Value (h ! nat idx)"
    "heap_vals h = add_mset (Value x) (heap_vals h')" "length h = Suc (length h')"
    "item_index x = -1" "indexed h \<Longrightarrow> indexed h'"
proof -
  show idx: "0 \<le> idx" "idx < int (length h)"
    using assms by (auto simp: heap_Remove_def split: if_splits)
  obtain g where g: "heap_Remove lt idx h = mHeap_Pop g" "length g = length h"
    "heap_vals g = heap_vals h" "indexed h \<longrightarrow> indexed g" "Value (last g) = Value (h ! nat idx)"
    by (rule heap_Remove_cases [OF idx])
  note P = mHeap_Pop_vals [OF assms [unfolded g(1)]]
  show "Value x = Value (h ! nat idx)" using g(5) P(1) by (rule trans [rotated])
  show "heap_vals h = add_mset (Value x) (heap_vals h')" using g(3) P(4) by simp
  show "length h = Suc (length h')" using g(2) P(5) by (rule trans [OF sym])
  show "item_index x = -1" by (rule P(2))
  show "indexed h \<Longrightarrow> indexed h'" using g(4) P(6) by blast
qed

lemma heap_Remove_Some:
  "0 \<le> idx \<Longrightarrow> idx < int (length h) \<Longrightarrow> \<exists>x h'. heap_Remove lt idx h = Some (x, h')"
  by (rule heap_Remove_cases [of idx h lt]) (auto simp: mHeap_Pop_def)

lemma heap_Remove_None_iff: "heap_Remove lt idx h = None \<longleftrightarrow> idx < 0 \<or> int (length h) \<le> idx"
  using heap_Remove_Some [of idx h lt] by (auto simp: heap_Remove_def)

lemma heap_Pop_eq_Remove: "h \<noteq> [] \<Longrightarrow> heap_Pop lt h = heap_Remove lt 0 h"
proof (cases "length h = 1")
  case True
  then obtain x where "h = [x]" by (auto simp: length_Suc_conv)
  then show ?thesis
    by (simp add: heap_Pop_def heap_Remove_def Let_def mHeap_Pop_def mHeap_Swap_def
        heap_down.simps [of lt _ 0 0])
next
  case False
  assume "h \<noteq> []"
  with False have "length h - 1 \<noteq> 0" by (cases h) auto
  then show ?thesis using \<open>h \<noteq> []\<close>
    by (auto simp: heap_Pop_def heap_Remove_def Let_def case_prod_unfold heap_up.simps [of lt _ 0])
qed

lemma heap_Pop_None_iff: "heap_Pop lt h = None \<longleftrightarrow> h = []"
  using heap_Pop_eq_Remove [of h lt] heap_Remove_None_iff [of lt 0 h]
  by (cases "h = []") (auto simp: heap_Pop_def)

text \<open>
  The interface the tubes and the server rely on: a priority queue over a strict weak order,
  stated on the abstract contents.
\<close>

locale pqueue = weak_less lt for lt :: "'v \<Rightarrow> 'v \<Rightarrow> bool" +
  fixes push :: "'v \<Rightarrow> 'q \<Rightarrow> 'q" and remove :: "int \<Rightarrow> 'q \<Rightarrow> ('v \<times> 'q) option"
    and top :: "'q \<Rightarrow> 'v option" and bag :: "'q \<Rightarrow> 'v multiset" and ok :: "'q \<Rightarrow> bool"
    and at :: "int \<Rightarrow> 'q \<Rightarrow> 'v option"
  assumes push_bag: "bag (push v q) = add_mset v (bag q)"
    and push_inv: "ok q \<Longrightarrow> ok (push v q)"
    and remove_bag: "remove i q = Some (v, q') \<Longrightarrow> bag q = add_mset v (bag q')"
    and remove_at: "remove i q = Some (v, q') \<Longrightarrow> at i q = Some v"
    and remove_inv: "ok q \<Longrightarrow> remove i q = Some (v, q') \<Longrightarrow> ok q'"
    and remove_top: "top q = Some v \<Longrightarrow> \<exists>q'. remove 0 q = Some (v, q')"
    and top_none: "top q = None \<longleftrightarrow> bag q = {#}"
    and top_min: "ok q \<Longrightarrow> top q = Some v \<Longrightarrow> u \<in># bag q \<Longrightarrow> \<not> lt u v"
begin

lemma top_mem: "top q = Some v \<Longrightarrow> v \<in># bag q"
  using remove_top remove_bag by fastforce

text \<open>Removing the root takes the least element, and what comes next is not less.\<close>

lemma remove_root:
  assumes "ok q" "remove 0 q = Some (w, q')"
  shows "top q = Some w" "u \<in># bag q \<Longrightarrow> \<not> lt u w"
proof -
  have "bag q \<noteq> {#}" using remove_bag [OF assms(2)] by simp
  then obtain v where v: "top q = Some v" using top_none [of q] by (cases "top q") auto
  then show t: "top q = Some w" using remove_top [OF v] assms(2) by auto
  show "u \<in># bag q \<Longrightarrow> \<not> lt u w" using top_min [OF assms(1) t] .
qed

lemma served_order:
  assumes "ok q" "remove 0 q = Some (w, q')" "remove 0 q' = Some (u, q'')"
  shows "\<not> lt u w"
  using remove_root(2) [OF assms(1,2), of u] remove_bag [OF assms(2)] remove_bag [OF assms(3)]
  by simp

text \<open>A root inserted last and removed at once changes nothing that can be observed.\<close>

lemma push_remove_bag:
  assumes "remove 0 (push v q) = Some (w, q')"
  shows "add_mset w (bag q') = add_mset v (bag q)"
  using remove_bag [OF assms] push_bag [of v q] by simp

end

section \<open>mHeap provides the interface\<close>

definition hq_push :: "('v \<Rightarrow> 'v \<Rightarrow> bool) \<Rightarrow> 'v \<Rightarrow> 'v mHeap \<Rightarrow> 'v mHeap" where
  "hq_push lt v h = snd (heap_Push lt (newItem v) h)"

definition hq_remove :: "('v \<Rightarrow> 'v \<Rightarrow> bool) \<Rightarrow> int \<Rightarrow> 'v mHeap \<Rightarrow> ('v \<times> 'v mHeap) option" where
  "hq_remove lt i h = map_option (apfst Value) (heap_Remove lt i h)"

definition hq_at :: "int \<Rightarrow> 'v mHeap \<Rightarrow> 'v option" where
  "hq_at i h = map_option Value (heap_Take i h)"

sublocale weak_less \<subseteq> hq: pqueue lt "hq_push lt" "hq_remove lt" "hq_at 0" heap_vals "heap_ok lt" hq_at
proof unfold_locales
  show "heap_vals (hq_push lt v q) = add_mset v (heap_vals q)" for v q
    using push_vals(2) [of lt "newItem v" q] by (simp add: hq_push_def newItem_def)
  show "heap_ok lt q \<Longrightarrow> heap_ok lt (hq_push lt v q)" for v q
    by (simp add: hq_push_def push_ok)
  fix i v q q'
  assume "hq_remove lt i q = Some (v, q')"
  then obtain x where x: "heap_Remove lt i q = Some (x, q')" "v = Value x"
    by (auto simp: hq_remove_def)
  show "heap_vals q = add_mset v (heap_vals q')" using remove_vals(4) [OF x(1)] x(2) by simp
  show "hq_at i q = Some v"
    using remove_vals(1-3) [OF x(1)] x(2) by (simp add: hq_at_def heap_Take_def)
  show "heap_ok lt q \<Longrightarrow> heap_ok lt q'" using remove_ok x(1) by blast
next
  fix q :: "'v mHeap" and v
  assume v: "hq_at 0 q = Some v"
  then have q: "q \<noteq> []" "v = Value (q ! 0)" by (auto simp: hq_at_def heap_Take_def split: if_splits)
  then obtain x q' where x: "heap_Remove lt 0 q = Some (x, q')"
    using heap_Remove_Some [of 0 q lt] by auto
  then show "\<exists>q'. hq_remove lt 0 q = Some (v, q')"
    using remove_vals(3) [OF x] q by (auto simp: hq_remove_def)
  show "\<not> lt u v" if "heap_ok lt q" "u \<in># heap_vals q" for u
    using that root_min [of q] q by (auto simp: heap_vals_def in_set_conv_nth)
next
  show "hq_at 0 q = None \<longleftrightarrow> heap_vals q = {#}" for q :: "'v mHeap"
    by (simp add: hq_at_def heap_Take_def heap_vals_def)
qed

section \<open>Taking everything out\<close>

text \<open>What a client sees that pops the queue until it is empty.\<close>

fun drain :: "('v \<Rightarrow> 'v \<Rightarrow> bool) \<Rightarrow> nat \<Rightarrow> 'v mHeap \<Rightarrow> 'v list option" where
  "drain lt 0 h = Some []"
| "drain lt (Suc n) h =
     do { (x, h) \<leftarrow> heap_Pop lt h; xs \<leftarrow> drain lt n h; Some (Value x # xs) }"

context weak_less begin

lemma root_least:
  assumes "heap_ok lt h" "heap_Remove lt 0 h = Some (x, h')" "u \<in># heap_vals h'"
  shows "\<not> lt u (Value x)"
proof -
  have "hq_remove lt 0 h = Some (Value x, h')" using assms(2) by (simp add: hq_remove_def)
  then show ?thesis using hq.remove_root(2) [OF assms(1)] remove_vals(4) [OF assms(2)] assms(3) by simp
qed

lemma drain_sorted:
  "heap_ok lt h \<Longrightarrow>
   \<exists>xs. drain lt (length h) h = Some xs \<and> mset xs = heap_vals h \<and> sorted_wrt (\<lambda>a b. \<not> lt b a) xs"
proof (induction "length h" arbitrary: h)
  case 0
  then show ?case by (simp add: heap_vals_def)
next
  case (Suc n)
  have ne: "h \<noteq> []" using Suc(2) by auto
  obtain x h' where r: "heap_Remove lt 0 h = Some (x, h')"
    using heap_Remove_Some [of 0 h lt] ne by auto
  note v = remove_vals(4,5) [OF r]
  obtain xs where xs: "drain lt n h' = Some xs" "mset xs = heap_vals h'" "sorted_wrt (\<lambda>a b. \<not> lt b a) xs"
    using Suc(1) [of h'] Suc(2) v(2) remove_ok [OF Suc(3) r] by auto
  have "\<forall>u\<in>set xs. \<not> lt u (Value x)"
    using root_least [OF Suc(3) r] xs(2) by (metis set_mset_mset)
  moreover have "drain lt (length h) h = Some (Value x # xs)"
    using heap_Pop_eq_Remove [OF ne, of lt] r xs(1) by (simp flip: Suc(2))
  ultimately show ?case using xs(2,3) v(1) by (intro exI [of _ "Value x # xs"]) simp
qed

end

section \<open>The queue operations are correct\<close>

lemma nat_weak_less: "weak_less ((<) :: nat \<Rightarrow> nat \<Rightarrow> bool)"
  by unfold_locales auto

text \<open>C17: \<open>Push\<close> on a heap adds the item to the contents, keeps the heap order and the recorded
  indices, and reports success, for every \<open>lessFn\<close> that is a strict weak order.\<close>

theorem heap_Push_correct:
  assumes "weak_less lt" "heap_ok lt h" "indexed h"
  shows "fst (heap_Push lt x h) \<and> heap_ok lt (snd (heap_Push lt x h)) \<and>
    heap_vals (snd (heap_Push lt x h)) = add_mset (Value x) (heap_vals h) \<and>
    indexed (snd (heap_Push lt x h))"
  using push_vals [where lt = lt and x = x and h = h] weak_less.push_ok [OF assms(1,2), of x] assms(3)
  by simp

theorem heap_Push_correct_witness:
  "heap_ok (<) (snd (heap_Push (<) (newItem (2::nat)) [\<lparr>Value = 5, item_index = 0\<rparr>])) \<and>
   map Value (snd (heap_Push (<) (newItem (2::nat)) [\<lparr>Value = 5, item_index = 0\<rparr>])) = [2, 5]"
proof
  show "heap_ok (<) (snd (heap_Push (<) (newItem (2::nat)) [\<lparr>Value = 5, item_index = 0\<rparr>]))"
    using heap_Push_correct [OF nat_weak_less, of "[\<lparr>Value = 5, item_index = 0\<rparr>]"]
    by (simp add: heap_ok_def heap_upto_def indexed_def)
qed code_simp

text \<open>C18: \<open>Remove(i)\<close> panics exactly when \<open>i\<close> is not an index of the heap; otherwise it takes out
  the item at position \<open>i\<close> and no other, resets its recorded index to -1, and leaves a heap with
  correct recorded indices.\<close>

theorem heap_Remove_correct:
  assumes "weak_less lt" "heap_ok lt h" "indexed h"
  shows "(heap_Remove lt i h = None \<longleftrightarrow> i < 0 \<or> int (length h) \<le> i) \<and>
    (\<forall>x h'. heap_Remove lt i h = Some (x, h') \<longrightarrow>
       Value x = Value (h ! nat i) \<and> heap_Index x = -1 \<and>
       heap_vals h = add_mset (Value x) (heap_vals h') \<and> heap_ok lt h' \<and> indexed h')"
proof (intro conjI allI impI heap_Remove_None_iff)
  fix x h'
  assume r: "heap_Remove lt i h = Some (x, h')"
  show "Value x = Value (h ! nat i)" "heap_vals h = add_mset (Value x) (heap_vals h')"
    by (rule remove_vals [OF r])+
  show "heap_Index x = -1" using remove_vals(6) [OF r] by (simp add: heap_Index_def)
  show "heap_ok lt h'" by (rule weak_less.remove_ok [OF assms(1,2) r])
  show "indexed h'" by (rule remove_vals(7) [OF r assms(3)])
qed

theorem heap_Remove_correct_witness:
  "\<exists>x h'. heap_Remove (<) 1 [\<lparr>Value = 3::nat, item_index = 0\<rparr>, \<lparr>Value = 5, item_index = 1\<rparr>] = Some (x, h') \<and>
     Value x = 5 \<and> heap_ok (<) h'"
proof -
  let ?h = "[\<lparr>Value = 3::nat, item_index = 0\<rparr>, \<lparr>Value = 5, item_index = 1\<rparr>]"
  have "heap_ok (<) ?h" by (simp add: heap_ok_def heap_upto_def edge_ok_def less_Suc_eq)
  moreover have "indexed ?h" by (simp add: indexed_def less_Suc_eq)
  ultimately show ?thesis
    using heap_Remove_correct [OF nat_weak_less, of ?h 1] by (cases "heap_Remove (<) 1 ?h") auto
qed

end
