(* ===== verification/MsQueue.thy ===== *)
theory MsQueue
  imports Prelude
begin

text \<open>
  The list \<open>Ms\<close> of \<open>structure/ms.go\<close>: a slice of items with a rotating cursor \<open>last\<close> and two
  optional event callbacks. A callback gets the item and its position and acts on the rest of
  the program's state \<open>'s\<close>. Items are non-nil values: the code stores pointers, and an
  interface that holds a pointer is never the nil interface.
\<close>

record 'a ms =
  ms_last :: int
  ms_items :: "'a list"

type_synonym ('a, 's) msEventFn = "('a \<Rightarrow> int \<Rightarrow> 's \<Rightarrow> 's) option"

definition NewMs :: "'a ms" where
  "NewMs = \<lparr>ms_last = 0, ms_items = []\<rparr>"

definition ms_fire :: "('a, 's) msEventFn \<Rightarrow> 'a \<Rightarrow> int \<Rightarrow> 's \<Rightarrow> 's" where
  "ms_fire fn x i s = (case fn of None \<Rightarrow> s | Some f \<Rightarrow> f x i s)"

definition ms_Len :: "'a ms \<Rightarrow> int" where
  "ms_Len m = int (length (ms_items m))"

definition ms_Iterator :: "('a \<Rightarrow> 's \<Rightarrow> (bool \<times> 's) option) \<Rightarrow> 'a ms \<Rightarrow> 's \<Rightarrow> 's option" where
  "ms_Iterator fn m s = iterate fn (ms_items m) s"

text \<open>
  The three shapes of closure the program passes to \<open>Iterator\<close>: one that always returns
  \<open>false, nil\<close>; one that may also panic; and a search that stops at the first match.
\<close>

definition ms_each :: "('a \<Rightarrow> 's \<Rightarrow> 's) \<Rightarrow> 'a ms \<Rightarrow> 's \<Rightarrow> 's" where
  "ms_each f m s = fold f (ms_items m) s"

definition ms_eachM :: "('a \<Rightarrow> 's \<Rightarrow> 's option) \<Rightarrow> 'a ms \<Rightarrow> 's \<Rightarrow> 's option" where
  "ms_eachM f m s = foldM f (ms_items m) s"

definition ms_search :: "('a \<Rightarrow> bool) \<Rightarrow> 'a ms \<Rightarrow> 'a option" where
  "ms_search p m = find p (ms_items m)"

lemma ms_each_Iterator: "ms_Iterator (\<lambda>x s. Some (False, f x s)) m s = Some (ms_each f m s)"
proof -
  have "iterate (\<lambda>x s. Some (False, f x s)) xs s = Some (fold f xs s)" for xs
    by (induction xs arbitrary: s) auto
  then show ?thesis by (simp add: ms_Iterator_def ms_each_def)
qed

lemma ms_eachM_Iterator:
  "ms_Iterator (\<lambda>x s. do { s \<leftarrow> f x s; Some (False, s) }) m s = ms_eachM f m s"
proof -
  have "iterate (\<lambda>x s. do { s \<leftarrow> f x s; Some (False, s) }) xs s = foldM f xs s" for xs
    by (induction xs arbitrary: s) (auto split: Option.bind_split)
  then show ?thesis by (simp add: ms_Iterator_def ms_eachM_def)
qed

lemma ms_search_Iterator:
  "ms_Iterator (\<lambda>x r. Some (if p x then (True, Some x) else (False, r))) m None = Some (ms_search p m)"
proof -
  have "iterate (\<lambda>x r. Some (if p x then (True, Some x) else (False, r))) xs None = Some (find p xs)"
    for xs by (induction xs) auto
  then show ?thesis by (simp add: ms_Iterator_def ms_search_def)
qed

definition ms_Append :: "('a, 's) msEventFn \<Rightarrow> 'a list \<Rightarrow> 'a ms \<Rightarrow> 's \<Rightarrow> int \<times> 'a ms \<times> 's" where
  "ms_Append onInsert its m s =
     (let m = m\<lparr>ms_items := ms_items m @ its\<rparr>; l = ms_Len m in
      (l, m, fold (\<lambda>it s. ms_fire onInsert it (l - 1) s) its s))"

definition ms_Delete :: "('a, 's) msEventFn \<Rightarrow> int \<Rightarrow> 'a ms \<Rightarrow> 's \<Rightarrow> 'a option \<times> 'a ms \<times> 's" where
  "ms_Delete onRemove idx m s =
     (if idx < 0 \<or> ms_Len m \<le> idx then (None, m, s)
      else let i = nat idx; it = ms_items m ! i;
               m = m\<lparr>ms_items := take i (ms_items m) @ drop (Suc i) (ms_items m)\<rparr>
        in (Some it, m, ms_fire onRemove it idx s))"

text \<open>\<open>for m.Delete(0) != nil {}\<close>, then the reset of both fields.\<close>

function ms_clear_loop :: "('a, 's) msEventFn \<Rightarrow> 'a ms \<Rightarrow> 's \<Rightarrow> 'a ms \<times> 's" where
  "ms_clear_loop onRemove m s =
     (case ms_Delete onRemove 0 m s of
        (None, m', s') \<Rightarrow> (m', s')
      | (Some _, m', s') \<Rightarrow> ms_clear_loop onRemove m' s')"
  by pat_completeness auto
termination
  by (relation "measure (\<lambda>(f, m, s). length (ms_items m))")
    (auto simp: ms_Delete_def ms_Len_def Let_def split: if_splits)

declare ms_clear_loop.simps [simp del]

definition ms_Clear :: "('a, 's) msEventFn \<Rightarrow> 'a ms \<Rightarrow> 's \<Rightarrow> 'a ms \<times> 's" where
  "ms_Clear onRemove m s =
     (let (m, s) = ms_clear_loop onRemove m s in (m\<lparr>ms_items := [], ms_last := 0\<rparr>, s))"

text \<open>The search loop of \<open>Remove\<close> and \<open>Contains\<close>: the first position holding the item.\<close>

fun ms_find :: "'a \<Rightarrow> 'a list \<Rightarrow> int option" where
  "ms_find x [] = None"
| "ms_find x (y # ys) = (if x = y then Some 0 else map_option ((+) 1) (ms_find x ys))"

definition ms_Remove :: "('a, 's) msEventFn \<Rightarrow> 'a \<Rightarrow> 'a ms \<Rightarrow> 's \<Rightarrow> bool \<times> 'a ms \<times> 's" where
  "ms_Remove onRemove x m s =
     (case ms_find x (ms_items m) of
        None \<Rightarrow> (False, m, s)
      | Some i \<Rightarrow> (True, snd (ms_Delete onRemove i m s)))"

definition ms_Contains :: "'a \<Rightarrow> 'a ms \<Rightarrow> bool" where
  "ms_Contains x m \<longleftrightarrow> ms_find x (ms_items m) \<noteq> None"

definition ms_Take :: "('a, 's) msEventFn \<Rightarrow> 'a ms \<Rightarrow> 's \<Rightarrow> 'a option \<times> 'a ms \<times> 's" where
  "ms_Take onRemove m s =
     (if ms_Len m = 0 then (None, m, s)
      else let m = m\<lparr>ms_last := ms_last m mod ms_Len m\<rparr>; i = nat (ms_last m);
               it = ms_items m ! i;
               m = m\<lparr>ms_items := take i (ms_items m) @ drop (Suc i) (ms_items m)\<rparr>;
               s = ms_fire onRemove it (ms_last m) s
        in (Some it, m\<lparr>ms_last := ms_last m + 1\<rparr>, s))"

section \<open>Search\<close>

lemma ms_find_Some:
  "ms_find x xs = Some i \<Longrightarrow> 0 \<le> i \<and> nat i < length xs \<and> xs ! nat i = x \<and> x \<notin> set (take (nat i) xs)"
proof (induction xs arbitrary: i)
  case (Cons y ys)
  show ?case
  proof (cases "x = y")
    case False
    with Cons.prems obtain j where j: "ms_find x ys = Some j" "i = 1 + j" by auto
    from Cons.IH [OF j(1)] have "nat i = Suc (nat j)" using j(2) by auto
    with Cons.IH [OF j(1)] j(2) False show ?thesis by auto
  qed (use Cons.prems in auto)
qed simp

lemma ms_find_None: "ms_find x xs = None \<longleftrightarrow> x \<notin> set xs"
  by (induction xs) auto

lemma ms_Contains_iff: "ms_Contains x m \<longleftrightarrow> x \<in> set (ms_items m)"
  by (simp add: ms_Contains_def ms_find_None)

lemma delete_first: 
  "ms_find x xs = Some i \<Longrightarrow> take (nat i) xs @ drop (Suc (nat i)) xs = remove1 x xs"
proof -
  assume "ms_find x xs = Some i"
  then have i: "nat i < length xs" "xs ! nat i = x" "x \<notin> set (take (nat i) xs)"
    using ms_find_Some by metis+
  have "remove1 x xs = remove1 x (take (nat i) xs @ x # drop (Suc (nat i)) xs)"
    using i(1,2) id_take_nth_drop by metis
  then show ?thesis using i(3) by (simp add: remove1_append)
qed

lemma count_remove1:
  "x \<in> set xs \<Longrightarrow> int (count_list (remove1 x xs) y) = int (count_list xs y) - (if x = y then 1 else 0)"
  by (induction xs) auto

lemma ms_Remove_items:
  "ms_items (fst (snd (ms_Remove f x m s))) = remove1 x (ms_items m)"
  "fst (ms_Remove f x m s) \<longleftrightarrow> x \<in> set (ms_items m)"
  "ms_last (fst (snd (ms_Remove f x m s))) = ms_last m"
proof -
  show "ms_items (fst (snd (ms_Remove f x m s))) = remove1 x (ms_items m)"
    "fst (ms_Remove f x m s) \<longleftrightarrow> x \<in> set (ms_items m)"
    "ms_last (fst (snd (ms_Remove f x m s))) = ms_last m"
    using ms_find_None [of x "ms_items m"] ms_find_Some [of x "ms_items m"]
      delete_first [of x "ms_items m"]
    by (auto simp: ms_Remove_def ms_Delete_def ms_Len_def Let_def remove1_idem
        split: option.splits)
qed

lemma ms_clear_loop_eq:
  "ms_clear_loop f m s =
     (m\<lparr>ms_items := []\<rparr>, fold (\<lambda>x s. ms_fire f x 0 s) (ms_items m) s)"
proof (induction "ms_items m" arbitrary: m s)
  case Nil
  then show ?case
    by (simp add: ms_clear_loop.simps [of f m s] ms_Delete_def ms_Len_def)
next
  case (Cons x xs)
  let ?m = "m\<lparr>ms_items := xs\<rparr>"
  have "ms_clear_loop f m s = ms_clear_loop f ?m (ms_fire f x 0 s)"
    using Cons.hyps(2) [symmetric]
    by (simp add: ms_clear_loop.simps [of f m s] ms_Delete_def ms_Len_def)
  then show ?case using Cons.hyps(1) [of ?m "ms_fire f x 0 s"] Cons.hyps(2) [symmetric] by simp
qed

lemma ms_Clear_eq:
  "ms_Clear f m s = (NewMs, fold (\<lambda>x s. ms_fire f x 0 s) (ms_items m) s)"
  by (cases m) (simp add: ms_Clear_def ms_clear_loop_eq NewMs_def)

lemma ms_Take_Some:
  assumes "ms_items m \<noteq> []"
  obtains i where "i = nat (ms_last m mod ms_Len m)" "i < length (ms_items m)"
    "fst (ms_Take f m s) = Some (ms_items m ! i)"
    "ms_items (fst (snd (ms_Take f m s))) = take i (ms_items m) @ drop (Suc i) (ms_items m)"
    "ms_last (fst (snd (ms_Take f m s))) = int i + 1"
    "snd (snd (ms_Take f m s)) = ms_fire f (ms_items m ! i) (int i) s"
proof -
  have "0 < ms_Len m" using assms by (simp add: ms_Len_def)
  then have "0 \<le> ms_last m mod ms_Len m" "ms_last m mod ms_Len m < ms_Len m" by simp_all
  moreover from this have "nat (ms_last m mod ms_Len m) < length (ms_items m)"
    by (simp add: ms_Len_def nat_less_iff)
  ultimately show thesis using that [OF refl] assms by (simp add: ms_Take_def ms_Len_def Let_def)
qed

lemma ms_Take_mset:
  assumes "fst (ms_Take f m s) = Some x"
  shows "mset (ms_items m) = add_mset x (mset (ms_items (fst (snd (ms_Take f m s)))))"
proof -
  have "ms_items m \<noteq> []" using assms by (auto simp: ms_Take_def ms_Len_def)
  then obtain i where "i < length (ms_items m)" "x = ms_items m ! i"
    "ms_items (fst (snd (ms_Take f m s))) = take i (ms_items m) @ drop (Suc i) (ms_items m)"
    using assms by (auto elim: ms_Take_Some [of m f s])
  then show ?thesis using mset_remove_nth [of i "ms_items m"] by simp
qed

section \<open>Callbacks that keep a count per item\<close>

text \<open>
  The interface between \<open>Ms\<close> and a client whose callbacks maintain, per item, the number of
  lists it is on: the insert callback adds one, the remove callback subtracts one. Every
  operation then keeps the difference between the count and the occurrences in the list.
\<close>

locale ms_counted =
  fixes onIns :: "'a \<Rightarrow> int \<Rightarrow> 's \<Rightarrow> 's" and onRem :: "'a \<Rightarrow> int \<Rightarrow> 's \<Rightarrow> 's"
    and cnt :: "'s \<Rightarrow> 'a \<Rightarrow> int"
  assumes ins: "cnt (onIns x i s) = (cnt s)(x := cnt s x + 1)"
    and rem: "cnt (onRem x i s) = (cnt s)(x := cnt s x - 1)"
begin

lemma fold_ins: "cnt (fold (\<lambda>x. onIns x k) xs s) y = cnt s y + int (count_list xs y)"
  by (induction xs arbitrary: s) (auto simp: ins)

lemma fold_rem: "cnt (fold (\<lambda>x. onRem x k) xs s) y = cnt s y - int (count_list xs y)"
  by (induction xs arbitrary: s) (auto simp: rem)

lemma append_balance:
  assumes "ms_Append (Some onIns) its m s = (l, m', s')"
  shows "cnt s' y - int (count_list (ms_items m') y) = cnt s y - int (count_list (ms_items m) y)"
  using assms by (auto simp: ms_Append_def Let_def ms_fire_def fold_ins)

lemma remove_balance:
  assumes "ms_Remove (Some onRem) x m s = (b, m', s')"
  shows "cnt s' y - int (count_list (ms_items m') y) = cnt s y - int (count_list (ms_items m) y)"
proof (cases "ms_find x (ms_items m)")
  case None
  then show ?thesis using assms by (simp add: ms_Remove_def)
next
  case (Some i)
  have F: "0 \<le> i" "i < int (length (ms_items m))" "nat i < length (ms_items m)"
    "ms_items m ! nat i = x" using ms_find_Some [OF Some] by auto
  have "m' = m\<lparr>ms_items := remove1 x (ms_items m)\<rparr>" "s' = onRem x i s"
    using assms Some F(1,2,4) delete_first [OF Some]
    by (auto simp: ms_Remove_def ms_Delete_def ms_Len_def ms_fire_def Let_def)
  moreover have "x \<in> set (ms_items m)" using F(3,4) by (metis nth_mem)
  ultimately show ?thesis using count_remove1 [of x "ms_items m" y] by (auto simp: rem)
qed

lemma clear_balance:
  assumes "ms_Clear (Some onRem) m s = (m', s')"
  shows "ms_items m' = []" "cnt s' y = cnt s y - int (count_list (ms_items m) y)"
  using assms by (auto simp: ms_Clear_eq ms_fire_def fold_rem NewMs_def)

end

section \<open>The operations on the contents\<close>

text \<open>Appending puts the items at the end, \<open>Remove\<close> takes out the first occurrence and says
  whether there was one, \<open>Contains\<close> is membership, \<open>Clear\<close> leaves the initial list after
  reporting every item once, in order.\<close>

lemma ms_contents:
  "ms_items (fst (snd (ms_Append f its m s))) = ms_items m @ its \<and>
   ms_items (fst (snd (ms_Remove f x m s))) = remove1 x (ms_items m) \<and>
   (fst (ms_Remove f x m s) \<longleftrightarrow> ms_Contains x m) \<and>
   (ms_Contains x m \<longleftrightarrow> x \<in> set (ms_items m)) \<and>
   ms_Clear (Some g) m s = (NewMs, fold (\<lambda>x. g x 0) (ms_items m) s)"
  by (simp add: ms_Append_def ms_Remove_items ms_Contains_iff ms_Clear_eq ms_fire_def Let_def)

fun ms_take_all :: "nat \<Rightarrow> 'a ms \<Rightarrow> 'a list" where
  "ms_take_all 0 m = []"
| "ms_take_all (Suc n) m =
     (case ms_Take None m () of
        (None, m, _) \<Rightarrow> []
      | (Some x, m, _) \<Rightarrow> x # ms_take_all n m)"

lemma ms_Take_None: "fst (ms_Take f m s) = None \<longleftrightarrow> ms_items m = []"
  by (simp add: ms_Take_def ms_Len_def Let_def)

text \<open>Taking as long as there are items hands out every item exactly once; but from a fresh
  list of three items the order is first, third, second, not the order of insertion.\<close>

lemma ms_Take_all_once:
  "mset (ms_take_all (length (ms_items m)) m) = mset (ms_items m) \<and>
   ms_take_all 3 \<lparr>ms_last = 0, ms_items = [a, b, c]\<rparr> = [a, c, b]"
proof
  show "mset (ms_take_all (length (ms_items m)) m) = mset (ms_items m)"
  proof (induction "length (ms_items m)" arbitrary: m)
    case (Suc n)
    obtain x m' where t: "ms_Take None m () = (Some x, m', ())"
      using Suc(2) ms_Take_None [of None m "()"] by (cases "ms_Take None m ()") auto
    then have "mset (ms_items m) = add_mset x (mset (ms_items m'))"
      using ms_Take_mset [of None m "()" x] by simp
    moreover from this have "n = length (ms_items m')"
      using Suc(2) by (metis add_left_cancel mset.simps(2) plus_1_eq_Suc list.size(4) size_mset Suc_inject One_nat_def add.right_neutral add_Suc_right)
    ultimately show ?case using Suc(1) t by (simp flip: Suc(2))
  qed simp
  show "ms_take_all 3 \<lparr>ms_last = 0, ms_items = [a, b, c]\<rparr> = [a, c, b]"
    by (simp add: numeral_3_eq_3 ms_Take_def ms_Len_def Let_def)
qed

end
