(* ===== verification/Model.thy ===== *)
theory Model
  imports Prelude Bytes HeapQueue MsQueue
begin

text \<open>
  The constants of \<open>constant/constant.go\<close>, the structs of \<open>model/*.go\<close> and the package-level
  variables of \<open>core\<close>, \<open>net\<close> and \<open>utils\<close>, gathered into one record \<open>world\<close> that every
  operation takes and returns.

  Structs the program shares through pointers (jobs, tubes, connections, binlog files) live in
  stores from addresses to records; an address is a natural number and a nilable pointer an
  \<open>option\<close> of one. The stores are total: an address the program holds always points to an
  allocated object, and \<open>nJ\<close>, \<open>nT\<close>, \<open>nC\<close>, \<open>nF\<close> are the next addresses to hand out.
\<close>

type_synonym jref = nat
type_synonym tref = nat
type_synonym cref = nat
type_synonym fref = nat

section \<open>Constants\<close>

definition WalVer :: int where [go_const]: "WalVer = 7"
definition WalVer5 :: int where [go_const]: "WalVer5 = 5"
definition DefaultPeriod :: int where [go_const]: "DefaultPeriod = 0x34630B8A000"
definition LineBufSize :: int where [go_const]: "LineBufSize = 11 + MaxTubeNameLen + 12"
definition UrgentThreshold :: "32 word" where [go_const]: "UrgentThreshold = 1024"
definition BucketBufSize :: int where [go_const]: "BucketBufSize = 1024"
definition SafetyMargin :: int where [go_const]: "SafetyMargin = 1000000000"

text \<open>The job states are bytes: they are written to the binlog and read back.\<close>

definition Invalid :: "8 word" where [go_const]: "Invalid = 0"
definition Ready :: "8 word" where [go_const]: "Ready = 1"
definition Reserved :: "8 word" where [go_const]: "Reserved = 2"
definition Buried :: "8 word" where [go_const]: "Buried = 3"
definition Delayed :: "8 word" where [go_const]: "Delayed = 4"
definition Copy :: "8 word" where [go_const]: "Copy = 5"

definition ConnTypeProducer :: int where [go_const]: "ConnTypeProducer = 1"
definition ConnTypeWorker :: int where [go_const]: "ConnTypeWorker = 2"
definition ConnTypeWaiting :: int where [go_const]: "ConnTypeWaiting = 4"

datatype conn_state =
  StateWantCommand | StateWantData | StateSendJob | StateSendWord | StateWait
| StateBitbucket | StateClose | StateWantEndLine

datatype op =
  OpUnknown | OpPut | OpPeekJob | OpReserve | OpDelete | OpRelease | OpBury | OpKick | OpStats
| OpStatsJob | OpPeekBuried | OpUse | OpWatch | OpIgnore | OpListTubes | OpListTubeUsed
| OpListTubesWatched | OpStatsTube | OpPeekReady | OpPeekDelayed | OpReserveTimeout | OpTouch
| OpQuit | OpPauseTube | OpKickJob | OpReserveJob

definition CmdPut :: string where [go_const]: "CmdPut = ''put''"
definition CmdPeekJob :: string where [go_const]: "CmdPeekJob = ''peek''"
definition CmdPeekReady :: string where [go_const]: "CmdPeekReady = ''peek-ready''"
definition CmdPeekDelayed :: string where [go_const]: "CmdPeekDelayed = ''peek-delayed''"
definition CmdPeekBuried :: string where [go_const]: "CmdPeekBuried = ''peek-buried''"
definition CmdReserve :: string where [go_const]: "CmdReserve = ''reserve''"
definition CmdReserveTimeout :: string where [go_const]: "CmdReserveTimeout = ''reserve-with-timeout''"
definition CmdReserveJob :: string where [go_const]: "CmdReserveJob = ''reserve-job''"
definition CmdDelete :: string where [go_const]: "CmdDelete = ''delete''"
definition CmdRelease :: string where [go_const]: "CmdRelease = ''release''"
definition CmdBury :: string where [go_const]: "CmdBury = ''bury''"
definition CmdKick :: string where [go_const]: "CmdKick = ''kick''"
definition CmdKickJob :: string where [go_const]: "CmdKickJob = ''kick-job''"
definition CmdTouch :: string where [go_const]: "CmdTouch = ''touch''"
definition CmdStats :: string where [go_const]: "CmdStats = ''stats''"
definition CmdStatsJob :: string where [go_const]: "CmdStatsJob = ''stats-job''"
definition CmdUse :: string where [go_const]: "CmdUse = ''use''"
definition CmdWatch :: string where [go_const]: "CmdWatch = ''watch''"
definition CmdIgnore :: string where [go_const]: "CmdIgnore = ''ignore''"
definition CmdListTubes :: string where [go_const]: "CmdListTubes = ''list-tubes''"
definition CmdListTubeUsed :: string where [go_const]: "CmdListTubeUsed = ''list-tube-used''"
definition CmdListTubesWatched :: string where [go_const]: "CmdListTubesWatched = ''list-tubes-watched''"
definition CmdStatsTube :: string where [go_const]: "CmdStatsTube = ''stats-tube''"
definition CmdQuit :: string where [go_const]: "CmdQuit = ''quit''"
definition CmdPauseTube :: string where [go_const]: "CmdPauseTube = ''pause-tube''"

definition Cmd2OpMap :: "string \<rightharpoonup> op" where
  "Cmd2OpMap = map_of
     [(CmdPut, OpPut), (CmdPeekJob, OpPeekJob), (CmdPeekReady, OpPeekReady),
      (CmdPeekDelayed, OpPeekDelayed), (CmdPeekBuried, OpPeekBuried), (CmdReserve, OpReserve),
      (CmdReserveTimeout, OpReserveTimeout), (CmdReserveJob, OpReserveJob), (CmdDelete, OpDelete),
      (CmdRelease, OpRelease), (CmdBury, OpBury), (CmdKick, OpKick), (CmdKickJob, OpKickJob),
      (CmdTouch, OpTouch), (CmdStats, OpStats), (CmdStatsJob, OpStatsJob), (CmdUse, OpUse),
      (CmdWatch, OpWatch), (CmdIgnore, OpIgnore), (CmdListTubes, OpListTubes),
      (CmdListTubeUsed, OpListTubeUsed), (CmdListTubesWatched, OpListTubesWatched),
      (CmdStatsTube, OpStatsTube), (CmdQuit, OpQuit), (CmdPauseTube, OpPauseTube)]"

definition MsgNotFound :: string where [go_const]: "MsgNotFound = ''NOT_FOUND'' @ CRLF"
definition MsgFound :: string where [go_const]: "MsgFound = ''FOUND''"
definition MsgReserved :: string where [go_const]: "MsgReserved = ''RESERVED''"
definition MsgDeadlineSoon :: string where [go_const]: "MsgDeadlineSoon = ''DEADLINE_SOON'' @ CRLF"
definition MsgTimedOut :: string where [go_const]: "MsgTimedOut = ''TIMED_OUT'' @ CRLF"
definition MsgDeleted :: string where [go_const]: "MsgDeleted = ''DELETED'' @ CRLF"
definition MsgReleased :: string where [go_const]: "MsgReleased = ''RELEASED'' @ CRLF"
definition MsgBuried :: string where [go_const]: "MsgBuried = ''BURIED'' @ CRLF"
definition MsgKicked :: string where [go_const]: "MsgKicked = ''KICKED'' @ CRLF"
definition MsgTouched :: string where [go_const]: "MsgTouched = ''TOUCHED'' @ CRLF"
definition MsgBuriedFmt :: "64 word \<Rightarrow> string" where [go_const]:
  "MsgBuriedFmt n = ''BURIED '' @ dec_nat (unat n) @ CRLF"
definition MsgInsertedFmt :: "64 word \<Rightarrow> string" where [go_const]:
  "MsgInsertedFmt n = ''INSERTED '' @ dec_nat (unat n) @ CRLF"
definition MsgNotIgnored :: string where [go_const]: "MsgNotIgnored = ''NOT_IGNORED'' @ CRLF"
definition MsgOutOfMemory :: string where [go_const]: "MsgOutOfMemory = ''OUT_OF_MEMORY'' @ CRLF"
definition MsgInternalError :: string where [go_const]: "MsgInternalError = ''INTERNAL_ERROR'' @ CRLF"
definition MsgDraining :: string where [go_const]: "MsgDraining = ''DRAINING'' @ CRLF"
definition MsgBadFormat :: string where [go_const]: "MsgBadFormat = ''BAD_FORMAT'' @ CRLF"
definition MsgUnknownCommand :: string where [go_const]: "MsgUnknownCommand = ''UNKNOWN_COMMAND'' @ CRLF"
definition MsgExpectedCrlf :: string where [go_const]: "MsgExpectedCrlf = ''EXPECTED_CRLF'' @ CRLF"
definition MsgJobTooBig :: string where [go_const]: "MsgJobTooBig = ''JOB_TOO_BIG'' @ CRLF"

section \<open>The structs\<close>

text \<open>\<open>model.JobRec\<close>, the persistent part of a job.\<close>

record job_rec =
  ID :: "64 word"
  Pri :: "32 word"
  Delay :: int
  TTR :: int
  BodySize :: int
  CreateAt :: int
  DeadlineAt :: int
  ReserveCt :: "32 word"
  TimeoutCt :: "32 word"
  ReleaseCt :: "32 word"
  BuryCt :: "32 word"
  KickCt :: "32 word"
  RState :: "8 word"

text \<open>\<open>model.Job\<close>; the fields \<open>Pad\<close> and \<open>HtNext\<close> are never used.\<close>

record job =
  R :: job_rec
  JTube :: "tref option"
  Prev :: "jref option"
  Next :: "jref option"
  HeapIndex :: int
  JFile :: "fref option"
  FPre :: "jref option"
  FNext :: "jref option"
  Reservoir :: "cref option"
  WalResv :: int
  WalUsed :: int
  Body :: string

text \<open>\<open>model.File\<close>: \<open>JobList\<close> is the address of the embedded sentinel job, \<open>FBytes\<close> the bytes
  written so far to the open file; the field \<open>W\<close> always points to the server's one \<open>Wal\<close>.\<close>

record gofile =
  FileNext :: "fref option"
  Refs :: "64 word"
  Seq :: int
  IsWOpen :: bool
  FFree :: int
  FResv :: int
  Path :: string
  JobList :: jref
  FBytes :: "8 word list"

record wal =
  FileSize :: int
  WalUse :: bool
  Dir :: string
  Head :: "fref option"
  Cur :: "fref option"
  Tail :: "fref option"
  NFile :: int
  WNext :: int
  WResv :: int
  Alive :: int
  Nmig :: int
  Nrec :: int
  WantSync :: bool
  SyncRate :: int
  LastSync :: int

record stat =
  UrgentCt :: "64 word"
  WaitingCt :: "64 word"
  BuriedCt :: "64 word"
  ReservedCt :: "64 word"
  PauseCt :: "64 word"
  TotalDeleteCt :: "64 word"
  TotalJobsCt :: "64 word"

record tube =
  Name :: string
  ReadyQ :: "jref mHeap"
  DelayQ :: "jref mHeap"
  WaitingConns :: "cref ms"
  Stat :: stat
  UsingCt :: int
  WatchingCt :: int
  Pause :: int
  UnpauseAt :: int
  BuriedL :: jref

text \<open>\<open>model.Coon\<close> with its embedded socket: \<open>SockF\<close> is \<open>Sock.F != nil\<close>, \<open>SockAdded\<close> is
  \<open>Sock.Added\<close>. The field \<open>Srv\<close> always points to the one server.\<close>

record coon =
  SockF :: bool
  SockAdded :: bool
  CState :: conn_state
  CType :: int
  CNext :: "cref option"
  Use :: "tref option"
  TickAt :: int
  TickPos :: int
  InCoons :: int
  SoonestJob :: "jref option"
  Rw :: char
  PendingTimeout :: int
  HalfClosed :: bool
  Cmd :: string
  CmdLen :: int
  CmdRead :: int
  Reply :: string
  ReplyLen :: int
  ReplySent :: int
  ReplyBuf :: string
  InJobRead :: int
  InJob :: "jref option"
  OutJob :: "jref option"
  OutJobSent :: int
  Watch :: "tref ms"
  ReservedJobs :: jref

text \<open>
  What the statistics read from the operating system and the build: process id, version string,
  resource usage, start time, instance id, host data, and the address \<open>&MaxJobSize\<close> (the code
  prints the flag's pointer).
\<close>

record sysenv =
  Pid :: int
  Version :: string
  RuUsec :: int
  RuSsec :: int
  RuTotal :: int
  StartedAt :: int
  InstanceHex :: string
  NodeName :: string
  OsVersion :: string
  Machine :: string
  MaxJobSizePtr :: int

text \<open>
  The state of the process. \<open>clock n\<close> is what the \<open>n\<close>-th reading of \<open>time.Now().UnixNano()\<close>
  returns and \<open>io n\<close> whether the \<open>n\<close>-th system call that can fail succeeds; both are
  arbitrary, and \<open>ticks\<close> and \<open>ios\<close> count the readings made.
\<close>

record world =
  J :: "jref \<Rightarrow> job"
  nJ :: jref
  T :: "tref \<Rightarrow> tube"
  nT :: tref
  C :: "cref \<Rightarrow> coon"
  nC :: cref
  F :: "fref \<Rightarrow> gofile"
  nF :: fref
  allJobs :: "64 word \<rightharpoonup> jref"
  nextJobId :: "64 word"
  tubes :: "tref ms"
  defaultTube :: tref
  Wal :: wal
  Connes :: "cref mHeap"
  epollQ :: "cref option"
  OpCt :: "op \<Rightarrow> int"
  AllJobsUsed :: int
  ReadyCt :: int
  JobTimeoutCt :: "64 word"
  CurConnCt :: "64 word"
  CurWorkerCt :: "64 word"
  CurProducerCt :: "64 word"
  TotalConnCt :: "64 word"
  GlobalState :: stat
  MaxJobSize :: int
  DrainMode :: int
  clock :: "nat \<Rightarrow> int"
  ticks :: nat
  io :: "nat \<Rightarrow> bool"
  ios :: nat
  Env :: sysenv

section \<open>Zero values\<close>

definition zero_rec :: job_rec where
  "zero_rec = \<lparr>ID = 0, Pri = 0, Delay = 0, TTR = 0, BodySize = 0, CreateAt = 0, DeadlineAt = 0,
     ReserveCt = 0, TimeoutCt = 0, ReleaseCt = 0, BuryCt = 0, KickCt = 0, RState = 0\<rparr>"

definition zero_job :: job where
  "zero_job = \<lparr>R = zero_rec, JTube = None, Prev = None, Next = None, HeapIndex = 0, JFile = None,
     FPre = None, FNext = None, Reservoir = None, WalResv = 0, WalUsed = 0, Body = []\<rparr>"

definition zero_stat :: stat where
  "zero_stat = \<lparr>UrgentCt = 0, WaitingCt = 0, BuriedCt = 0, ReservedCt = 0, PauseCt = 0,
     TotalDeleteCt = 0, TotalJobsCt = 0\<rparr>"

definition zero_coon :: coon where
  "zero_coon = \<lparr>SockF = False, SockAdded = False, CState = StateWantCommand, CType = 0,
     CNext = None, Use = None, TickAt = 0, TickPos = 0, InCoons = 0, SoonestJob = None,
     Rw = CHR 0x00, PendingTimeout = 0, HalfClosed = False, Cmd = [], CmdLen = 0, CmdRead = 0,
     Reply = [], ReplyLen = 0, ReplySent = 0, ReplyBuf = [], InJobRead = 0, InJob = None,
     OutJob = None, OutJobSent = 0, Watch = NewMs, ReservedJobs = 0\<rparr>"

section \<open>Assignments through pointers\<close>

text \<open>\<open>p.X = e\<close> for a pointer \<open>p\<close> to a job, tube, connection or file; \<open>modR\<close> and \<open>modStat\<close>
  reach into the embedded structs \<open>Job.R\<close> and \<open>Tube.Stat\<close>.\<close>

named_theorems upd "the assignments through pointers"

definition modJ :: "jref \<Rightarrow> (job \<Rightarrow> job) \<Rightarrow> world \<Rightarrow> world" where
  [upd]: "modJ j f s = s\<lparr>J := (J s)(j := f (J s j))\<rparr>"

definition modR :: "jref \<Rightarrow> (job_rec \<Rightarrow> job_rec) \<Rightarrow> world \<Rightarrow> world" where
  [upd]: "modR j f = modJ j (\<lambda>x. x\<lparr>R := f (R x)\<rparr>)"

definition modT :: "tref \<Rightarrow> (tube \<Rightarrow> tube) \<Rightarrow> world \<Rightarrow> world" where
  [upd]: "modT t f s = s\<lparr>T := (T s)(t := f (T s t))\<rparr>"

definition modStat :: "tref \<Rightarrow> (stat \<Rightarrow> stat) \<Rightarrow> world \<Rightarrow> world" where
  [upd]: "modStat t f = modT t (\<lambda>x. x\<lparr>Stat := f (Stat x)\<rparr>)"

definition modC :: "cref \<Rightarrow> (coon \<Rightarrow> coon) \<Rightarrow> world \<Rightarrow> world" where
  [upd]: "modC c f s = s\<lparr>C := (C s)(c := f (C s c))\<rparr>"

definition modF :: "fref \<Rightarrow> (gofile \<Rightarrow> gofile) \<Rightarrow> world \<Rightarrow> world" where
  [upd]: "modF f g s = s\<lparr>F := (F s)(f := g (F s f))\<rparr>"

definition modG :: "(stat \<Rightarrow> stat) \<Rightarrow> world \<Rightarrow> world" where
  [upd]: "modG f s = s\<lparr>GlobalState := f (GlobalState s)\<rparr>"

definition modW :: "(wal \<Rightarrow> wal) \<Rightarrow> world \<Rightarrow> world" where
  [upd]: "modW f s = s\<lparr>Wal := f (Wal s)\<rparr>"

definition count_op :: "op \<Rightarrow> world \<Rightarrow> world" where
  [upd]: "count_op x s = s\<lparr>OpCt := (OpCt s)(x := OpCt s x + 1)\<rparr>"

section \<open>The environment: clock and system calls\<close>

definition time_Now :: "world \<Rightarrow> int \<times> world" where
  "time_Now s = (clock s (ticks s), s\<lparr>ticks := Suc (ticks s)\<rparr>)"

definition syscall_ok :: "world \<Rightarrow> bool \<times> world" where
  "syscall_ok s = (io s (ios s), s\<lparr>ios := Suc (ios s)\<rparr>)"

end
