(* ===== verification/JobOps.thy ===== *)
theory JobOps
  imports Model
begin

text \<open>
  \<open>core/job.go\<close>, except \<open>BuryJob\<close> (in theory WalOps, since it writes the log): the table of
  jobs, creation and copies, the intrusive circular lists (buried jobs of a tube, reserved jobs
  of a connection, jobs replayed from the log) and the two orders of the queues.
\<close>

section \<open>The operations\<close>

definition ListReset :: "jref \<Rightarrow> world \<Rightarrow> world" where
  "ListReset j s = modJ j (\<lambda>x. x\<lparr>Prev := Some j, Next := Some j\<rparr>) s"

definition NewJob :: "int option \<Rightarrow> world \<Rightarrow> jref \<times> world" where
  "NewJob bodySize s =
     (let j = nJ s;
          s = s\<lparr>nJ := Suc j, J := (J s)(j := zero_job)\<rparr>;
          (t, s) = time_Now s;
          s = modR j (\<lambda>r. r\<lparr>CreateAt := t\<rparr>) s;
          s = (case bodySize of None \<Rightarrow> s | Some b \<Rightarrow> modR j (\<lambda>r. r\<lparr>BodySize := b\<rparr>) s);
          s = ListReset j s
      in (j, s))"

definition JobState :: "8 word \<Rightarrow> string" where
  "JobState st =
     (if st = Ready then ''ready'' else if st = Reserved then ''reserved''
      else if st = Buried then ''buried'' else if st = Delayed then ''delayed''
      else ''invalid'')"

definition JobStore :: "jref \<Rightarrow> world \<Rightarrow> world" where
  "JobStore j s =
     s\<lparr>allJobs := (allJobs s)(ID (R (J s j)) \<mapsto> j), AllJobsUsed := AllJobsUsed s + 1\<rparr>"

definition MakeJobWithID ::
  "32 word \<Rightarrow> int \<Rightarrow> int \<Rightarrow> int \<Rightarrow> tref option \<Rightarrow> 64 word option \<Rightarrow> world \<Rightarrow> jref \<times> world" where
  "MakeJobWithID pri delay ttr bodySize tube jid s =
     (let (j, s) = NewJob (Some bodySize) s;
          s = (case jid of
                 Some i \<Rightarrow>
                   let s = modR j (\<lambda>r. r\<lparr>ID := i\<rparr>) s in
                   if i \<ge> nextJobId s then s\<lparr>nextJobId := i + 1\<rparr> else s
               | None \<Rightarrow>
                   let s = modR j (\<lambda>r. r\<lparr>ID := nextJobId s\<rparr>) s in
                   s\<lparr>nextJobId := nextJobId s + 1\<rparr>);
          s = modR j (\<lambda>r. r\<lparr>Pri := pri, Delay := delay, TTR := ttr\<rparr>) s;
          s = JobStore j s;
          s = modJ j (\<lambda>x. x\<lparr>JTube := tube\<rparr>) s
      in (j, s))"

definition GetJobState :: "jref \<Rightarrow> world \<Rightarrow> string" where
  "GetJobState j s = JobState (RState (R (J s j)))"

definition JobFind :: "64 word \<Rightarrow> world \<Rightarrow> jref option" where
  "JobFind jid s = allJobs s jid"

definition JobListRest :: "jref \<Rightarrow> world \<Rightarrow> world" where
  "JobListRest j s = modJ j (\<lambda>x. x\<lparr>Prev := Some j, Next := Some j\<rparr>) s"

definition JobCopy :: "jref option \<Rightarrow> world \<Rightarrow> jref option \<times> world" where
  "JobCopy jp s =
     (case jp of
        None \<Rightarrow> (None, s)
      | Some j \<Rightarrow>
          let n = nJ s;
              s = s\<lparr>nJ := Suc n, J := (J s)(n := J s j)\<rparr>;
              s = JobListRest n s;
              s = modJ n (\<lambda>x. x\<lparr>JFile := None\<rparr>) s;
              s = modR n (\<lambda>r. r\<lparr>RState := Copy\<rparr>) s
          in (Some n, s))"

definition JobFree :: "jref option \<Rightarrow> world \<Rightarrow> world" where
  "JobFree jp s =
     (case jp of
        None \<Rightarrow> s
      | Some j \<Rightarrow>
          let s = modJ j (\<lambda>x. x\<lparr>JTube := None\<rparr>) s in
          if RState (R (J s j)) \<noteq> Copy
          then s\<lparr>allJobs := (allJobs s)(ID (R (J s j)) := None)\<rparr> else s)"

definition JobListEmpty :: "jref \<Rightarrow> world \<Rightarrow> bool" where
  "JobListEmpty j s \<longleftrightarrow> Next (J s j) = Some j \<and> Prev (J s j) = Some j"

definition JobListRemove :: "jref option \<Rightarrow> world \<Rightarrow> (jref option \<times> world) option" where
  "JobListRemove jp s =
     (case jp of
        None \<Rightarrow> Some (None, s)
      | Some j \<Rightarrow>
          if JobListEmpty j s then Some (None, s)
          else do {
            n \<leftarrow> Next (J s j);
            let s = modJ n (\<lambda>x. x\<lparr>Prev := Prev (J s j)\<rparr>) s;
            p \<leftarrow> Prev (J s j);
            let s = modJ p (\<lambda>x. x\<lparr>Next := Next (J s j)\<rparr>) s;
            let s = modJ j (\<lambda>x. x\<lparr>Prev := Some j\<rparr>) s;
            let s = modJ j (\<lambda>x. x\<lparr>Next := Some j\<rparr>) s;
            Some (Some j, s)
          })"

definition JobListInsert :: "jref \<Rightarrow> jref \<Rightarrow> world \<Rightarrow> world option" where
  "JobListInsert head j s =
     (if \<not> JobListEmpty j s then Some s
      else do {
        let s = modJ j (\<lambda>x. x\<lparr>Prev := Prev (J s head)\<rparr>) s;
        let s = modJ j (\<lambda>x. x\<lparr>Next := Some head\<rparr>) s;
        p \<leftarrow> Prev (J s head);
        let s = modJ p (\<lambda>x. x\<lparr>Next := Some j\<rparr>) s;
        Some (modJ head (\<lambda>x. x\<lparr>Prev := Some j\<rparr>) s)
      })"

definition JobSetPos :: "jref item \<Rightarrow> int \<Rightarrow> world \<Rightarrow> world" where
  "JobSetPos it pos s = modJ (Value it) (\<lambda>x. x\<lparr>HeapIndex := pos\<rparr>) s"

definition JobPriLess :: "(jref \<Rightarrow> job) \<Rightarrow> jref \<Rightarrow> jref \<Rightarrow> bool" where
  "JobPriLess m ja jb =
     (let a = R (m ja); b = R (m jb) in
      if Pri a < Pri b then True else if Pri a > Pri b then False else ID a < ID b)"

definition JobDelayLess :: "(jref \<Rightarrow> job) \<Rightarrow> jref \<Rightarrow> jref \<Rightarrow> bool" where
  "JobDelayLess m ja jb =
     (let a = R (m ja); b = R (m jb) in
      if DeadlineAt a < DeadlineAt b then True
      else if DeadlineAt a > DeadlineAt b then False else ID a < ID b)"

section \<open>The orders of the queues\<close>

text \<open>The rank of a job: a first component, ties broken by the job id.\<close>

datatype 'k rank = Rank (rank_key: 'k) (rank_id: "64 word")

instantiation rank :: (linorder) linorder
begin

definition less_eq_rank :: "'a rank \<Rightarrow> 'a rank \<Rightarrow> bool" where
  "less_eq_rank a b \<longleftrightarrow> rank_key a < rank_key b \<or> rank_key a = rank_key b \<and> rank_id a \<le> rank_id b"

definition less_rank :: "'a rank \<Rightarrow> 'a rank \<Rightarrow> bool" where
  "less_rank a b \<longleftrightarrow> rank_key a < rank_key b \<or> rank_key a = rank_key b \<and> rank_id a < rank_id b"

instance
  by standard (auto simp: less_eq_rank_def less_rank_def intro: rank.expand)

end

definition pri_rank :: "job_rec \<Rightarrow> 32 word rank" where
  "pri_rank r = Rank (Pri r) (ID r)"

definition delay_rank :: "job_rec \<Rightarrow> int rank" where
  "delay_rank r = Rank (DeadlineAt r) (ID r)"

lemma JobPriLess_rank: "JobPriLess m a b \<longleftrightarrow> pri_rank (R (m a)) < pri_rank (R (m b))"
  by (auto simp: JobPriLess_def pri_rank_def less_rank_def Let_def)

lemma JobDelayLess_rank: "JobDelayLess m a b \<longleftrightarrow> delay_rank (R (m a)) < delay_rank (R (m b))"
  by (auto simp: JobDelayLess_def delay_rank_def less_rank_def Let_def)

interpretation pri: weak_less "JobPriLess m" for m
  by unfold_locales (auto simp: JobPriLess_rank)

interpretation del: weak_less "JobDelayLess m" for m
  by unfold_locales (auto simp: JobDelayLess_rank)

section \<open>Circular lists: pointers and their abstraction\<close>

text \<open>\<open>seg m a xs b\<close>: from \<open>a\<close> through \<open>xs\<close> to \<open>b\<close>, forwards by \<open>Next\<close> and backwards by
  \<open>Prev\<close>. \<open>dll m h xs\<close>: the circular list with sentinel \<open>h\<close> holds \<open>xs\<close>, oldest first.\<close>

fun seg :: "(jref \<Rightarrow> job) \<Rightarrow> jref \<Rightarrow> jref list \<Rightarrow> jref \<Rightarrow> bool" where
  "seg m a [] b \<longleftrightarrow> Next (m a) = Some b \<and> Prev (m b) = Some a"
| "seg m a (x # xs) b \<longleftrightarrow> Next (m a) = Some x \<and> Prev (m x) = Some a \<and> seg m x xs b"

definition dll :: "(jref \<Rightarrow> job) \<Rightarrow> jref \<Rightarrow> jref list \<Rightarrow> bool" where
  "dll m h xs \<longleftrightarrow> seg m h xs h \<and> distinct (h # xs)"

lemma seg_append: "seg m a (xs @ y # ys) b \<longleftrightarrow> seg m a xs y \<and> seg m y ys b"
  by (induction xs arbitrary: a) auto

lemma seg_cong:
  "(\<And>x. x \<in> set (a # xs) \<Longrightarrow> Next (m' x) = Next (m x)) \<Longrightarrow>
   (\<And>x. x \<in> set (xs @ [b]) \<Longrightarrow> Prev (m' x) = Prev (m x)) \<Longrightarrow> seg m a xs b \<Longrightarrow> seg m' a xs b"
  by (induction xs arbitrary: a) auto

lemma seg_last: "seg m a xs b \<Longrightarrow> Prev (m b) = Some (last (a # xs))"
  by (induction xs arbitrary: a) auto

lemma dll_frame:
  "dll m h xs \<Longrightarrow> (\<And>x. x \<in> set (h # xs) \<Longrightarrow> Next (m' x) = Next (m x) \<and> Prev (m' x) = Prev (m x)) \<Longrightarrow>
   dll m' h xs"
  unfolding dll_def using seg_cong [of h xs m' m h] by auto

lemma dll_empty_iff: "dll (J s) h xs \<Longrightarrow> JobListEmpty h s \<longleftrightarrow> xs = []"
  by (cases xs) (auto simp: dll_def JobListEmpty_def)

lemma dll_head: "dll m h (x # xs) \<Longrightarrow> Next (m h) = Some x"
  by (simp add: dll_def)

text \<open>\<open>JobListInsert\<close> appends at the end, in front of the sentinel.\<close>

lemma insert_dll:
  assumes d: "dll (J s) h xs" and j: "j \<notin> set (h # xs)" and e: "JobListEmpty j s"
  obtains s' where "JobListInsert h j s = Some s'" "dll (J s') h (xs @ [j])"
    "\<And>x. x \<notin> set (h # xs @ [j]) \<Longrightarrow> J s' x = J s x"
    "s' = s\<lparr>J := J s'\<rparr>" "\<And>x. R (J s' x) = R (J s x)"
proof -
  let ?l = "last (h # xs)"
  have l: "Prev (J s h) = Some ?l" using d seg_last by (auto simp: dll_def)
  have jl: "?l \<noteq> j" "j \<noteq> h" using j by (auto simp: last_in_set split: if_splits)
  define m where "m = ((J s)(j := J s j\<lparr>Prev := Some ?l, Next := Some h\<rparr>))"
  define m1 where "m1 = m(?l := m ?l\<lparr>Next := Some j\<rparr>)"
  define m2 where "m2 = m1(h := m1 h\<lparr>Prev := Some j\<rparr>)"
  have eq: "JobListInsert h j s = Some (s\<lparr>J := m2\<rparr>)"
    using e l jl by (simp add: JobListInsert_def upd Let_def m_def m1_def m2_def)
  have seg: "seg m2 h xs j"
  proof (cases xs rule: rev_cases)
    case Nil
    then show ?thesis using jl by (simp add: m2_def m1_def m_def)
  next
    case (snoc ys l)
    have sg: "seg (J s) h (ys @ [l]) h" and di: "distinct (h # ys @ [l])"
      using d snoc by (auto simp: dll_def)
    have hl: "?l = l" using snoc by simp
    have "seg m2 h ys l"
    proof (rule seg_cong [of h ys m2 "J s" l])
      show "Next (m2 x) = Next (J s x)" if "x \<in> set (h # ys)" for x
        using that di j snoc by (auto simp: m2_def m1_def m_def hl)
      show "Prev (m2 x) = Prev (J s x)" if "x \<in> set (ys @ [l])" for x
        using that di j snoc by (auto simp: m2_def m1_def m_def hl)
      show "seg (J s) h ys l" using sg by (simp add: seg_append)
    qed
    moreover have "Next (m2 l) = Some j" "Prev (m2 j) = Some l"
      using di jl hl j snoc by (auto simp: m2_def m1_def m_def)
    ultimately show ?thesis using snoc by (simp add: seg_append)
  qed
  moreover have "seg m2 j [] h" using jl by (simp add: m2_def m1_def m_def)
  ultimately have "dll m2 h (xs @ [j])" using d j by (auto simp: dll_def seg_append)
  moreover have "m2 x = J s x" if "x \<notin> set (h # xs @ [j])" for x
    using that last_in_set [of "h # xs"] by (auto simp: m2_def m1_def m_def simp del: last.simps)
  moreover have "R (m2 x) = R (J s x)" for x
    by (simp add: m2_def m1_def m_def)
  ultimately show thesis using eq that by simp
qed

lemma insert_busy: "\<not> JobListEmpty j s \<Longrightarrow> JobListInsert h j s = Some s"
  by (simp add: JobListInsert_def)

text \<open>\<open>JobListRemove\<close> unlinks the job wherever it stands and leaves it self-linked.\<close>

lemma seg_unlink:
  assumes "seg m h xs j" "seg m j ys h" "distinct (h # xs @ j # ys)"
  defines "p \<equiv> last (h # xs)" and "n \<equiv> hd (ys @ [h])"
  shows "seg (m(n := (m n)\<lparr>Prev := Some p\<rparr>, p := (if n = p then (m p)\<lparr>Prev := Some p\<rparr> else m p)\<lparr>Next := Some n\<rparr>))
     h (xs @ ys) h"
proof -
  define m2 where "m2 = m(n := (m n)\<lparr>Prev := Some p\<rparr>,
     p := (if n = p then (m p)\<lparr>Prev := Some p\<rparr> else m p)\<lparr>Next := Some n\<rparr>)"
  have N: "Next (m2 x) = (if x = p then Some n else Next (m x))" for x
    by (simp add: m2_def)
  have P: "Prev (m2 x) = (if x = n then Some p else Prev (m x))" for x
    by (simp add: m2_def)
  have "seg m2 h (xs @ ys) h"
  proof (cases xs rule: rev_cases)
    case Nil
    show ?thesis
    proof (cases ys)
      case Nil
      then show ?thesis using \<open>xs = []\<close> by (simp add: N P p_def n_def)
    next
      case (Cons y zs)
      have "seg m2 y zs h"
        using assms(2,3) Cons \<open>xs = []\<close>
        by (intro seg_cong [of y zs m2 m h]) (auto simp: N P p_def n_def)
      then show ?thesis using Cons \<open>xs = []\<close> by (simp add: N P p_def n_def)
    qed
  next
    case (snoc us u)
    have u: "seg m2 h us u"
    proof (rule seg_cong [of h us m2 m u])
      show "seg m h us u" using assms(1) snoc by (simp add: seg_append)
    qed (use assms(3) snoc in \<open>cases ys; auto simp: N P p_def n_def\<close>)+
    show ?thesis
    proof (cases ys)
      case Nil
      then have "seg m2 u [] h" using snoc by (simp add: N P p_def n_def)
      then show ?thesis using u snoc Nil by (simp add: seg_append)
    next
      case (Cons y zs)
      have "seg m2 y zs h"
        using assms(2,3) Cons snoc
        by (intro seg_cong [of y zs m2 m h]) (auto simp: N P p_def n_def)
      then have "seg m2 u ys h" using Cons snoc by (simp add: N P p_def n_def)
      then show ?thesis using u snoc by (simp add: seg_append)
    qed
  qed
  then show ?thesis by (simp add: m2_def)
qed

lemma remove_dll:
  assumes d: "dll (J s) h (xs @ j # ys)"
  obtains s' where "JobListRemove (Some j) s = Some (Some j, s')" "dll (J s') h (xs @ ys)"
    "JobListEmpty j s'" "\<And>x. x \<notin> set (h # xs @ j # ys) \<Longrightarrow> J s' x = J s x"
    "s' = s\<lparr>J := J s'\<rparr>" "\<And>x. R (J s' x) = R (J s x)"
    "\<And>x. JTube (J s' x) = JTube (J s x) \<and> Reservoir (J s' x) = Reservoir (J s x) \<and>
       HeapIndex (J s' x) = HeapIndex (J s x) \<and> Body (J s' x) = Body (J s x)"
proof -
  define p where "p = last (h # xs)"
  define n where "n = hd (ys @ [h])"
  have di: "distinct (h # xs @ j # ys)" and sg: "seg (J s) h xs j" "seg (J s) j ys h"
    using d by (auto simp: dll_def seg_append)
  have P: "Prev (J s j) = Some p" using seg_last sg(1) by (simp add: p_def)
  have N: "Next (J s j) = Some n" using sg(2) by (cases ys) (auto simp: n_def)
  have pj: "p \<in> set (h # xs)" "n \<in> set (h # ys)"
    unfolding p_def n_def by (rule last_in_set) (simp, cases ys, auto)
  then have pj': "p \<noteq> j" "n \<noteq> j" using di by auto
  have ne: "\<not> JobListEmpty j s" using N pj' by (simp add: JobListEmpty_def)
  define m where "m = (J s)(n := (J s n)\<lparr>Prev := Some p\<rparr>,
     p := (if n = p then (J s p)\<lparr>Prev := Some p\<rparr> else J s p)\<lparr>Next := Some n\<rparr>)"
  define m2 where "m2 = m(j := m j\<lparr>Prev := Some j, Next := Some j\<rparr>)"
  have eq: "JobListRemove (Some j) s = Some (Some j, s\<lparr>J := m2\<rparr>)"
    using ne P N pj'
    by (cases "n = p") (simp_all add: JobListRemove_def upd Let_def m2_def m_def)
  have "seg m h (xs @ ys) h" unfolding m_def using seg_unlink [OF sg di]
    by (simp only: p_def n_def)
  then have "seg m2 h (xs @ ys) h"
    using di by (intro seg_cong [of h "xs @ ys" m2 m h]) (auto simp: m2_def)
  then have "dll m2 h (xs @ ys)" using di by (auto simp: dll_def)
  moreover have "JobListEmpty j (s\<lparr>J := m2\<rparr>)" by (simp add: JobListEmpty_def m2_def)
  moreover have "m2 x = J s x" if "x \<notin> set (h # xs @ j # ys)" for x
    using that pj by (auto simp: m2_def m_def)
  moreover have "R (m2 x) = R (J s x)" "JTube (m2 x) = JTube (J s x)"
    "Reservoir (m2 x) = Reservoir (J s x)" "HeapIndex (m2 x) = HeapIndex (J s x)"
    "Body (m2 x) = Body (J s x)" for x
    by (auto simp: m2_def m_def)
  ultimately show thesis using eq that by simp
qed

lemma remove_free: "JobListEmpty j s \<Longrightarrow> JobListRemove (Some j) s = Some (None, s)"
  by (simp add: JobListRemove_def)

section \<open>Correctness of the job operations\<close>

text \<open>C25: \<open>JobListInsert\<close> of a job that is on no list appends it to the circular list of the
  sentinel, and leaves every disjoint list as it was.\<close>

theorem JobListInsert_appends:
  assumes "dll (J s) h xs" "j \<notin> set (h # xs)" "JobListEmpty j s"
  shows "\<exists>s'. JobListInsert h j s = Some s' \<and> dll (J s') h (xs @ [j]) \<and>
    (\<forall>h' ys. dll (J s) h' ys \<and> set (h' # ys) \<inter> set (h # xs @ [j]) = {} \<longrightarrow> dll (J s') h' ys)"
proof -
  obtain s' where i: "JobListInsert h j s = Some s'" "dll (J s') h (xs @ [j])"
    "\<And>x. x \<notin> set (h # xs @ [j]) \<Longrightarrow> J s' x = J s x"
    using insert_dll [OF assms] by metis
  have "dll (J s') h' ys" if "dll (J s) h' ys" "set (h' # ys) \<inter> set (h # xs @ [j]) = {}" for h' ys
    using that by (intro dll_frame [OF that(1)]) (metis disjoint_iff i(3))
  with i show ?thesis by blast
qed

text \<open>C26: \<open>JobListRemove\<close> takes a job out of the circular list it is on, wherever it stands, and
  leaves it linked to itself; a job on no list is left alone, with the answer nil.\<close>

theorem JobListRemove_removes:
  assumes "dll (J s) h (xs @ j # ys)"
  shows "\<exists>s'. JobListRemove (Some j) s = Some (Some j, s') \<and> dll (J s') h (xs @ ys) \<and> JobListEmpty j s' \<and>
    JobListRemove (Some j) s' = Some (None, s') \<and>
    (\<forall>h' zs. dll (J s) h' zs \<and> set (h' # zs) \<inter> set (h # xs @ j # ys) = {} \<longrightarrow> dll (J s') h' zs)"
proof -
  obtain s' where r: "JobListRemove (Some j) s = Some (Some j, s')" "dll (J s') h (xs @ ys)"
    "JobListEmpty j s'" "\<And>x. x \<notin> set (h # xs @ j # ys) \<Longrightarrow> J s' x = J s x"
    using remove_dll [OF assms] by metis
  have "dll (J s') h' zs" if "dll (J s) h' zs" "set (h' # zs) \<inter> set (h # xs @ j # ys) = {}" for h' zs
    using that by (intro dll_frame [OF that(1)]) (metis disjoint_iff r(4))
  with r show ?thesis using remove_free by blast
qed

text \<open>A new job without a given id gets the next free one, is found under it, holds the
  values it was made with and is on no list; the other ids find what they found before.\<close>

lemma MakeJobWithID_fresh:
  assumes "MakeJobWithID pri delay ttr body tube None s = (j, s')"
  shows "JobFind (nextJobId s) s' = Some j \<and> nextJobId s' = nextJobId s + 1 \<and>
    (\<forall>i. i \<noteq> nextJobId s \<longrightarrow> JobFind i s' = JobFind i s) \<and>
    (let r = R (J s' j) in ID r = nextJobId s \<and> Pri r = pri \<and> Delay r = delay \<and> TTR r = ttr \<and> BodySize r = body) \<and>
    JTube (J s' j) = tube \<and> JobListEmpty j s' \<and> (\<forall>i. i \<noteq> j \<longrightarrow> J s' i = J s i)"
  using assms
  by (auto simp: MakeJobWithID_def NewJob_def time_Now_def ListReset_def JobStore_def JobFind_def
      JobListEmpty_def upd Let_def)

text \<open>C19: popping a ready queue until it is empty yields the jobs by ascending priority value, and
  jobs of one priority by ascending id.\<close>

theorem ready_order:
  assumes "heap_ok (JobPriLess m) h"
  shows "\<exists>xs. drain (JobPriLess m) (length h) h = Some xs \<and> mset xs = heap_vals h \<and>
    sorted_wrt (\<lambda>a b. Pri (R (m a)) < Pri (R (m b)) \<or> Pri (R (m a)) = Pri (R (m b)) \<and> ID (R (m a)) \<le> ID (R (m b))) xs"
proof -
  have "(\<lambda>a b. \<not> JobPriLess m b a) = (\<lambda>a b. Pri (R (m a)) < Pri (R (m b)) \<or>
      Pri (R (m a)) = Pri (R (m b)) \<and> ID (R (m a)) \<le> ID (R (m b)))"
    by (auto simp: fun_eq_iff JobPriLess_def Let_def)
  then show ?thesis using pri.drain_sorted [OF assms] by simp
qed

text \<open>The same for a queue of delayed jobs, by deadline and id.\<close>

lemma delay_order:
  assumes "heap_ok (JobDelayLess m) h"
  shows "\<exists>xs. drain (JobDelayLess m) (length h) h = Some xs \<and> mset xs = heap_vals h \<and>
    sorted_wrt (\<lambda>a b. DeadlineAt (R (m a)) < DeadlineAt (R (m b)) \<or>
      DeadlineAt (R (m a)) = DeadlineAt (R (m b)) \<and> ID (R (m a)) \<le> ID (R (m b))) xs"
proof -
  have "(\<lambda>a b. \<not> JobDelayLess m b a) = (\<lambda>a b. DeadlineAt (R (m a)) < DeadlineAt (R (m b)) \<or>
      DeadlineAt (R (m a)) = DeadlineAt (R (m b)) \<and> ID (R (m a)) \<le> ID (R (m b)))"
    by (auto simp: fun_eq_iff JobDelayLess_def Let_def)
  then show ?thesis using del.drain_sorted [OF assms] by simp
qed

end
