(* ===== verification/TubeOps.thy ===== *)
theory TubeOps
  imports JobOps
begin

text \<open>
  \<open>core/tube.go\<close>: the list of all tubes, creation and search by name, and the two searches
  over all tubes that drive the server: the delayed job that is due first, and the best ready
  job some connection waits for.
\<close>

definition NewTube :: "string \<Rightarrow> world \<Rightarrow> tref \<times> world" where
  "NewTube name s =
     (let t = nT s;
          s = s\<lparr>nT := Suc t\<rparr>;
          (b, s) = NewJob None s;
          s = modJ b (\<lambda>x. x\<lparr>Prev := Some b, Next := Some b\<rparr>) s;
          s = s\<lparr>T := (T s)(t := \<lparr>Name = name, ReadyQ = [], DelayQ = [], WaitingConns = NewMs,
                 Stat = zero_stat, UsingCt = 0, WatchingCt = 0, Pause = 0, UnpauseAt = 0,
                 BuriedL = b\<rparr>)\<rparr>
      in (t, s))"

definition MakeAndInsertTube :: "string \<Rightarrow> world \<Rightarrow> tref \<times> world" where
  "MakeAndInsertTube name s =
     (let (t, s) = NewTube name s;
          (_, m, s) = ms_Append None [t] (tubes s) s
      in (t, s\<lparr>tubes := m\<rparr>))"

definition core_init :: "world \<Rightarrow> world" where
  "core_init s =
     (let s = s\<lparr>tubes := NewMs\<rparr>;
          (t, s) = NewTube ''default'' s;
          s = s\<lparr>defaultTube := t\<rparr>;
          (_, m, s) = ms_Append None [t] (tubes s) s
      in s\<lparr>tubes := m\<rparr>)"

definition GetTubes :: "world \<Rightarrow> tref ms" where
  "GetTubes s = tubes s"

definition GetDefaultTube :: "world \<Rightarrow> tref" where
  "GetDefaultTube s = defaultTube s"

definition SoonestDelayedJob :: "world \<Rightarrow> jref option" where
  "SoonestDelayedJob s =
     ms_each (\<lambda>t j.
        if heap_Len (DelayQ (T s t)) = 0 then j
        else (case heap_Take 0 (DelayQ (T s t)) of
                None \<Rightarrow> j
              | Some nji \<Rightarrow>
                  let nj = Value nji in
                  (case j of
                     None \<Rightarrow> Some nj
                   | Some j0 \<Rightarrow> if DeadlineAt (R (J s nj)) < DeadlineAt (R (J s j0)) then Some nj else j)))
       (tubes s) None"

definition NextAwaitedJob :: "int \<Rightarrow> world \<Rightarrow> jref option \<times> world" where
  "NextAwaitedJob now s =
     ms_each (\<lambda>t (j, s).
        if Pause (T s t) > 0 \<and> UnpauseAt (T s t) > now then (j, s)
        else
          let s = (if Pause (T s t) > 0 then modT t (\<lambda>x. x\<lparr>Pause := 0\<rparr>) s else s) in
          if ms_Len (WaitingConns (T s t)) > 0 \<and> heap_Len (ReadyQ (T s t)) > 0 then
            (case heap_Take 0 (ReadyQ (T s t)) of
               None \<Rightarrow> (j, s)
             | Some candidate \<Rightarrow>
                 (case j of
                    None \<Rightarrow> (Some (Value candidate), s)
                  | Some j0 \<Rightarrow>
                      if JobPriLess (J s) (Value candidate) j0 then (Some (Value candidate), s)
                      else (j, s)))
          else (j, s))
       (tubes s) (None, s)"

definition TubeFind :: "string \<Rightarrow> world \<Rightarrow> tref option" where
  "TubeFind name s = ms_search (\<lambda>t. Name (T s t) = name) (tubes s)"

definition TubeFindOrMake :: "string \<Rightarrow> world \<Rightarrow> tref \<times> world" where
  "TubeFindOrMake name s =
     (case ms_search (\<lambda>t. Name (T s t) = name) (tubes s) of
        Some t \<Rightarrow> (t, s)
      | None \<Rightarrow> MakeAndInsertTube name s)"

section \<open>The searches over all tubes\<close>

text \<open>A search loop that keeps the best candidate seen so far: \<open>pick\<close> is the candidate of an
  element, \<open>lt\<close> the strict order by which a later candidate replaces an earlier one.\<close>

definition keep_best :: "('b \<Rightarrow> 'b \<Rightarrow> bool) \<Rightarrow> ('a \<Rightarrow> 'b option) \<Rightarrow> 'a \<Rightarrow> 'b option \<Rightarrow> 'b option" where
  "keep_best lt pick x b =
     (case pick x of
        None \<Rightarrow> b
      | Some n \<Rightarrow> (case b of None \<Rightarrow> Some n | Some m \<Rightarrow> if lt n m then Some n else b))"

lemma keep_best_fold:
  assumes "weak_less lt"
  shows "case fold (keep_best lt pick) xs b of
      None \<Rightarrow> b = None \<and> (\<forall>x\<in>set xs. pick x = None)
    | Some r \<Rightarrow> (b = Some r \<or> (\<exists>x\<in>set xs. pick x = Some r)) \<and>
        (\<forall>m. b = Some m \<longrightarrow> \<not> lt m r) \<and> (\<forall>x\<in>set xs. \<forall>n. pick x = Some n \<longrightarrow> \<not> lt n r)"
proof (induction xs arbitrary: b)
  case Nil
  then show ?case using weak_less.irrefl [OF assms] by (simp split: option.splits)
next
  case (Cons x xs)
  let ?b = "keep_best lt pick x b"
  note irr = weak_less.irrefl [OF assms] and tr = weak_less.neg_trans [OF assms]
    and asy = weak_less.asym [OF assms]
  show ?case
  proof (cases "fold (keep_best lt pick) xs ?b")
    case None
    then have "?b = None" "\<forall>y\<in>set xs. pick y = None" using Cons.IH [of ?b] by simp_all
    moreover from this have "b = None \<and> pick x = None"
      by (auto simp: keep_best_def split: option.splits if_splits)
    ultimately show ?thesis using None by simp
  next
    case (Some r)
    then have IH: "?b = Some r \<or> (\<exists>y\<in>set xs. pick y = Some r)"
      "\<And>m. ?b = Some m \<Longrightarrow> \<not> lt m r" "\<And>y n. y \<in> set xs \<Longrightarrow> pick y = Some n \<Longrightarrow> \<not> lt n r"
      using Cons.IH [of ?b] by auto
    have "\<not> lt n r" if "pick x = Some n \<or> b = Some n" for n
    proof -
      have "\<exists>m. ?b = Some m \<and> \<not> lt n m"
        using that irr asy by (auto simp: keep_best_def split: option.splits)
      then show ?thesis using IH(2) tr by blast
    qed
    moreover have "?b = Some r \<Longrightarrow> b = Some r \<or> pick x = Some r"
      unfolding keep_best_def by (auto split: option.splits if_splits)
    ultimately show ?thesis using Some IH(1,3) by auto
  qed
qed

definition root_of :: "jref mHeap \<Rightarrow> jref option" where
  "root_of h = (if h = [] then None else Some (Value (h ! 0)))"

lemma root_of_mem: "root_of h = Some j \<Longrightarrow> j \<in># heap_vals h"
  by (cases h) (auto simp: root_of_def heap_vals_def)

lemma root_of_least:
  assumes "weak_less lt" "heap_ok lt h" "i \<in># heap_vals h"
  shows "\<not> lt i (Value (h ! 0))"
proof -
  have "\<exists>k<length h. i = Value (h ! k)" using assms(3) by (auto simp: heap_vals_def in_set_conv_nth)
  then show ?thesis using weak_less.root_min [OF assms(1,2)] by auto
qed

lemma find_append_last: "find p xs = None \<Longrightarrow> p x \<Longrightarrow> find p (xs @ [x]) = Some x"
  by (induction xs) auto

lemma SoonestDelayedJob_best:
  "SoonestDelayedJob s = fold (keep_best (\<lambda>a b. DeadlineAt (R (J s a)) < DeadlineAt (R (J s b)))
     (\<lambda>t. root_of (DelayQ (T s t)))) (ms_items (tubes s)) None"
  by (auto simp: SoonestDelayedJob_def ms_each_def keep_best_def root_of_def heap_Len_def heap_Take_def
      fun_eq_iff intro!: fold_cong split: option.splits)

lemma SoonestDelayedJob_min:
  assumes "\<forall>t\<in>set (ms_items (tubes s)). heap_ok (JobDelayLess (J s)) (DelayQ (T s t))"
  shows "case SoonestDelayedJob s of
      None \<Rightarrow> \<forall>t\<in>set (ms_items (tubes s)). DelayQ (T s t) = []
    | Some j \<Rightarrow> (\<exists>t\<in>set (ms_items (tubes s)). j \<in># heap_vals (DelayQ (T s t))) \<and>
        (\<forall>t\<in>set (ms_items (tubes s)). \<forall>i. i \<in># heap_vals (DelayQ (T s t)) \<longrightarrow>
           DeadlineAt (R (J s j)) \<le> DeadlineAt (R (J s i)))"
proof -
  let ?d = "\<lambda>a. DeadlineAt (R (J s a))"
  have w: "weak_less (\<lambda>a b. ?d a < ?d b)" by unfold_locales auto
  have root: "?d (Value (h ! 0)) \<le> ?d i" if "heap_ok (JobDelayLess (J s)) h" "i \<in># heap_vals h" for h i
    using root_of_least [OF del.weak_less_axioms that] by (auto simp: JobDelayLess_def Let_def split: if_splits)
  note best = keep_best_fold [OF w, where pick = "\<lambda>t. root_of (DelayQ (T s t))"
      and xs = "ms_items (tubes s)" and b = None, folded SoonestDelayedJob_best]
  show ?thesis
  proof (cases "SoonestDelayedJob s")
    case None
    then show ?thesis using best by (simp add: root_of_def split: if_splits)
  next
    case (Some j)
    then have j: "\<exists>t\<in>set (ms_items (tubes s)). root_of (DelayQ (T s t)) = Some j"
      "\<And>t n. t \<in> set (ms_items (tubes s)) \<Longrightarrow> root_of (DelayQ (T s t)) = Some n \<Longrightarrow> ?d j \<le> ?d n"
      using best by (auto simp: not_less)
    have "?d j \<le> ?d i" if "t \<in> set (ms_items (tubes s))" "i \<in># heap_vals (DelayQ (T s t))" for t i
    proof -
      have ne: "DelayQ (T s t) \<noteq> []" using that(2) by (auto simp: heap_vals_def)
      then have "?d j \<le> ?d (Value (DelayQ (T s t) ! 0))" using j(2) [OF that(1)] by (simp add: root_of_def)
      also have "\<dots> \<le> ?d i" using root assms that by blast
      finally show ?thesis .
    qed
    moreover have "\<exists>t\<in>set (ms_items (tubes s)). j \<in># heap_vals (DelayQ (T s t))"
      using j(1) root_of_mem by blast
    ultimately show ?thesis using Some by auto
  qed
qed

text \<open>\<open>SoonestDelayedJob\<close> is nil exactly when no tube has a delayed job, and otherwise a
  delayed job whose deadline no other delayed job of any tube precedes.\<close>

lemma SoonestDelayedJob_least:
  assumes "\<forall>t\<in>set (ms_items (tubes s)). heap_ok (JobDelayLess (J s)) (DelayQ (T s t))"
  shows "case SoonestDelayedJob s of
      None \<Rightarrow> \<forall>t\<in>set (ms_items (tubes s)). DelayQ (T s t) = []
    | Some j \<Rightarrow> (\<exists>t\<in>set (ms_items (tubes s)). j \<in># heap_vals (DelayQ (T s t))) \<and>
        (\<forall>t\<in>set (ms_items (tubes s)). \<forall>i. i \<in># heap_vals (DelayQ (T s t)) \<longrightarrow>
           DeadlineAt (R (J s j)) \<le> DeadlineAt (R (J s i)))"
  using assms by (rule SoonestDelayedJob_min)

definition awaited :: "int \<Rightarrow> world \<Rightarrow> tref \<Rightarrow> bool" where
  "awaited now s t \<longleftrightarrow> \<not> (Pause (T s t) > 0 \<and> UnpauseAt (T s t) > now) \<and>
     ms_Len (WaitingConns (T s t)) > 0 \<and> ReadyQ (T s t) \<noteq> []"

text \<open>What the loop may change: the pause of tubes whose pause is over.\<close>

definition unpaused :: "int \<Rightarrow> world \<Rightarrow> world \<Rightarrow> bool" where
  "unpaused now s s' \<longleftrightarrow> s' = s\<lparr>T := T s'\<rparr> \<and>
     (\<forall>t. T s' t = T s t \<or> Pause (T s t) > 0 \<and> UnpauseAt (T s t) \<le> now \<and> T s' t = (T s t)\<lparr>Pause := 0\<rparr>)"

lemma unpaused_same:
  assumes "unpaused now s s'"
  shows "awaited now s' t = awaited now s t" "ReadyQ (T s' t) = ReadyQ (T s t)" "J s' = J s"
proof -
  have "T s' t = T s t \<or> Pause (T s t) > 0 \<and> UnpauseAt (T s t) \<le> now \<and> T s' t = (T s t)\<lparr>Pause := 0\<rparr>"
    using assms by (simp only: unpaused_def)
  then show "awaited now s' t = awaited now s t" "ReadyQ (T s' t) = ReadyQ (T s t)"
    by (auto simp: awaited_def)
  have "J s' = J (s\<lparr>T := T s'\<rparr>)" using assms unfolding unpaused_def by (elim conjE) (rule arg_cong)
  then show "J s' = J s" by simp
qed

definition await_step :: "int \<Rightarrow> tref \<Rightarrow> jref option \<times> world \<Rightarrow> jref option \<times> world" where
  "await_step now t p =
     (let (j, s) = p in
      if Pause (T s t) > 0 \<and> UnpauseAt (T s t) > now then (j, s)
      else let s = (if Pause (T s t) > 0 then modT t (\<lambda>x. x\<lparr>Pause := 0\<rparr>) s else s) in
        (if awaited now s t then keep_best (JobPriLess (J s)) (\<lambda>t. root_of (ReadyQ (T s t))) t j else j, s))"

lemma NextAwaitedJob_fold: "NextAwaitedJob now s = fold (await_step now) (ms_items (tubes s)) (None, s)"
  unfolding NextAwaitedJob_def ms_each_def
  by (rule fold_cong)
    (auto simp: await_step_def keep_best_def root_of_def awaited_def heap_Len_def heap_Take_def Let_def upd
      fun_eq_iff split: option.splits)

lemma await_step_unpaused:
  assumes "unpaused now s0 s"
  shows "unpaused now s0 (snd (await_step now t (j, s)))"
    "fst (await_step now t (j, s)) = keep_best (JobPriLess (J s0))
       (\<lambda>t. if awaited now s0 t then root_of (ReadyQ (T s0 t)) else None) t j"
proof -
  let ?s = "snd (await_step now t (j, s))"
  have "T ?s u = T s u \<or> u = t \<and> Pause (T s u) > 0 \<and> UnpauseAt (T s u) \<le> now \<and> T ?s u = (T s u)\<lparr>Pause := 0\<rparr>"
    for u by (auto simp: await_step_def Let_def upd)
  moreover have s: "?s = s\<lparr>T := T ?s\<rparr>" by (auto simp: await_step_def Let_def upd)
  moreover have "T s u = T s0 u \<or> Pause (T s0 u) > 0 \<and> UnpauseAt (T s0 u) \<le> now \<and> T s u = (T s0 u)\<lparr>Pause := 0\<rparr>" for u
    using assms by (simp only: unpaused_def)
  ultimately have "T ?s u = T s0 u \<or> Pause (T s0 u) > 0 \<and> UnpauseAt (T s0 u) \<le> now \<and> T ?s u = (T s0 u)\<lparr>Pause := 0\<rparr>" for u
    by (smt (verit) tube.surjective tube.update_convs tube.select_convs)
  moreover have "?s = s0\<lparr>T := T ?s\<rparr>"
  proof -
    have "s = s0\<lparr>T := T s\<rparr>" using assms by (simp only: unpaused_def)
    then have "s\<lparr>T := y\<rparr> = s0\<lparr>T := y\<rparr>" for y by (metis world.update_convs(3) world.surjective)
    then show ?thesis using s by metis
  qed
  ultimately show u: "unpaused now s0 ?s" unfolding unpaused_def by blast
  show "fst (await_step now t (j, s)) = keep_best (JobPriLess (J s0))
       (\<lambda>t. if awaited now s0 t then root_of (ReadyQ (T s0 t)) else None) t j"
  proof (cases "Pause (T s t) > 0 \<and> UnpauseAt (T s t) > now")
    case True
    then have "\<not> awaited now s0 t" using unpaused_same(1) [OF assms, of t] by (simp add: awaited_def)
    then show ?thesis using True by (simp add: await_step_def keep_best_def)
  next
    case False
    then have "fst (await_step now t (j, s)) =
        (if awaited now ?s t then keep_best (JobPriLess (J ?s)) (\<lambda>t. root_of (ReadyQ (T ?s t))) t j else j)"
      by (auto simp: await_step_def Let_def)
    then show ?thesis by (simp add: unpaused_same [OF u] keep_best_def)
  qed
qed

lemma NextAwaitedJob_best:
  assumes "\<forall>t\<in>set (ms_items (tubes s)). heap_ok (JobPriLess (J s)) (ReadyQ (T s t))"
  shows "unpaused now s (snd (NextAwaitedJob now s)) \<and>
    (case fst (NextAwaitedJob now s) of
      None \<Rightarrow> \<forall>t\<in>set (ms_items (tubes s)). \<not> awaited now s t
    | Some j \<Rightarrow> (\<exists>t\<in>set (ms_items (tubes s)). awaited now s t \<and> root_of (ReadyQ (T s t)) = Some j) \<and>
        (\<forall>t\<in>set (ms_items (tubes s)). \<forall>i. awaited now s t \<longrightarrow> i \<in># heap_vals (ReadyQ (T s t)) \<longrightarrow>
           \<not> JobPriLess (J s) i j))"
proof -
  let ?pick = "\<lambda>t. if awaited now s t then root_of (ReadyQ (T s t)) else None"
  have "unpaused now s s' \<Longrightarrow>
      unpaused now s (snd (fold (await_step now) ts (j, s'))) \<and>
      fst (fold (await_step now) ts (j, s')) = fold (keep_best (JobPriLess (J s)) ?pick) ts j" for ts j s'
  proof (induction ts arbitrary: j s')
    case (Cons t ts)
    then show ?case using await_step_unpaused [OF Cons.prems, of t j]
      by (cases "await_step now t (j, s')") simp
  qed simp
  moreover have "unpaused now s s" by (simp add: unpaused_def)
  ultimately have N: "unpaused now s (snd (NextAwaitedJob now s))"
    "fst (NextAwaitedJob now s) = fold (keep_best (JobPriLess (J s)) ?pick) (ms_items (tubes s)) None"
    unfolding NextAwaitedJob_fold by blast+
  note best = keep_best_fold [OF pri.weak_less_axioms [of "J s"], where pick = ?pick and xs = "ms_items (tubes s)"
      and b = None, folded N(2)]
  show ?thesis
  proof (cases "fst (NextAwaitedJob now s)")
    case None
    then show ?thesis using best N(1) by (auto simp: awaited_def root_of_def split: if_splits)
  next
    case (Some j)
    then have j: "\<exists>t\<in>set (ms_items (tubes s)). ?pick t = Some j"
      "\<And>t n. t \<in> set (ms_items (tubes s)) \<Longrightarrow> ?pick t = Some n \<Longrightarrow> \<not> JobPriLess (J s) n j"
      using best by auto
    have "\<not> JobPriLess (J s) i j"
      if "t \<in> set (ms_items (tubes s))" "awaited now s t" "i \<in># heap_vals (ReadyQ (T s t))" for t i
    proof -
      have "ReadyQ (T s t) \<noteq> []" using that(2) by (simp add: awaited_def)
      then have "\<not> JobPriLess (J s) (Value (ReadyQ (T s t) ! 0)) j"
        using j(2) [OF that(1)] that(2) by (simp add: root_of_def)
      moreover have "\<not> JobPriLess (J s) i (Value (ReadyQ (T s t) ! 0))"
        using assms that(1,3) root_of_least [OF pri.weak_less_axioms] by blast
      ultimately show ?thesis by (rule pri.neg_trans)
    qed
    moreover have "\<exists>t\<in>set (ms_items (tubes s)). awaited now s t \<and> root_of (ReadyQ (T s t)) = Some j"
      using j(1) by (auto split: if_splits)
    ultimately show ?thesis using Some N(1) by auto
  qed
qed

text \<open>\<open>TubeFindOrMake\<close> returns a tube of the given name that is on the list of tubes: the
  first one that has the name, or else a new, empty one added at the end.\<close>

lemma TubeFindOrMake_finds:
  assumes "\<forall>t\<in>set (ms_items (tubes s)). t < nT s" "TubeFindOrMake name s = (t, s')"
  shows "Name (T s' t) = name \<and> TubeFind name s' = Some t \<and>
    (case TubeFind name s of
       Some t0 \<Rightarrow> t = t0 \<and> s' = s
     | None \<Rightarrow> t = nT s \<and> ms_items (tubes s') = ms_items (tubes s) @ [t] \<and> ReadyQ (T s' t) = [] \<and>
         DelayQ (T s' t) = [] \<and> UsingCt (T s' t) = 0 \<and> (\<forall>u. u \<noteq> t \<longrightarrow> T s' u = T s u))"
proof (cases "TubeFind name s")
  case None
  let ?s = "snd (NewTube name s)"
  have N: "fst (NewTube name s) = nT s" "tubes ?s = tubes s"
    "Name (T ?s (nT s)) = name \<and> ReadyQ (T ?s (nT s)) = [] \<and> DelayQ (T ?s (nT s)) = [] \<and> UsingCt (T ?s (nT s)) = 0"
    "\<And>u. u \<noteq> nT s \<Longrightarrow> T ?s u = T s u"
    by (auto simp: NewTube_def NewJob_def upd time_Now_def ListReset_def Let_def)
  have "MakeAndInsertTube name s = (nT s, ?s\<lparr>tubes := (tubes s)\<lparr>ms_items := ms_items (tubes s) @ [nT s]\<rparr>\<rparr>)"
    using N(1,2) by (cases "NewTube name s") (simp add: MakeAndInsertTube_def ms_Append_def ms_fire_def Let_def)
  then have t: "t = nT s" "s' = ?s\<lparr>tubes := (tubes s)\<lparr>ms_items := ms_items (tubes s) @ [nT s]\<rparr>\<rparr>"
    using assms(2) None by (auto simp: TubeFindOrMake_def TubeFind_def)
  have "\<forall>u\<in>set (ms_items (tubes s)). Name (T ?s u) \<noteq> name"
    using None assms(1) N(4) by (auto simp: TubeFind_def ms_search_def find_None_iff)
  then have "find (\<lambda>u. Name (T ?s u) = name) (ms_items (tubes s)) = None" by (simp add: find_None_iff)
  then have "find (\<lambda>u. Name (T ?s u) = name) (ms_items (tubes s) @ [nT s]) = Some (nT s)"
    using N(3) find_append_last by fastforce
  then show ?thesis using None t N(3,4) by (simp add: TubeFind_def ms_search_def)
next
  case (Some t0)
  then have "t = t0" "s' = s" using assms(2) by (auto simp: TubeFindOrMake_def TubeFind_def)
  moreover have "Name (T s t0) = name" using Some by (auto simp: TubeFind_def ms_search_def find_Some_iff)
  ultimately show ?thesis using Some by simp
qed

end
