(* ===== verification/WalOps.thy ===== *)
theory WalOps
  imports TubeOps
begin

text \<open>
  The write-ahead log: the writing side of \<open>core/file.go\<close>, \<open>core/wal.go\<close>, and \<open>BuryJob\<close> of
  \<open>core/job.go\<close>. The binlog files are a linked list from \<open>Head\<close> to \<open>Tail\<close>; \<open>Cur\<close> is the one
  being written. Space is reserved before a record may be written: \<open>FFree\<close> and \<open>FResv\<close> count
  the free and reserved bytes of a file, \<open>WResv\<close> the reserved bytes of the whole log.

  A system call that can fail reads its outcome from \<open>io\<close>; one whose result the code ignores
  (or only logs) has no effect on the model's state.
\<close>

section \<open>encoding/binary, little endian\<close>

definition le_bytes :: "nat \<Rightarrow> int \<Rightarrow> 8 word list" where
  "le_bytes n x = map (\<lambda>i. word_of_int (x div 256 ^ i)) [0..<n]"

datatype wal_obj = WInt64 int | WRec job_rec | WBytes string

definition rec_bytes :: "job_rec \<Rightarrow> 8 word list" where
  "rec_bytes r =
     le_bytes 8 (uint (ID r)) @ le_bytes 4 (uint (Pri r)) @ le_bytes 8 (Delay r) @
     le_bytes 8 (TTR r) @ le_bytes 8 (BodySize r) @ le_bytes 8 (CreateAt r) @
     le_bytes 8 (DeadlineAt r) @ le_bytes 4 (uint (ReserveCt r)) @ le_bytes 4 (uint (TimeoutCt r)) @
     le_bytes 4 (uint (ReleaseCt r)) @ le_bytes 4 (uint (BuryCt r)) @ le_bytes 4 (uint (KickCt r)) @
     [RState r]"

fun binary_bytes :: "wal_obj \<Rightarrow> 8 word list" where
  "binary_bytes (WInt64 i) = le_bytes 8 i"
| "binary_bytes (WRec r) = rec_bytes r"
| "binary_bytes (WBytes b) = map of_char b"

definition binary_Size :: "wal_obj \<Rightarrow> int" where
  "binary_Size x = int (length (binary_bytes x))"

definition int64_size :: int where "int64_size = binary_Size (WInt64 1)"
definition rec_size :: int where "rec_size = binary_Size (WRec zero_rec)"

section \<open>Files: reference counts and job lists\<close>

definition fileIncRef :: "fref option \<Rightarrow> world \<Rightarrow> world" where
  "fileIncRef fp s =
     (case fp of None \<Rightarrow> s | Some f \<Rightarrow> modF f (\<lambda>x. x\<lparr>Refs := Refs x + 1\<rparr>) s)"

partial_function (option) walGc :: "world \<Rightarrow> world option" where
  "walGc s =
     (case Head (Wal s) of
        None \<Rightarrow> Some s
      | Some f \<Rightarrow>
          if Refs (F s f) > 0 then Some s
          else
            let nx = FileNext (F s f);
                s = modW (\<lambda>w. w\<lparr>Head := nx\<rparr>) s;
                s = (if Tail (Wal s) = Some f then modW (\<lambda>w. w\<lparr>Tail := nx\<rparr>) s else s);
                s = modW (\<lambda>w. w\<lparr>NFile := NFile w - 1\<rparr>) s
            in walGc s)"

declare walGc.simps [code]

definition fileDecRef :: "fref option \<Rightarrow> world \<Rightarrow> world option" where
  "fileDecRef fp s =
     (case fp of
        None \<Rightarrow> Some s
      | Some f \<Rightarrow>
          let s = modF f (\<lambda>x. x\<lparr>Refs := Refs x - 1\<rparr>) s in
          if Refs (F s f) < 1 then walGc s else Some s)"

definition FileAddJob :: "fref \<Rightarrow> jref \<Rightarrow> world \<Rightarrow> world option" where
  "FileAddJob f j s =
     (let h = JobList (F s f);
          s = (if FPre (J s h) = None then modJ h (\<lambda>x. x\<lparr>FPre := Some h\<rparr>) s else s);
          s = modJ j (\<lambda>x. x\<lparr>JFile := Some f\<rparr>) s;
          s = modJ j (\<lambda>x. x\<lparr>FPre := FPre (J s h)\<rparr>) s;
          s = modJ j (\<lambda>x. x\<lparr>FNext := Some h\<rparr>) s
      in do {
        p \<leftarrow> FPre (J s h);
        let s = modJ p (\<lambda>x. x\<lparr>FNext := Some j\<rparr>) s;
        let s = modJ h (\<lambda>x. x\<lparr>FPre := Some j\<rparr>) s;
        Some (fileIncRef (Some f) s)
      })"

definition FileRmJob :: "fref option \<Rightarrow> jref \<Rightarrow> world \<Rightarrow> world option" where
  "FileRmJob fp j s =
     (if fp = None then Some s
      else if fp \<noteq> JFile (J s j) then Some s
      else do {
        n \<leftarrow> FNext (J s j);
        let s = modJ n (\<lambda>x. x\<lparr>FPre := FPre (J s j)\<rparr>) s;
        p \<leftarrow> FPre (J s j);
        let s = modJ p (\<lambda>x. x\<lparr>FNext := FNext (J s j)\<rparr>) s;
        let s = modJ j (\<lambda>x. x\<lparr>FNext := None, FPre := None, JFile := None\<rparr>) s;
        let s = modW (\<lambda>w. w\<lparr>Alive := Alive w - WalUsed (J s j)\<rparr>) s;
        let s = modJ j (\<lambda>x. x\<lparr>WalUsed := 0\<rparr>) s;
        fileDecRef fp s
      })"

section \<open>Opening, writing and closing a file\<close>

text \<open>\<open>rawFAlloc\<close>: one write of 4096 zero bytes per turn until \<open>l\<close> bytes are covered.\<close>

function rawFAlloc :: "int \<Rightarrow> int \<Rightarrow> world \<Rightarrow> bool \<times> world" where
  "rawFAlloc l i s =
     (if i < l
      then let (ok, s) = syscall_ok s in if \<not> ok then (False, s) else rawFAlloc l (i + 4096) s
      else (True, s))"
  by pat_completeness auto
termination
  by (relation "measure (\<lambda>(l, i, s). nat (l - i))") auto

declare rawFAlloc.simps [simp del]

text \<open>A failed write of the version number is a \<open>Log.Panicf\<close>.\<close>

definition fileWOpen :: "fref \<Rightarrow> world \<Rightarrow> world option" where
  "fileWOpen f s =
     (let (opened, s) = syscall_ok s in
      if \<not> opened then Some s
      else
        let (allocd, s) = rawFAlloc (FileSize (Wal s)) 0 s in
        if \<not> allocd then Some s
        else
          let (written, s) = syscall_ok s in
          if \<not> written then None
          else
            let s = modF f (\<lambda>x. x\<lparr>FBytes := binary_bytes (WInt64 WalVer), IsWOpen := True\<rparr>) s;
                s = fileIncRef (Some f) s;
                s = modF f (\<lambda>x. x\<lparr>FFree := FileSize (Wal s) - binary_Size (WInt64 WalVer)\<rparr>) s
            in Some (modF f (\<lambda>x. x\<lparr>FResv := 0\<rparr>) s))"

definition fileWrite :: "fref \<Rightarrow> jref \<Rightarrow> wal_obj \<Rightarrow> world \<Rightarrow> bool \<times> world" where
  "fileWrite f j obj s =
     (let (ok, s) = syscall_ok s in
      if \<not> ok then (False, s)
      else
        let l = binary_Size obj;
            s = modF f (\<lambda>x. x\<lparr>FBytes := FBytes x @ binary_bytes obj\<rparr>) s;
            s = modW (\<lambda>w. w\<lparr>WResv := WResv w - l\<rparr>) s;
            s = modF f (\<lambda>x. x\<lparr>FResv := FResv x - l\<rparr>) s;
            s = modJ j (\<lambda>x. x\<lparr>WalResv := WalResv x - l, WalUsed := WalUsed x + l\<rparr>) s;
            s = modW (\<lambda>w. w\<lparr>Alive := Alive w + l\<rparr>) s
        in (True, s))"

definition fileWrJobShort :: "fref \<Rightarrow> jref \<Rightarrow> world \<Rightarrow> (bool \<times> world) option" where
  "fileWrJobShort f j s =
     (let (ok, s) = fileWrite f j (WInt64 0) s in
      if \<not> ok then Some (False, s)
      else
        let (ok, s) = fileWrite f j (WRec (R (J s j))) s in
        if \<not> ok then Some (False, s)
        else if RState (R (J s j)) = Invalid
        then do { s \<leftarrow> FileRmJob (JFile (J s j)) j s; Some (True, s) }
        else Some (True, s))"

text \<open>The chain of \<open>&&\<close>: each write happens only after the ones before it succeeded.\<close>

fun fileWriteAll :: "fref \<Rightarrow> jref \<Rightarrow> wal_obj list \<Rightarrow> world \<Rightarrow> bool \<times> world" where
  "fileWriteAll f j [] s = (True, s)"
| "fileWriteAll f j (x # xs) s =
     (let (ok, s) = fileWrite f j x s in if ok then fileWriteAll f j xs s else (False, s))"

definition fileWrJobFull :: "fref \<Rightarrow> jref \<Rightarrow> world \<Rightarrow> (bool \<times> world) option" where
  "fileWrJobFull f j s =
     do {
       s \<leftarrow> FileAddJob f j s;
       t \<leftarrow> JTube (J s j);
       let nm = Name (T s t);
       Some (fileWriteAll f j
         [WInt64 (int (length nm)), WBytes nm, WRec (R (J s j)), WBytes (Body (J s j))] s)
     }"

definition fileWClose :: "fref option \<Rightarrow> world \<Rightarrow> world option" where
  "fileWClose fp s =
     (case fp of
        None \<Rightarrow> Some s
      | Some f \<Rightarrow>
          if \<not> IsWOpen (F s f) then Some s
          else fileDecRef fp (modF f (\<lambda>x. x\<lparr>IsWOpen := False\<rparr>) s))"

definition fileInit :: "fref \<Rightarrow> int \<Rightarrow> world \<Rightarrow> bool \<times> world" where
  "fileInit f n s =
     (let s = modF f (\<lambda>x. x\<lparr>Seq := n, Path := Dir (Wal s) @ ''/binlog.'' @ dec_int n\<rparr>) s
      in (Path (F s f) \<noteq> [], s))"

definition fileAdd :: "fref \<Rightarrow> world \<Rightarrow> world" where
  "fileAdd f s =
     (let s = (case Tail (Wal s) of None \<Rightarrow> s | Some t \<Rightarrow> modF t (\<lambda>x. x\<lparr>FileNext := Some f\<rparr>) s);
          s = modW (\<lambda>w. w\<lparr>Tail := Some f\<rparr>) s;
          s = (if Head (Wal s) = None then modW (\<lambda>w. w\<lparr>Head := Some f\<rparr>) s else s)
      in modW (\<lambda>w. w\<lparr>NFile := NFile w + 1\<rparr>) s)"

text \<open>\<open>&model.File{}\<close>: a zero file with its embedded sentinel job.\<close>

definition newFile :: "world \<Rightarrow> fref \<times> world" where
  "newFile s =
     (let f = nF s; h = nJ s in
      (f, s\<lparr>nF := Suc f, nJ := Suc h, J := (J s)(h := zero_job),
            F := (F s)(f := \<lparr>FileNext = None, Refs = 0, Seq = 0, IsWOpen = False, FFree = 0,
              FResv = 0, Path = [], JobList = h, FBytes = []\<rparr>)\<rparr>))"

section \<open>Reserving space\<close>

definition makeNextFile :: "world \<Rightarrow> (bool \<times> world) option" where
  "makeNextFile s =
     (let (f, s) = newFile s; (ok, s) = fileInit f (WNext (Wal s)) s in
      if \<not> ok then Some (False, s)
      else do {
        s \<leftarrow> fileWOpen f s;
        if \<not> IsWOpen (F s f) then Some (False, s)
        else Some (True, fileAdd f (modW (\<lambda>w. w\<lparr>WNext := WNext w + 1\<rparr>) s))
      })"

definition moveResv :: "fref \<Rightarrow> fref \<Rightarrow> int \<Rightarrow> world \<Rightarrow> world" where
  "moveResv to from n s =
     (let s = modF from (\<lambda>x. x\<lparr>FResv := FResv x - n, FFree := FFree x + n\<rparr>) s
      in modF to (\<lambda>x. x\<lparr>FResv := FResv x + n, FFree := FFree x - n\<rparr>) s)"

definition needFree :: "int \<Rightarrow> world \<Rightarrow> (int \<times> world) option" where
  "needFree n s =
     do {
       t \<leftarrow> Tail (Wal s);
       if FFree (F s t) \<ge> n then Some (n, s)
       else do { (ok, s) \<leftarrow> makeNextFile s; Some (if ok then n else 0, s) }
     }"

definition useNext :: "world \<Rightarrow> (bool \<times> world) option" where
  "useNext s =
     do {
       f \<leftarrow> Cur (Wal s);
       (case FileNext (F s f) of
          None \<Rightarrow> Some (False, s)
        | Some nx \<Rightarrow>
            do { s \<leftarrow> fileWClose (Some f) (modW (\<lambda>w. w\<lparr>Cur := Some nx\<rparr>) s); Some (True, s) })
     }"

partial_function (option) balanceRest :: "fref option \<Rightarrow> int \<Rightarrow> world \<Rightarrow> (int \<times> world) option" where
  "balanceRest bp n s =
     (case bp of
        None \<Rightarrow> Some (1, s)
      | Some b \<Rightarrow>
          let z = int64_size + rec_size; rest = FResv (F s b) - n; r = go_rem rest z in
          if r = 0 then balanceRest (FileNext (F s b)) 0 s
          else
            let c = z - r in
            do {
              t \<leftarrow> Tail (Wal s);
              if FResv (F s t) \<ge> c \<and> FFree (F s b) \<ge> c
              then let s = moveResv b t c s in balanceRest (FileNext (F s b)) 0 s
              else do {
                (m, s) \<leftarrow> needFree r s;
                if m \<noteq> r then Some (0, s)
                else do {
                  t \<leftarrow> Tail (Wal s);
                  let s = moveResv t b r s;
                  balanceRest (FileNext (F s b)) 0 s
                }
              }
            })"

declare balanceRest.simps [code]

partial_function (option) balance :: "int \<Rightarrow> world \<Rightarrow> (int \<times> world) option" where
  "balance n s =
     do {
       c \<leftarrow> Cur (Wal s);
       let m = FResv (F s c);
       if m < n
       then do {
         (k, s) \<leftarrow> needFree m s;
         if k \<noteq> m then Some (0, s)
         else do {
           t \<leftarrow> Tail (Wal s);
           let s = moveResv t c m s;
           (_, s) \<leftarrow> useNext s;
           balance n s
         }
       }
       else balanceRest (Some c) n s
     }"

declare balance.simps [code]

definition reserve :: "int \<Rightarrow> world \<Rightarrow> (int \<times> world) option" where
  "reserve n s =
     (if \<not> WalUse (Wal s) then Some (1, s)
      else do {
        c \<leftarrow> Cur (Wal s);
        if FFree (F s c) \<ge> n
        then Some (n, modW (\<lambda>w. w\<lparr>WResv := WResv w + n\<rparr>)
                       (modF c (\<lambda>x. x\<lparr>FFree := FFree x - n, FResv := FResv x + n\<rparr>) s))
        else do {
          (m, s) \<leftarrow> needFree n s;
          if m \<noteq> n then Some (0, s)
          else do {
            t \<leftarrow> Tail (Wal s);
            let s = modF t (\<lambda>x. x\<lparr>FFree := FFree x - n, FResv := FResv x + n\<rparr>) s;
            let s = modW (\<lambda>w. w\<lparr>WResv := WResv w + n\<rparr>) s;
            (b, s) \<leftarrow> balance n s;
            if b = 0
            then do {
              let s = modW (\<lambda>w. w\<lparr>WResv := WResv w - n\<rparr>) s;
              t \<leftarrow> Tail (Wal s);
              Some (0, modF t (\<lambda>x. x\<lparr>FResv := FResv x - n, FFree := FFree x + n\<rparr>) s)
            }
            else Some (n, s)
          }
        }
      })"

definition WalResvUpdate :: "world \<Rightarrow> (int \<times> world) option" where
  "WalResvUpdate s = reserve (int64_size + rec_size) s"

definition walResvMigrate :: "jref \<Rightarrow> world \<Rightarrow> (int \<times> world) option" where
  "walResvMigrate j s =
     do {
       t \<leftarrow> JTube (J s j);
       reserve (int64_size + int (length (Name (T s t))) + rec_size + BodySize (R (J s j))) s
     }"

definition WalResvPut :: "jref \<Rightarrow> world \<Rightarrow> (int \<times> world) option" where
  "WalResvPut j s =
     do {
       t \<leftarrow> JTube (J s j);
       reserve (int64_size + int (length (Name (T s t))) + rec_size + BodySize (R (J s j)) +
                int64_size + rec_size) s
     }"

section \<open>Writing records, compaction, sync\<close>

definition WalWrite :: "jref \<Rightarrow> world \<Rightarrow> (bool \<times> world) option" where
  "WalWrite j s =
     (if \<not> WalUse (Wal s) then Some (True, s)
      else do {
        c \<leftarrow> Cur (Wal s);
        (room, s) \<leftarrow> (if FResv (F s c) > 0 then Some (True, s) else useNext s);
        (ok, s) \<leftarrow>
          (if room
           then do {
             c \<leftarrow> Cur (Wal s);
             if JFile (J s j) \<noteq> None then fileWrJobShort c j s else fileWrJobFull c j s
           }
           else Some (False, s));
        s \<leftarrow> (if \<not> ok
              then do { s \<leftarrow> fileWClose (Cur (Wal s)) s; Some (modW (\<lambda>w. w\<lparr>WalUse := False\<rparr>) s) }
              else Some s);
        Some (ok, modW (\<lambda>w. w\<lparr>Nrec := Nrec w + 1\<rparr>) s)
      })"

definition ratio :: "world \<Rightarrow> int" where
  "ratio s =
     (let d = Alive (Wal s) + WResv (Wal s); n = NFile (Wal s) * FileSize (Wal s) - d in
      if d \<le> 0 then 0 else go_quo n d)"

definition moveOne :: "world \<Rightarrow> world option" where
  "moveOne s =
     (if Head (Wal s) = Cur (Wal s) then Some s
      else do {
        h \<leftarrow> Head (Wal s);
        if FileNext (F s h) = Cur (Wal s) then Some s
        else
          (case FNext (J s (JobList (F s h))) of
             None \<Rightarrow> Some s
           | Some j \<Rightarrow>
               if j = JobList (F s h) then Some s
               else do {
                 (z, s) \<leftarrow> walResvMigrate j s;
                 if z \<le> 0 then Some s
                 else do {
                   s \<leftarrow> FileRmJob (Head (Wal s)) j s;
                   let s = modW (\<lambda>w. w\<lparr>Nmig := Nmig w + 1\<rparr>) s;
                   (_, s) \<leftarrow> WalWrite j s;
                   Some s
                 }
               })
      })"

text \<open>\<open>for r := ratio(w); r >= 2; r-- { moveOne(w) }\<close>: \<open>r - 1\<close> turns.\<close>

fun repeatM :: "nat \<Rightarrow> ('s \<Rightarrow> 's option) \<Rightarrow> 's \<Rightarrow> 's option" where
  "repeatM 0 f s = Some s"
| "repeatM (Suc n) f s = do { s \<leftarrow> f s; repeatM n f s }"

definition walCompact :: "world \<Rightarrow> world option" where
  "walCompact s = repeatM (nat (ratio s - 1)) moveOne s"

text \<open>A failed \<open>fsync\<close> is only logged, so the file \<open>Cur\<close> is just dereferenced.\<close>

definition WalSync :: "world \<Rightarrow> world option" where
  "WalSync s =
     (let (now, s) = time_Now s in
      if \<not> WantSync (Wal s) \<or> now < LastSync (Wal s) + SyncRate (Wal s) then Some s
      else do { c \<leftarrow> Cur (Wal s); Some s })"

definition WalMain :: "world \<Rightarrow> world option" where
  "WalMain s =
     (if WalUse (Wal s) then do { s \<leftarrow> walCompact s; WalSync s } else Some s)"

section \<open>BuryJob\<close>

definition BuryJob :: "jref \<Rightarrow> bool \<Rightarrow> world \<Rightarrow> (bool \<times> world) option" where
  "BuryJob j updateStore s =
     do {
       (z, s) \<leftarrow> (if updateStore then WalResvUpdate s else Some (1, s));
       if updateStore \<and> z \<le> 0 then Some (False, s)
       else do {
         let s = (if updateStore then modJ j (\<lambda>x. x\<lparr>WalResv := WalResv x + z\<rparr>) s else s);
         t \<leftarrow> JTube (J s j);
         s \<leftarrow> JobListInsert (BuriedL (T s t)) j s;
         let s = modG (\<lambda>g. g\<lparr>BuriedCt := BuriedCt g + 1\<rparr>) s;
         let s = modStat t (\<lambda>g. g\<lparr>BuriedCt := BuriedCt g + 1\<rparr>) s;
         let s = modR j (\<lambda>r. r\<lparr>RState := Buried\<rparr>) s;
         let s = modJ j (\<lambda>x. x\<lparr>Reservoir := None\<rparr>) s;
         let s = modR j (\<lambda>r. r\<lparr>BuryCt := BuryCt r + 1\<rparr>) s;
         if updateStore
         then do {
           (ok, s) \<leftarrow> WalWrite j s;
           if \<not> ok then Some (False, s) else do { s \<leftarrow> WalMain s; Some (True, s) }
         }
         else Some (True, s)
       }
     }"

end
