(* ===== verification/ConnOps.thy ===== *)
theory ConnOps
  imports WalOps
begin

unbundle bit_operations_syntax

text \<open>
  \<open>net/conn.go\<close>, the operations on one connection that do not enqueue jobs: its type bits, the
  watch callbacks, the cached soonest reserved job, the time it must be looked at next and its
  place in the server's heap \<open>Connes\<close>, and reserving a job for it. With them, the socket layer of
  \<open>net/linux.go\<close> as far as the protocol sees it.
\<close>

section \<open>The watch list and its callbacks\<close>

definition onWatch :: "tref \<Rightarrow> int \<Rightarrow> world \<Rightarrow> world" where
  "onWatch t i s = modT t (\<lambda>x. x\<lparr>WatchingCt := WatchingCt x + 1\<rparr>) s"

definition onIgnore :: "tref \<Rightarrow> int \<Rightarrow> world \<Rightarrow> world" where
  "onIgnore t i s = modT t (\<lambda>x. x\<lparr>WatchingCt := WatchingCt x - 1\<rparr>) s"

text \<open>The operations of \<open>c.Watch\<close> the program calls, with the callbacks \<open>NewConn\<close> installs.\<close>

definition Watch_Append :: "cref \<Rightarrow> tref \<Rightarrow> world \<Rightarrow> world" where
  "Watch_Append c t s =
     (let (_, m, s) = ms_Append (Some onWatch) [t] (Watch (C s c)) s
      in modC c (\<lambda>x. x\<lparr>Watch := m\<rparr>) s)"

definition Watch_Remove :: "cref \<Rightarrow> tref \<Rightarrow> world \<Rightarrow> world" where
  "Watch_Remove c t s =
     (let (_, m, s) = ms_Remove (Some onIgnore) t (Watch (C s c)) s
      in modC c (\<lambda>x. x\<lparr>Watch := m\<rparr>) s)"

definition Watch_Clear :: "cref \<Rightarrow> world \<Rightarrow> world" where
  "Watch_Clear c s =
     (let (m, s) = ms_Clear (Some onIgnore) (Watch (C s c)) s
      in modC c (\<lambda>x. x\<lparr>Watch := m\<rparr>) s)"

text \<open>The callbacks keep a count per tube, and touch nothing else.\<close>

interpretation watching: ms_counted onWatch onIgnore "\<lambda>s t. WatchingCt (T s t)"
  by unfold_locales (auto simp: onWatch_def onIgnore_def upd fun_eq_iff)

definition only_watching :: "world \<Rightarrow> world \<Rightarrow> bool" where
  "only_watching s s' \<longleftrightarrow> (\<exists>w. s' = s\<lparr>T := \<lambda>t. T s t\<lparr>WatchingCt := w t\<rparr>\<rparr>)"

lemma only_watching_refl: "only_watching s s"
  unfolding only_watching_def by (rule exI [of _ "\<lambda>t. WatchingCt (T s t)"]) simp

lemma only_watching_trans: "only_watching s s' \<Longrightarrow> only_watching s' s'' \<Longrightarrow> only_watching s s''"
  unfolding only_watching_def by auto

lemma only_watching_callbacks: "only_watching s (onWatch t i s)" "only_watching s (onIgnore t i s)"
proof -
  show "only_watching s (onWatch t i s)"
    unfolding only_watching_def
    by (rule exI [of _ "(\<lambda>u. WatchingCt (T s u))(t := WatchingCt (T s t) + 1)"])
      (auto simp: onWatch_def modT_def fun_eq_iff intro!: arg_cong [where f = "\<lambda>m. s\<lparr>T := m\<rparr>"])
  show "only_watching s (onIgnore t i s)"
    unfolding only_watching_def
    by (rule exI [of _ "(\<lambda>u. WatchingCt (T s u))(t := WatchingCt (T s t) - 1)"])
      (auto simp: onIgnore_def modT_def fun_eq_iff intro!: arg_cong [where f = "\<lambda>m. s\<lparr>T := m\<rparr>"])
qed

section \<open>Reserved jobs and deadlines\<close>

definition connWaiting :: "coon \<Rightarrow> bool" where
  "connWaiting x \<longleftrightarrow> CType x AND ConnTypeWaiting > 0"

definition hasReservedJob :: "cref \<Rightarrow> world \<Rightarrow> bool" where
  "hasReservedJob c s \<longleftrightarrow> \<not> JobListEmpty (ReservedJobs (C s c)) s"

definition setSoonestJob :: "cref \<Rightarrow> jref \<Rightarrow> world \<Rightarrow> world" where
  "setSoonestJob c j s =
     (case SoonestJob (C s c) of
        None \<Rightarrow> modC c (\<lambda>x. x\<lparr>SoonestJob := Some j\<rparr>) s
      | Some k \<Rightarrow>
          if DeadlineAt (R (J s j)) < DeadlineAt (R (J s k))
          then modC c (\<lambda>x. x\<lparr>SoonestJob := Some j\<rparr>) s else s)"

text \<open>\<open>for j := head.Next; j != head; j = j.Next\<close>; a nil \<open>j\<close> panics in the body.\<close>

partial_function (option) soonest_loop :: "cref \<Rightarrow> jref option \<Rightarrow> world \<Rightarrow> world option" where
  "soonest_loop c jp s =
     (case jp of
        None \<Rightarrow> None
      | Some j \<Rightarrow>
          if j = ReservedJobs (C s c) then Some s
          else (let s = setSoonestJob c j s in soonest_loop c (Next (J s j)) s))"

declare soonest_loop.simps [code]

definition connSoonestJob :: "cref \<Rightarrow> world \<Rightarrow> (jref option \<times> world) option" where
  "connSoonestJob c s =
     (if SoonestJob (C s c) \<noteq> None then Some (SoonestJob (C s c), s)
      else do {
        s \<leftarrow> soonest_loop c (Next (J s (ReservedJobs (C s c)))) s;
        Some (SoonestJob (C s c), s)
      })"

definition connDeadLineSoon :: "cref \<Rightarrow> world \<Rightarrow> (bool \<times> world) option" where
  "connDeadLineSoon c s =
     (let (t, s) = time_Now s in
      do {
        (jp, s) \<leftarrow> connSoonestJob c s;
        (case jp of
           None \<Rightarrow> Some (False, s)
         | Some j \<Rightarrow> Some (\<not> t < i64 (DeadlineAt (R (J s j)) - SafetyMargin), s))
      })"

definition connReady :: "cref \<Rightarrow> world \<Rightarrow> bool" where
  "connReady c s \<longleftrightarrow> ms_search (\<lambda>t. heap_Len (ReadyQ (T s t)) > 0) (Watch (C s c)) \<noteq> None"

definition removeThisReservedJob :: "cref \<Rightarrow> jref \<Rightarrow> world \<Rightarrow> (jref \<times> world) option" where
  "removeThisReservedJob c j s =
     do {
       (_, s) \<leftarrow> JobListRemove (Some j) s;
       let s = modG (\<lambda>g. g\<lparr>ReservedCt := ReservedCt g - 1\<rparr>) s;
       t \<leftarrow> JTube (J s j);
       let s = modStat t (\<lambda>g. g\<lparr>ReservedCt := ReservedCt g - 1\<rparr>) s;
       let s = modJ j (\<lambda>x. x\<lparr>Reservoir := None\<rparr>) s;
       let s = modC c (\<lambda>x. x\<lparr>SoonestJob := None\<rparr>) s;
       Some (j, s)
     }"

definition coonTickAt :: "cref \<Rightarrow> world \<Rightarrow> (int \<times> world) option" where
  "coonTickAt c s =
     (let margin = (if connWaiting (C s c) then SafetyMargin else 0) in
      do {
        (shouldTimeout, t, s) \<leftarrow>
          (if hasReservedJob c s
           then do {
             (jp, s) \<leftarrow> connSoonestJob c s;
             j \<leftarrow> jp;
             let (now, s) = time_Now s;
             Some (True, i64 (i64 (DeadlineAt (R (J s j)) - now) - margin), s)
           }
           else Some (False, 2 ^ 63 - 1, s));
        let (shouldTimeout, t) =
          (if PendingTimeout (C s c) \<ge> 0
           then (True, i64_of_f64 (min (f64 t) (f64 (f64 (PendingTimeout (C s c)) * 1000000000))))
           else (shouldTimeout, t));
        if shouldTimeout
        then (let (now, s) = time_Now s in Some (i64 (now + t), s))
        else Some (0, s)
      })"

section \<open>The server's heap of connections\<close>

definition connLess :: "(cref \<Rightarrow> coon) \<Rightarrow> cref \<Rightarrow> cref \<Rightarrow> bool" where
  "connLess m a b \<longleftrightarrow> TickAt (m a) < TickAt (m b)"

definition connSetPos :: "cref item \<Rightarrow> int \<Rightarrow> world \<Rightarrow> world" where
  "connSetPos it i s = modC (Value it) (\<lambda>x. x\<lparr>TickPos := i\<rparr>) s"

interpretation tick: weak_less "connLess m" for m
  by unfold_locales (auto simp: connLess_def)

definition Connes_Remove :: "int \<Rightarrow> world \<Rightarrow> world option" where
  "Connes_Remove i s =
     do { (_, h) \<leftarrow> heap_Remove (connLess (C s)) i (Connes s); Some (s\<lparr>Connes := h\<rparr>) }"

definition Connes_Push :: "cref \<Rightarrow> world \<Rightarrow> world" where
  "Connes_Push c s = s\<lparr>Connes := snd (heap_Push (connLess (C s)) (newItem c) (Connes s))\<rparr>"

definition connSched :: "cref \<Rightarrow> world \<Rightarrow> world option" where
  "connSched c s =
     do {
       s \<leftarrow> (if InCoons (C s c) > 0
             then do {
               s \<leftarrow> Connes_Remove (TickPos (C s c)) s;
               Some (modC c (\<lambda>x. x\<lparr>InCoons := 0\<rparr>) s)
             }
             else Some s);
       (t, s) \<leftarrow> coonTickAt c s;
       let s = modC c (\<lambda>x. x\<lparr>TickAt := t\<rparr>) s;
       if TickAt (C s c) > 0
       then Some (modC c (\<lambda>x. x\<lparr>InCoons := 1\<rparr>) (Connes_Push c s))
       else Some s
     }"

section \<open>Waiting and reserving\<close>

definition removeWaitingCoon :: "cref \<Rightarrow> world \<Rightarrow> world" where
  "removeWaitingCoon c s =
     (if CType (C s c) AND ConnTypeWaiting \<le> 0 then s
      else
        let s = modC c (\<lambda>x. x\<lparr>CType := CType x AND NOT ConnTypeWaiting\<rparr>) s;
            s = modG (\<lambda>g. g\<lparr>WaitingCt := WaitingCt g - 1\<rparr>) s
        in ms_each (\<lambda>t s.
             let s = modStat t (\<lambda>g. g\<lparr>WaitingCt := WaitingCt g - 1\<rparr>) s;
                 (_, m, s) = ms_Remove None c (WaitingConns (T s t)) s
             in modT t (\<lambda>x. x\<lparr>WaitingConns := m\<rparr>) s)
           (Watch (C s c)) s)"

definition reserveJob :: "cref \<Rightarrow> jref \<Rightarrow> world \<Rightarrow> world option" where
  "reserveJob c j s =
     do {
       t \<leftarrow> JTube (J s j);
       let s = modStat t (\<lambda>g. g\<lparr>ReservedCt := ReservedCt g + 1\<rparr>) s;
       let s = modR j (\<lambda>r. r\<lparr>ReserveCt := ReserveCt r + 1\<rparr>) s;
       let (now, s) = time_Now s;
       let s = modR j (\<lambda>r. r\<lparr>DeadlineAt := i64 (now + TTR r), RState := Reserved\<rparr>) s;
       s \<leftarrow> JobListInsert (ReservedJobs (C s c)) j s;
       let s = modJ j (\<lambda>x. x\<lparr>Reservoir := Some c\<rparr>) s;
       let s = modC c (\<lambda>x. x\<lparr>PendingTimeout := -1\<rparr>) s;
       Some (setSoonestJob c j s)
     }"

section \<open>Sockets\<close>

text \<open>\<open>sockWant(&c.Sock, rw)\<close>: the socket is registered once, then modified or removed; the
  result is the error of \<open>epoll_ctl\<close>. \<open>rw = 0\<close> asks for removal, which leaves \<open>Added\<close> set.\<close>

definition sockWant :: "cref \<Rightarrow> char \<Rightarrow> world \<Rightarrow> bool \<times> world" where
  "sockWant c rw s =
     (if \<not> SockAdded (C s c) \<and> rw = CHR 0x00 then (True, s)
      else
        let s = (if \<not> SockAdded (C s c) then modC c (\<lambda>x. x\<lparr>SockAdded := True\<rparr>) s else s)
        in syscall_ok s)"

end
