(* ===== verification/ProtOps.thy ===== *)
theory ProtOps
  imports ConnOps
begin

text \<open>
  The moving parts of \<open>net/prot.go\<close>: the list \<open>epollQ\<close> of connections whose socket interest
  changes, replies, matching ready jobs with waiting connections (\<open>processQueue\<close>), enqueueing
  a job, the removals from the queues, kicking; and the functions of \<open>net/conn.go\<close> that build
  on them (time-outs, closing a connection).
\<close>

section \<open>Replies\<close>

definition EpollQAdd :: "cref \<Rightarrow> char \<Rightarrow> world \<Rightarrow> world option" where
  "EpollQAdd c rw s =
     do {
       let s = modC c (\<lambda>x. x\<lparr>Rw := rw\<rparr>) s;
       s \<leftarrow> connSched c s;
       let s = modC c (\<lambda>x. x\<lparr>CNext := epollQ s\<rparr>) s;
       Some (s\<lparr>epollQ := Some c\<rparr>)
     }"

text \<open>The warnings \<open>reply\<close> logs for some messages only read the state.\<close>

definition reply :: "cref \<Rightarrow> string \<Rightarrow> int \<Rightarrow> conn_state \<Rightarrow> world \<Rightarrow> world option" where
  "reply c line len state s =
     do {
       s \<leftarrow> EpollQAdd c (CHR ''w'') s;
       Some (modC c (\<lambda>x. x\<lparr>Reply := line, ReplyLen := len, ReplySent := 0, CState := state\<rparr>) s)
     }"

definition replyMsg :: "cref \<Rightarrow> string \<Rightarrow> world \<Rightarrow> world option" where
  "replyMsg c m s = reply c m (int (length m)) StateSendWord s"

definition replyErr :: "cref \<Rightarrow> string \<Rightarrow> world \<Rightarrow> world option" where
  "replyErr c err s = replyMsg c (''server error: '' @ err) s"

text \<open>\<open>replyLine\<close> with the text \<open>Sprintf\<close> produced. An over-long line sends the error reply
  first and goes on with the line.\<close>

definition replyLine :: "cref \<Rightarrow> conn_state \<Rightarrow> string \<Rightarrow> world \<Rightarrow> world option" where
  "replyLine c state text s =
     do {
       let s = modC c (\<lambda>x. x\<lparr>ReplyBuf := text\<rparr>) s;
       let r = int (length text);
       s \<leftarrow> (if r \<ge> LineBufSize then replyErr c MsgInternalError s else Some s);
       reply c (ReplyBuf (C s c)) r state s
     }"

definition replyJob :: "cref \<Rightarrow> jref \<Rightarrow> string \<Rightarrow> world \<Rightarrow> world option" where
  "replyJob c j msg s =
     (let s = modC c (\<lambda>x. x\<lparr>OutJob := Some j\<rparr>) s;
          s = modC c (\<lambda>x. x\<lparr>OutJobSent := 0\<rparr>) s
      in replyLine c StateSendJob
           (msg @ '' '' @ dec_nat (unat (ID (R (J s j)))) @ '' '' @
            dec_int (BodySize (R (J s j)) - 2) @ CRLF) s)"

section \<open>The queues of a tube\<close>

definition Ready_Push :: "tref \<Rightarrow> jref \<Rightarrow> world \<Rightarrow> bool \<times> world" where
  "Ready_Push t j s =
     (let (ok, h) = heap_Push (JobPriLess (J s)) (newItem j) (ReadyQ (T s t))
      in (ok, modT t (\<lambda>x. x\<lparr>ReadyQ := h\<rparr>) s))"

definition Ready_Remove :: "tref \<Rightarrow> int \<Rightarrow> world \<Rightarrow> (jref \<times> world) option" where
  "Ready_Remove t i s =
     do {
       (it, h) \<leftarrow> heap_Remove (JobPriLess (J s)) i (ReadyQ (T s t));
       Some (Value it, modT t (\<lambda>x. x\<lparr>ReadyQ := h\<rparr>) s)
     }"

definition Delay_Push :: "tref \<Rightarrow> jref \<Rightarrow> world \<Rightarrow> bool \<times> world" where
  "Delay_Push t j s =
     (let (ok, h) = heap_Push (JobDelayLess (J s)) (newItem j) (DelayQ (T s t))
      in (ok, modT t (\<lambda>x. x\<lparr>DelayQ := h\<rparr>) s))"

definition Delay_Remove :: "tref \<Rightarrow> int \<Rightarrow> world \<Rightarrow> (jref \<times> world) option" where
  "Delay_Remove t i s =
     do {
       (it, h) \<leftarrow> heap_Remove (JobDelayLess (J s)) i (DelayQ (T s t));
       Some (Value it, modT t (\<lambda>x. x\<lparr>DelayQ := h\<rparr>) s)
     }"

definition Waiting_Take :: "tref \<Rightarrow> world \<Rightarrow> cref option \<times> world" where
  "Waiting_Take t s =
     (let (ci, m, s) = ms_Take None (WaitingConns (T s t)) s
      in (ci, modT t (\<lambda>x. x\<lparr>WaitingConns := m\<rparr>) s))"

section \<open>processQueue and enqueueJob\<close>

text \<open>The bookkeeping for a job that leaves the ready queue.\<close>

definition ready_left :: "jref \<Rightarrow> tref \<Rightarrow> world \<Rightarrow> world" where
  "ready_left j t s =
     (let s = s\<lparr>ReadyCt := ReadyCt s - 1\<rparr> in
      if Pri (R (J s j)) < UrgentThreshold
      then modStat t (\<lambda>g. g\<lparr>UrgentCt := UrgentCt g - 1\<rparr>)
             (modG (\<lambda>g. g\<lparr>UrgentCt := UrgentCt g - 1\<rparr>) s)
      else s)"

partial_function (option) processQueue_loop :: "int \<Rightarrow> world \<Rightarrow> world option" where
  "processQueue_loop now s =
     (let (jp, s) = NextAwaitedJob now s in
      case jp of
        None \<Rightarrow> Some s
      | Some j \<Rightarrow>
          do {
            t \<leftarrow> JTube (J s j);
            (_, s) \<leftarrow> Ready_Remove t (HeapIndex (J s j)) s;
            let s = ready_left j t s;
            let (ci, s) = Waiting_Take t s;
            (case ci of
               None \<Rightarrow> processQueue_loop now s
             | Some c \<Rightarrow>
                 do {
                   let s = modG (\<lambda>g. g\<lparr>ReservedCt := ReservedCt g + 1\<rparr>) s;
                   let s = removeWaitingCoon c s;
                   s \<leftarrow> reserveJob c j s;
                   s \<leftarrow> replyJob c j MsgReserved s;
                   processQueue_loop now s
                 })
          })"

declare processQueue_loop.simps [code]

definition processQueue :: "world \<Rightarrow> world option" where
  "processQueue s = (let (now, s) = time_Now s in processQueue_loop now s)"

definition enqueueJob :: "jref \<Rightarrow> int \<Rightarrow> bool \<Rightarrow> world \<Rightarrow> (int \<times> world) option" where
  "enqueueJob j delay updateStore s =
     do {
       let s = modJ j (\<lambda>x. x\<lparr>Reservoir := None\<rparr>) s;
       (pushed, s) \<leftarrow>
         (if delay > 0
          then do {
            let s = modR j (\<lambda>r. r\<lparr>RState := Delayed\<rparr>) s;
            let (now, s) = time_Now s;
            let s = modR j (\<lambda>r. r\<lparr>DeadlineAt := i64 (now + delay)\<rparr>) s;
            t \<leftarrow> JTube (J s j);
            Some (Delay_Push t j s)
          }
          else do {
            let s = modR j (\<lambda>r. r\<lparr>RState := Ready\<rparr>) s;
            t \<leftarrow> JTube (J s j);
            let (pushed, s) = Ready_Push t j s;
            if \<not> pushed then Some (False, s)
            else
              let s = s\<lparr>ReadyCt := ReadyCt s + 1\<rparr> in
              Some (True,
                if Pri (R (J s j)) < UrgentThreshold
                then modStat t (\<lambda>g. g\<lparr>UrgentCt := UrgentCt g + 1\<rparr>)
                       (modG (\<lambda>g. g\<lparr>UrgentCt := UrgentCt g + 1\<rparr>) s)
                else s)
          });
       if \<not> pushed then Some (0, s)
       else do {
         (stored, s) \<leftarrow> (if updateStore then WalWrite j s else Some (True, s));
         if \<not> stored then Some (0, s)
         else do {
           s \<leftarrow> (if updateStore then WalMain s else Some s);
           s \<leftarrow> processQueue s;
           Some (1, s)
         }
       }
     }"

section \<open>Removing a job from where its state says it is\<close>

definition removeBuriedJob :: "jref option \<Rightarrow> world \<Rightarrow> (jref option \<times> world) option" where
  "removeBuriedJob jp s =
     (case jp of
        None \<Rightarrow> Some (None, s)
      | Some j \<Rightarrow>
          if RState (R (J s j)) \<noteq> Buried then Some (None, s)
          else do {
            (jp, s) \<leftarrow> JobListRemove (Some j) s;
            (case jp of
               None \<Rightarrow> Some (None, s)
             | Some j \<Rightarrow>
                 do {
                   let s = modG (\<lambda>g. g\<lparr>BuriedCt := BuriedCt g - 1\<rparr>) s;
                   t \<leftarrow> JTube (J s j);
                   Some (Some j, modStat t (\<lambda>g. g\<lparr>BuriedCt := BuriedCt g - 1\<rparr>) s)
                 })
          })"

definition isJobReservedByConn :: "cref \<Rightarrow> jref option \<Rightarrow> world \<Rightarrow> bool" where
  "isJobReservedByConn c jp s \<longleftrightarrow>
     (case jp of None \<Rightarrow> False
      | Some j \<Rightarrow> Reservoir (J s j) = Some c \<and> RState (R (J s j)) = Reserved)"

definition removeReservedJob :: "cref \<Rightarrow> jref option \<Rightarrow> world \<Rightarrow> (jref option \<times> world) option" where
  "removeReservedJob c jp s =
     (if \<not> isJobReservedByConn c jp s then Some (None, s)
      else do { j \<leftarrow> jp; (j, s) \<leftarrow> removeThisReservedJob c j s; Some (Some j, s) })"

definition touchJob :: "cref \<Rightarrow> jref option \<Rightarrow> world \<Rightarrow> (bool \<times> world) option" where
  "touchJob c jp s =
     (if \<not> isJobReservedByConn c jp s then Some (False, s)
      else do {
        j \<leftarrow> jp;
        let (now, s) = time_Now s;
        let s = modR j (\<lambda>r. r\<lparr>DeadlineAt := i64 (now + TTR r)\<rparr>) s;
        Some (True, modC c (\<lambda>x. x\<lparr>SoonestJob := None\<rparr>) s)
      })"

definition removeDelayedJob :: "jref option \<Rightarrow> world \<Rightarrow> (jref option \<times> world) option" where
  "removeDelayedJob jp s =
     (case jp of
        None \<Rightarrow> Some (None, s)
      | Some j \<Rightarrow>
          if RState (R (J s j)) \<noteq> Delayed then Some (None, s)
          else do {
            t \<leftarrow> JTube (J s j);
            (_, s) \<leftarrow> Delay_Remove t (HeapIndex (J s j)) s;
            Some (Some j, s)
          })"

definition removeReadyJob :: "jref option \<Rightarrow> world \<Rightarrow> (jref option \<times> world) option" where
  "removeReadyJob jp s =
     (case jp of
        None \<Rightarrow> Some (None, s)
      | Some j \<Rightarrow>
          if RState (R (J s j)) \<noteq> Ready then Some (None, s)
          else do {
            t \<leftarrow> JTube (J s j);
            (_, s) \<leftarrow> Ready_Remove t (HeapIndex (J s j)) s;
            Some (Some j, ready_left j t s)
          })"

section \<open>Kicking\<close>

definition buriedJobP :: "tref \<Rightarrow> world \<Rightarrow> bool" where
  "buriedJobP t s \<longleftrightarrow> \<not> JobListEmpty (BuriedL (T s t)) s"

definition kickBuriedJob :: "jref \<Rightarrow> world \<Rightarrow> (bool \<times> world) option" where
  "kickBuriedJob j s =
     do {
       (z, s) \<leftarrow> WalResvUpdate s;
       if z \<le> 0 then Some (False, s)
       else do {
         let s = modJ j (\<lambda>x. x\<lparr>WalResv := WalResv x + z\<rparr>) s;
         (_, s) \<leftarrow> removeBuriedJob (Some j) s;
         let s = modR j (\<lambda>r. r\<lparr>KickCt := KickCt r + 1\<rparr>) s;
         (r, s) \<leftarrow> enqueueJob j 0 True s;
         if r = 1 then Some (True, s)
         else do { (_, s) \<leftarrow> BuryJob j False s; Some (False, s) }
       }
     }"

definition kickDelayedJob :: "jref \<Rightarrow> world \<Rightarrow> (bool \<times> world) option" where
  "kickDelayedJob j s =
     do {
       (z, s) \<leftarrow> WalResvUpdate s;
       if z \<le> 0 then Some (False, s)
       else do {
         let s = modJ j (\<lambda>x. x\<lparr>WalResv := WalResv x + z\<rparr>) s;
         t \<leftarrow> JTube (J s j);
         (_, s) \<leftarrow> Delay_Remove t (HeapIndex (J s j)) s;
         let s = modR j (\<lambda>r. r\<lparr>KickCt := KickCt r + 1\<rparr>) s;
         (r, s) \<leftarrow> enqueueJob j 0 True s;
         if r = 1 then Some (True, s)
         else do {
           (r, s) \<leftarrow> enqueueJob j (Delay (R (J s j))) False s;
           if r = 1 then Some (False, s)
           else do { (_, s) \<leftarrow> BuryJob j False s; Some (False, s) }
         }
       }
     }"

text \<open>The loops count up to \<open>n\<close>; the argument is what is left to do, the result the number of
  turns made. A turn whose kick fails is counted too.\<close>

fun kickBuried_loop :: "tref \<Rightarrow> nat \<Rightarrow> world \<Rightarrow> (nat \<times> world) option" where
  "kickBuried_loop t 0 s = Some (0, s)"
| "kickBuried_loop t (Suc n) s =
     (if \<not> buriedJobP t s then Some (0, s)
      else do {
        j \<leftarrow> Next (J s (BuriedL (T s t)));
        (_, s) \<leftarrow> kickBuriedJob j s;
        (i, s) \<leftarrow> kickBuried_loop t n s;
        Some (Suc i, s)
      })"

definition kickBuriedJobs :: "tref \<Rightarrow> nat \<Rightarrow> world \<Rightarrow> (nat \<times> world) option" where
  "kickBuriedJobs t n s = kickBuried_loop t n s"

fun kickDelayed_loop :: "tref \<Rightarrow> nat \<Rightarrow> world \<Rightarrow> (nat \<times> world) option" where
  "kickDelayed_loop t 0 s = Some (0, s)"
| "kickDelayed_loop t (Suc n) s =
     (if heap_Len (DelayQ (T s t)) = 0 then Some (0, s)
      else do {
        s \<leftarrow> (case heap_Take 0 (DelayQ (T s t)) of
                None \<Rightarrow> Some s
              | Some d \<Rightarrow> do { (_, s) \<leftarrow> kickDelayedJob (Value d) s; Some s });
        (i, s) \<leftarrow> kickDelayed_loop t n s;
        Some (Suc i, s)
      })"

definition kickDelayedJobs :: "tref \<Rightarrow> nat \<Rightarrow> world \<Rightarrow> (nat \<times> world) option" where
  "kickDelayedJobs t n s = kickDelayed_loop t n s"

definition kickJobs :: "tref \<Rightarrow> nat \<Rightarrow> world \<Rightarrow> (nat \<times> world) option" where
  "kickJobs t n s = (if buriedJobP t s then kickBuriedJobs t n s else kickDelayedJobs t n s)"

section \<open>Connections: type bits, waiting\<close>

definition connSetProducer :: "cref \<Rightarrow> world \<Rightarrow> world" where
  "connSetProducer c s =
     (if CType (C s c) AND ConnTypeProducer > 0 then s
      else
        let s = modC c (\<lambda>x. x\<lparr>CType := CType x OR ConnTypeProducer\<rparr>) s
        in s\<lparr>CurProducerCt := CurProducerCt s + 1\<rparr>)"

definition connSetWorker :: "cref \<Rightarrow> world \<Rightarrow> world" where
  "connSetWorker c s =
     (if CType (C s c) AND ConnTypeWorker > 0 then s
      else
        let s = modC c (\<lambda>x. x\<lparr>CType := CType x OR ConnTypeWorker\<rparr>) s
        in s\<lparr>CurWorkerCt := CurWorkerCt s + 1\<rparr>)"

text \<open>\<open>connSetSoonestJob\<close> and \<open>connReserveJob\<close> repeat \<open>setSoonestJob\<close> and \<open>reserveJob\<close>.\<close>

definition connSetSoonestJob :: "cref \<Rightarrow> jref \<Rightarrow> world \<Rightarrow> world" where
  "connSetSoonestJob c j s =
     (case SoonestJob (C s c) of
        None \<Rightarrow> modC c (\<lambda>x. x\<lparr>SoonestJob := Some j\<rparr>) s
      | Some k \<Rightarrow>
          if DeadlineAt (R (J s j)) < DeadlineAt (R (J s k))
          then modC c (\<lambda>x. x\<lparr>SoonestJob := Some j\<rparr>) s else s)"

definition connReserveJob :: "cref \<Rightarrow> jref \<Rightarrow> world \<Rightarrow> world option" where
  "connReserveJob c j s =
     do {
       t \<leftarrow> JTube (J s j);
       let s = modStat t (\<lambda>g. g\<lparr>ReservedCt := ReservedCt g + 1\<rparr>) s;
       let s = modR j (\<lambda>r. r\<lparr>ReserveCt := ReserveCt r + 1\<rparr>) s;
       let (now, s) = time_Now s;
       let s = modR j (\<lambda>r. r\<lparr>DeadlineAt := i64 (now + TTR r), RState := Reserved\<rparr>) s;
       s \<leftarrow> JobListInsert (ReservedJobs (C s c)) j s;
       let s = modJ j (\<lambda>x. x\<lparr>Reservoir := Some c\<rparr>) s;
       let s = modC c (\<lambda>x. x\<lparr>PendingTimeout := -1\<rparr>) s;
       Some (connSetSoonestJob c j s)
     }"

definition enqueueWaitingConn :: "cref \<Rightarrow> world \<Rightarrow> world" where
  "enqueueWaitingConn c s =
     (let s = modC c (\<lambda>x. x\<lparr>CType := CType x OR ConnTypeWaiting\<rparr>) s;
          s = modG (\<lambda>g. g\<lparr>WaitingCt := WaitingCt g + 1\<rparr>) s
      in ms_each (\<lambda>t s.
           let s = modStat t (\<lambda>g. g\<lparr>WaitingCt := WaitingCt g + 1\<rparr>) s;
               (_, m, s) = ms_Append None [c] (WaitingConns (T s t)) s
           in modT t (\<lambda>x. x\<lparr>WaitingConns := m\<rparr>) s)
         (Watch (C s c)) s)"

definition waitForJob :: "cref \<Rightarrow> int \<Rightarrow> world \<Rightarrow> world option" where
  "waitForJob c timeout s =
     (let s = modC c (\<lambda>x. x\<lparr>CState := StateWait\<rparr>) s;
          s = enqueueWaitingConn c s;
          s = modC c (\<lambda>x. x\<lparr>PendingTimeout := timeout\<rparr>) s
      in EpollQAdd c (CHR ''h'') s)"

section \<open>Time-outs and closing a connection\<close>

text \<open>The loop of \<open>connTimeout\<close> over the reserved jobs that are overdue.\<close>

partial_function (option) connTimeout_loop :: "cref \<Rightarrow> world \<Rightarrow> world option" where
  "connTimeout_loop c s =
     do {
       (jp, s) \<leftarrow> connSoonestJob c s;
       (case jp of
          None \<Rightarrow> Some s
        | Some j \<Rightarrow>
            (let (now, s) = time_Now s in
             if DeadlineAt (R (J s j)) \<ge> now then Some s
             else do {
               let s = (if OutJob (C s c) = Some j
                        then (let (n, s) = JobCopy (OutJob (C s c)) s
                              in modC c (\<lambda>x. x\<lparr>OutJob := n\<rparr>) s)
                        else s);
               let s = s\<lparr>JobTimeoutCt := JobTimeoutCt s + 1\<rparr>;
               let s = modR j (\<lambda>r. r\<lparr>TimeoutCt := TimeoutCt r + 1\<rparr>) s;
               (j, s) \<leftarrow> removeThisReservedJob c j s;
               (r, s) \<leftarrow> enqueueJob j 0 False s;
               s \<leftarrow> (if r < 1 then do { (_, s) \<leftarrow> BuryJob j False s; Some s } else Some s);
               s \<leftarrow> connSched c s;
               connTimeout_loop c s
             }))
     }"

declare connTimeout_loop.simps [code]

definition connTimeout :: "cref \<Rightarrow> world \<Rightarrow> world option" where
  "connTimeout c s =
     do {
       (shouldTimeOut, s) \<leftarrow>
         (if connWaiting (C s c) then connDeadLineSoon c s else Some (False, s));
       s \<leftarrow> connTimeout_loop c s;
       if shouldTimeOut
       then replyMsg c MsgDeadlineSoon (removeWaitingCoon c s)
       else if connWaiting (C s c) \<and> PendingTimeout (C s c) \<ge> 0
       then
         let s = modC c (\<lambda>x. x\<lparr>PendingTimeout := -1\<rparr>) s
         in replyMsg c MsgTimedOut (removeWaitingCoon c s)
       else Some s
     }"

partial_function (option) enqueueReservedJobs :: "cref \<Rightarrow> world \<Rightarrow> world option" where
  "enqueueReservedJobs c s =
     (if JobListEmpty (ReservedJobs (C s c)) s then Some s
      else do {
        (jp, s) \<leftarrow> JobListRemove (Next (J s (ReservedJobs (C s c)))) s;
        j \<leftarrow> jp;
        (r, s) \<leftarrow> enqueueJob j 0 False s;
        s \<leftarrow> (if r = 0 then do { (_, s) \<leftarrow> BuryJob j False s; Some s } else Some s);
        let s = modG (\<lambda>g. g\<lparr>ReservedCt := ReservedCt g - 1\<rparr>) s;
        t \<leftarrow> JTube (J s j);
        let s = modStat t (\<lambda>g. g\<lparr>ReservedCt := ReservedCt g - 1\<rparr>) s;
        let s = modC c (\<lambda>x. x\<lparr>SoonestJob := None\<rparr>) s;
        enqueueReservedJobs c s
      })"

declare enqueueReservedJobs.simps [code]

definition connClose :: "cref \<Rightarrow> world \<Rightarrow> world option" where
  "connClose c s =
     (let (ok, s) = sockWant c (CHR 0x00) s in
      if \<not> ok then Some s
      else do {
        let s = modC c (\<lambda>x. x\<lparr>InJob := None, OutJob := None, InJobRead := 0\<rparr>) s;
        let s = (if CType (C s c) AND ConnTypeProducer > 0
                 then s\<lparr>CurProducerCt := CurProducerCt s - 1\<rparr> else s);
        let s = (if CType (C s c) AND ConnTypeWorker > 0
                 then s\<lparr>CurWorkerCt := CurWorkerCt s - 1\<rparr> else s);
        let s = s\<lparr>CurConnCt := CurConnCt s - 1\<rparr>;
        let s = removeWaitingCoon c s;
        s \<leftarrow> (if hasReservedJob c s then enqueueReservedJobs c s else Some s);
        let s = Watch_Clear c s;
        u \<leftarrow> Use (C s c);
        let s = modT u (\<lambda>x. x\<lparr>UsingCt := UsingCt x - 1\<rparr>) s;
        let s = modC c (\<lambda>x. x\<lparr>Use := None\<rparr>) s;
        if InCoons (C s c) > 0
        then do {
          s \<leftarrow> Connes_Remove (TickPos (C s c)) s;
          Some (modC c (\<lambda>x. x\<lparr>InCoons := 0\<rparr>) s)
        }
        else Some s
      })"

section \<open>The list epollQ\<close>

partial_function (option) EpollQApply :: "world \<Rightarrow> world option" where
  "EpollQApply s =
     (case epollQ s of
        None \<Rightarrow> Some s
      | Some c \<Rightarrow>
          let s = s\<lparr>epollQ := CNext (C s c)\<rparr>;
              s = modC c (\<lambda>x. x\<lparr>CNext := None\<rparr>) s;
              (ok, s) = sockWant c (Rw (C s c)) s
          in if ok then EpollQApply s else do { s \<leftarrow> connClose c s; EpollQApply s })"

declare EpollQApply.simps [code]

partial_function (option) EpollQRm_loop :: "cref \<Rightarrow> cref option \<Rightarrow> world \<Rightarrow> world option" where
  "EpollQRm_loop c newhead s =
     (case epollQ s of
        None \<Rightarrow> Some (s\<lparr>epollQ := newhead\<rparr>)
      | Some x \<Rightarrow>
          let s = s\<lparr>epollQ := CNext (C s x)\<rparr>;
              s = modC x (\<lambda>y. y\<lparr>CNext := None\<rparr>) s
          in if x \<noteq> c
             then EpollQRm_loop c (Some x) (modC x (\<lambda>y. y\<lparr>CNext := newhead\<rparr>) s)
             else EpollQRm_loop c newhead s)"

declare EpollQRm_loop.simps [code]

definition EpollQRmConn :: "cref \<Rightarrow> world \<Rightarrow> world option" where
  "EpollQRmConn c s = EpollQRm_loop c None s"

end
