(* ===== verification/Stats.thy ===== *)
theory Stats
  imports ProtOps
begin

text \<open>
  The statistics of \<open>net/prot.go\<close> (\<open>doStats\<close>, \<open>fmtStats\<close>, \<open>fmtStatsJob\<close>, \<open>fmtStatsTube\<close>,
  \<open>doListTubes\<close>) with the three format strings of \<open>constant/constant.go\<close>: the text they
  format, the job record that carries it, and the line that announces its size.
\<close>

section \<open>Formats\<close>

text \<open>The verb \<open>%06d\<close>: zeros between the sign and the digits up to a width of six.\<close>

definition pad_zeros :: "nat \<Rightarrow> string \<Rightarrow> string" where
  "pad_zeros w ds = replicate (w - length ds) (CHR ''0'') @ ds"

definition dec06 :: "int \<Rightarrow> string" where
  "dec06 i =
     (if i < 0 then CHR ''-'' # pad_zeros 5 (dec_nat (nat (- i))) else pad_zeros 6 (dec_nat (nat i)))"

text \<open>\<open>fmt.Sprintf\<close> with the verbs \<open>%d\<close>, \<open>%s\<close> and \<open>%06d\<close>, for a list of arguments that fits the
  format. The format constants below are written as the lines between \<open>---\<close> and the empty line.\<close>

datatype fmt_arg = ArgInt int | ArgStr string

fun fmt_verb :: "string \<Rightarrow> fmt_arg \<Rightarrow> string" where
  "fmt_verb v (ArgInt i) = (if v = ''06d'' then dec06 i else dec_int i)"
| "fmt_verb v (ArgStr x) = x"

function Sprintf :: "string \<Rightarrow> fmt_arg list \<Rightarrow> string" where
  "Sprintf f args =
     (case f of
        [] \<Rightarrow> []
      | c # f' \<Rightarrow>
          if c \<noteq> CHR ''%'' then c # Sprintf f' args
          else
            (case args of
               [] \<Rightarrow> f
             | a # as \<Rightarrow>
                 if take 3 f' = ''06d'' then fmt_verb ''06d'' a @ Sprintf (drop 3 f') as
                 else fmt_verb (take 1 f') a @ Sprintf (drop 1 f') as))"
  by pat_completeness auto
termination
  by (relation "measure (\<lambda>(f, args). length f)") auto

declare Sprintf.simps [simp del]

definition fmt_lines :: "string list \<Rightarrow> string" where
  "fmt_lines ls = ''---'' @ [LF] @ concat (map (\<lambda>l. l @ [LF]) ls) @ CRLF"

definition StatsFmt :: string where
  "StatsFmt = fmt_lines
     [''current-jobs-urgent: %d'',
      ''current-jobs-ready: %d'',
      ''current-jobs-reserved: %d'',
      ''current-jobs-delayed: %d'',
      ''current-jobs-buried: %d'',
      ''cmd-put: %d'',
      ''cmd-peek: %d'',
      ''cmd-peek-ready: %d'',
      ''cmd-peek-delayed: %d'',
      ''cmd-peek-buried: %d'',
      ''cmd-reserve: %d'',
      ''cmd-reserve-with-timeout: %d'',
      ''cmd-delete: %d'',
      ''cmd-release: %d'',
      ''cmd-use: %d'',
      ''cmd-watch: %d'',
      ''cmd-ignore: %d'',
      ''cmd-bury: %d'',
      ''cmd-kick: %d'',
      ''cmd-touch: %d'',
      ''cmd-stats: %d'',
      ''cmd-stats-job: %d'',
      ''cmd-stats-tube: %d'',
      ''cmd-list-tubes: %d'',
      ''cmd-list-tube-used: %d'',
      ''cmd-list-tubes-watched: %d'',
      ''cmd-pause-tube: %d'',
      ''job-timeouts: %d'',
      ''total-jobs: %d'',
      ''max-job-size: %d'',
      ''current-tubes: %d'',
      ''current-connections: %d'',
      ''current-producers: %d'',
      ''current-workers: %d'',
      ''current-waiting: %d'',
      ''total-connections: %d'',
      ''pid: %d'',
      ''version: %s'',
      ''rusage-utime: %d.%06d'',
      ''rusage-stime: %d.%06d'',
      ''uptime: %d'',
      ''binlog-oldest-index: %d'',
      ''binlog-current-index: %d'',
      ''binlog-records-migrated: %d'',
      ''binlog-records-written: %d'',
      ''binlog-max-size: %d'',
      ''draining: %s'',
      ''id: %s'',
      ''hostname: %s'',
      ''os: %s'',
      ''platform: %s'']"

definition StatsFmtTube :: string where
  "StatsFmtTube = fmt_lines
     [''name: %s'',
      ''current-jobs-urgent: %d'',
      ''current-jobs-ready: %d'',
      ''current-jobs-reserved: %d'',
      ''current-jobs-delayed: %d'',
      ''current-jobs-buried: %d'',
      ''total-jobs: %d'',
      ''current-using: %d'',
      ''current-watching: %d'',
      ''current-waiting: %d'',
      ''cmd-delete: %d'',
      ''cmd-pause-tube: %d'',
      ''pause: %d'',
      ''pause-time-left: %d'']"

definition StatsFmtJob :: string where
  "StatsFmtJob = fmt_lines
     [''id: %d'',
      ''tube: %s'',
      ''state: %s'',
      ''pri: %d'',
      ''age: %d'',
      ''delay: %d'',
      ''ttr: %d'',
      ''time-left: %d'',
      ''file: %d'',
      ''reserves: %d'',
      ''timeouts: %d'',
      ''releases: %d'',
      ''buries: %d'',
      ''kicks: %d'']"

abbreviation arg_word :: "'a::len word \<Rightarrow> fmt_arg" where
  "arg_word w \<equiv> ArgInt (uint w)"

section \<open>The values\<close>

definition getDelayedJobCt :: "world \<Rightarrow> int" where
  "getDelayedJobCt s = ms_each (\<lambda>t count. count + int (heap_Len (DelayQ (T s t)))) (GetTubes s) 0"

definition uptime :: "world \<Rightarrow> int \<times> world" where
  "uptime s = (let (now, s) = time_Now s in (go_quo (i64 (now - StartedAt (Env s))) 1000000000, s))"

definition fmtStats :: "world \<Rightarrow> string \<times> world" where
  "fmtStats s0 =
     (let whead = (case Head (Wal s0) of None \<Rightarrow> 0 | Some f \<Rightarrow> Seq (F s0 f));
          wcur = (case Cur (Wal s0) of None \<Rightarrow> 0 | Some f \<Rightarrow> Seq (F s0 f));
          e = Env s0; g = GlobalState s0; ct = (\<lambda>x. ArgInt (OpCt s0 x));
          drainMode = (if DrainMode s0 = 1 then ''true'' else ''false'');
          (up, s) = uptime s0
      in (Sprintf StatsFmt
        [arg_word (UrgentCt g),
         ArgInt (ReadyCt s0),
         arg_word (ReservedCt g),
         ArgInt (getDelayedJobCt s0),
         arg_word (BuriedCt g),
         ct OpPut,
         ct OpPeekJob,
         ct OpPeekReady,
         ct OpPeekDelayed,
         ct OpPeekBuried,
         ct OpReserve,
         ct OpReserveTimeout,
         ct OpDelete,
         ct OpRelease,
         ct OpUse,
         ct OpWatch,
         ct OpIgnore,
         ct OpBury,
         ct OpKick,
         ct OpTouch,
         ct OpStats,
         ct OpStatsJob,
         ct OpStatsTube,
         ct OpListTubes,
         ct OpListTubeUsed,
         ct OpListTubesWatched,
         ct OpPauseTube,
         arg_word (JobTimeoutCt s0),
         arg_word (TotalJobsCt g),
         ArgInt (MaxJobSizePtr e),
         ArgInt (ms_Len (GetTubes s0)),
         arg_word (CurConnCt s0),
         arg_word (CurProducerCt s0),
         arg_word (CurWorkerCt s0),
         arg_word (WaitingCt g),
         arg_word (TotalConnCt s0),
         ArgInt (Pid e),
         ArgStr (Version e),
         ArgInt (RuUsec e), ArgInt (RuTotal e),
         ArgInt (RuSsec e), ArgInt (RuTotal e),
         ArgInt up,
         ArgInt whead,
         ArgInt wcur,
         ArgInt (Nmig (Wal s0)),
         ArgInt (Nrec (Wal s0)),
         ArgInt (FileSize (Wal s0)),
         ArgStr drainMode,
         ArgStr (InstanceHex e),
         ArgStr (NodeName e),
         ArgStr (OsVersion e),
         ArgStr (Machine e)], s))"

definition fmtStatsJob :: "jref \<Rightarrow> world \<Rightarrow> (string \<times> world) option" where
  "fmtStatsJob j s =
     (let (t, s) = time_Now s; r = R (J s j);
          timeLeft = (if RState r = Reserved \<or> RState r = Delayed
                      then go_quo (i64 (DeadlineAt r - t)) 1000000000 else 0);
          file = (case JFile (J s j) of None \<Rightarrow> 0 | Some f \<Rightarrow> Seq (F s f))
      in do {
        u \<leftarrow> JTube (J s j);
        Some (Sprintf StatsFmtJob
          [arg_word (ID r),
           ArgStr (Name (T s u)),
           ArgStr (JobState (RState r)),
           arg_word (Pri r),
           ArgInt (go_quo (i64 (t - CreateAt r)) 1000000000),
           ArgInt (go_quo (Delay r) 1000000000),
           ArgInt (go_quo (TTR r) 1000000000),
           ArgInt timeLeft,
           ArgInt file,
           arg_word (ReserveCt r),
           arg_word (TimeoutCt r),
           arg_word (ReleaseCt r),
           arg_word (BuryCt r),
           arg_word (KickCt r)], s)
      })"

definition fmtStatsTube :: "tref \<Rightarrow> world \<Rightarrow> string \<times> world" where
  "fmtStatsTube u s =
     (let t = T s u; g = Stat t;
          (timeLeft, s) = (if Pause t > 0
             then (let (now, s) = time_Now s in (go_quo (i64 (UnpauseAt t - now)) 1000000000, s))
             else (0, s))
      in (Sprintf StatsFmtTube
        [ArgStr (Name t),
         arg_word (UrgentCt g),
         ArgInt (int (heap_Len (ReadyQ t))),
         arg_word (ReservedCt g),
         ArgInt (int (heap_Len (DelayQ t))),
         arg_word (BuriedCt g),
         arg_word (TotalJobsCt g),
         ArgInt (UsingCt t),
         ArgInt (WatchingCt t),
         arg_word (WaitingCt g),
         arg_word (TotalDeleteCt g),
         arg_word (PauseCt g),
         ArgInt (go_quo (Pause t) 1000000000),
         ArgInt timeLeft], s))"

section \<open>The replies\<close>

text \<open>What \<open>doStats\<close> is asked for; its \<open>default\<close> branch is never reached by the callers.\<close>

datatype stats_of = AllStats | JobStats jref | TubeStats tref

text \<open>\<open>c.OutJob\<close> is a fresh job record that is not in the table of jobs.\<close>

definition doStats :: "cref \<Rightarrow> stats_of \<Rightarrow> world \<Rightarrow> world option" where
  "doStats c what s =
     do {
       (rep, s) \<leftarrow> (case what of
          AllStats \<Rightarrow> Some (fmtStats s)
        | JobStats j \<Rightarrow> fmtStatsJob j s
        | TubeStats t \<Rightarrow> Some (fmtStatsTube t s));
       let replyLen = int (length rep);
       let (j, s) = NewJob (Some replyLen) s;
       let s = modC c (\<lambda>x. x\<lparr>OutJob := Some j\<rparr>) s;
       let s = modR j (\<lambda>r. r\<lparr>RState := Copy\<rparr>) s;
       let s = modJ j (\<lambda>x. x\<lparr>Body := rep\<rparr>) s;
       let s = modC c (\<lambda>x. x\<lparr>OutJobSent := 0\<rparr>) s;
       replyLine c StateSendJob (''OK '' @ dec_int (replyLen - 2) @ CRLF) s
     }"

definition doListTubes :: "cref \<Rightarrow> tref ms \<Rightarrow> world \<Rightarrow> world option" where
  "doListTubes c l s =
     (let respZ = ms_each (\<lambda>t z. z + (3 + int (length (Name (T s t))))) l 6;
          (j, s) = NewJob (Some respZ) s;
          s = modC c (\<lambda>x. x\<lparr>OutJob := Some j\<rparr>) s;
          s = modR j (\<lambda>r. r\<lparr>RState := Copy\<rparr>) s;
          s = modJ j (\<lambda>x. x\<lparr>Body := Body x @ ''---'' @ [LF]\<rparr>) s;
          s = ms_each (\<lambda>t s. modJ j (\<lambda>x. x\<lparr>Body := Body x @ ''- '' @ Name (T s t) @ [LF]\<rparr>) s) l s;
          s = modJ j (\<lambda>x. x\<lparr>Body := Body x @ CRLF\<rparr>) s;
          s = modC c (\<lambda>x. x\<lparr>OutJobSent := 0\<rparr>) s
      in replyLine c StateSendJob (''OK '' @ dec_int (respZ - 2) @ CRLF) s)"

end
