(* ===== verification/Dispatch.thy ===== *)
theory Dispatch
  imports Stats
begin

text \<open>
  The commands: \<open>whichCmd\<close>, \<open>dispatchCmd\<close> and one handler per command (\<open>net/prot.go\<close>), the
  splitting of the input buffer into command, body and rest (\<open>fillExtraData\<close>, \<open>skip\<close>), and the
  end of a \<open>put\<close> (\<open>maybeEnqueueInComingJob\<close>, \<open>enqueueInComingJob\<close> of \<open>net/serv.go\<close>).

  A handler reads its arguments from \<open>c.Cmd[idx:]\<close>, where \<open>idx\<close> is advanced by each read.
\<close>

section \<open>Command, body and rest of the input\<close>

definition fillExtraData :: "cref \<Rightarrow> world \<Rightarrow> world option" where
  "fillExtraData c s =
     (let x = C s c in
      if \<not> SockF x then Some s
      else if CmdLen x = 0 then Some s
      else do {
        let extraBytes = CmdRead x - CmdLen x;
        (jobDataBytes, s) \<leftarrow>
          (case InJob x of
             Some j \<Rightarrow>
               do {
                 let n = minf extraBytes (BodySize (R (J s j)));
                 b \<leftarrow> slice (Cmd x) (CmdLen x) (CmdLen x + n);
                 let s = modJ j (\<lambda>y. y\<lparr>Body := b\<rparr>) s;
                 Some (n, modC c (\<lambda>y. y\<lparr>InJobRead := n\<rparr>) s)
               }
           | None \<Rightarrow>
               if InJobRead x > 0
               then let n = minf extraBytes (InJobRead x)
                    in Some (n, modC c (\<lambda>y. y\<lparr>InJobRead := InJobRead y - n\<rparr>) s)
               else Some (0, s));
        let cmdBytes = extraBytes - jobDataBytes;
        rest \<leftarrow> slice (Cmd x) (CmdLen x + jobDataBytes) (CmdLen x + jobDataBytes + cmdBytes);
        Some (modC c (\<lambda>y. y\<lparr>Cmd := rest, CmdRead := cmdBytes, CmdLen := 0\<rparr>) s)
      })"

definition skip :: "cref \<Rightarrow> int \<Rightarrow> string \<Rightarrow> world \<Rightarrow> world option" where
  "skip c n msg s =
     do {
       let s = modC c (\<lambda>x. x\<lparr>InJob := None\<rparr>) s;
       let s = modC c (\<lambda>x. x\<lparr>InJobRead := n\<rparr>) s;
       s \<leftarrow> fillExtraData c s;
       if InJobRead (C s c) = 0
       then reply c msg (int (length msg)) StateSendWord s
       else Some (modC c (\<lambda>x. x\<lparr>Reply := msg, ReplyLen := int (length msg), ReplySent := 0,
                    CState := StateBitbucket\<rparr>) s)
     }"

section \<open>The end of a put\<close>

definition enqueueInComingJob :: "cref \<Rightarrow> world \<Rightarrow> world option" where
  "enqueueInComingJob c s =
     do {
       j \<leftarrow> InJob (C s c);
       let s = modC c (\<lambda>x. x\<lparr>InJob := None, InJobRead := 0\<rparr>) s;
       if bytes_Index (Body (J s j)) CRLF = -1
       then replyMsg c MsgExpectedCrlf (JobFree (Some j) s)
       else if DrainMode s > 0 then replyErr c MsgDraining (JobFree (Some j) s)
       else if WalResv (J s j) > 0 then replyErr c MsgInternalError s
       else do {
         (z, s) \<leftarrow> WalResvPut j s;
         let s = modJ j (\<lambda>x. x\<lparr>WalResv := z\<rparr>) s;
         if WalResv (J s j) = 0 then replyErr c MsgOutOfMemory s
         else do {
           (r, s) \<leftarrow> enqueueJob j (Delay (R (J s j))) True s;
           if r < 0 then replyErr c MsgInternalError s
           else do {
             let s = modG (\<lambda>g. g\<lparr>TotalJobsCt := TotalJobsCt g + 1\<rparr>) s;
             t \<leftarrow> JTube (J s j);
             let s = modStat t (\<lambda>g. g\<lparr>TotalJobsCt := TotalJobsCt g + 1\<rparr>) s;
             if r = 1 then replyLine c StateSendWord (MsgInsertedFmt (ID (R (J s j)))) s
             else do {
               (_, s) \<leftarrow> BuryJob j False s;
               replyLine c StateSendWord (MsgBuriedFmt (ID (R (J s j)))) s
             }
           }
         }
       }
     }"

definition maybeEnqueueInComingJob :: "cref \<Rightarrow> world \<Rightarrow> world option" where
  "maybeEnqueueInComingJob c s =
     do {
       j \<leftarrow> InJob (C s c);
       if InJobRead (C s c) = BodySize (R (J s j)) then enqueueInComingJob c s
       else Some (modC c (\<lambda>x. x\<lparr>CState := StateWantData\<rparr>) s)
     }"

section \<open>Reading arguments\<close>

definition read_int :: "cref \<Rightarrow> int \<Rightarrow> world \<Rightarrow> (str_err + int \<times> int) option" where
  "read_int c idx s = do { b \<leftarrow> slice_from (Cmd (C s c)) idx; ReadInt b idx }"

definition read_duration :: "cref \<Rightarrow> int \<Rightarrow> world \<Rightarrow> (str_err + int \<times> int) option" where
  "read_duration c idx s = do { b \<leftarrow> slice_from (Cmd (C s c)) idx; ReadDuration b idx }"

definition read_tube :: "cref \<Rightarrow> int \<Rightarrow> world \<Rightarrow> (str_err + string \<times> int) option" where
  "read_tube c idx s = do { b \<leftarrow> slice_from (Cmd (C s c)) idx; Some (ReadTubeName b idx) }"

text \<open>\<open>if err != nil { replyMsg(c, MsgBadFormat); return }\<close> after a read.\<close>

definition on_ok ::
  "cref \<Rightarrow> world \<Rightarrow> (str_err + 'a \<times> int) option \<Rightarrow> ('a \<Rightarrow> int \<Rightarrow> world option) \<Rightarrow> world option" where
  "on_ok c s r k =
     do {
       x \<leftarrow> r;
       (case x of Inl _ \<Rightarrow> replyMsg c MsgBadFormat s | Inr (v, idx) \<Rightarrow> k v idx)
     }"

abbreviation len :: "string \<Rightarrow> int" where
  "len x \<equiv> int (length x)"

section \<open>Producer commands\<close>

definition dispatchOpPut :: "cref \<Rightarrow> world \<Rightarrow> world option" where
  "dispatchOpPut c s =
     on_ok c s (read_int c 4 s) (\<lambda>pri idx.
     on_ok c s (read_duration c idx s) (\<lambda>delay idx.
     on_ok c s (read_duration c idx s) (\<lambda>ttr idx.
     on_ok c s (read_int c idx s) (\<lambda>bodySize idx.
       (let s = count_op OpPut s in
        if bodySize > MaxJobSize s then skip c (i64 (bodySize + 2)) MsgJobTooBig s
        else do {
          ch \<leftarrow> nth_opt (Cmd (C s c)) (nat idx);
          if ch \<noteq> CR then replyMsg c MsgBadFormat s
          else do {
            let s = connSetProducer c s;
            let ttr = (if ttr < 1000000000 then 1000000000 else ttr);
            let (j, s) = MakeJobWithID (word_of_int pri) delay ttr (i64 (bodySize + 2))
                           (Use (C s c)) None s;
            let s = modC c (\<lambda>x. x\<lparr>InJob := Some j\<rparr>) s;
            s \<leftarrow> fillExtraData c s;
            maybeEnqueueInComingJob c s
          }
        })))))"

definition dispatchOpUse :: "cref \<Rightarrow> world \<Rightarrow> world option" where
  "dispatchOpUse c s =
     on_ok c s (read_tube c (len CmdUse) s) (\<lambda>name idx.
       if \<not> IsValidTube name then replyMsg c MsgBadFormat s
       else do {
         let s = count_op OpUse s;
         let (t, s) = TubeFindOrMake name s;
         u \<leftarrow> Use (C s c);
         let s = modT u (\<lambda>x. x\<lparr>UsingCt := UsingCt x - 1\<rparr>) s;
         let s = modC c (\<lambda>x. x\<lparr>Use := Some t\<rparr>) s;
         let s = modT t (\<lambda>x. x\<lparr>UsingCt := UsingCt x + 1\<rparr>) s;
         replyLine c StateSendWord (''USING '' @ Name (T s t) @ CRLF) s
       })"

section \<open>Peeking\<close>

text \<open>\<open>if j == nil { replyMsg(c, MsgNotFound) } else { replyJob(c, j, MsgFound) }\<close>.\<close>

definition reply_found :: "cref \<Rightarrow> jref option \<Rightarrow> world \<Rightarrow> world option" where
  "reply_found c jp s =
     (case jp of None \<Rightarrow> replyMsg c MsgNotFound s | Some j \<Rightarrow> replyJob c j MsgFound s)"

definition dispatchOpPeekReady :: "cref \<Rightarrow> world \<Rightarrow> world option" where
  "dispatchOpPeekReady c s =
     (if CmdLen (C s c) \<noteq> len CmdPeekReady + 2 then replyMsg c MsgBadFormat s
      else do {
        let s = count_op OpPeekReady s;
        u \<leftarrow> Use (C s c);
        let (j, s) = (if heap_Len (ReadyQ (T s u)) > 0
                      then (case heap_Take 0 (ReadyQ (T s u)) of
                              None \<Rightarrow> (None, s) | Some r \<Rightarrow> JobCopy (Some (Value r)) s)
                      else (None, s));
        reply_found c j s
      })"

definition dispatchOpPeekDelayed :: "cref \<Rightarrow> world \<Rightarrow> world option" where
  "dispatchOpPeekDelayed c s =
     (if CmdLen (C s c) \<noteq> len CmdPeekDelayed + 2 then replyMsg c MsgBadFormat s
      else do {
        let s = count_op OpPeekDelayed s;
        u \<leftarrow> Use (C s c);
        let (j, s) = (if heap_Len (DelayQ (T s u)) > 0
                      then (case heap_Take 0 (DelayQ (T s u)) of
                              None \<Rightarrow> (None, s) | Some r \<Rightarrow> JobCopy (Some (Value r)) s)
                      else (None, s));
        reply_found c j s
      })"

definition dispatchOpPeekBuried :: "cref \<Rightarrow> world \<Rightarrow> world option" where
  "dispatchOpPeekBuried c s =
     (if CmdLen (C s c) \<noteq> len CmdPeekBuried + 2 then replyMsg c MsgBadFormat s
      else do {
        let s = count_op OpPeekBuried s;
        u \<leftarrow> Use (C s c);
        let (j, s) = (if buriedJobP u s then JobCopy (Next (J s (BuriedL (T s u)))) s else (None, s));
        reply_found c j s
      })"

definition dispatchOpPeekJob :: "cref \<Rightarrow> world \<Rightarrow> world option" where
  "dispatchOpPeekJob c s =
     on_ok c s (read_int c (len CmdPeekJob) s) (\<lambda>jid idx.
       (let s = count_op OpPeekJob s;
            (j, s) = JobCopy (JobFind (word_of_int jid) s) s
        in reply_found c j s))"

section \<open>Reserving\<close>

text \<open>The result is the time-out and the state; a format error has replied already.\<close>

definition dispatchOpReserveTimeout :: "cref \<Rightarrow> world \<Rightarrow> (int \<times> world) option" where
  "dispatchOpReserveTimeout c s =
     do {
       b \<leftarrow> slice_from (Cmd (C s c)) (len CmdReserveTimeout + 1);
       (case StrTol b of
          Inl _ \<Rightarrow> do { s \<leftarrow> replyMsg c MsgBadFormat s; Some (-1, s) }
        | Inr timeout \<Rightarrow> Some (timeout, s))
     }"

definition dispatchOpReserve :: "cref \<Rightarrow> op \<Rightarrow> int \<Rightarrow> world \<Rightarrow> world option" where
  "dispatchOpReserve c t timeout s =
     (if t = OpReserve \<and> CmdLen (C s c) \<noteq> len CmdReserve + 2 then replyMsg c MsgBadFormat s
      else do {
        let s = count_op OpReserve s;
        let s = connSetWorker c s;
        (soon, s) \<leftarrow> connDeadLineSoon c s;
        if soon \<and> \<not> connReady c s then replyMsg c MsgDeadlineSoon s
        else do { s \<leftarrow> waitForJob c timeout s; processQueue s }
      })"

definition dispatchOpReserveJob :: "cref \<Rightarrow> world \<Rightarrow> world option" where
  "dispatchOpReserveJob c s =
     on_ok c s (read_int c (len CmdReserveJob) s) (\<lambda>jid idx.
       (let s = count_op OpReserveJob s in
        case JobFind (word_of_int jid) s of
          None \<Rightarrow> replyMsg c MsgNotFound s
        | Some j \<Rightarrow>
            let st = RState (R (J s j)) in
            if st \<noteq> Ready \<and> st \<noteq> Buried \<and> st \<noteq> Delayed then replyErr c MsgInternalError s
            else do {
              (jp, s) \<leftarrow> (if st = Ready then removeReadyJob (Some j) s
                          else if st = Buried then removeBuriedJob (Some j) s
                          else removeDelayedJob (Some j) s);
              let s = connSetWorker c s;
              let s = modG (\<lambda>g. g\<lparr>ReservedCt := ReservedCt g + 1\<rparr>) s;
              j \<leftarrow> jp;
              s \<leftarrow> connReserveJob c j s;
              replyJob c j MsgReserved s
            }))"

section \<open>Commands of the worker on a job\<close>

definition dispatchOpDelete :: "cref \<Rightarrow> world \<Rightarrow> world option" where
  "dispatchOpDelete c s =
     on_ok c s (read_int c (len CmdDelete) s) (\<lambda>jid idx.
       do {
         let s = count_op OpDelete s;
         let jf = JobFind (word_of_int jid) s;
         (jp, s) \<leftarrow> removeReservedJob c jf s;
         (jp, s) \<leftarrow> (if jp = None then removeReadyJob jf s else Some (jp, s));
         (jp, s) \<leftarrow> (if jp = None then removeBuriedJob jf s else Some (jp, s));
         (jp, s) \<leftarrow> (if jp = None then removeDelayedJob jf s else Some (jp, s));
         (case jp of
            None \<Rightarrow> replyMsg c MsgNotFound s
          | Some j \<Rightarrow>
              do {
                t \<leftarrow> JTube (J s j);
                let s = modStat t (\<lambda>g. g\<lparr>TotalJobsCt := TotalJobsCt g - 1,
                          TotalDeleteCt := TotalDeleteCt g + 1\<rparr>) s;
                let s = modG (\<lambda>g. g\<lparr>TotalJobsCt := TotalJobsCt g - 1,
                          TotalDeleteCt := TotalDeleteCt g + 1\<rparr>) s;
                let s = modR j (\<lambda>r. r\<lparr>RState := Invalid\<rparr>) s;
                (ok, s) \<leftarrow> WalWrite j s;
                s \<leftarrow> WalMain s;
                let s = JobFree (Some j) s;
                if \<not> ok then replyErr c MsgInternalError s else replyMsg c MsgDeleted s
              })
       })"

definition dispatchOpRelease :: "cref \<Rightarrow> world \<Rightarrow> world option" where
  "dispatchOpRelease c s =
     on_ok c s (read_int c (len CmdRelease) s) (\<lambda>jid idx.
     on_ok c s (read_int c idx s) (\<lambda>pri idx.
     on_ok c s (read_int c idx s) (\<lambda>delay idx.
       do {
         let s = count_op OpRelease s;
         (jp, s) \<leftarrow> removeReservedJob c (JobFind (word_of_int jid) s) s;
         (case jp of
            None \<Rightarrow> replyMsg c MsgNotFound s
          | Some j \<Rightarrow>
              do {
                (z, s) \<leftarrow> (if delay > 0 then WalResvUpdate s else Some (1, s));
                if delay > 0 \<and> z \<le> 0 then replyErr c MsgOutOfMemory s
                else do {
                  let s = (if delay > 0 then modJ j (\<lambda>x. x\<lparr>WalResv := WalResv x + z\<rparr>) s else s);
                  let s = modR j (\<lambda>r. r\<lparr>Pri := word_of_int pri, Delay := delay,
                            ReleaseCt := ReleaseCt r + 1\<rparr>) s;
                  (r, s) \<leftarrow> enqueueJob j delay (delay \<le> 0) s;
                  if r < 0 then replyErr c MsgInternalError s
                  else if r = 1 then replyMsg c MsgReleased s
                  else do { (_, s) \<leftarrow> BuryJob j False s; replyMsg c MsgBuried s }
                }
              })
       })))"

definition dispatchOpBury :: "cref \<Rightarrow> world \<Rightarrow> world option" where
  "dispatchOpBury c s =
     on_ok c s (read_int c (len CmdRelease) s) (\<lambda>jid idx.
     on_ok c s (read_int c idx s) (\<lambda>pri idx.
       do {
         let s = count_op OpBury s;
         (jp, s) \<leftarrow> removeReservedJob c (JobFind (word_of_int jid) s) s;
         (case jp of
            None \<Rightarrow> replyMsg c MsgNotFound s
          | Some j \<Rightarrow>
              do {
                let s = modR j (\<lambda>r. r\<lparr>Pri := word_of_int pri\<rparr>) s;
                (ok, s) \<leftarrow> BuryJob j True s;
                if \<not> ok then replyErr c MsgInternalError s else replyMsg c MsgBuried s
              })
       }))"

definition dispatchOpKick :: "cref \<Rightarrow> world \<Rightarrow> world option" where
  "dispatchOpKick c s =
     do {
       b \<leftarrow> slice_from (Cmd (C s c)) (len CmdKick);
       (case StrTol b of
          Inl _ \<Rightarrow> replyMsg c MsgBadFormat s
        | Inr cnt \<Rightarrow>
            do {
              let s = count_op OpKick s;
              u \<leftarrow> Use (C s c);
              (i, s) \<leftarrow> kickJobs u (nat cnt) s;
              replyLine c StateSendWord (''KICKED '' @ dec_nat i @ CRLF) s
            })
     }"

definition dispatchOpKickJob :: "cref \<Rightarrow> world \<Rightarrow> world option" where
  "dispatchOpKickJob c s =
     on_ok c s (read_int c (len CmdRelease) s) (\<lambda>jid idx.
       (let s = count_op OpKickJob s in
        case JobFind (word_of_int jid) s of
          None \<Rightarrow> replyMsg c MsgNotFound s
        | Some j \<Rightarrow>
            do {
              (ok, s) \<leftarrow> (if RState (R (J s j)) = Buried then kickBuriedJob j s else Some (False, s));
              (ok, s) \<leftarrow> (if \<not> ok \<and> RState (R (J s j)) = Delayed then kickDelayedJob j s
                          else Some (ok, s));
              replyMsg c (if ok then MsgKicked else MsgNotFound) s
            }))"

definition dispatchOpTouch :: "cref \<Rightarrow> world \<Rightarrow> world option" where
  "dispatchOpTouch c s =
     on_ok c s (read_int c (len CmdRelease) s) (\<lambda>jid idx.
       do {
         let s = count_op OpTouch s;
         (ok, s) \<leftarrow> touchJob c (JobFind (word_of_int jid) s) s;
         replyMsg c (if ok then MsgTouched else MsgNotFound) s
       })"

section \<open>Statistics and lists\<close>

definition dispatchStats :: "cref \<Rightarrow> world \<Rightarrow> world option" where
  "dispatchStats c s =
     (if CmdLen (C s c) \<noteq> len CmdStats + 2 then replyMsg c MsgBadFormat s
      else doStats c AllStats (count_op OpStats s))"

definition dispatchStatsJob :: "cref \<Rightarrow> world \<Rightarrow> world option" where
  "dispatchStatsJob c s =
     on_ok c s (read_int c (len CmdStatsJob) s) (\<lambda>jid idx.
       (let s = count_op OpStatsJob s in
        case JobFind (word_of_int jid) s of
          None \<Rightarrow> replyMsg c MsgNotFound s
        | Some j \<Rightarrow>
            if JTube (J s j) = None then replyErr c MsgInternalError s
            else doStats c (JobStats j) s))"

definition dispatchStatsTube :: "cref \<Rightarrow> world \<Rightarrow> world option" where
  "dispatchStatsTube c s =
     on_ok c s (read_tube c (len CmdStatsTube) s) (\<lambda>name idx.
       if \<not> IsValidTube name then replyMsg c MsgBadFormat s
       else
         (let s = count_op OpStatsTube s in
          case TubeFind name s of
            None \<Rightarrow> replyMsg c MsgNotFound s
          | Some t \<Rightarrow> doStats c (TubeStats t) s))"

definition dispatchOpListTubes :: "cref \<Rightarrow> world \<Rightarrow> world option" where
  "dispatchOpListTubes c s =
     (if CmdLen (C s c) \<noteq> len CmdListTubes + 2 then replyMsg c MsgBadFormat s
      else let s = count_op OpListTubes s in doListTubes c (GetTubes s) s)"

definition dispatchOpListTubeUsed :: "cref \<Rightarrow> world \<Rightarrow> world option" where
  "dispatchOpListTubeUsed c s =
     (if CmdLen (C s c) \<noteq> len CmdListTubeUsed + 2 then replyMsg c MsgBadFormat s
      else do {
        let s = count_op OpListTubeUsed s;
        u \<leftarrow> Use (C s c);
        replyLine c StateSendWord (''USING '' @ Name (T s u) @ CRLF) s
      })"

definition dispatchOpListTubesWatched :: "cref \<Rightarrow> world \<Rightarrow> world option" where
  "dispatchOpListTubesWatched c s =
     (if CmdLen (C s c) \<noteq> len CmdListTubesWatched + 2 then replyMsg c MsgBadFormat s
      else let s = count_op OpListTubesWatched s in doListTubes c (Watch (C s c)) s)"

section \<open>Watching, pausing, leaving\<close>

definition watching_line :: "cref \<Rightarrow> world \<Rightarrow> string" where
  "watching_line c s = ''WATCHING '' @ dec_int (ms_Len (Watch (C s c))) @ CRLF"

definition dispatchOpWatch :: "cref \<Rightarrow> world \<Rightarrow> world option" where
  "dispatchOpWatch c s =
     on_ok c s (read_tube c (len CmdWatch) s) (\<lambda>name idx.
       if \<not> IsValidTube name then replyMsg c MsgBadFormat s
       else
         (let s = count_op OpWatch s;
              (t, s) = TubeFindOrMake name s;
              s = (if \<not> ms_Contains t (Watch (C s c)) then Watch_Append c t s else s)
          in replyLine c StateSendWord (watching_line c s) s))"

definition dispatchOpIgnore :: "cref \<Rightarrow> world \<Rightarrow> world option" where
  "dispatchOpIgnore c s =
     on_ok c s (read_tube c (len CmdIgnore) s) (\<lambda>name idx.
       if \<not> IsValidTube name then replyMsg c MsgBadFormat s
       else
         (let s = count_op OpIgnore s;
              t = ms_search (\<lambda>t. Name (T s t) = name) (Watch (C s c))
          in if t \<noteq> None \<and> ms_Len (Watch (C s c)) < 2 then replyMsg c MsgNotIgnored s
             else
               let s = (case t of None \<Rightarrow> s | Some t \<Rightarrow> Watch_Remove c t s)
               in replyLine c StateSendWord (watching_line c s) s))"

definition dispatchOpQuit :: "cref \<Rightarrow> world \<Rightarrow> world option" where
  "dispatchOpQuit c s = Some (modC c (\<lambda>x. x\<lparr>CState := StateClose\<rparr>) s)"

definition dispatchOpPauseTube :: "cref \<Rightarrow> world \<Rightarrow> world option" where
  "dispatchOpPauseTube c s =
     on_ok c s (read_tube c (len CmdPauseTube) s) (\<lambda>name idx.
     on_ok c s (read_duration c idx s) (\<lambda>delay idx.
       (let s = count_op OpPauseTube s in
        if \<not> IsValidTube name then replyMsg c MsgBadFormat s
        else
          (case TubeFind name s of
             None \<Rightarrow> replyMsg c MsgNotFound s
           | Some t \<Rightarrow>
               let delay = (if delay = 0 then 1 else delay);
                   (now, s) = time_Now s;
                   s = modT t (\<lambda>x. x\<lparr>UnpauseAt := i64 (now + delay)\<rparr>) s;
                   s = modT t (\<lambda>x. x\<lparr>Pause := delay\<rparr>) s;
                   s = modStat t (\<lambda>g. g\<lparr>PauseCt := PauseCt g + 1\<rparr>) s
               in replyLine c StateSendWord (''PAUSED'' @ CRLF) s))))"

section \<open>Choosing the handler\<close>

definition whichCmd :: "string \<Rightarrow> op" where
  "whichCmd cmdBuf =
     (let cmdBuf = take (nat (StrLen cmdBuf)) cmdBuf;
          cmd = hd (bytes_Split SP cmdBuf)
      in case Cmd2OpMap cmd of Some op \<Rightarrow> op | None \<Rightarrow> OpUnknown)"

definition dispatchCmd :: "cref \<Rightarrow> world \<Rightarrow> world option" where
  "dispatchCmd c s =
     (if StrLen (Cmd (C s c)) \<noteq> CmdLen (C s c) - 2 then replyMsg c MsgBadFormat s
      else
        (case whichCmd (Cmd (C s c)) of
           OpPut \<Rightarrow> dispatchOpPut c s
         | OpPeekReady \<Rightarrow> dispatchOpPeekReady c s
         | OpPeekDelayed \<Rightarrow> dispatchOpPeekDelayed c s
         | OpPeekBuried \<Rightarrow> dispatchOpPeekBuried c s
         | OpPeekJob \<Rightarrow> dispatchOpPeekJob c s
         | OpReserveTimeout \<Rightarrow>
             do {
               (timeout, s) \<leftarrow> dispatchOpReserveTimeout c s;
               dispatchOpReserve c OpReserveTimeout timeout s
             }
         | OpReserve \<Rightarrow> dispatchOpReserve c OpReserve (-1) s
         | OpReserveJob \<Rightarrow> dispatchOpReserveJob c s
         | OpDelete \<Rightarrow> dispatchOpDelete c s
         | OpRelease \<Rightarrow> dispatchOpRelease c s
         | OpBury \<Rightarrow> dispatchOpBury c s
         | OpKick \<Rightarrow> dispatchOpKick c s
         | OpKickJob \<Rightarrow> dispatchOpKickJob c s
         | OpTouch \<Rightarrow> dispatchOpTouch c s
         | OpStats \<Rightarrow> dispatchStats c s
         | OpStatsJob \<Rightarrow> dispatchStatsJob c s
         | OpStatsTube \<Rightarrow> dispatchStatsTube c s
         | OpListTubes \<Rightarrow> dispatchOpListTubes c s
         | OpListTubeUsed \<Rightarrow> dispatchOpListTubeUsed c s
         | OpListTubesWatched \<Rightarrow> dispatchOpListTubesWatched c s
         | OpUse \<Rightarrow> dispatchOpUse c s
         | OpWatch \<Rightarrow> dispatchOpWatch c s
         | OpIgnore \<Rightarrow> dispatchOpIgnore c s
         | OpQuit \<Rightarrow> dispatchOpQuit c s
         | OpPauseTube \<Rightarrow> dispatchOpPauseTube c s
         | OpUnknown \<Rightarrow> replyMsg c MsgUnknownCommand s))"

end
