(* ===== verification/Server.thy ===== *)
theory Server
  imports Dispatch
begin

text \<open>
  The server: the state machine of a connection (\<open>connProcessIO\<close>, \<open>hConn\<close>), the periodic work
  (\<open>protTick\<close>), accepting connections (\<open>NewConn\<close>, \<open>hAccept\<close>), the socket layer's \<open>sockNext\<close> of
  \<open>net/linux.go\<close> and the main loop \<open>Start\<close>, as a step function and as the relation \<open>served\<close> of
  the states the loop can reach.
\<close>

section \<open>Reading lines\<close>

definition scanLineEnd :: "string \<Rightarrow> int \<Rightarrow> int" where
  "scanLineEnd s sz =
     (let l = int (length s) in
      if l < 2 \<or> l \<noteq> sz then 0
      else
        let idx = bytes_Index s [CR] in
        if idx = -1 then 0
        else if idx \<ge> l - 1 then 0
        else if s ! nat (idx + 1) = LF then idx + 2
        else 0)"

definition wantCommand :: "cref \<Rightarrow> world \<Rightarrow> bool" where
  "wantCommand c s \<longleftrightarrow> SockF (C s c) \<and> CState (C s c) = StateWantCommand"

definition commandDataReady :: "cref \<Rightarrow> world \<Rightarrow> bool" where
  "commandDataReady c s \<longleftrightarrow> wantCommand c s \<and> CmdRead (C s c) > 0"

definition connWantCommand :: "cref \<Rightarrow> world \<Rightarrow> world option" where
  "connWantCommand c s =
     do {
       s \<leftarrow> EpollQAdd c (CHR ''r'') s;
       let s = (case OutJob (C s c) of
                  Some j \<Rightarrow> if RState (R (J s j)) = Copy then JobFree (Some j) s else s
                | None \<Rightarrow> s);
       Some (modC c (\<lambda>x. x\<lparr>OutJob := None, ReplySent := 0, CState := StateWantCommand\<rparr>) s)
     }"

section \<open>One read or write on a connection's socket\<close>

text \<open>
  What \<open>c.Sock.F.Read\<close> and \<open>Write\<close> return: an error other than \<open>io.EOF\<close>, \<open>io.EOF\<close>, or the
  bytes read / the number of bytes written. The socket is the pair of functions that answer a
  request to read \<open>n\<close> bytes and to write given bytes; \<open>make\<close> with a negative size panics.
\<close>

datatype rd_res = RdErr | RdEof | RdOk string
datatype wr_res = WrErr | WrOk int

record sock_io =
  sock_rd :: "int \<Rightarrow> rd_res"
  sock_wr :: "string \<Rightarrow> wr_res"

definition sock_Read :: "sock_io \<Rightarrow> int \<Rightarrow> rd_res option" where
  "sock_Read k n = (if n < 0 then None else Some (sock_rd k n))"

definition conn_close_state :: "cref \<Rightarrow> world \<Rightarrow> world" where
  "conn_close_state c s = modC c (\<lambda>x. x\<lparr>CState := StateClose\<rparr>) s"

definition io_want_command :: "sock_io \<Rightarrow> cref \<Rightarrow> world \<Rightarrow> world option" where
  "io_want_command k c s =
     do {
       r \<leftarrow> sock_Read k (LineBufSize - CmdRead (C s c));
       (case r of
          RdErr \<Rightarrow> Some s
        | RdEof \<Rightarrow> Some (conn_close_state c s)
        | RdOk data \<Rightarrow>
            if data = [] then Some (conn_close_state c s)
            else
              let s = modC c (\<lambda>x. x\<lparr>Cmd := Cmd x @ data, CmdRead := CmdRead x + len data\<rparr>) s;
                  s = modC c (\<lambda>x. x\<lparr>CmdLen := scanLineEnd (Cmd x) (CmdRead x)\<rparr>) s
              in if CmdLen (C s c) > 0 then Some s
                 else if CmdRead (C s c) = LineBufSize
                 then Some (modC c (\<lambda>x. x\<lparr>CmdRead := 0, CState := StateWantEndLine\<rparr>) s)
                 else Some s)
     }"

definition io_want_end_line :: "sock_io \<Rightarrow> cref \<Rightarrow> world \<Rightarrow> world option" where
  "io_want_end_line k c s =
     do {
       r \<leftarrow> sock_Read k (LineBufSize - CmdRead (C s c));
       (case r of
          RdErr \<Rightarrow> Some s
        | RdEof \<Rightarrow> Some (conn_close_state c s)
        | RdOk data \<Rightarrow>
            let s = modC c (\<lambda>x. x\<lparr>Cmd := Cmd x @ data, CmdRead := CmdRead x + len data\<rparr>) s;
                s = modC c (\<lambda>x. x\<lparr>CmdLen := scanLineEnd (Cmd x) (CmdRead x)\<rparr>) s
            in if CmdLen (C s c) > 0
               then do { s \<leftarrow> replyMsg c MsgBadFormat s; fillExtraData c s }
               else if CmdRead (C s c) = LineBufSize
               then Some (modC c (\<lambda>x. x\<lparr>CmdRead := 0\<rparr>) s)
               else Some s)
     }"

definition io_bitbucket :: "sock_io \<Rightarrow> cref \<Rightarrow> world \<Rightarrow> world option" where
  "io_bitbucket k c s =
     do {
       r \<leftarrow> sock_Read k (minf (InJobRead (C s c)) BucketBufSize);
       (case r of
          RdErr \<Rightarrow> Some s
        | RdEof \<Rightarrow> Some (conn_close_state c s)
        | RdOk data \<Rightarrow>
            let s = modC c (\<lambda>x. x\<lparr>InJobRead := InJobRead x - len data\<rparr>) s
            in if InJobRead (C s c) = 0
               then reply c (Reply (C s c)) (ReplyLen (C s c)) StateSendWord s
               else Some s)
     }"

definition io_want_data :: "sock_io \<Rightarrow> cref \<Rightarrow> world \<Rightarrow> world option" where
  "io_want_data k c s =
     do {
       j \<leftarrow> InJob (C s c);
       r \<leftarrow> sock_Read k (BodySize (R (J s j)) - InJobRead (C s c));
       (case r of
          RdErr \<Rightarrow> Some s
        | RdEof \<Rightarrow> Some (conn_close_state c s)
        | RdOk data \<Rightarrow>
            maybeEnqueueInComingJob c (modC c (\<lambda>x. x\<lparr>InJobRead := InJobRead x + len data\<rparr>) s))
     }"

definition io_send_word :: "sock_io \<Rightarrow> cref \<Rightarrow> world \<Rightarrow> world option" where
  "io_send_word k c s =
     (let x = C s c in
      do {
        out \<leftarrow> slice (Reply x) (ReplySent x) (ReplyLen x - ReplySent x);
        (case sock_wr k out of
           WrErr \<Rightarrow> Some s
         | WrOk r \<Rightarrow>
             if r = 0 then Some (conn_close_state c s)
             else
               let s = modC c (\<lambda>x. x\<lparr>ReplySent := ReplySent x + r\<rparr>) s
               in if ReplySent (C s c) = ReplyLen (C s c) then connWantCommand c s else Some s)
      })"

definition io_send_job :: "sock_io \<Rightarrow> cref \<Rightarrow> world \<Rightarrow> world option" where
  "io_send_job k c s =
     (let x = C s c in
      do {
        j \<leftarrow> OutJob x;
        a \<leftarrow> slice (Reply x) (ReplySent x) (ReplyLen x - ReplySent x);
        b \<leftarrow> slice (Body (J s j)) (OutJobSent x) (BodySize (R (J s j)) - OutJobSent x);
        (case sock_wr k (a @ b) of
           WrErr \<Rightarrow> Some s
         | WrOk r \<Rightarrow>
             if r = 0 then Some (conn_close_state c s)
             else
               let s = modC c (\<lambda>x. x\<lparr>ReplySent := ReplySent x + r\<rparr>) s;
                   s = (if ReplySent (C s c) \<ge> ReplyLen (C s c)
                        then modC c (\<lambda>x. x\<lparr>OutJobSent := OutJobSent x + (ReplySent x - ReplyLen x),
                               ReplySent := ReplyLen x\<rparr>) s
                        else s)
               in if OutJobSent (C s c) = BodySize (R (J s j)) then connWantCommand c s else Some s)
      })"

definition io_wait :: "cref \<Rightarrow> world \<Rightarrow> world option" where
  "io_wait c s =
     (if HalfClosed (C s c)
      then
        let s = modC c (\<lambda>x. x\<lparr>PendingTimeout := -1\<rparr>) s
        in replyMsg c MsgTimedOut (removeWaitingCoon c s)
      else Some s)"

definition connProcessIO :: "sock_io \<Rightarrow> cref \<Rightarrow> world \<Rightarrow> world option" where
  "connProcessIO k c s =
     (case CState (C s c) of
        StateWantCommand \<Rightarrow> io_want_command k c s
      | StateWantEndLine \<Rightarrow> io_want_end_line k c s
      | StateBitbucket \<Rightarrow> io_bitbucket k c s
      | StateWantData \<Rightarrow> io_want_data k c s
      | StateSendWord \<Rightarrow> io_send_word k c s
      | StateSendJob \<Rightarrow> io_send_job k c s
      | StateWait \<Rightarrow> io_wait c s
      | StateClose \<Rightarrow> Some s)"

section \<open>The event handler of a connection\<close>

partial_function (option) hConn_loop :: "cref \<Rightarrow> world \<Rightarrow> world option" where
  "hConn_loop c s =
     (if \<not> commandDataReady c s then Some s
      else
        let s = modC c (\<lambda>x. x\<lparr>CmdLen := scanLineEnd (Cmd x) (CmdRead x)\<rparr>) s
        in if CmdLen (C s c) \<le> 0 then Some s
           else do { s \<leftarrow> dispatchCmd c s; s \<leftarrow> fillExtraData c s; hConn_loop c s })"

declare hConn_loop.simps [code]

definition hConn :: "sock_io \<Rightarrow> cref \<Rightarrow> char \<Rightarrow> world \<Rightarrow> world option" where
  "hConn k c which s =
     do {
       let s = (if which = CHR ''h'' then modC c (\<lambda>x. x\<lparr>HalfClosed := True\<rparr>) s else s);
       s \<leftarrow> connProcessIO k c s;
       s \<leftarrow> hConn_loop c s;
       s \<leftarrow> (if CState (C s c) = StateClose
             then do { s \<leftarrow> EpollQRmConn c s; connClose c s } else Some s);
       EpollQApply s
     }"

section \<open>Accepting a connection\<close>

definition NewConn :: "conn_state \<Rightarrow> tref \<Rightarrow> tref \<Rightarrow> world \<Rightarrow> cref option \<times> world" where
  "NewConn startState u w s =
     (let c = nC s;
          s = s\<lparr>nC := Suc c, C := (C s)(c := zero_coon)\<rparr>;
          (l, s) = NewJob None s;
          s = modC c (\<lambda>x. x\<lparr>ReservedJobs := l\<rparr>) s;
          s = Watch_Append c w s;
          s = modC c (\<lambda>x. x\<lparr>Use := Some u\<rparr>) s;
          s = modT u (\<lambda>x. x\<lparr>UsingCt := UsingCt x + 1\<rparr>) s;
          s = modC c (\<lambda>x. x\<lparr>SockF := True\<rparr>) s;
          (ok, s) = syscall_ok s
      in if \<not> ok then (None, s)
         else
           let s = modC c (\<lambda>x. x\<lparr>CState := startState, PendingTimeout := -1, TickPos := 0,
                     InCoons := 0\<rparr>) s
           in (Some c, s\<lparr>CurConnCt := CurConnCt s + 1, TotalConnCt := TotalConnCt s + 1\<rparr>))"

text \<open>\<open>Accept\<close>, \<open>File\<close> and \<open>Fd\<close> are three calls that can fail.\<close>

definition hAccept :: "world \<Rightarrow> world option" where
  "hAccept s =
     (let (accepted, s) = syscall_ok s in
      if \<not> accepted then Some s
      else
        let (file, s) = syscall_ok s in
        if \<not> file then Some s
        else
          let (fd, s) = syscall_ok s in
          if \<not> fd then EpollQApply s
          else
            (case NewConn StateWantCommand (GetDefaultTube s) (GetDefaultTube s) s of
               (None, s) \<Rightarrow> EpollQApply s
             | (Some c, s) \<Rightarrow> EpollQApply (snd (sockWant c (CHR ''r'') s))))"

section \<open>The periodic work\<close>

partial_function (option) tick_delayed :: "int \<Rightarrow> int \<Rightarrow> world \<Rightarrow> (int \<times> world) option" where
  "tick_delayed now period s =
     (case SoonestDelayedJob s of
        None \<Rightarrow> Some (period, s)
      | Some j \<Rightarrow>
          let d = i64 (DeadlineAt (R (J s j)) - now) in
          if d > 0 then Some (minf period d, s)
          else do {
            t \<leftarrow> JTube (J s j);
            (_, s) \<leftarrow> Delay_Remove t (HeapIndex (J s j)) s;
            (_, s) \<leftarrow> enqueueJob j 0 False s;
            tick_delayed now period s
          })"

declare tick_delayed.simps [code]

definition tick_tubes :: "int \<Rightarrow> int \<Rightarrow> world \<Rightarrow> (int \<times> world) option" where
  "tick_tubes now period s =
     ms_eachM (\<lambda>t (period, s).
        let d = i64 (UnpauseAt (T s t) - now) in
        if Pause (T s t) > 0 \<and> d \<le> 0
        then do {
          s \<leftarrow> processQueue (modT t (\<lambda>x. x\<lparr>Pause := 0\<rparr>) s);
          Some (period, s)
        }
        else if d > 0 then Some (minf period d, s)
        else Some (period, s))
       (GetTubes s) (period, s)"

text \<open>\<open>for i := s.Connes.Len(); i > s.Connes.Len(); i = s.Connes.Len()\<close>, with the loop variable
  as an argument.\<close>

partial_function (option) tick_connes ::
  "nat \<Rightarrow> int \<Rightarrow> int \<Rightarrow> world \<Rightarrow> (int \<times> world) option" where
  "tick_connes i now period s =
     (if \<not> i > heap_Len (Connes s) then Some (period, s)
      else do {
        item \<leftarrow> heap_Take 0 (Connes s);
        let c = Value item;
        let d = i64 (TickAt (C s c) - now);
        if d > 0 then Some (minf period d, s)
        else do {
          s \<leftarrow> Connes_Remove (heap_Index item) s;
          let s = modC c (\<lambda>x. x\<lparr>InCoons := 0\<rparr>) s;
          s \<leftarrow> connTimeout c s;
          tick_connes (heap_Len (Connes s)) now period s
        }
      })"

declare tick_connes.simps [code]

text \<open>\<open>protTick\<close> returns the time to sleep. A panic in it is recovered in the code, with the
  state as the panic left it; here it is \<open>None\<close> like every other panic.\<close>

definition protTick :: "world \<Rightarrow> (int \<times> world) option" where
  "protTick s =
     (let period = DefaultPeriod; (now, s) = time_Now s in
      do {
        (period, s) \<leftarrow> tick_delayed now period s;
        (period, s) \<leftarrow> tick_tubes now period s;
        (period, s) \<leftarrow> tick_connes (heap_Len (Connes s)) now period s;
        s \<leftarrow> EpollQApply s;
        Some (period, s)
      })"

section \<open>The main loop\<close>

text \<open>What \<open>sockNext\<close> reports to \<open>Start\<close>: an error or nothing, the listening socket, or the
  socket of a connection with the kind of event and what the socket then does.\<close>

datatype event = NoEvent | AcceptEvent | ConnEvent cref char sock_io

definition Start_step :: "event \<Rightarrow> world \<Rightarrow> world option" where
  "Start_step e s =
     do {
       (_, s) \<leftarrow> protTick s;
       (case e of
          NoEvent \<Rightarrow> Some s
        | AcceptEvent \<Rightarrow> hAccept s
        | ConnEvent c rw k \<Rightarrow> hConn k c rw s)
     }"

definition Start :: "event list \<Rightarrow> world \<Rightarrow> world option" where
  "Start es s = foldM Start_step es s"

text \<open>The states of a server started in \<open>s0\<close>: the loop only gets events of connections that
  \<open>hAccept\<close> has created.\<close>

inductive served :: "world \<Rightarrow> world \<Rightarrow> bool" for s0 where
  served_init: "served s0 s0"
| served_quiet: "served s0 s \<Longrightarrow> Start_step NoEvent s = Some s' \<Longrightarrow> served s0 s'"
| served_accept: "served s0 s \<Longrightarrow> Start_step AcceptEvent s = Some s' \<Longrightarrow> served s0 s'"
| served_conn:
    "served s0 s \<Longrightarrow> c < nC s \<Longrightarrow> Start_step (ConnEvent c rw k) s = Some s' \<Longrightarrow> served s0 s'"

section \<open>sockNext on Linux\<close>

text \<open>
  \<open>EpollWait\<close> fills the slice it is given and returns a count and an error. \<open>sockNext\<close> passes
  it the literal \<open>[]EpollEvent{ev}\<close>, a slice with a copy of the local variable \<open>ev\<close>, and then
  reads \<open>ev\<close>. The system call is the argument \<open>wait\<close>; the result is the byte and the error.
\<close>

definition EPOLLIN :: "32 word" where "EPOLLIN = 0x1"
definition EPOLLOUT :: "32 word" where "EPOLLOUT = 0x4"
definition EPOLLHUP :: "32 word" where "EPOLLHUP = 0x10"
definition EPOLLRDHUP :: "32 word" where "EPOLLRDHUP = 0x2000"

record epoll_event =
  Events :: "32 word"
  Pad :: "32 word"

type_synonym epoll_wait = "epoll_event list \<Rightarrow> int \<times> bool \<times> epoll_event list"

definition sockNext :: "epoll_wait \<Rightarrow> 8 word \<times> bool" where
  "sockNext wait =
     (let ev = \<lparr>Events = 0, Pad = 0\<rparr>;
          (r, err, _) = wait [ev]
      in if r = -1 \<or> err then (word_of_int r, err)
         else if r > 0 then
           if Events ev AND (EPOLLHUP OR EPOLLRDHUP) > 0 then (of_char (CHR ''h''), False)
           else if Events ev AND EPOLLIN > 0 then (of_char (CHR ''r''), False)
           else if Events ev AND EPOLLOUT > 0 then (of_char (CHR ''w''), False)
           else (0, False)
         else (0, False))"

section \<open>The server at start\<close>

text \<open>The package variables before \<open>init\<close> runs, and the state \<open>Start\<close> gets when the log is not
  in use. A store is total; its entries at addresses not handed out yet are irrelevant.\<close>

definition blank_tube :: tube where
  "blank_tube = \<lparr>Name = [], ReadyQ = [], DelayQ = [], WaitingConns = NewMs, Stat = zero_stat,
     UsingCt = 0, WatchingCt = 0, Pause = 0, UnpauseAt = 0, BuriedL = 0\<rparr>"

definition blank_file :: gofile where
  "blank_file = \<lparr>FileNext = None, Refs = 0, Seq = 0, IsWOpen = False, FFree = 0, FResv = 0,
     Path = [], JobList = 0, FBytes = []\<rparr>"

definition zero_wal :: wal where
  "zero_wal = \<lparr>FileSize = 10485760, WalUse = False, Dir = [], Head = None, Cur = None,
     Tail = None, NFile = 0, WNext = 0, WResv = 0, Alive = 0, Nmig = 0, Nrec = 0,
     WantSync = False, SyncRate = 0, LastSync = 0\<rparr>"

definition zero_world :: "(nat \<Rightarrow> int) \<Rightarrow> (nat \<Rightarrow> bool) \<Rightarrow> sysenv \<Rightarrow> int \<Rightarrow> world" where
  "zero_world clk sys env maxSize =
     \<lparr>J = (\<lambda>_. zero_job), nJ = 0, T = (\<lambda>_. blank_tube), nT = 0, C = (\<lambda>_. zero_coon), nC = 0,
      F = (\<lambda>_. blank_file), nF = 0, allJobs = Map.empty, nextJobId = 1, tubes = NewMs,
      defaultTube = 0, Wal = zero_wal, Connes = [], epollQ = None, OpCt = (\<lambda>_. 0),
      AllJobsUsed = 0, ReadyCt = 0, JobTimeoutCt = 0, CurConnCt = 0, CurWorkerCt = 0,
      CurProducerCt = 0, TotalConnCt = 0, GlobalState = zero_stat, MaxJobSize = maxSize,
      DrainMode = 0, clock = clk, ticks = 0, io = sys, ios = 0, Env = env\<rparr>"

definition boot :: "(nat \<Rightarrow> int) \<Rightarrow> (nat \<Rightarrow> bool) \<Rightarrow> sysenv \<Rightarrow> int \<Rightarrow> world" where
  "boot clk sys env maxSize = core_init (zero_world clk sys env maxSize)"

end
