(* ===== verification/Ensures.thy ===== *)
theory Ensures
  imports Prelude
begin

text \<open>
  Reasoning about operations that may panic: \<open>ens Q r\<close> says that a result, if there is one,
  satisfies \<open>Q\<close>. The rules follow the structure of the do blocks; the collection \<open>pres\<close> holds
  what an operation keeps of an invariant.
\<close>

named_theorems pres "what the operations keep of the invariant"

definition ens :: "('a \<Rightarrow> bool) \<Rightarrow> 'a option \<Rightarrow> bool" where
  "ens Q r \<longleftrightarrow> (\<forall>y. r = Some y \<longrightarrow> Q y)"

lemma ens_D: "ens Q r \<Longrightarrow> r = Some y \<Longrightarrow> Q y"
  by (simp add: ens_def)

lemma ens_I: "(\<And>y. r = Some y \<Longrightarrow> Q y) \<Longrightarrow> ens Q r"
  by (simp add: ens_def)

lemma ens_Some [simp]: "ens Q (Some y) \<longleftrightarrow> Q y"
  by (simp add: ens_def)

lemma ens_None [simp]: "ens Q None"
  by (simp add: ens_def)

lemma ens_bind: "ens R m \<Longrightarrow> (\<And>y. R y \<Longrightarrow> ens Q (f y)) \<Longrightarrow> ens Q (m \<bind> f)"
  by (auto simp: ens_def split: Option.bind_splits)

lemma ens_bind_eq: "(\<And>y. m = Some y \<Longrightarrow> ens Q (f y)) \<Longrightarrow> ens Q (m \<bind> f)"
  by (auto simp: ens_def split: Option.bind_splits)

lemma ens_if: "(b \<Longrightarrow> ens Q x) \<Longrightarrow> (\<not> b \<Longrightarrow> ens Q y) \<Longrightarrow> ens Q (if b then x else y)"
  by simp

lemma ens_option:
  "(r = None \<Longrightarrow> ens Q x) \<Longrightarrow> (\<And>y. r = Some y \<Longrightarrow> ens Q (f y)) \<Longrightarrow>
   ens Q (case r of None \<Rightarrow> x | Some y \<Rightarrow> f y)"
  by (cases r) auto

lemma ens_sum:
  "(\<And>e. r = Inl e \<Longrightarrow> ens Q (f e)) \<Longrightarrow> (\<And>y. r = Inr y \<Longrightarrow> ens Q (g y)) \<Longrightarrow>
   ens Q (case r of Inl e \<Rightarrow> f e | Inr y \<Rightarrow> g y)"
  by (cases r) auto

lemma ens_mono: "ens R r \<Longrightarrow> (\<And>y. R y \<Longrightarrow> Q y) \<Longrightarrow> ens Q r"
  by (simp add: ens_def)

lemma ens_foldM:
  assumes "P s" and "\<And>x s. x \<in> set xs \<Longrightarrow> P s \<Longrightarrow> ens P (f x s)"
  shows "ens P (foldM f xs s)"
  using foldM_inv [of f xs s _ P] assms by (auto simp: ens_def)

lemma fold_inv:
  assumes "P s" and "\<And>x s. x \<in> set xs \<Longrightarrow> P s \<Longrightarrow> P (f x s)"
  shows "P (fold f xs s)"
  using assms by (induction xs arbitrary: s) auto

section \<open>What a do block keeps\<close>

text \<open>A predicate on states that every step of a block keeps is kept by the block. The rules follow the syntax,
  so that they can be applied blindly; \<open>pr\<close> says where in the result the state is.\<close>

locale steady =
  fixes P :: "'s \<Rightarrow> bool"
begin

lemma sequence:
  fixes m :: "'s option" and mp :: "('a \<times> 's) option"
    and mx :: "nat option" and ml :: "char list option" and mc :: "char option"
  shows
  "ens P m \<Longrightarrow> (\<And>s. P s \<Longrightarrow> ens (\<lambda>p. P (pr p)) (f s)) \<Longrightarrow> ens (\<lambda>p. P (pr p)) (m \<bind> f)"
  "ens (\<lambda>p. P (snd p)) mp \<Longrightarrow> (\<And>p. P (snd p) \<Longrightarrow> ens (\<lambda>p. P (pr p)) (fp p)) \<Longrightarrow> ens (\<lambda>p. P (pr p)) (mp \<bind> fp)"
  "(\<And>x. mx = Some x \<Longrightarrow> ens (\<lambda>p. P (pr p)) (fx x)) \<Longrightarrow> ens (\<lambda>p. P (pr p)) (mx \<bind> fx)"
  "(\<And>x. ml = Some x \<Longrightarrow> ens (\<lambda>p. P (pr p)) (fl x)) \<Longrightarrow> ens (\<lambda>p. P (pr p)) (ml \<bind> fl)"
  "(\<And>x. mc = Some x \<Longrightarrow> ens (\<lambda>p. P (pr p)) (fc x)) \<Longrightarrow> ens (\<lambda>p. P (pr p)) (mc \<bind> fc)"
  by (auto intro: ens_bind ens_bind_eq)

lemma cases:
  fixes p :: "'a \<times> 's" and p3 :: "'a \<times> 'b \<times> 's"
  shows
  "P (snd p) \<Longrightarrow> (\<And>a s. P s \<Longrightarrow> ens (\<lambda>p. P (pr p)) (g a s)) \<Longrightarrow> ens (\<lambda>p. P (pr p)) (case p of (a, s) \<Rightarrow> g a s)"
  "P (snd (snd p3)) \<Longrightarrow> (\<And>a b s. P s \<Longrightarrow> ens (\<lambda>p. P (pr p)) (g3 a b s)) \<Longrightarrow>
     ens (\<lambda>p. P (pr p)) (case p3 of (a, b, s) \<Rightarrow> g3 a b s)"
  "P (snd p) \<Longrightarrow> (\<And>a s. P s \<Longrightarrow> P (h a s)) \<Longrightarrow> P (case p of (a, s) \<Rightarrow> h a s)"
  "P (snd p) \<Longrightarrow> (\<And>a s. P s \<Longrightarrow> P (snd (hp a s))) \<Longrightarrow> P (snd (case p of (a, s) \<Rightarrow> hp a s))"
  by (auto split: prod.splits)

lemma let_state:
  fixes s0 :: 's
  shows
  "P s0 \<Longrightarrow> (\<And>s. P s \<Longrightarrow> ens (\<lambda>p. P (pr p)) (f s)) \<Longrightarrow> ens (\<lambda>p. P (pr p)) (let s = s0 in f s)"
  "P s0 \<Longrightarrow> (\<And>s. P s \<Longrightarrow> P (g s)) \<Longrightarrow> P (let s = s0 in g s)"
  "P s0 \<Longrightarrow> (\<And>s. P s \<Longrightarrow> P (snd (h s))) \<Longrightarrow> P (snd (let s = s0 in h s))"
  by auto

lemma let_pair:
  fixes p :: "'a \<times> 's"
  shows
  "P (snd p) \<Longrightarrow> (\<And>a s. P s \<Longrightarrow> ens (\<lambda>p. P (pr p)) (f a s)) \<Longrightarrow> ens (\<lambda>p. P (pr p)) (let (a, s) = p in f a s)"
  "P (snd p) \<Longrightarrow> (\<And>a s. P s \<Longrightarrow> P (g a s)) \<Longrightarrow> P (let (a, s) = p in g a s)"
  "P (snd p) \<Longrightarrow> (\<And>a s. P s \<Longrightarrow> P (snd (h a s))) \<Longrightarrow> P (snd (let (a, s) = p in h a s))"
  by (auto split: prod.splits)

lemma let_triple:
  fixes p :: "'a \<times> 'b \<times> 's"
  shows
  "P (snd (snd p)) \<Longrightarrow> (\<And>a b s. P s \<Longrightarrow> ens (\<lambda>p. P (pr p)) (f a b s)) \<Longrightarrow> ens (\<lambda>p. P (pr p)) (let (a, b, s) = p in f a b s)"
  "P (snd (snd p)) \<Longrightarrow> (\<And>a b s. P s \<Longrightarrow> P (g a b s)) \<Longrightarrow> P (let (a, b, s) = p in g a b s)"
  "P (snd (snd p)) \<Longrightarrow> (\<And>a b s. P s \<Longrightarrow> P (snd (h a b s))) \<Longrightarrow>
     P (snd (let (a, b, s) = p in h a b s))"
  by (auto split: prod.splits)

lemma triple:
  fixes m :: "('a \<times> 'b \<times> 's) option" and q :: "bool \<times> int"
  shows
  "ens (\<lambda>p. P (snd (snd p))) m \<Longrightarrow> (\<And>p. P (snd (snd p)) \<Longrightarrow> ens (\<lambda>p. P (pr p)) (f p)) \<Longrightarrow> ens (\<lambda>p. P (pr p)) (m \<bind> f)"
  "P (snd (snd p)) \<Longrightarrow> ens (\<lambda>p. P (snd (snd p))) (Some p)"
  "(\<And>a b. ens (\<lambda>p. P (pr p)) (g a b)) \<Longrightarrow> ens (\<lambda>p. P (pr p)) (let (a, b) = q in g a b)"
  by (auto intro: ens_bind split: prod.splits)

lemma let_value:
  "(\<And>x. x = e \<Longrightarrow> ens (\<lambda>p. P (pr p)) (f x)) \<Longrightarrow> ens (\<lambda>p. P (pr p)) (let x = (e :: 'v) in f x)"
  "(\<And>x. x = e \<Longrightarrow> P (g x)) \<Longrightarrow> P (let x = (e :: 'v) in g x)"
  "(\<And>x. x = e \<Longrightarrow> P (snd (h x))) \<Longrightarrow> P (snd (let x = (e :: 'v) in h x))"
  by auto

lemma results:
  "P s \<Longrightarrow> ens P (Some s)"
  "P (snd p) \<Longrightarrow> ens (\<lambda>p. P (snd p)) (Some p)"
  "P s \<Longrightarrow> P (snd (x, s))"
  "P s \<Longrightarrow> P (snd (snd (x, y, s)))"
  "ens Q None"
  by auto

lemma branch:
  "(b \<Longrightarrow> P s) \<Longrightarrow> (\<not> b \<Longrightarrow> P s') \<Longrightarrow> P (if b then s else s')"
  "(b \<Longrightarrow> P (snd p)) \<Longrightarrow> (\<not> b \<Longrightarrow> P (snd p')) \<Longrightarrow> P (snd (if b then p else p'))"
  by simp_all

lemma branch_option:
  "(r = None \<Longrightarrow> P s) \<Longrightarrow> (\<And>x. r = Some x \<Longrightarrow> P (f x)) \<Longrightarrow>
   P (case r of None \<Rightarrow> s | Some x \<Rightarrow> f x)"
  "(r = None \<Longrightarrow> P (snd p)) \<Longrightarrow> (\<And>x. r = Some x \<Longrightarrow> P (snd (g x))) \<Longrightarrow>
   P (snd (case r of None \<Rightarrow> p | Some x \<Rightarrow> g x))"
  by (auto split: option.splits)

end

end
