(* ===== verification/Invariants.thy ===== *)
theory Invariants
  imports Server Ensures
begin

text \<open>
  The invariant of the running server, kept by every operation, and what holds in every state
  the main loop can reach: the recorded heap positions of jobs and connections are never
  written, the table of jobs is keyed by the jobs' ids, tubes have distinct valid names, and
  the counter of ready jobs is the number of entries of the ready queues.
\<close>

definition ready_total :: "world \<Rightarrow> int" where
  "ready_total s = (\<Sum>t<nT s. int (length (ReadyQ (T s t))))"

definition tubes_ok :: "world \<Rightarrow> bool" where
  "tubes_ok s \<longleftrightarrow>
     (\<forall>t\<in>set (ms_items (tubes s)). t < nT s \<and> IsValidTube (Name (T s t))) \<and>
     distinct (map (\<lambda>t. Name (T s t)) (ms_items (tubes s))) \<and>
     defaultTube s \<in> set (ms_items (tubes s)) \<and> Name (T s (defaultTube s)) = ''default''"

definition refs_ok :: "world \<Rightarrow> bool" where
  "refs_ok s \<longleftrightarrow>
     (\<forall>j t. JTube (J s j) = Some t \<longrightarrow> t < nT s) \<and>
     (\<forall>c t. Use (C s c) = Some t \<longrightarrow> t < nT s) \<and>
     (\<forall>t<nT s. BuriedL (T s t) < nJ s) \<and> (\<forall>c<nC s. ReservedJobs (C s c) < nJ s)"

definition index_zero :: "world \<Rightarrow> bool" where
  "index_zero s \<longleftrightarrow> (\<forall>j. HeapIndex (J s j) = 0) \<and> (\<forall>c. TickPos (C s c) = 0)"

definition table_ok :: "world \<Rightarrow> bool" where
  "table_ok s \<longleftrightarrow> (\<forall>i j. allJobs s i = Some j \<longrightarrow> j < nJ s \<and> ID (R (J s j)) = i)"

definition users :: "world \<Rightarrow> tref \<Rightarrow> nat" where
  "users s t = card {c. c < nC s \<and> Use (C s c) = Some t}"

definition watchers :: "world \<Rightarrow> tref \<Rightarrow> int" where
  "watchers s t = (\<Sum>c<nC s. int (count_list (ms_items (Watch (C s c))) t))"

definition conns_ok :: "world \<Rightarrow> bool" where
  "conns_ok s \<longleftrightarrow>
     (\<forall>c\<ge>nC s. Use (C s c) = None \<and> ms_items (Watch (C s c)) = []) \<and>
     (\<forall>c. \<forall>t\<in>set (ms_items (Watch (C s c))). t < nT s) \<and>
     (\<forall>t<nT s. UsingCt (T s t) = int (users s t) \<and> WatchingCt (T s t) = watchers s t)"

text \<open>\<open>k\<close> is what the counter of ready jobs lags behind in the middle of an operation, \<open>m\<close> a lower
  bound on the number of connections made so far.\<close>

definition invk :: "int \<Rightarrow> nat \<Rightarrow> world \<Rightarrow> bool" where
  "invk k m s \<longleftrightarrow> index_zero s \<and> table_ok s \<and> tubes_ok s \<and> refs_ok s \<and> conns_ok s \<and>
     ReadyCt s + k = ready_total s \<and> m \<le> nC s"

abbreviation sinv :: "nat \<Rightarrow> world \<Rightarrow> bool" where
  "sinv \<equiv> invk 0"

lemmas inv_defs = invk_def index_zero_def table_ok_def tubes_ok_def refs_ok_def ready_total_def
  conns_ok_def users_def watchers_def

section \<open>Assignments\<close>

lemma inv_modJ [pres]:
  assumes "invk k m0 s" "\<And>x. HeapIndex (f x) = HeapIndex x" "\<And>x. ID (R (f x)) = ID (R x)"
    "\<And>x t. JTube (f x) = Some t \<Longrightarrow> JTube x = Some t \<or> t < nT s"
  shows "invk k m0 (modJ j f s)"
proof -
  have "JTube (f (J s j)) = Some t \<Longrightarrow> t < nT s" for t
    using assms(1) assms(4) [of "J s j" t] by (auto simp: inv_defs)
  then show ?thesis using assms(1-3) by (auto simp: inv_defs modJ_def)
qed

lemma inv_modR [pres]:
  assumes "invk k m0 s" "\<And>x. ID (f x) = ID x"
  shows "invk k m0 (modR j f s)"
  using assms by (auto simp: modR_def intro!: inv_modJ)

lemma ready_total_modT:
  "length (ReadyQ (f (T s t))) = length (ReadyQ (T s t)) \<Longrightarrow> ready_total (modT t f s) = ready_total s"
  by (auto simp: ready_total_def modT_def intro!: sum.cong)

lemma tubes_ok_cong:
  "(\<And>u. Name (T s' u) = Name (T s u)) \<Longrightarrow> tubes s' = tubes s \<Longrightarrow> nT s' = nT s \<Longrightarrow>
   defaultTube s' = defaultTube s \<Longrightarrow> tubes_ok s' = tubes_ok s"
  by (simp add: tubes_ok_def)

lemma users_cong: "nC s' = nC s \<Longrightarrow> (\<And>c. Use (C s' c) = Use (C s c)) \<Longrightarrow> users s' t = users s t"
  by (simp add: users_def)

lemma watchers_cong:
  "nC s' = nC s \<Longrightarrow> (\<And>c. Watch (C s' c) = Watch (C s c)) \<Longrightarrow> watchers s' t = watchers s t"
  by (simp add: watchers_def)

lemma conns_ok_cong:
  assumes "nC s' = nC s" "nT s' = nT s" "\<And>c. Use (C s' c) = Use (C s c) \<and> Watch (C s' c) = Watch (C s c)"
    "\<And>t. UsingCt (T s' t) = UsingCt (T s t) \<and> WatchingCt (T s' t) = WatchingCt (T s t)"
  shows "conns_ok s' = conns_ok s"
  using assms users_cong [of s' s] watchers_cong [of s' s] by (simp add: conns_ok_def)

lemma inv_modT [pres]:
  assumes "invk k m0 s" "\<And>x. Name (f x) = Name x" "\<And>x. length (ReadyQ (f x)) = length (ReadyQ x)"
    "\<And>x. UsingCt (f x) = UsingCt x" "\<And>x. WatchingCt (f x) = WatchingCt x" "\<And>x. BuriedL (f x) = BuriedL x"
  shows "invk k m0 (modT t f s)"
proof -
  have "tubes_ok (modT t f s) = tubes_ok s"
    by (rule tubes_ok_cong) (use assms(2) in \<open>auto simp: modT_def\<close>)
  moreover have "ready_total (modT t f s) = ready_total s"
    using assms(3) by (rule ready_total_modT)
  moreover have "conns_ok (modT t f s) = conns_ok s"
    by (rule conns_ok_cong) (use assms(4,5) in \<open>auto simp: modT_def\<close>)
  ultimately show ?thesis
    using assms(1,6) by (simp add: invk_def) (simp add: index_zero_def table_ok_def refs_ok_def modT_def)
qed

lemma inv_modStat [pres]: "invk k m0 s \<Longrightarrow> invk k m0 (modStat t f s)"
  unfolding modStat_def by (rule inv_modT) auto

lemma inv_modC [pres]:
  assumes "invk k m0 s" "\<And>x. TickPos x = 0 \<Longrightarrow> TickPos (f x) = 0" "\<And>x. Use (f x) = Use x"
    "\<And>x. Watch (f x) = Watch x" "\<And>x. ReservedJobs (f x) = ReservedJobs x"
  shows "invk k m0 (modC c f s)"
proof -
  have "conns_ok (modC c f s) = conns_ok s"
    by (rule conns_ok_cong) (use assms(3,4) in \<open>auto simp: modC_def\<close>)
  then show ?thesis
    using assms(1-3,5) unfolding invk_def
    by (auto simp: index_zero_def table_ok_def refs_ok_def tubes_ok_def ready_total_def modC_def)
qed

lemma inv_other [pres]:
  "invk k m0 s \<Longrightarrow> invk k m0 (modF f g s)"
  "invk k m0 s \<Longrightarrow> invk k m0 (modG h s)"
  "invk k m0 s \<Longrightarrow> invk k m0 (modW u s)"
  "invk k m0 s \<Longrightarrow> invk k m0 (count_op x s)"
  "invk k m0 s \<Longrightarrow> invk k m0 (s\<lparr>epollQ := q\<rparr>)"
  "invk k m0 s \<Longrightarrow> invk k m0 (s\<lparr>Connes := h'\<rparr>)"
  "invk k m0 s \<Longrightarrow> invk k m0 (s\<lparr>JobTimeoutCt := n\<rparr>)"
  "invk k m0 s \<Longrightarrow> invk k m0 (s\<lparr>CurProducerCt := n\<rparr>)"
  "invk k m0 s \<Longrightarrow> invk k m0 (s\<lparr>CurWorkerCt := n\<rparr>)"
  "invk k m0 s \<Longrightarrow> invk k m0 (s\<lparr>CurConnCt := n\<rparr>)"
  "invk k m0 s \<Longrightarrow> invk k m0 (s\<lparr>CurConnCt := n, TotalConnCt := m\<rparr>)"
  "invk k m0 s \<Longrightarrow> invk k m0 (snd (time_Now s))"
  "invk k m0 s \<Longrightarrow> invk k m0 (snd (syscall_ok s))"
  by (auto simp: inv_defs modF_def modG_def modW_def count_op_def time_Now_def syscall_ok_def)

text \<open>The assignments that move a connection between tubes or change its watch list.\<close>

lemma card_use:
  fixes c n :: nat
  assumes "c < n"
  shows "int (card {x. x < n \<and> (if x = c then a else u x) = Some t}) =
    int (card {x. x < n \<and> u x = Some t}) + (if a = Some t then 1 else 0) - (if u c = Some t then 1 else 0)"
proof -
  let ?A = "{x. x < n \<and> x \<noteq> c \<and> u x = Some t}"
  have "{x. x < n \<and> (if x = c then a else u x) = Some t} = (if a = Some t then insert c ?A else ?A)"
    "{x. x < n \<and> u x = Some t} = (if u c = Some t then insert c ?A else ?A)"
    using assms by auto
  moreover have "finite ?A" by (rule finite_subset [of _ "{..<n}"]) auto
  then have "card (insert c ?A) = Suc (card ?A)" by simp
  ultimately show ?thesis by auto
qed

lemma inv_use:
  assumes "sinv m0 s" "c < nC s" "\<And>t. a = Some t \<Longrightarrow> t < nT s"
    "\<And>t. T' t = T s t\<lparr>UsingCt := UsingCt (T s t) + (if a = Some t then 1 else 0) -
       (if Use (C s c) = Some t then 1 else 0)\<rparr>"
  shows "sinv m0 (s\<lparr>T := T', C := (C s)(c := C s c\<lparr>Use := a\<rparr>)\<rparr>)"
proof -
  let ?s = "s\<lparr>T := T', C := (C s)(c := C s c\<lparr>Use := a\<rparr>)\<rparr>"
  have "int (users ?s t) = int (users s t) + (if a = Some t then 1 else 0) - (if Use (C s c) = Some t then 1 else 0)" for t
    using card_use [OF assms(2), of a "\<lambda>c. Use (C s c)" t]
    by (simp add: users_def if_distrib [of Use] cong: if_cong)
  moreover have "watchers ?s t = watchers s t" for t by (rule watchers_cong) auto
  moreover have "tubes_ok ?s = tubes_ok s" by (rule tubes_ok_cong) (auto simp: assms(4))
  moreover have "ready_total ?s = ready_total s" by (simp add: ready_total_def assms(4))
  ultimately show ?thesis
    using assms(1-3) unfolding invk_def conns_ok_def
    by (auto simp: index_zero_def table_ok_def refs_ok_def assms(4))
qed

lemma inv_watch:
  assumes "sinv m0 s" "c < nC s \<or> ms_items m = []" "\<forall>t\<in>set (ms_items m). t < nT s"
    "\<And>t. T' t = T s t\<lparr>WatchingCt := w t\<rparr>"
    "\<And>t. w t - int (count_list (ms_items m) t) = WatchingCt (T s t) - int (count_list (ms_items (Watch (C s c))) t)"
  shows "sinv m0 (s\<lparr>T := T', C := (C s)(c := C s c\<lparr>Watch := m\<rparr>)\<rparr>)"
proof -
  let ?s = "s\<lparr>T := T', C := (C s)(c := C s c\<lparr>Watch := m\<rparr>)\<rparr>"
  let ?n = "\<lambda>s t c. int (count_list (ms_items (Watch (C s c))) t)"
  have balance: "w t - watchers ?s t = WatchingCt (T s t) - watchers s t" for t
  proof (cases "c < nC s")
    case True
    have "watchers ?s t = ?n ?s t c + (\<Sum>x\<in>{..<nC s} - {c}. ?n ?s t x)"
      unfolding watchers_def using True by (simp add: sum.remove)
    moreover have "watchers s t = ?n s t c + (\<Sum>x\<in>{..<nC s} - {c}. ?n s t x)"
      unfolding watchers_def using True by (simp add: sum.remove)
    moreover have "(\<Sum>x\<in>{..<nC s} - {c}. ?n ?s t x) = (\<Sum>x\<in>{..<nC s} - {c}. ?n s t x)"
      by (rule sum.cong) auto
    ultimately show ?thesis using assms(5) [of t] by simp
  next
    case False
    then have "watchers ?s t = watchers s t" by (auto simp: watchers_def intro!: sum.cong)
    moreover have "ms_items m = []" "ms_items (Watch (C s c)) = []"
      using False assms(1,2) by (auto simp: inv_defs)
    ultimately show ?thesis using assms(5) [of t] by simp
  qed
  have "w t = watchers ?s t" if "t < nT s" for t
    using balance [of t] that assms(1) by (simp add: invk_def conns_ok_def)
  moreover have "users ?s t = users s t" for t by (rule users_cong) auto
  moreover have "tubes_ok ?s = tubes_ok s" by (rule tubes_ok_cong) (auto simp: assms(4))
  moreover have "ready_total ?s = ready_total s" by (simp add: ready_total_def assms(4))
  ultimately show ?thesis
    using assms(1-4) unfolding invk_def conns_ok_def
    by (auto simp: index_zero_def table_ok_def refs_ok_def)
qed

section \<open>The structure of do blocks\<close>

abbreviation keeps :: "nat \<Rightarrow> ('a \<times> world) option \<Rightarrow> bool" where
  "keeps m0 \<equiv> ens (\<lambda>p. sinv m0 (snd p))"

interpretation inv: steady "sinv m0" for m0 .

lemmas keeps_structure [pres] = inv.sequence
lemmas keeps_cases [pres] = inv.cases
lemmas keeps_let [pres] = inv.let_state
lemmas keeps_let_pair [pres] = inv.let_pair
lemmas keeps_let_triple [pres] = inv.let_triple
lemmas keeps_triple [pres] = inv.triple

lemmas keeps_let_values [pres] =
  inv.let_value [where 'v = int] inv.let_value [where 'v = nat] inv.let_value [where 'v = bool]
  inv.let_value [where 'v = string] inv.let_value [where 'v = job_rec]
  inv.let_value [where 'v = coon] inv.let_value [where 'v = tube]
  inv.let_value [where 'v = "nat option"] inv.let_value [where 'v = "8 word"]
  inv.let_value [where 'v = "8 word list"]

lemmas keeps_branches [pres] = ens_if ens_option ens_sum
lemmas keeps_results [pres] = inv.results
lemmas inv_if [pres] = inv.branch
lemmas inv_case_option [pres] = inv.branch_option

lemma ms_each_inv [pres]:
  "sinv m0 s \<Longrightarrow> (\<And>x s. sinv m0 s \<Longrightarrow> sinv m0 (f x s)) \<Longrightarrow> sinv m0 (ms_each f m s)"
  unfolding ms_each_def by (rule fold_inv) auto


section \<open>core/job.go and core/tube.go\<close>

lemma ListReset_inv [pres]: "sinv m0 s \<Longrightarrow> sinv m0 (ListReset j s)"
  unfolding ListReset_def by (intro pres) simp_all

lemma JobListRest_inv [pres]: "sinv m0 s \<Longrightarrow> sinv m0 (JobListRest j s)"
  unfolding JobListRest_def by (intro pres) simp_all

lemma inv_new_job [pres]:
  assumes "sinv m0 s" "HeapIndex x = 0" "JTube x = None \<or> (\<exists>j. JTube x = JTube (J s j))"
  shows "sinv m0 (s\<lparr>nJ := Suc (nJ s), J := (J s)(nJ s := x)\<rparr>)"
proof -
  have "JTube x = Some t \<Longrightarrow> t < nT s" for t
    using assms(1,3) by (auto simp: inv_defs)
  then show ?thesis using assms(1,2) by (fastforce simp: inv_defs less_Suc_eq)
qed

lemma inv_index: "sinv m0 s \<Longrightarrow> HeapIndex (J s j) = 0" "sinv m0 s \<Longrightarrow> TickPos (C s c) = 0"
  by (simp_all add: inv_defs)

lemma NewJob_inv [pres]: "sinv m0 s \<Longrightarrow> sinv m0 (snd (NewJob b s))"
  unfolding NewJob_def by (intro pres) (simp_all add: zero_job_def inv_new_job)

lemma NewJob_ref: "fst (NewJob b s) = nJ s" "nJ (snd (NewJob b s)) = Suc (nJ s)"
    "nT (snd (NewJob b s)) = nT s" "allJobs (snd (NewJob b s)) = allJobs s"
    "Use (C (snd (NewJob b s)) c) = Use (C s c)"
  by (auto simp: NewJob_def upd time_Now_def ListReset_def Let_def split: option.splits)

lemma inv_store:
  assumes "sinv m0 s" "j < nJ s" "\<And>i. allJobs s i \<noteq> Some j"
  shows "sinv m0 (JobStore j (modR j (\<lambda>r. r\<lparr>ID := i\<rparr>) s))"
  using assms by (auto simp: inv_defs JobStore_def modR_def modJ_def)

lemma JobFree_inv [pres]: "sinv m0 s \<Longrightarrow> sinv m0 (JobFree jp s)"
  by (auto simp: inv_defs JobFree_def modJ_def Let_def split: option.splits)

lemma JobCopy_inv [pres]: "sinv m0 s \<Longrightarrow> sinv m0 (snd (JobCopy jp s))"
  unfolding JobCopy_def
  by (intro pres) (auto simp: inv_index intro!: inv_new_job)

lemma JobListRemove_inv [pres]: "sinv m0 s \<Longrightarrow> keeps m0 (JobListRemove jp s)"
  unfolding JobListRemove_def by (intro pres) simp_all

lemma JobListInsert_inv [pres]: "sinv m0 s \<Longrightarrow> ens (sinv m0) (JobListInsert h j s)"
  unfolding JobListInsert_def by (intro pres) simp_all

lemma MakeJobWithID_inv [pres]:
  assumes "sinv m0 s" "\<And>t. tube = Some t \<Longrightarrow> t < nT s"
  shows "sinv m0 (snd (MakeJobWithID pri delay ttr b tube jid s))"
  using assms
  by (fastforce simp: inv_defs MakeJobWithID_def NewJob_def upd JobStore_def time_Now_def
      ListReset_def Let_def zero_job_def less_Suc_eq split: option.splits)

lemma map_name_new:
  "\<forall>t\<in>set xs. t < (n::nat) \<Longrightarrow> map (\<lambda>t. Name (if t = n then x else m t)) xs = map (\<lambda>t. Name (m t)) xs"
  by (induction xs) auto

lemma inv_new_tube:
  assumes "sinv m0 s" "ReadyQ x = []" "UsingCt x = 0" "WatchingCt x = 0" "BuriedL x < nJ s"
  shows "sinv m0 (s\<lparr>nT := Suc (nT s), T := (T s)(nT s := x)\<rparr>)" (is "sinv m0 ?s")
proof -
  have w: "\<And>c t. Use (C s c) = Some t \<Longrightarrow> t < nT s" "\<And>c t. t \<in> set (ms_items (Watch (C s c))) \<Longrightarrow> t < nT s"
    using assms(1) by (auto simp: inv_defs)
  have "count_list (ms_items (Watch (C s c))) (nT s) = 0" for c
    using w(2) [of "nT s" c] by (auto simp: count_list_0_iff)
  then have "users ?s (nT s) = 0" "watchers ?s (nT s) = 0"
    using w(1) by (auto simp: users_def watchers_def)
  moreover have "users ?s t = users s t" "watchers ?s t = watchers s t" for t
    by (auto simp: users_def watchers_def)
  moreover have "tubes_ok ?s"
    using assms(1) by (auto simp: invk_def tubes_ok_def map_name_new)
  ultimately show ?thesis
    using assms unfolding invk_def conns_ok_def
    by (auto simp: index_zero_def table_ok_def refs_ok_def ready_total_def less_Suc_eq)
qed

lemma NewTube_inv:
  assumes "sinv m0 s"
  shows "sinv m0 (snd (NewTube nm s))"
proof -
  let ?s = "modJ (nJ s) (\<lambda>x. x\<lparr>Prev := Some (nJ s), Next := Some (nJ s)\<rparr>) (snd (NewJob None s))"
  have "\<exists>x. snd (NewTube nm s) = ?s\<lparr>nT := Suc (nT ?s), T := (T ?s)(nT ?s := x)\<rparr> \<and>
      ReadyQ x = [] \<and> UsingCt x = 0 \<and> WatchingCt x = 0 \<and> BuriedL x < nJ ?s"
    by (auto simp: NewTube_def NewJob_def upd time_Now_def ListReset_def Let_def
        intro!: exI [of _ "tube.make nm [] [] NewMs zero_stat 0 0 0 0 (nJ s)"] simp: tube.defs)
  moreover have "sinv m0 ?s" using assms by (intro pres) simp_all
  ultimately show ?thesis using inv_new_tube by metis
qed

lemma NewTube_frame:
  "fst (NewTube nm s) = nT s" "nT (snd (NewTube nm s)) = Suc (nT s)"
  "tubes (snd (NewTube nm s)) = tubes s" "defaultTube (snd (NewTube nm s)) = defaultTube s"
  "Name (T (snd (NewTube nm s)) t) = (if t = nT s then nm else Name (T s t))"
  by (auto simp: NewTube_def NewJob_def upd time_Now_def ListReset_def Let_def split: option.splits)

lemma inv_add_tube:
  assumes "sinv m0 s" "t < nT s" "IsValidTube (Name (T s t))"
    "\<forall>u\<in>set (ms_items (tubes s)). Name (T s u) \<noteq> Name (T s t)"
  shows "sinv m0 (s\<lparr>tubes := (tubes s)\<lparr>ms_items := ms_items (tubes s) @ [t]\<rparr>\<rparr>)"
  using assms by (auto simp: inv_defs)

lemma MakeAndInsertTube_inv:
  assumes "sinv m0 s" "IsValidTube nm" "TubeFind nm s = None"
  shows "sinv m0 (snd (MakeAndInsertTube nm s))" "fst (MakeAndInsertTube nm s) = nT s"
    "nT (snd (MakeAndInsertTube nm s)) = Suc (nT s)"
proof -
  let ?s = "snd (NewTube nm s)"
  have eq: "MakeAndInsertTube nm s =
      (nT s, ?s\<lparr>tubes := (tubes ?s)\<lparr>ms_items := ms_items (tubes ?s) @ [nT s]\<rparr>\<rparr>)"
    by (simp add: MakeAndInsertTube_def NewTube_frame(1) [of nm s, symmetric] ms_Append_def Let_def
        ms_fire_def split: prod.splits)
  have "\<forall>u\<in>set (ms_items (tubes s)). u < nT s \<and> Name (T s u) \<noteq> nm"
    using assms(1,3) by (auto simp: TubeFind_def ms_search_def find_None_iff inv_defs)
  then have "\<forall>u\<in>set (ms_items (tubes ?s)). Name (T ?s u) \<noteq> Name (T ?s (nT s))"
    by (fastforce simp: NewTube_frame)
  then show "sinv m0 (snd (MakeAndInsertTube nm s))"
    unfolding eq using NewTube_inv [OF assms(1), of nm] assms(2)
      inv_add_tube [of m0 ?s "nT s"] by (auto simp: NewTube_frame)
  show "fst (MakeAndInsertTube nm s) = nT s" "nT (snd (MakeAndInsertTube nm s)) = Suc (nT s)"
    by (simp_all add: eq NewTube_frame)
qed

lemma inv_tube_less: "sinv m0 s \<Longrightarrow> t \<in> set (ms_items (tubes s)) \<Longrightarrow> t < nT s"
  by (simp add: inv_defs)

lemma TubeFindOrMake_inv:
  assumes "sinv m0 s" "IsValidTube nm"
  shows "sinv m0 (snd (TubeFindOrMake nm s))" "fst (TubeFindOrMake nm s) < nT (snd (TubeFindOrMake nm s))"
  using assms MakeAndInsertTube_inv [OF assms] inv_tube_less [OF assms(1)]
  by (auto simp: TubeFindOrMake_def TubeFind_def ms_search_def find_Some_iff split: option.splits)


lemma NextAwaitedJob_inv [pres]: "sinv m0 s \<Longrightarrow> sinv m0 (snd (NextAwaitedJob now s))"
proof -
  have "sinv m0 (snd (fold f xs p))" if "sinv m0 (snd p)" "\<And>t p. sinv m0 (snd p) \<Longrightarrow> sinv m0 (snd (f t p))"
    for f :: "tref \<Rightarrow> jref option \<times> world \<Rightarrow> jref option \<times> world" and xs p
    using that by (induction xs arbitrary: p) auto
  note fold = this
  assume "sinv m0 s"
  then show ?thesis
    unfolding NextAwaitedJob_def ms_each_def
    by (intro fold) (auto split: option.splits prod.splits simp: Let_def intro!: pres)
qed

section \<open>core/wal.go and core/file.go\<close>

lemma fileIncRef_inv [pres]: "sinv m0 s \<Longrightarrow> sinv m0 (fileIncRef fp s)"
  unfolding fileIncRef_def by (intro pres) simp_all

lemma walGc_inv [pres]: "sinv m0 s \<Longrightarrow> ens (sinv m0) (walGc s)"
proof (rule ens_I)
  fix s' assume "walGc s = Some s'" and "sinv m0 s"
  then show "sinv m0 s'"
  proof (induction rule: walGc.raw_induct [rotated, consumes 1])
    case (1 gc s s')
    have "ens (sinv m0) (gc s)" if "sinv m0 s" for s using 1(1) that by (auto simp: ens_def)
    note [pres] = this
    show ?case by (rule ens_D [OF _ 1(2)]) (use 1(3) in \<open>intro pres; simp_all\<close>)
  qed
qed

lemma fileDecRef_inv [pres]: "sinv m0 s \<Longrightarrow> ens (sinv m0) (fileDecRef fp s)"
  unfolding fileDecRef_def by (intro pres) simp_all

lemma FileAddJob_inv [pres]: "sinv m0 s \<Longrightarrow> ens (sinv m0) (FileAddJob f j s)"
  unfolding FileAddJob_def by (intro pres) simp_all

lemma FileRmJob_inv [pres]: "sinv m0 s \<Longrightarrow> ens (sinv m0) (FileRmJob fp j s)"
  unfolding FileRmJob_def by (intro pres) simp_all

lemma rawFAlloc_inv [pres]: "sinv m0 s \<Longrightarrow> sinv m0 (snd (rawFAlloc l i s))"
proof (induction l i s rule: rawFAlloc.induct)
  case (1 l i s)
  have "sinv m0 (snd (syscall_ok s))" using 1(2) by (intro pres)
  with 1 show ?case
    by (subst rawFAlloc.simps) (auto simp: Let_def split: prod.splits)
qed

lemma fileWOpen_inv [pres]: "sinv m0 s \<Longrightarrow> ens (sinv m0) (fileWOpen f s)"
  unfolding fileWOpen_def by (intro pres) simp_all

lemma fileWrite_inv [pres]: "sinv m0 s \<Longrightarrow> sinv m0 (snd (fileWrite f j obj s))"
  unfolding fileWrite_def by (intro pres) simp_all

lemma fileWrJobShort_inv [pres]: "sinv m0 s \<Longrightarrow> keeps m0 (fileWrJobShort f j s)"
  unfolding fileWrJobShort_def by (intro pres) simp_all

lemma fileWriteAll_inv [pres]: "sinv m0 s \<Longrightarrow> sinv m0 (snd (fileWriteAll f j xs s))"
proof (induction f j xs s rule: fileWriteAll.induct)
  case (2 f j x xs s)
  have "sinv m0 (snd (fileWrite f j x s))" using 2(2) by (intro pres)
  with 2 show ?case by (auto split: prod.splits)
qed simp

lemma fileWrJobFull_inv [pres]: "sinv m0 s \<Longrightarrow> keeps m0 (fileWrJobFull f j s)"
  unfolding fileWrJobFull_def by (intro pres) simp_all

lemma fileWClose_inv [pres]: "sinv m0 s \<Longrightarrow> ens (sinv m0) (fileWClose fp s)"
  unfolding fileWClose_def by (intro pres) simp_all

lemma fileInit_inv [pres]: "sinv m0 s \<Longrightarrow> sinv m0 (snd (fileInit f n s))"
  unfolding fileInit_def by (intro pres) simp_all

lemma fileAdd_inv [pres]: "sinv m0 s \<Longrightarrow> sinv m0 (fileAdd f s)"
  unfolding fileAdd_def by (intro pres) simp_all

lemma newFile_inv [pres]: "sinv m0 s \<Longrightarrow> sinv m0 (snd (newFile s))"
  by (fastforce simp: newFile_def inv_defs Let_def zero_job_def less_Suc_eq)

lemma makeNextFile_inv [pres]: "sinv m0 s \<Longrightarrow> keeps m0 (makeNextFile s)"
  unfolding makeNextFile_def by (intro pres) simp_all

lemma moveResv_inv [pres]: "sinv m0 s \<Longrightarrow> sinv m0 (moveResv to from n s)"
  unfolding moveResv_def by (intro pres) simp_all

lemma needFree_inv [pres]: "sinv m0 s \<Longrightarrow> keeps m0 (needFree n s)"
  unfolding needFree_def by (intro pres) simp_all

lemma useNext_inv [pres]: "sinv m0 s \<Longrightarrow> keeps m0 (useNext s)"
  unfolding useNext_def by (intro pres) simp_all

lemma balanceRest_inv [pres]: "sinv m0 s \<Longrightarrow> keeps m0 (balanceRest bp n s)"
proof (rule ens_I)
  fix y assume "balanceRest bp n s = Some y" and "sinv m0 s"
  then show "sinv m0 (snd y)"
  proof (induction rule: balanceRest.raw_induct [rotated, consumes 1])
    case (1 f bp n s y)
    have [pres]: "sinv m0 s \<Longrightarrow> keeps m0 (f bp n s)" for bp n s using 1(1) by (auto simp: ens_def)
    show ?case by (rule ens_D [OF _ 1(2)]) (use 1(3) in \<open>intro pres; simp_all\<close>)
  qed
qed

lemma balance_inv [pres]: "sinv m0 s \<Longrightarrow> keeps m0 (balance n s)"
proof (rule ens_I)
  fix y assume "balance n s = Some y" and "sinv m0 s"
  then show "sinv m0 (snd y)"
  proof (induction rule: balance.raw_induct [rotated, consumes 1])
    case (1 f n s y)
    have [pres]: "sinv m0 s \<Longrightarrow> keeps m0 (f n s)" for n s using 1(1) by (auto simp: ens_def)
    show ?case by (rule ens_D [OF _ 1(2)]) (use 1(3) in \<open>intro pres; simp_all\<close>)
  qed
qed

lemma reserve_inv [pres]: "sinv m0 s \<Longrightarrow> keeps m0 (reserve n s)"
  unfolding reserve_def by (intro pres) simp_all

lemma WalResvUpdate_inv [pres]: "sinv m0 s \<Longrightarrow> keeps m0 (WalResvUpdate s)"
  unfolding WalResvUpdate_def by (intro pres) simp_all

lemma walResvMigrate_inv [pres]: "sinv m0 s \<Longrightarrow> keeps m0 (walResvMigrate j s)"
  unfolding walResvMigrate_def by (intro pres) simp_all

lemma WalResvPut_inv [pres]: "sinv m0 s \<Longrightarrow> keeps m0 (WalResvPut j s)"
  unfolding WalResvPut_def by (intro pres) simp_all

lemma WalWrite_inv [pres]: "sinv m0 s \<Longrightarrow> keeps m0 (WalWrite j s)"
  unfolding WalWrite_def by (intro pres) simp_all

lemma moveOne_inv [pres]: "sinv m0 s \<Longrightarrow> ens (sinv m0) (moveOne s)"
  unfolding moveOne_def by (intro pres) simp_all

lemma repeatM_inv [pres]:
  "sinv m0 s \<Longrightarrow> (\<And>s. sinv m0 s \<Longrightarrow> ens (sinv m0) (f s)) \<Longrightarrow> ens (sinv m0) (repeatM n f s)"
  by (induction n arbitrary: s) (auto intro: pres)

lemma walCompact_inv [pres]: "sinv m0 s \<Longrightarrow> ens (sinv m0) (walCompact s)"
  unfolding walCompact_def by (intro pres) simp_all

lemma WalSync_inv [pres]: "sinv m0 s \<Longrightarrow> ens (sinv m0) (WalSync s)"
  unfolding WalSync_def by (intro pres) simp_all

lemma WalMain_inv [pres]: "sinv m0 s \<Longrightarrow> ens (sinv m0) (WalMain s)"
  unfolding WalMain_def by (intro pres) simp_all

lemma BuryJob_inv [pres]: "sinv m0 s \<Longrightarrow> keeps m0 (BuryJob j u s)"
  unfolding BuryJob_def by (intro pres) simp_all

section \<open>net/conn.go\<close>

lemma ms_ops_inv [pres]:
  assumes "sinv m0 s"
  shows "sinv m0 (snd (snd (ms_Append None its m s)))" "sinv m0 (snd (snd (ms_Remove None x m s)))"
  "sinv m0 (snd (snd (ms_Take None m s)))"
proof -
  have "fold (\<lambda>it s. s) xs s = s" for xs :: "'a list" by (induction xs) auto
  with assms show "sinv m0 (snd (snd (ms_Append None its m s)))"
    "sinv m0 (snd (snd (ms_Remove None x m s)))" "sinv m0 (snd (snd (ms_Take None m s)))"
    by (auto simp: ms_Append_def ms_Remove_def ms_Delete_def ms_Take_def ms_fire_def Let_def
        split: option.splits)
qed


lemma watch_store:
  assumes "sinv m0 s" "only_watching s s1" "c < nC s \<or> ms_items m = []" "\<forall>t\<in>set (ms_items m). t < nT s"
    "\<And>t. WatchingCt (T s1 t) - int (count_list (ms_items m) t) =
       WatchingCt (T s t) - int (count_list (ms_items (Watch (C s c))) t)"
  shows "sinv m0 (modC c (\<lambda>x. x\<lparr>Watch := m\<rparr>) s1)"
proof -
  obtain w where s1: "s1 = s\<lparr>T := \<lambda>t. T s t\<lparr>WatchingCt := w t\<rparr>\<rparr>"
    using assms(2) by (auto simp: only_watching_def)
  have "sinv m0 (s\<lparr>T := T s1, C := (C s)(c := C s c\<lparr>Watch := m\<rparr>)\<rparr>)"
    using assms(1,3-5) by (intro inv_watch [where w = w]) (auto simp: s1)
  then show ?thesis by (simp add: modC_def s1)
qed

lemma only_watching_ms:
  "only_watching s (snd (snd (ms_Append (Some onWatch) its m s)))"
  "only_watching s (snd (snd (ms_Remove (Some onIgnore) t m s)))"
  "only_watching s (snd (ms_Clear (Some onIgnore) m s))"
proof -
  have "only_watching s (fold (\<lambda>x. onWatch x i) xs s)" "only_watching s (fold (\<lambda>x. onIgnore x i) xs s)" for xs i
    by (rule fold_inv; blast intro: only_watching_refl only_watching_trans only_watching_callbacks)+
  then show "only_watching s (snd (snd (ms_Append (Some onWatch) its m s)))"
    "only_watching s (snd (snd (ms_Remove (Some onIgnore) t m s)))"
    "only_watching s (snd (ms_Clear (Some onIgnore) m s))"
    using only_watching_callbacks only_watching_refl
    by (auto simp: ms_Append_def ms_Remove_def ms_Delete_def ms_Clear_eq ms_fire_def Let_def
        split: option.splits)
qed

lemma inv_watch_items: "sinv m0 s \<Longrightarrow> \<forall>t\<in>set (ms_items (Watch (C s c))). t < nT s"
  and inv_watch_empty: "sinv m0 s \<Longrightarrow> \<not> c < nC s \<Longrightarrow> ms_items (Watch (C s c)) = []"
  by (auto simp: inv_defs)

lemma Watch_Append_inv [pres]:
  assumes "sinv m0 s" "c < m0" "t < nT s"
  shows "sinv m0 (Watch_Append c t s)"
proof -
  obtain l m s1 where e: "ms_Append (Some onWatch) [t] (Watch (C s c)) s = (l, m, s1)"
    by (cases "ms_Append (Some onWatch) [t] (Watch (C s c)) s") auto
  have "ms_items m = ms_items (Watch (C s c)) @ [t]" using e by (auto simp: ms_Append_def Let_def)
  moreover have "c < nC s" using assms(1,2) by (simp add: invk_def)
  ultimately have "sinv m0 (modC c (\<lambda>x. x\<lparr>Watch := m\<rparr>) s1)"
    using assms inv_watch_items [OF assms(1), of c] only_watching_ms(1) [of s "[t]" "Watch (C s c)"] e
    by (intro watch_store [OF assms(1) _ _ _ watching.append_balance [OF e]]) auto
  then show ?thesis by (simp add: Watch_Append_def e)
qed

lemma Watch_Remove_inv [pres]:
  assumes "sinv m0 s"
  shows "sinv m0 (Watch_Remove c t s)"
proof -
  obtain l m s1 where e: "ms_Remove (Some onIgnore) t (Watch (C s c)) s = (l, m, s1)"
    by (cases "ms_Remove (Some onIgnore) t (Watch (C s c)) s") auto
  have i: "ms_items m = remove1 t (ms_items (Watch (C s c)))"
    using ms_Remove_items(1) [of "Some onIgnore" t "Watch (C s c)" s] e by simp
  have "sinv m0 (modC c (\<lambda>x. x\<lparr>Watch := m\<rparr>) s1)"
    using inv_watch_items [OF assms, of c] inv_watch_empty [OF assms, of c]
      only_watching_ms(2) [of s t "Watch (C s c)"] e
    by (intro watch_store [OF assms _ _ _ watching.remove_balance [OF e]])
      (fastforce simp: i dest: set_mp [OF set_remove1_subset])+
  then show ?thesis by (simp add: Watch_Remove_def e)
qed

lemma Watch_Clear_inv [pres]:
  assumes "sinv m0 s"
  shows "sinv m0 (Watch_Clear c s)"
proof -
  obtain m s1 where e: "ms_Clear (Some onIgnore) (Watch (C s c)) s = (m, s1)"
    by (cases "ms_Clear (Some onIgnore) (Watch (C s c)) s") auto
  have "sinv m0 (modC c (\<lambda>x. x\<lparr>Watch := m\<rparr>) s1)"
    using only_watching_ms(3) [of s "Watch (C s c)"] e
    by (intro watch_store [OF assms])
      (auto simp: watching.clear_balance [OF e])
  then show ?thesis by (simp add: Watch_Clear_def e)
qed

lemma setSoonestJob_inv [pres]: "sinv m0 s \<Longrightarrow> sinv m0 (setSoonestJob c j s)"
  unfolding setSoonestJob_def by (intro pres) simp_all

lemma soonest_loop_inv [pres]: "sinv m0 s \<Longrightarrow> ens (sinv m0) (soonest_loop c jp s)"
proof (rule ens_I)
  fix y assume "soonest_loop c jp s = Some y" and "sinv m0 s"
  then show "sinv m0 y"
  proof (induction rule: soonest_loop.raw_induct [rotated, consumes 1])
    case (1 f c jp s y)
    have [pres]: "sinv m0 s \<Longrightarrow> ens (sinv m0) (f c jp s)" for c jp s using 1(1) by (auto simp: ens_def)
    show ?case by (rule ens_D [OF _ 1(2)]) (use 1(3) in \<open>intro pres; simp_all\<close>)
  qed
qed

lemma connSoonestJob_inv [pres]: "sinv m0 s \<Longrightarrow> keeps m0 (connSoonestJob c s)"
  unfolding connSoonestJob_def by (intro pres) simp_all

lemma connDeadLineSoon_inv [pres]: "sinv m0 s \<Longrightarrow> keeps m0 (connDeadLineSoon c s)"
  unfolding connDeadLineSoon_def by (intro pres) simp_all

lemma removeThisReservedJob_inv [pres]: "sinv m0 s \<Longrightarrow> keeps m0 (removeThisReservedJob c j s)"
  unfolding removeThisReservedJob_def by (intro pres) simp_all

lemma coonTickAt_inv [pres]: "sinv m0 s \<Longrightarrow> keeps m0 (coonTickAt c s)"
  unfolding coonTickAt_def by (intro pres) simp_all

lemma Connes_Remove_inv [pres]: "sinv m0 s \<Longrightarrow> ens (sinv m0) (Connes_Remove i s)"
  unfolding Connes_Remove_def by (rule ens_bind_eq) (auto intro: pres)

lemma Connes_Push_inv [pres]: "sinv m0 s \<Longrightarrow> sinv m0 (Connes_Push c s)"
  unfolding Connes_Push_def by (intro pres) simp_all

lemma connSched_inv [pres]: "sinv m0 s \<Longrightarrow> ens (sinv m0) (connSched c s)"
  unfolding connSched_def by (intro pres) simp_all

lemma removeWaitingCoon_inv [pres]: "sinv m0 s \<Longrightarrow> sinv m0 (removeWaitingCoon c s)"
  unfolding removeWaitingCoon_def by (intro pres) simp_all

lemma reserveJob_inv [pres]: "sinv m0 s \<Longrightarrow> ens (sinv m0) (reserveJob c j s)"
  unfolding reserveJob_def by (intro pres) simp_all

lemma sockWant_inv [pres]: "sinv m0 s \<Longrightarrow> sinv m0 (snd (sockWant c rw s))"
  unfolding sockWant_def by (intro pres) simp_all

section \<open>net/prot.go\<close>

lemma EpollQAdd_inv [pres]: "sinv m0 s \<Longrightarrow> ens (sinv m0) (EpollQAdd c rw s)"
  unfolding EpollQAdd_def by (intro pres) simp_all

lemma reply_inv [pres]: "sinv m0 s \<Longrightarrow> ens (sinv m0) (reply c line l st s)"
  unfolding reply_def by (intro pres) simp_all

lemma replyMsg_inv [pres]: "sinv m0 s \<Longrightarrow> ens (sinv m0) (replyMsg c m s)"
  unfolding replyMsg_def by (intro pres) simp_all

lemma replyErr_inv [pres]: "sinv m0 s \<Longrightarrow> ens (sinv m0) (replyErr c e s)"
  unfolding replyErr_def by (intro pres) simp_all

lemma replyLine_inv [pres]: "sinv m0 s \<Longrightarrow> ens (sinv m0) (replyLine c st txt s)"
  unfolding replyLine_def by (intro pres) simp_all

lemma replyJob_inv [pres]: "sinv m0 s \<Longrightarrow> ens (sinv m0) (replyJob c j m s)"
  unfolding replyJob_def by (intro pres) simp_all

lemma Delay_ops_inv [pres]:
  "sinv m0 s \<Longrightarrow> sinv m0 (snd (Delay_Push t j s))"
  "sinv m0 s \<Longrightarrow> keeps m0 (Delay_Remove t i s)"
  by (auto simp: Delay_Push_def Delay_Remove_def ens_def bind_eq_Some_conv intro: pres split: prod.splits)

lemma Waiting_Take_inv [pres]: "sinv m0 s \<Longrightarrow> sinv m0 (snd (Waiting_Take t s))"
  unfolding Waiting_Take_def by (intro pres) simp_all

text \<open>A push to a ready queue makes the counter lag behind by one, a removal puts it ahead.\<close>

lemma invk_setReady:
  assumes "invk k m0 s" "t < nT s"
  shows "invk (k + int (length h) - int (length (ReadyQ (T s t)))) m0 (modT t (\<lambda>x. x\<lparr>ReadyQ := h\<rparr>) s)"
proof -
  have "(\<Sum>u<nT s. int (length (ReadyQ (if u = t then T s t\<lparr>ReadyQ := h\<rparr> else T s u)))) =
      ready_total s + int (length h) - int (length (ReadyQ (T s t)))"
    using assms(2) unfolding ready_total_def
    by (subst (1 2) sum.remove [of _ t]) (auto intro!: sum.cong)
  then have "ready_total (modT t (\<lambda>x. x\<lparr>ReadyQ := h\<rparr>) s) =
      ready_total s + int (length h) - int (length (ReadyQ (T s t)))"
    by (simp add: ready_total_def [of "s\<lparr>T := m\<rparr>" for m] modT_def fun_upd_def)
  moreover have "tubes_ok (modT t (\<lambda>x. x\<lparr>ReadyQ := h\<rparr>) s) = tubes_ok s"
    by (rule tubes_ok_cong) (auto simp: modT_def)
  moreover have "conns_ok (modT t (\<lambda>x. x\<lparr>ReadyQ := h\<rparr>) s) = conns_ok s"
    by (rule conns_ok_cong) (auto simp: modT_def)
  ultimately show ?thesis
    using assms(1) by (simp add: invk_def) (simp add: index_zero_def table_ok_def refs_ok_def modT_def)
qed

lemma Ready_Push_inv:
  assumes "sinv m0 s" "t < nT s"
  shows "invk 1 m0 (snd (Ready_Push t j s))" "fst (Ready_Push t j s) = True"
  using invk_setReady [OF assms, of "snd (heap_Push (JobPriLess (J s)) (newItem j) (ReadyQ (T s t)))"]
    push_vals(1,3) [of "JobPriLess (J s)" "newItem j" "ReadyQ (T s t)"]
  by (auto simp: Ready_Push_def split: prod.splits)

lemma Ready_Remove_inv:
  assumes "sinv m0 s" "t < nT s"
  shows "ens (\<lambda>p. invk (- 1) m0 (snd p)) (Ready_Remove t i s)"
  unfolding Ready_Remove_def
proof (rule ens_bind_eq)
  fix p assume "heap_Remove (JobPriLess (J s)) i (ReadyQ (T s t)) = Some p"
  then have "length (ReadyQ (T s t)) = Suc (length (snd p))"
    using remove_vals(5) by (cases p) fastforce
  then show "ens (\<lambda>p. invk (- 1) m0 (snd p)) (case p of (it, h) \<Rightarrow> Some (Value it, modT t (\<lambda>x. x\<lparr>ReadyQ := h\<rparr>) s))"
    using invk_setReady [OF assms, of "snd p"] by (auto split: prod.splits)
qed

lemma ready_left_inv: "invk (- 1) m0 s \<Longrightarrow> sinv m0 (ready_left j t s)"
proof -
  assume "invk (- 1) m0 s"
  then have "sinv m0 (s\<lparr>ReadyCt := ReadyCt s - 1\<rparr>)" by (auto simp: inv_defs)
  then show ?thesis unfolding ready_left_def by (auto simp: Let_def intro!: pres)
qed

lemma inv_JTube: "sinv m0 s \<Longrightarrow> JTube (J s j) = Some t \<Longrightarrow> t < nT s"
  by (auto simp: inv_defs)

lemma leave_ready [pres]:
  assumes "JTube (J s j) = Some t" "sinv m0 s" "\<And>s. sinv m0 s \<Longrightarrow> ens (\<lambda>p. sinv m0 (pr p)) (f s)"
  shows "ens (\<lambda>p. sinv m0 (pr p)) (do { (_, s) \<leftarrow> Ready_Remove t i s; let s = ready_left j t s; f s })"
    "ens (\<lambda>p. sinv m0 (pr p)) (do { (_, s) \<leftarrow> Ready_Remove t i s; f (ready_left j t s) })"
  using Ready_Remove_inv [OF assms(2) inv_JTube [OF assms(2,1)], of i]
  by (auto intro!: ens_bind_eq assms(3) ready_left_inv simp: ens_def [of "\<lambda>p. invk k m0 (snd p)" for k])

lemma enter_ready [pres]:
  assumes "JTube (J s j) = Some t" "sinv m0 s" "\<And>s. invk 1 m0 s \<Longrightarrow> ens (\<lambda>p. sinv m0 (pr p)) (f True s)"
  shows "ens (\<lambda>p. sinv m0 (pr p)) (let (pushed, s) = Ready_Push t j s in f pushed s)"
  using Ready_Push_inv [OF assms(2) inv_JTube [OF assms(2,1)], of j] assms(3)
  by (cases "Ready_Push t j s") auto

lemma invk_count [pres]: "invk 1 m0 s \<Longrightarrow> sinv m0 (s\<lparr>ReadyCt := ReadyCt s + 1\<rparr>)"
  by (auto simp: inv_defs)

lemma processQueue_loop_inv [pres]: "sinv m0 s \<Longrightarrow> ens (sinv m0) (processQueue_loop now s)"
proof (rule ens_I)
  fix y assume "processQueue_loop now s = Some y" and "sinv m0 s"
  then show "sinv m0 y"
  proof (induction rule: processQueue_loop.raw_induct [rotated, consumes 1])
    case (1 f now s y)
    have [pres]: "sinv m0 s \<Longrightarrow> ens (sinv m0) (f now s)" for now s using 1(1) by (auto simp: ens_def)
    show ?case by (rule ens_D [OF _ 1(2)]) (use 1(3) in \<open>intro pres; simp_all\<close>)
  qed
qed

lemma processQueue_inv [pres]: "sinv m0 s \<Longrightarrow> ens (sinv m0) (processQueue s)"
  unfolding processQueue_def by (intro pres) simp_all

lemma enqueueJob_inv [pres]: "sinv m0 s \<Longrightarrow> keeps m0 (enqueueJob j delay u s)"
  unfolding enqueueJob_def by (intro pres) (assumption | simp)+

lemma removeBuriedJob_inv [pres]: "sinv m0 s \<Longrightarrow> keeps m0 (removeBuriedJob jp s)"
  unfolding removeBuriedJob_def by (intro pres) simp_all

lemma removeReservedJob_inv [pres]: "sinv m0 s \<Longrightarrow> keeps m0 (removeReservedJob c jp s)"
  unfolding removeReservedJob_def by (intro pres) simp_all

lemma touchJob_inv [pres]: "sinv m0 s \<Longrightarrow> keeps m0 (touchJob c jp s)"
  unfolding touchJob_def by (intro pres) simp_all

lemma removeDelayedJob_inv [pres]: "sinv m0 s \<Longrightarrow> keeps m0 (removeDelayedJob jp s)"
  unfolding removeDelayedJob_def by (intro pres) simp_all

lemma removeReadyJob_inv [pres]: "sinv m0 s \<Longrightarrow> keeps m0 (removeReadyJob jp s)"
  unfolding removeReadyJob_def using leave_ready(2) [where f = "\<lambda>s. Some (Some j, s)" and pr = snd for j]
  by (intro pres) simp_all

lemma kickBuriedJob_inv [pres]: "sinv m0 s \<Longrightarrow> keeps m0 (kickBuriedJob j s)"
  unfolding kickBuriedJob_def by (intro pres) simp_all

lemma kickDelayedJob_inv [pres]: "sinv m0 s \<Longrightarrow> keeps m0 (kickDelayedJob j s)"
  unfolding kickDelayedJob_def by (intro pres) simp_all

lemma kickBuried_loop_inv [pres]: "sinv m0 s \<Longrightarrow> keeps m0 (kickBuried_loop t n s)"
proof (induction n arbitrary: s)
  case (Suc n)
  note [pres] = Suc.IH
  show ?case
    by (subst kickBuried_loop.simps, intro pres) (simp_all add: Suc.prems)
qed simp

lemma kickDelayed_loop_inv [pres]: "sinv m0 s \<Longrightarrow> keeps m0 (kickDelayed_loop t n s)"
proof (induction n arbitrary: s)
  case (Suc n)
  note [pres] = Suc.IH
  show ?case
    by (subst kickDelayed_loop.simps, intro pres) (simp_all add: Suc.prems)
qed simp

lemma kickBuriedJobs_inv [pres]: "sinv m0 s \<Longrightarrow> keeps m0 (kickBuriedJobs t n s)"
  unfolding kickBuriedJobs_def by (intro pres) simp_all

lemma kickDelayedJobs_inv [pres]: "sinv m0 s \<Longrightarrow> keeps m0 (kickDelayedJobs t n s)"
  unfolding kickDelayedJobs_def by (intro pres) simp_all

lemma kickJobs_inv [pres]: "sinv m0 s \<Longrightarrow> keeps m0 (kickJobs t n s)"
  unfolding kickJobs_def by (intro pres) simp_all

lemma connSetProducer_inv [pres]: "sinv m0 s \<Longrightarrow> sinv m0 (connSetProducer c s)"
  unfolding connSetProducer_def by (intro pres) simp_all

lemma connSetWorker_inv [pres]: "sinv m0 s \<Longrightarrow> sinv m0 (connSetWorker c s)"
  unfolding connSetWorker_def by (intro pres) simp_all

lemma connSetSoonestJob_inv [pres]: "sinv m0 s \<Longrightarrow> sinv m0 (connSetSoonestJob c j s)"
  unfolding connSetSoonestJob_def by (intro pres) simp_all

lemma connReserveJob_inv [pres]: "sinv m0 s \<Longrightarrow> ens (sinv m0) (connReserveJob c j s)"
  unfolding connReserveJob_def by (intro pres) simp_all

lemma enqueueWaitingConn_inv [pres]: "sinv m0 s \<Longrightarrow> sinv m0 (enqueueWaitingConn c s)"
  unfolding enqueueWaitingConn_def by (intro pres) simp_all

lemma waitForJob_inv [pres]: "sinv m0 s \<Longrightarrow> ens (sinv m0) (waitForJob c tm s)"
  unfolding waitForJob_def by (intro pres) simp_all

lemma connTimeout_loop_inv [pres]: "sinv m0 s \<Longrightarrow> ens (sinv m0) (connTimeout_loop c s)"
proof (rule ens_I)
  fix y assume "connTimeout_loop c s = Some y" and "sinv m0 s"
  then show "sinv m0 y"
  proof (induction rule: connTimeout_loop.raw_induct [rotated, consumes 1])
    case (1 f c s y)
    have [pres]: "sinv m0 s \<Longrightarrow> ens (sinv m0) (f c s)" for c s using 1(1) by (auto simp: ens_def)
    show ?case by (rule ens_D [OF _ 1(2)]) (use 1(3) in \<open>intro pres; simp_all\<close>)
  qed
qed

lemma connTimeout_inv [pres]: "sinv m0 s \<Longrightarrow> ens (sinv m0) (connTimeout c s)"
  unfolding connTimeout_def by (intro pres) simp_all

lemma inv_using: "sinv m0 s \<Longrightarrow> Use (C s c) = Some u \<Longrightarrow> c < nC s"
  by (rule ccontr) (auto simp: inv_defs)

lemma leave_tube [pres]:
  assumes "Use (C s c) = Some u" "sinv m0 s"
    "\<And>s. sinv m0 s \<Longrightarrow> ens (\<lambda>p. sinv m0 (pr p)) (f s)"
  shows "ens (\<lambda>p. sinv m0 (pr p)) (let s = modT u (\<lambda>x. x\<lparr>UsingCt := UsingCt x - 1\<rparr>) s;
      s = modC c (\<lambda>x. x\<lparr>Use := None\<rparr>) s in f s)"
proof -
  let ?T = "T (modT u (\<lambda>x. x\<lparr>UsingCt := UsingCt x - 1\<rparr>) s)"
  have "sinv m0 (s\<lparr>T := ?T, C := (C s)(c := C s c\<lparr>Use := None\<rparr>)\<rparr>)"
    using assms(1,2) inv_using [OF assms(2,1)] by (intro inv_use) (auto simp: modT_def)
  then show ?thesis using assms(3) by (simp add: Let_def modC_def modT_def)
qed

lemma enqueueReservedJobs_inv [pres]: "sinv m0 s \<Longrightarrow> ens (sinv m0) (enqueueReservedJobs c s)"
proof (rule ens_I)
  fix y assume "enqueueReservedJobs c s = Some y" and "sinv m0 s"
  then show "sinv m0 y"
  proof (induction rule: enqueueReservedJobs.raw_induct [rotated, consumes 1])
    case (1 f c s y)
    have [pres]: "sinv m0 s \<Longrightarrow> ens (sinv m0) (f c s)" for c s using 1(1) by (auto simp: ens_def)
    show ?case by (rule ens_D [OF _ 1(2)]) (use 1(3) in \<open>intro pres; simp_all\<close>)
  qed
qed

lemma connClose_inv [pres]: "sinv m0 s \<Longrightarrow> ens (sinv m0) (connClose c s)"
  unfolding connClose_def by (intro pres) simp_all

lemma EpollQApply_inv [pres]: "sinv m0 s \<Longrightarrow> ens (sinv m0) (EpollQApply s)"
proof (rule ens_I)
  fix y assume "EpollQApply s = Some y" and "sinv m0 s"
  then show "sinv m0 y"
  proof (induction rule: EpollQApply.raw_induct [rotated, consumes 1])
    case (1 f s y)
    have [pres]: "sinv m0 s \<Longrightarrow> ens (sinv m0) (f s)" for s using 1(1) by (auto simp: ens_def)
    show ?case by (rule ens_D [OF _ 1(2)]) (use 1(3) in \<open>intro pres; simp_all\<close>)
  qed
qed

lemma EpollQRm_loop_inv [pres]: "sinv m0 s \<Longrightarrow> ens (sinv m0) (EpollQRm_loop c nh s)"
proof (rule ens_I)
  fix y assume "EpollQRm_loop c nh s = Some y" and "sinv m0 s"
  then show "sinv m0 y"
  proof (induction rule: EpollQRm_loop.raw_induct [rotated, consumes 1])
    case (1 f c nh s y)
    have [pres]: "sinv m0 s \<Longrightarrow> ens (sinv m0) (f c nh s)" for c nh s using 1(1) by (auto simp: ens_def)
    show ?case by (rule ens_D [OF _ 1(2)]) (use 1(3) in \<open>intro pres; simp_all\<close>)
  qed
qed

lemma EpollQRmConn_inv [pres]: "sinv m0 s \<Longrightarrow> ens (sinv m0) (EpollQRmConn c s)"
  unfolding EpollQRmConn_def by (intro pres) simp_all

section \<open>Statistics and commands\<close>

lemma fmtStats_inv [pres]: "sinv m0 s \<Longrightarrow> sinv m0 (snd (fmtStats s))"
  using inv_other(12) [of 0 m0 s]
  by (cases "time_Now s") (simp add: fmtStats_def uptime_def Let_def)

lemma fmtStatsTube_inv [pres]: "sinv m0 s \<Longrightarrow> sinv m0 (snd (fmtStatsTube t s))"
  using inv_other(12) [of 0 m0 s]
  by (cases "time_Now s") (simp add: fmtStatsTube_def Let_def)

lemma fmtStatsJob_inv [pres]: "sinv m0 s \<Longrightarrow> keeps m0 (fmtStatsJob j s)"
  unfolding fmtStatsJob_def by (intro pres) simp_all

lemma ens_stats_of [pres]:
  "(what = AllStats \<Longrightarrow> ens Q a) \<Longrightarrow> (\<And>j. what = JobStats j \<Longrightarrow> ens Q (b j)) \<Longrightarrow>
   (\<And>t. what = TubeStats t \<Longrightarrow> ens Q (d t)) \<Longrightarrow>
   ens Q (case what of AllStats \<Rightarrow> a | JobStats j \<Rightarrow> b j | TubeStats t \<Rightarrow> d t)"
  by (cases what) auto

lemma doStats_inv [pres]: "sinv m0 s \<Longrightarrow> ens (sinv m0) (doStats c what s)"
  unfolding doStats_def by (intro pres) simp_all

lemma doListTubes_inv [pres]: "sinv m0 s \<Longrightarrow> ens (sinv m0) (doListTubes c l s)"
  unfolding doListTubes_def by (intro pres) simp_all

lemma fillExtraData_inv [pres]: "sinv m0 s \<Longrightarrow> ens (sinv m0) (fillExtraData c s)"
  unfolding fillExtraData_def by (intro pres) simp_all

lemma skip_inv [pres]: "sinv m0 s \<Longrightarrow> ens (sinv m0) (skip c n m s)"
  unfolding skip_def by (intro pres) simp_all

lemma enqueueInComingJob_inv [pres]: "sinv m0 s \<Longrightarrow> ens (sinv m0) (enqueueInComingJob c s)"
  unfolding enqueueInComingJob_def by (intro pres) simp_all

lemma maybeEnqueueInComingJob_inv [pres]: "sinv m0 s \<Longrightarrow> ens (sinv m0) (maybeEnqueueInComingJob c s)"
  unfolding maybeEnqueueInComingJob_def by (intro pres) simp_all

lemma on_ok_inv [pres]:
  "sinv m0 s \<Longrightarrow> (\<And>v idx. ens (sinv m0) (k v idx)) \<Longrightarrow> ens (sinv m0) (on_ok c s r k)"
  unfolding on_ok_def by (rule ens_bind_eq) (auto intro: pres split: sum.splits)

lemma MakeJobWithID_Use [pres]:
  "sinv m0 s \<Longrightarrow> sinv m0 (snd (MakeJobWithID pri delay ttr b (Use (C s c)) jid s))"
  by (rule MakeJobWithID_inv) (auto simp: inv_defs)

lemma TubeFindOrMake_let [pres]:
  "sinv m0 s \<Longrightarrow> IsValidTube nm \<Longrightarrow> (\<And>t s. sinv m0 s \<Longrightarrow> t < nT s \<Longrightarrow> ens (\<lambda>p. sinv m0 (pr p)) (f t s)) \<Longrightarrow>
   ens (\<lambda>p. sinv m0 (pr p)) (let (t, s) = TubeFindOrMake nm s in f t s)"
  using TubeFindOrMake_inv [of m0 s nm] by (cases "TubeFindOrMake nm s") auto

lemma dispatchOpPut_inv [pres]: "sinv m0 s \<Longrightarrow> ens (sinv m0) (dispatchOpPut c s)"
  unfolding dispatchOpPut_def by (intro pres) simp_all

lemma use_tube_inv [pres]:
  assumes "sinv m0 s" "t < nT s" "Use (C s c) = Some u"
  shows "sinv m0 (modT t (\<lambda>x. x\<lparr>UsingCt := UsingCt x + 1\<rparr>) (modC c (\<lambda>x. x\<lparr>Use := Some t\<rparr>)
      (modT u (\<lambda>x. x\<lparr>UsingCt := UsingCt x - 1\<rparr>) s)))"
proof -
  let ?T = "T (modT t (\<lambda>x. x\<lparr>UsingCt := UsingCt x + 1\<rparr>) (modT u (\<lambda>x. x\<lparr>UsingCt := UsingCt x - 1\<rparr>) s))"
  have "sinv m0 (s\<lparr>T := ?T, C := (C s)(c := C s c\<lparr>Use := Some t\<rparr>)\<rparr>)"
    using assms inv_using [OF assms(1,3)] by (intro inv_use) (auto simp: modT_def)
  moreover have "modT t (\<lambda>x. x\<lparr>UsingCt := UsingCt x + 1\<rparr>) (modC c (\<lambda>x. x\<lparr>Use := Some t\<rparr>)
      (modT u (\<lambda>x. x\<lparr>UsingCt := UsingCt x - 1\<rparr>) s)) = s\<lparr>T := ?T, C := (C s)(c := C s c\<lparr>Use := Some t\<rparr>)\<rparr>"
    by (simp add: modC_def modT_def)
  ultimately show ?thesis by simp
qed

lemma dispatchOpUse_inv [pres]: "sinv m0 s \<Longrightarrow> ens (sinv m0) (dispatchOpUse c s)"
  unfolding dispatchOpUse_def Let_def
  by (intro on_ok_inv ens_if TubeFindOrMake_let [unfolded Let_def] ens_bind_eq inv_other
      replyMsg_inv replyLine_inv use_tube_inv) auto

lemma reply_found_inv [pres]: "sinv m0 s \<Longrightarrow> ens (sinv m0) (reply_found c jp s)"
  unfolding reply_found_def by (intro pres) simp_all

lemma dispatchOpPeekReady_inv [pres]: "sinv m0 s \<Longrightarrow> ens (sinv m0) (dispatchOpPeekReady c s)"
  unfolding dispatchOpPeekReady_def by (intro pres) simp_all

lemma dispatchOpPeekDelayed_inv [pres]: "sinv m0 s \<Longrightarrow> ens (sinv m0) (dispatchOpPeekDelayed c s)"
  unfolding dispatchOpPeekDelayed_def by (intro pres) simp_all

lemma dispatchOpPeekBuried_inv [pres]: "sinv m0 s \<Longrightarrow> ens (sinv m0) (dispatchOpPeekBuried c s)"
  unfolding dispatchOpPeekBuried_def by (intro pres) simp_all

lemma dispatchOpPeekJob_inv [pres]: "sinv m0 s \<Longrightarrow> ens (sinv m0) (dispatchOpPeekJob c s)"
  unfolding dispatchOpPeekJob_def by (intro pres) simp_all

lemma dispatchOpReserveTimeout_inv [pres]: "sinv m0 s \<Longrightarrow> keeps m0 (dispatchOpReserveTimeout c s)"
  unfolding dispatchOpReserveTimeout_def by (intro pres) simp_all

lemma dispatchOpReserve_inv [pres]: "sinv m0 s \<Longrightarrow> ens (sinv m0) (dispatchOpReserve c t tm s)"
  unfolding dispatchOpReserve_def by (intro pres) simp_all

lemma dispatchOpReserveJob_inv [pres]: "sinv m0 s \<Longrightarrow> ens (sinv m0) (dispatchOpReserveJob c s)"
  unfolding dispatchOpReserveJob_def by (intro pres) simp_all

lemma dispatchOpDelete_inv [pres]: "sinv m0 s \<Longrightarrow> ens (sinv m0) (dispatchOpDelete c s)"
  unfolding dispatchOpDelete_def by (intro pres) simp_all

lemma dispatchOpRelease_inv [pres]: "sinv m0 s \<Longrightarrow> ens (sinv m0) (dispatchOpRelease c s)"
  unfolding dispatchOpRelease_def by (intro pres) simp_all

lemma dispatchOpBury_inv [pres]: "sinv m0 s \<Longrightarrow> ens (sinv m0) (dispatchOpBury c s)"
  unfolding dispatchOpBury_def by (intro pres) simp_all

lemma dispatchOpKick_inv [pres]: "sinv m0 s \<Longrightarrow> ens (sinv m0) (dispatchOpKick c s)"
  unfolding dispatchOpKick_def by (intro pres) simp_all

lemma dispatchOpKickJob_inv [pres]: "sinv m0 s \<Longrightarrow> ens (sinv m0) (dispatchOpKickJob c s)"
  unfolding dispatchOpKickJob_def by (intro pres) simp_all

lemma dispatchOpTouch_inv [pres]: "sinv m0 s \<Longrightarrow> ens (sinv m0) (dispatchOpTouch c s)"
  unfolding dispatchOpTouch_def by (intro pres) simp_all

lemma dispatchStats_inv [pres]: "sinv m0 s \<Longrightarrow> ens (sinv m0) (dispatchStats c s)"
  unfolding dispatchStats_def by (intro pres) simp_all

lemma dispatchStatsJob_inv [pres]: "sinv m0 s \<Longrightarrow> ens (sinv m0) (dispatchStatsJob c s)"
  unfolding dispatchStatsJob_def by (intro pres) simp_all

lemma dispatchStatsTube_inv [pres]: "sinv m0 s \<Longrightarrow> ens (sinv m0) (dispatchStatsTube c s)"
  unfolding dispatchStatsTube_def by (intro pres) simp_all

lemma dispatchOpListTubes_inv [pres]: "sinv m0 s \<Longrightarrow> ens (sinv m0) (dispatchOpListTubes c s)"
  unfolding dispatchOpListTubes_def by (intro pres) simp_all

lemma dispatchOpListTubeUsed_inv [pres]: "sinv m0 s \<Longrightarrow> ens (sinv m0) (dispatchOpListTubeUsed c s)"
  unfolding dispatchOpListTubeUsed_def by (intro pres) simp_all

lemma dispatchOpListTubesWatched_inv [pres]: "sinv m0 s \<Longrightarrow> ens (sinv m0) (dispatchOpListTubesWatched c s)"
  unfolding dispatchOpListTubesWatched_def by (intro pres) simp_all

lemma dispatchOpIgnore_inv [pres]: "sinv m0 s \<Longrightarrow> ens (sinv m0) (dispatchOpIgnore c s)"
  unfolding dispatchOpIgnore_def by (intro pres) simp_all

lemma dispatchOpQuit_inv [pres]: "sinv m0 s \<Longrightarrow> ens (sinv m0) (dispatchOpQuit c s)"
  unfolding dispatchOpQuit_def by (intro pres) simp_all

lemma dispatchOpPauseTube_inv [pres]: "sinv m0 s \<Longrightarrow> ens (sinv m0) (dispatchOpPauseTube c s)"
  unfolding dispatchOpPauseTube_def by (intro pres) simp_all

lemma watch_if_inv:
  "sinv m0 s \<Longrightarrow> c < m0 \<Longrightarrow> t < nT s \<Longrightarrow>
   sinv m0 (if \<not> ms_Contains t (Watch (C s c)) then Watch_Append c t s else s)"
  by (simp add: Watch_Append_inv)

lemma dispatchOpWatch_inv [pres]: "c < m0 \<Longrightarrow> sinv m0 s \<Longrightarrow> ens (sinv m0) (dispatchOpWatch c s)"
  unfolding dispatchOpWatch_def Let_def
  by (intro on_ok_inv ens_if TubeFindOrMake_let [unfolded Let_def] inv_other
      replyMsg_inv replyLine_inv watch_if_inv) auto

lemma dispatchCmd_inv [pres]: "c < m0 \<Longrightarrow> sinv m0 s \<Longrightarrow> ens (sinv m0) (dispatchCmd c s)"
  unfolding dispatchCmd_def
  by (intro ens_if replyMsg_inv; (assumption | (cases "whichCmd (Cmd (C s c))"; simp only: op.case; intro pres; simp_all)))

section \<open>The server\<close>

lemma ens_socket [pres]:
  fixes m :: "rd_res option"
  shows
  "(r = RdErr \<Longrightarrow> ens Q a) \<Longrightarrow> (r = RdEof \<Longrightarrow> ens Q b) \<Longrightarrow> (\<And>d. r = RdOk d \<Longrightarrow> ens Q (f d)) \<Longrightarrow>
   ens Q (case r of RdErr \<Rightarrow> a | RdEof \<Rightarrow> b | RdOk d \<Rightarrow> f d)"
  "(w = WrErr \<Longrightarrow> ens Q a) \<Longrightarrow> (\<And>n. w = WrOk n \<Longrightarrow> ens Q (g n)) \<Longrightarrow>
   ens Q (case w of WrErr \<Rightarrow> a | WrOk n \<Rightarrow> g n)"
  "(\<And>x. m = Some x \<Longrightarrow> ens Q (h x)) \<Longrightarrow> ens Q (m \<bind> h)"
  by (cases r; cases w; auto intro: ens_bind_eq)+

lemma connWantCommand_inv [pres]: "sinv m0 s \<Longrightarrow> ens (sinv m0) (connWantCommand c s)"
  unfolding connWantCommand_def by (intro pres) simp_all

lemma conn_close_state_inv [pres]: "sinv m0 s \<Longrightarrow> sinv m0 (conn_close_state c s)"
  unfolding conn_close_state_def by (intro pres) simp_all

lemma io_want_command_inv [pres]: "sinv m0 s \<Longrightarrow> ens (sinv m0) (io_want_command k c s)"
  unfolding io_want_command_def by (intro pres) simp_all

lemma io_want_end_line_inv [pres]: "sinv m0 s \<Longrightarrow> ens (sinv m0) (io_want_end_line k c s)"
  unfolding io_want_end_line_def by (intro pres) simp_all

lemma io_bitbucket_inv [pres]: "sinv m0 s \<Longrightarrow> ens (sinv m0) (io_bitbucket k c s)"
  unfolding io_bitbucket_def by (intro pres) simp_all

lemma io_want_data_inv [pres]: "sinv m0 s \<Longrightarrow> ens (sinv m0) (io_want_data k c s)"
  unfolding io_want_data_def by (intro pres) simp_all

lemma io_send_word_inv [pres]: "sinv m0 s \<Longrightarrow> ens (sinv m0) (io_send_word k c s)"
  unfolding io_send_word_def by (intro pres) simp_all

lemma io_send_job_inv [pres]: "sinv m0 s \<Longrightarrow> ens (sinv m0) (io_send_job k c s)"
  unfolding io_send_job_def by (intro pres) simp_all

lemma io_wait_inv [pres]: "sinv m0 s \<Longrightarrow> ens (sinv m0) (io_wait c s)"
  unfolding io_wait_def by (intro pres) simp_all

lemma connProcessIO_inv [pres]: "sinv m0 s \<Longrightarrow> ens (sinv m0) (connProcessIO k c s)"
  unfolding connProcessIO_def
  by (cases "CState (C s c)"; simp only: conn_state.case; intro pres; simp_all)

lemma hConn_loop_inv [pres]:
  assumes "c < m0"
  shows "sinv m0 s \<Longrightarrow> ens (sinv m0) (hConn_loop c s)"
proof (rule ens_I)
  fix y assume "hConn_loop c s = Some y" and "sinv m0 s"
  then show "sinv m0 y"
    using assms
  proof (induction rule: hConn_loop.raw_induct [rotated, consumes 1])
    case (1 f c s y)
    have [pres]: "c < m0 \<Longrightarrow> sinv m0 s \<Longrightarrow> ens (sinv m0) (f c s)" for c s
      using 1(1) by (auto simp: ens_def)
    show ?case by (rule ens_D [OF _ 1(2)]) (use 1(3,4) in \<open>intro pres; simp_all\<close>)
  qed
qed

lemma hConn_inv [pres]: "c < m0 \<Longrightarrow> sinv m0 s \<Longrightarrow> ens (sinv m0) (hConn k c w s)"
  unfolding hConn_def by (intro pres) simp_all

lemma inv_new_conn:
  assumes "sinv m0 s"
  shows "sinv (Suc (nC s)) (s\<lparr>nC := Suc (nC s), C := (C s)(nC s := zero_coon)\<rparr>)" (is "sinv _ ?s")
proof -
  have z: "Use zero_coon = None" "ms_items (Watch zero_coon) = []" "TickPos zero_coon = 0"
    by (simp_all add: zero_coon_def NewMs_def)
  have "defaultTube s < nT s" using assms by (auto simp: inv_defs)
  then have "BuriedL (T s (defaultTube s)) < nJ s" using assms by (simp add: inv_defs)
  then have "ReservedJobs zero_coon < nJ s" by (simp add: zero_coon_def)
  moreover have "{c. c < Suc (nC s) \<and> Use (C ?s c) = Some t} = {c. c < nC s \<and> Use (C s c) = Some t}" for t
    by (auto simp: z less_Suc_eq)
  then have "users ?s t = users s t" for t by (simp add: users_def)
  moreover have "watchers ?s t = watchers s t" for t by (simp add: watchers_def z)
  ultimately show ?thesis
    using assms z unfolding invk_def conns_ok_def
    by (auto simp: index_zero_def table_ok_def refs_ok_def tubes_ok_def ready_total_def)
qed

lemma inv_reserved: "sinv m s \<Longrightarrow> l < nJ s \<Longrightarrow> sinv m (modC c (\<lambda>x. x\<lparr>ReservedJobs := l\<rparr>) s)"
proof -
  assume s: "sinv m s" and l: "l < nJ s"
  let ?s = "modC c (\<lambda>x. x\<lparr>ReservedJobs := l\<rparr>) s"
  have "conns_ok ?s = conns_ok s" by (rule conns_ok_cong) (auto simp: modC_def)
  then show ?thesis using s l unfolding invk_def
    by (auto simp: index_zero_def table_ok_def refs_ok_def tubes_ok_def ready_total_def modC_def)
qed

lemma inv_weaken: "sinv m s \<Longrightarrow> m' \<le> m \<Longrightarrow> sinv m' s"
  by (simp add: invk_def)

lemma join_tube:
  assumes "sinv m0 s" "c < nC s" "u < nT s" "Use (C s c) = None"
  shows "sinv m0 (modT u (\<lambda>x. x\<lparr>UsingCt := UsingCt x + 1\<rparr>) (modC c (\<lambda>x. x\<lparr>Use := Some u\<rparr>) s))"
proof -
  let ?T = "T (modT u (\<lambda>x. x\<lparr>UsingCt := UsingCt x + 1\<rparr>) s)"
  have "sinv m0 (s\<lparr>T := ?T, C := (C s)(c := C s c\<lparr>Use := Some u\<rparr>)\<rparr>)"
    using assms by (intro inv_use) (auto simp: modT_def)
  moreover have "modT u (\<lambda>x. x\<lparr>UsingCt := UsingCt x + 1\<rparr>) (modC c (\<lambda>x. x\<lparr>Use := Some u\<rparr>) s) =
      s\<lparr>T := ?T, C := (C s)(c := C s c\<lparr>Use := Some u\<rparr>)\<rparr>"
    by (simp add: modC_def modT_def)
  ultimately show ?thesis by simp
qed

lemma NewConn_inv:
  assumes "sinv m0 s" "u < nT s" "w < nT s"
  shows "sinv m0 (snd (NewConn st u w s))"
proof -
  let ?m = "Suc (nC s)"
  let ?s1 = "snd (NewJob None (s\<lparr>nC := Suc (nC s), C := (C s)(nC s := zero_coon)\<rparr>))"
  let ?W = "\<lambda>l. Watch_Append (nC s) w (modC (nC s) (\<lambda>x. x\<lparr>ReservedJobs := l\<rparr>) ?s1)"
  have "sinv ?m ?s1" by (intro pres inv_new_conn [OF assms(1)])
  then have W: "sinv ?m (?W (nJ s))"
    using assms(3) by (intro pres inv_reserved) (simp_all add: modC_def NewJob_ref inv_new_conn [OF assms(1)])
  have F: "nT (?W l) = nT s" "Use (C (?W l) (nC s)) = None" for l
    by (simp_all add: Watch_Append_def ms_Append_def ms_fire_def onWatch_def modC_def modT_def Let_def
        NewJob_ref zero_coon_def)
  have N: "nC s < nC (?W (nJ s))" using W by (simp add: invk_def)
  have tail: "sinv m (snd (let s = modT u (\<lambda>x. x\<lparr>UsingCt := UsingCt x + 1\<rparr>) (modC c (\<lambda>x. x\<lparr>Use := Some u\<rparr>) X);
          s = modC c (\<lambda>x. x\<lparr>SockF := True\<rparr>) s;
          (ok, s) = syscall_ok s
      in if \<not> ok then (None, s)
         else
           let s = modC c (\<lambda>x. x\<lparr>CState := st, PendingTimeout := -1, TickPos := 0,
                     InCoons := 0\<rparr>) s
           in (Some c, s\<lparr>CurConnCt := CurConnCt s + 1, TotalConnCt := TotalConnCt s + 1\<rparr>)))"
    if "sinv m X" "c < nC X" "u < nT X" "Use (C X c) = None" for X c m
    using that by (intro pres join_tube) simp_all
  have l: "fst (NewJob None (s\<lparr>nC := Suc (nC s), C := (C s)(nC s := zero_coon)\<rparr>)) = nJ s" by (simp add: NewJob_ref)
  have u: "u < nT (?W (nJ s))" using assms(2) F(1) by simp
  have "sinv ?m (snd (NewConn st u w s))"
    using tail [OF W N u F(2)] by (simp only: NewConn_def Let_def case_prod_unfold l)
  then show ?thesis by (rule inv_weaken) (use assms(1) in \<open>simp add: invk_def\<close>)
qed

lemma hAccept_inv [pres]: "sinv m0 s \<Longrightarrow> ens (sinv m0) (hAccept s)"
proof -
  have d: "defaultTube s < nT s" if "sinv m0 s" for s using that by (auto simp: inv_defs)
  assume "sinv m0 s"
  then show ?thesis
    unfolding hAccept_def GetDefaultTube_def
    by (intro pres NewConn_inv d) (simp_all add: d)
qed

lemma tick_delayed_inv [pres]: "sinv m0 s \<Longrightarrow> keeps m0 (tick_delayed now period s)"
proof (rule ens_I)
  fix y assume "tick_delayed now period s = Some y" and "sinv m0 s"
  then show "sinv m0 (snd y)"
  proof (induction rule: tick_delayed.raw_induct [rotated, consumes 1])
    case (1 f now period s y)
    have [pres]: "sinv m0 s \<Longrightarrow> keeps m0 (f now period s)" for now period s using 1(1) by (auto simp: ens_def)
    show ?case by (rule ens_D [OF _ 1(2)]) (use 1(3) in \<open>intro pres; simp_all\<close>)
  qed
qed

lemma tick_tubes_inv [pres]: "sinv m0 s \<Longrightarrow> keeps m0 (tick_tubes now period s)"
  unfolding tick_tubes_def ms_eachM_def
  by (rule ens_foldM) (auto intro!: pres split: prod.splits simp: Let_def)

lemma ens_item_event [pres]:
  fixes m :: "nat item option"
  shows "(\<And>x. m = Some x \<Longrightarrow> ens Q (f x)) \<Longrightarrow> ens Q (m \<bind> f)"
  "(e = NoEvent \<Longrightarrow> ens Q a) \<Longrightarrow> (e = AcceptEvent \<Longrightarrow> ens Q b) \<Longrightarrow>
   (\<And>c rw k. e = ConnEvent c rw k \<Longrightarrow> ens Q (g c rw k)) \<Longrightarrow>
   ens Q (case e of NoEvent \<Rightarrow> a | AcceptEvent \<Rightarrow> b | ConnEvent c rw k \<Rightarrow> g c rw k)"
  by (auto intro: ens_bind_eq split: event.splits)

lemma tick_connes_inv [pres]: "sinv m0 s \<Longrightarrow> keeps m0 (tick_connes i now period s)"
proof (rule ens_I)
  fix y assume "tick_connes i now period s = Some y" and "sinv m0 s"
  then show "sinv m0 (snd y)"
  proof (induction rule: tick_connes.raw_induct [rotated, consumes 1])
    case (1 f i now period s y)
    have [pres]: "sinv m0 s \<Longrightarrow> keeps m0 (f i now period s)" for i now period s using 1(1) by (auto simp: ens_def)
    show ?case by (rule ens_D [OF _ 1(2)]) (use 1(3) in \<open>intro pres; simp_all\<close>)
  qed
qed

lemma protTick_inv [pres]: "sinv m0 s \<Longrightarrow> keeps m0 (protTick s)"
  unfolding protTick_def by (intro pres) simp_all

lemma Start_step_inv [pres]: "(\<And>c rw k. e = ConnEvent c rw k \<Longrightarrow> c < m0) \<Longrightarrow> sinv m0 s \<Longrightarrow> ens (sinv m0) (Start_step e s)"
  unfolding Start_step_def by (intro pres) simp_all

end
