(* ===== verification/Execute.thy ===== *)
theory Execute
  imports Server
begin

text \<open>
  Code equations with which the simplifier evaluates concrete runs of the server: an operation
  or an assignment is unfolded once the state it works on is known, and an update of a store
  when the store is read. The equations do not change what the definitions mean.
\<close>

declare fun_upd_apply [code]

definition let_world :: "world \<Rightarrow> (world \<Rightarrow> 'a) \<Rightarrow> 'a" where
  "let_world s f = f s"

lemma let_world_unfold [code_unfold]: "Let = let_world"
  by (simp add: let_world_def Let_def fun_eq_iff)

lemma let_world_code [code]:
  "let_world \<lparr>J = x0, nJ = x1, T = x2, nT = x3, C = x4, nC = x5, F = x6, nF = x7, allJobs =
    x8, nextJobId = x9, tubes = x10, defaultTube = x11, Wal = x12, Connes = x13, epollQ =
    x14, OpCt = x15, AllJobsUsed = x16, ReadyCt = x17, JobTimeoutCt = x18, CurConnCt = x19,
    CurWorkerCt = x20, CurProducerCt = x21, TotalConnCt = x22, GlobalState = x23, MaxJobSize
    = x24, DrainMode = x25, clock = x26, ticks = x27, io = x28, ios = x29, Env = x30\<rparr> f =
   f \<lparr>J = x0, nJ = x1, T = x2, nT = x3, C = x4, nC = x5, F = x6, nF = x7, allJobs =
    x8, nextJobId = x9, tubes = x10, defaultTube = x11, Wal = x12, Connes = x13, epollQ =
    x14, OpCt = x15, AllJobsUsed = x16, ReadyCt = x17, JobTimeoutCt = x18, CurConnCt = x19,
    CurWorkerCt = x20, CurProducerCt = x21, TotalConnCt = x22, GlobalState = x23, MaxJobSize
    = x24, DrainMode = x25, clock = x26, ticks = x27, io = x28, ios = x29, Env = x30\<rparr>"
  by (simp add: let_world_def)

definition known :: "world \<Rightarrow> bool" where
  "known s \<longleftrightarrow> True"

lemma known_code [code]:
  "known \<lparr>J = x0, nJ = x1, T = x2, nT = x3, C = x4, nC = x5, F = x6, nF = x7, allJobs = x8,
    nextJobId = x9, tubes = x10, defaultTube = x11, Wal = x12, Connes = x13, epollQ = x14, OpCt
    = x15, AllJobsUsed = x16, ReadyCt = x17, JobTimeoutCt = x18, CurConnCt = x19, CurWorkerCt =
    x20, CurProducerCt = x21, TotalConnCt = x22, GlobalState = x23, MaxJobSize = x24, DrainMode
    = x25, clock = x26, ticks = x27, io = x28, ios = x29, Env = x30\<rparr> = True"
  by (simp add: known_def)

lemma on_known: "a = b \<Longrightarrow> a = (if known w then b else a)"
  by simp

lemmas when_known [THEN on_known, where ?s1 = s and ?w = s for s, code] =
  ListReset_def NewJob_def JobStore_def MakeJobWithID_def GetJobState_def JobFind_def
  JobListRest_def JobCopy_def JobFree_def JobListEmpty_def JobListRemove_def JobListInsert_def
  JobSetPos_def NewTube_def MakeAndInsertTube_def core_init_def GetTubes_def GetDefaultTube_def
  SoonestDelayedJob_def NextAwaitedJob_def TubeFind_def TubeFindOrMake_def fileIncRef_def
  walGc.simps fileDecRef_def FileAddJob_def FileRmJob_def fileWOpen_def fileWrite_def
  fileWrJobShort_def fileWrJobFull_def fileWClose_def fileInit_def fileAdd_def newFile_def
  makeNextFile_def moveResv_def needFree_def useNext_def balanceRest.simps balance.simps
  reserve_def WalResvUpdate_def walResvMigrate_def WalResvPut_def WalWrite_def ratio_def
  moveOne_def walCompact_def WalSync_def WalMain_def BuryJob_def Watch_Append_def
  Watch_Remove_def Watch_Clear_def hasReservedJob_def setSoonestJob_def soonest_loop.simps
  connSoonestJob_def connDeadLineSoon_def connReady_def removeThisReservedJob_def coonTickAt_def
  connSetPos_def Connes_Remove_def Connes_Push_def connSched_def removeWaitingCoon_def
  reserveJob_def sockWant_def EpollQAdd_def reply_def replyMsg_def replyErr_def replyLine_def
  replyJob_def Ready_Push_def Ready_Remove_def Delay_Push_def Delay_Remove_def Waiting_Take_def
  ready_left_def processQueue_loop.simps processQueue_def enqueueJob_def removeBuriedJob_def
  isJobReservedByConn_def removeReservedJob_def touchJob_def removeDelayedJob_def
  removeReadyJob_def buriedJobP_def kickBuriedJob_def kickDelayedJob_def kickBuriedJobs_def
  kickDelayedJobs_def kickJobs_def connSetProducer_def connSetWorker_def connSetSoonestJob_def
  connReserveJob_def enqueueWaitingConn_def waitForJob_def connTimeout_loop.simps
  connTimeout_def enqueueReservedJobs.simps connClose_def EpollQApply.simps EpollQRm_loop.simps
  EpollQRmConn_def getDelayedJobCt_def uptime_def fmtStatsJob_def fmtStatsTube_def doStats_def
  doListTubes_def fillExtraData_def skip_def enqueueInComingJob_def maybeEnqueueInComingJob_def
  read_int_def read_duration_def read_tube_def dispatchOpPut_def dispatchOpUse_def
  reply_found_def dispatchOpPeekReady_def dispatchOpPeekDelayed_def dispatchOpPeekBuried_def
  dispatchOpPeekJob_def dispatchOpReserveTimeout_def dispatchOpReserve_def
  dispatchOpReserveJob_def dispatchOpDelete_def dispatchOpRelease_def dispatchOpBury_def
  dispatchOpKick_def dispatchOpKickJob_def dispatchOpTouch_def dispatchStats_def
  dispatchStatsJob_def dispatchStatsTube_def dispatchOpListTubes_def dispatchOpListTubeUsed_def
  dispatchOpListTubesWatched_def watching_line_def dispatchOpWatch_def dispatchOpIgnore_def
  dispatchOpQuit_def dispatchOpPauseTube_def dispatchCmd_def wantCommand_def
  commandDataReady_def connWantCommand_def conn_close_state_def io_want_command_def
  io_want_end_line_def io_bitbucket_def io_want_data_def io_send_word_def io_send_job_def
  io_wait_def connProcessIO_def hConn_loop.simps hConn_def NewConn_def hAccept_def
  tick_delayed.simps tick_tubes_def tick_connes.simps protTick_def Start_step_def Start_def

end
