(* ===== verification/Reachable.thy ===== *)
theory Reachable
  imports Invariants Execute
begin

text \<open>
  What holds in every state the server can reach from its start: the invariant of the previous
  theory, read off as statements about the counters, the table of jobs and the tubes, and a
  concrete run on which they are evaluated.
\<close>

section \<open>The invariant is inductive\<close>

inductive_cases served_cases: "served s0 s"

lemma default_valid [simp]: "IsValidTube ''default''"
  by code_simp

lemma boot_inv: "sinv 0 (boot clk sys env mx)"
  by (simp add: boot_def core_init_def Let_def zero_world_def upd NewTube_def MakeAndInsertTube_def
      NewJob_def time_Now_def ListReset_def ms_Append_def ms_fire_def NewMs_def zero_job_def zero_rec_def
      zero_coon_def blank_tube_def inv_defs)

lemma served_inv: "served s0 s \<Longrightarrow> sinv 0 s0 \<Longrightarrow> sinv 0 s"
proof (induction rule: served.induct)
  case (served_quiet s s')
  then show ?case using Start_step_inv [of NoEvent 0 s] by (auto dest: ens_D)
next
  case (served_accept s s')
  then show ?case using Start_step_inv [of AcceptEvent 0 s] by (auto dest: ens_D)
next
  case (served_conn s c rw k s')
  then have "sinv (Suc c) s" by (simp add: invk_def)
  then have "sinv (Suc c) s'"
    using Start_step_inv [of "ConnEvent c rw k" "Suc c" s] served_conn.hyps(3) by (auto dest: ens_D)
  then show ?case by (simp add: invk_def)
qed simp

lemma served_boot_inv: "served (boot clk sys env mx) s \<Longrightarrow> sinv 0 s"
  by (rule served_inv [OF _ boot_inv])

section \<open>A run of the server\<close>

definition demo_env :: sysenv where
  "demo_env = \<lparr>Pid = 1, Version = ''1'', RuUsec = 0, RuSsec = 0, RuTotal = 0, StartedAt = 0,
     InstanceHex = ''0'', NodeName = ''n'', OsVersion = ''v'', Machine = ''m'', MaxJobSizePtr = 0\<rparr>"

definition demo :: world where
  "demo = boot (\<lambda>_. 0) (\<lambda>_. True) demo_env 65535"

text \<open>A readable event of connection \<open>c\<close> that delivers the bytes \<open>x\<close>; writes succeed in full.\<close>

definition rd_ev :: "cref \<Rightarrow> string \<Rightarrow> event" where
  "rd_ev c x = ConnEvent c (CHR ''r'') \<lparr>sock_rd = (\<lambda>n. RdOk x), sock_wr = (\<lambda>d. WrOk (int (length d)))\<rparr>"

definition put_x :: string where
  "put_x = ''put 0 0 60 1'' @ CRLF @ ''x'' @ CRLF"

definition demo_run :: "event list" where
  "demo_run = [AcceptEvent, rd_ev 0 put_x, rd_ev 0 [], rd_ev 0 put_x, rd_ev 0 []]"

definition demo_end :: world where
  "demo_end = the (Start demo_run demo)"

lemma Start_served:
  assumes "served (boot clk sys env mx) s"
    "Start es s = Some s'" "\<forall>e\<in>set es. case e of ConnEvent c rw k \<Rightarrow> c < nC s | _ \<Rightarrow> True"
  shows "served (boot clk sys env mx) s'"
  using assms
proof (induction es arbitrary: s)
  case Nil
  then show ?case by (simp add: Start_def)
next
  case (Cons e es)
  then obtain s1 where 1: "Start_step e s = Some s1" "Start es s1 = Some s'"
    by (auto simp: Start_def bind_eq_Some_conv)
  have e: "e = ConnEvent c rw k \<Longrightarrow> c < nC s" for c rw k using Cons.prems(3) by auto
  then have "served (boot clk sys env mx) s1"
    using 1(1) Cons.prems(1) by (cases e) (auto intro: served_quiet served_accept served_conn)
  moreover have "sinv (nC s) s" using served_boot_inv [OF Cons.prems(1)] by (simp add: invk_def)
  then have "sinv (nC s) s1" using ens_D [OF Start_step_inv 1(1)] e by blast
  then have "nC s \<le> nC s1" by (simp add: invk_def)
  then have "\<forall>e\<in>set es. case e of ConnEvent c rw k \<Rightarrow> c < nC s1 | _ \<Rightarrow> True"
    using Cons.prems(3) by (auto split: event.splits)
  ultimately show ?case using Cons.IH [OF _ 1(2)] by blast
qed

lemma demo_accept: "map_option nC (Start_step AcceptEvent demo) = Some 1"
  by code_simp

lemma demo_obs:
  "map_option (\<lambda>s. (nC s, nT s, nJ s, ReadyCt s, allJobs s 2, UsingCt (T s 0), WatchingCt (T s 0),
     map Value (ReadyQ (T s 0)), Reply (C s 0))) (Start demo_run demo) =
   Some (1, 1, 4, 2, Some 3, 1, 1, [2, 3], ''INSERTED 2'' @ CRLF)"
  by code_simp

lemma demo_served: "served demo demo_end"
proof -
  obtain s1 where 1: "Start_step AcceptEvent demo = Some s1" "nC s1 = 1"
    using demo_accept by auto
  obtain s2 where 2: "Start demo_run demo = Some s2" using demo_obs by auto
  have "served demo s1" using served_accept [OF served_init 1(1)] .
  then have "served (boot (\<lambda>_. 0) (\<lambda>_. True) demo_env 65535) s1" by (simp only: demo_def)
  moreover have "Start (tl demo_run) s1 = Some s2" using 2 by (simp add: Start_def demo_run_def 1)
  moreover have "\<forall>e\<in>set (tl demo_run). case e of ConnEvent c rw k \<Rightarrow> c < nC s1 | _ \<Rightarrow> True"
    by (simp add: demo_run_def rd_ev_def 1)
  ultimately have "served demo s2" unfolding demo_def by (rule Start_served)
  moreover have "demo_end = s2" by (simp add: demo_end_def 2)
  ultimately show ?thesis by simp
qed

lemma demo_end_obs:
  "ReadyCt demo_end = 2" "nT demo_end = 1" "nC demo_end = 1" "allJobs demo_end 2 = Some 3"
  "UsingCt (T demo_end 0) = 1" "WatchingCt (T demo_end 0) = 1"
  "map Value (ReadyQ (T demo_end 0)) = [2, 3]"
  using demo_obs by (auto simp: demo_end_def)

section \<open>What holds in every reachable state\<close>

text \<open>The position of a job in its queue and of a connection among the connections with a
  deadline are recorded as 0 for ever, wherever the item is in the heap: \<open>setPos\<close> is only
  called by \<open>Set\<close>, which no code calls.\<close>

lemma served_index_zero:
  assumes "served (boot clk sys env mx) s"
  shows "HeapIndex (J s j) = 0 \<and> TickPos (C s c) = 0"
  using served_boot_inv [OF assms] by (simp add: invk_def index_zero_def)

text \<open>C12: the counter of ready jobs is the number of entries of all ready queues.\<close>

theorem served_ready_count:
  assumes "served (boot clk sys env mx) s"
  shows "ReadyCt s = (\<Sum>t<nT s. int (length (ReadyQ (T s t))))"
  using served_boot_inv [OF assms] by (simp add: invk_def ready_total_def)

theorem served_ready_count_witness: "ReadyCt demo_end = 2 \<and> (\<Sum>t<nT demo_end. int (length (ReadyQ (T demo_end t)))) = 2"
  using served_ready_count [of _ _ _ _ demo_end] demo_served by (simp add: demo_def demo_end_obs)

text \<open>C24: the table of all jobs is keyed by the jobs' ids, and no two ids share a job.\<close>

theorem served_job_table:
  assumes "served (boot clk sys env mx) s" "JobFind i s = Some j"
  shows "j < nJ s \<and> ID (R (J s j)) = i \<and> (\<forall>i'. JobFind i' s = Some j \<longrightarrow> i' = i)"
  using served_boot_inv [OF assms(1)] assms(2) by (auto simp: invk_def table_ok_def JobFind_def)

theorem served_job_table_witness: "ID (R (J demo_end 3)) = 2"
  using served_job_table [of _ _ _ _ demo_end 2 3] demo_served by (simp add: demo_def demo_end_obs JobFind_def)



text \<open>C27: the tubes in the list of tubes have valid, pairwise distinct names, and the default tube
  is one of them.\<close>

theorem served_tube_names:
  assumes "served (boot clk sys env mx) s"
  shows "(\<forall>t\<in>set (ms_items (GetTubes s)). IsValidTube (Name (T s t))) \<and>
    distinct (map (\<lambda>t. Name (T s t)) (ms_items (GetTubes s))) \<and>
    GetDefaultTube s \<in> set (ms_items (GetTubes s)) \<and> Name (T s (GetDefaultTube s)) = ''default''"
  using served_boot_inv [OF assms] by (auto simp: invk_def tubes_ok_def GetTubes_def GetDefaultTube_def)

theorem served_tube_names_witness: "Name (T demo_end (GetDefaultTube demo_end)) = ''default''"
  using served_tube_names [of _ _ _ _ demo_end] demo_served by (simp add: demo_def)



end
