(* ===== verification/Behaviour.thy ===== *)
theory Behaviour
  imports Server
begin

text \<open>
  Properties of single operations of the protocol and of the connection's state machine: how
  lines are found and split, what the handlers do with their arguments, where a connection gets
  stuck or the server panics.
\<close>

section \<open>Lines and commands\<close>

lemma index_CR: "bytes_index (line @ CR # rest) [CR] = Some (length line)" if "CR \<notin> set line"
  using that by (induction line) auto

text \<open>A command line ends at the first carriage return, and only if a line feed follows it and
  the whole buffer has been counted as read; the result is the length of the line with its end.\<close>

lemma scanLineEnd_spec:
  "(0 < scanLineEnd s sz \<longleftrightarrow>
     sz = int (length s) \<and> (\<exists>line rest. s = line @ CRLF @ rest \<and> CR \<notin> set line)) \<and>
   (CR \<notin> set line \<longrightarrow> scanLineEnd (line @ CRLF @ rest) (int (length (line @ CRLF @ rest))) = int (length line) + 2)"
proof
  have pos: "scanLineEnd (line @ CRLF @ rest) (int (length (line @ CRLF @ rest))) = int (length line) + 2"
    if "CR \<notin> set line" for line rest
    using index_CR [OF that, of "LF # rest"] by (simp add: scanLineEnd_def bytes_Index_def nth_append nat_add_distrib)
  then show "CR \<notin> set line \<longrightarrow> scanLineEnd (line @ CRLF @ rest) (int (length (line @ CRLF @ rest))) = int (length line) + 2"
    by blast
  show "0 < scanLineEnd s sz \<longleftrightarrow> sz = int (length s) \<and> (\<exists>line rest. s = line @ CRLF @ rest \<and> CR \<notin> set line)"
  proof
    assume a: "0 < scanLineEnd s sz"
    then obtain n where n: "bytes_index s [CR] = Some n" "sz = int (length s)" "n + 1 < length s" "s ! (n + 1) = LF"
      by (auto simp: scanLineEnd_def bytes_Index_def Let_def nat_add_distrib split: if_splits option.splits)
    have "s ! n = CR" "CR \<notin> set (take n s)" using bytes_index_Some [OF n(1)] by auto
    moreover have "s = take n s @ s ! n # s ! (n + 1) # drop (n + 2) s"
      using n(3) by (metis Cons_nth_drop_Suc Suc_eq_plus1 add_2_eq_Suc' append_take_drop_id add_lessD1)
    ultimately show "sz = int (length s) \<and> (\<exists>line rest. s = line @ CRLF @ rest \<and> CR \<notin> set line)"
      using n(2,4) by (metis append_Cons append_Nil)
  qed (use pos in force)
qed

text \<open>The command is the text up to the first space of the line: what follows the first word does
  not matter.\<close>

lemma whichCmd_first_word:
  assumes "SP \<notin> set w" "CR \<notin> set w" "rest = [] \<or> hd rest = SP \<or> hd rest = CR"
  shows "whichCmd (w @ rest) = (case Cmd2OpMap w of Some op \<Rightarrow> op | None \<Rightarrow> OpUnknown)"
proof -
  let ?l = "takeWhile (\<lambda>c. c \<noteq> CR) (w @ rest)"
  have "take (nat (StrLen (w @ rest))) (w @ rest) = ?l"
    by (simp only: StrLen_eq nat_int takeWhile_eq_take [symmetric])
  moreover have w: "takeWhile (\<lambda>c. c \<noteq> CR) w = w" "takeWhile (\<lambda>c. c \<noteq> SP) w = w"
    using assms(1,2) by (auto simp: takeWhile_eq_all_conv)
  have "takeWhile (\<lambda>c. c \<noteq> SP) ?l = w"
    using assms by (cases rest) (auto simp: takeWhile_append w)
  ultimately show ?thesis by (simp add: whichCmd_def bytes_Split_hd)
qed

section \<open>Splitting the input\<close>

lemma slice_int: "slice xs (int a) (int b) = (if a \<le> b \<and> b \<le> length xs then Some (take (b - a) (drop a xs)) else None)"
  by (auto simp: slice_def nat_diff_distrib)

text \<open>C21: \<open>fillExtraData\<close> splits what has been read into the command line, the part of the body that
  has arrived with it (as much of it as there is) and the rest, which becomes the input of the
  next command; no byte is lost or doubled.\<close>

theorem fillExtraData_splits:
  assumes "SockF (C s c)" "InJob (C s c) = Some j" "CmdRead (C s c) = int (length (Cmd (C s c)))"
    and "0 < CmdLen (C s c)" "CmdLen (C s c) \<le> CmdRead (C s c)" "0 \<le> BodySize (R (J s j))"
    and "int (length (Cmd (C s c))) < 2 ^ 53" "BodySize (R (J s j)) < 2 ^ 53"
  shows "\<exists>s'. fillExtraData c s = Some s' \<and>
    take (nat (CmdLen (C s c))) (Cmd (C s c)) @ Body (J s' j) @ Cmd (C s' c) = Cmd (C s c) \<and>
    int (length (Body (J s' j))) = min (CmdRead (C s c) - CmdLen (C s c)) (BodySize (R (J s j))) \<and>
    InJobRead (C s' c) = int (length (Body (J s' j))) \<and> CmdRead (C s' c) = int (length (Cmd (C s' c))) \<and>
    CmdLen (C s' c) = 0"
proof -
  obtain l where l: "CmdLen (C s c) = int l" "l \<le> length (Cmd (C s c))"
    using assms(3,4,5) by (metis zero_le_imp_eq_int less_imp_le of_nat_le_iff)
  obtain b where b: "BodySize (R (J s j)) = int b" using assms(6) by (metis zero_le_imp_eq_int)
  let ?x = "length (Cmd (C s c)) - l"
  have "int (min ?x b) = min (int (length (Cmd (C s c))) - int l) (int b)" "l + min ?x b \<le> length (Cmd (C s c))"
    using l(2) by linarith+
  then obtain n where n: "int n = min (int (length (Cmd (C s c))) - int l) (int b)" "l + n \<le> length (Cmd (C s c))"
    "n \<le> b" "n \<le> ?x"
    using min.cobounded1 min.cobounded2 by blast
  have m: "minf (int (length (Cmd (C s c))) - int l) (int b) = int n"
    using assms(7,8) b l(2) n(1) by (subst minf_small) auto
  have s1: "slice (Cmd (C s c)) (int l) (int l + int n) = Some (take n (drop l (Cmd (C s c))))"
    using slice_int [of "Cmd (C s c)" l "l + n"] n(2) by simp
  have "int l + int n + (int (length (Cmd (C s c))) - int l - int n) = int (length (Cmd (C s c)))" by simp
  then have s2: "slice (Cmd (C s c)) (int l + int n) (int l + int n + (int (length (Cmd (C s c))) - int l - int n)) =
      Some (drop (l + n) (Cmd (C s c)))"
    using slice_int [of "Cmd (C s c)" "l + n" "length (Cmd (C s c))"] n(2) by simp
  have "take l xs @ take n (drop l xs) @ drop (l + n) xs = xs" for xs :: string
    by (metis append_take_drop_id drop_drop add.commute)
  then show ?thesis
    using assms(1-4) l b n(2-4) s1 s2 n(1) [symmetric]
    by (simp add: fillExtraData_def Let_def m upd of_nat_diff)
qed

section \<open>Connections that get stuck\<close>

lemma scanLineEnd_uncounted: "int (length s) \<noteq> sz \<Longrightarrow> scanLineEnd s sz = 0"
  by (simp add: scanLineEnd_def)

definition overlong :: "cref \<Rightarrow> world \<Rightarrow> bool" where
  "overlong c s \<longleftrightarrow> CState (C s c) = StateWantEndLine \<and> CmdRead (C s c) < int (length (Cmd (C s c)))"

lemma want_end_line_stuck:
  assumes "overlong c s" "io_want_end_line k c s = Some s'"
  shows "Reply (C s' c) = Reply (C s c) \<and> (overlong c s' \<or> CState (C s' c) = StateClose)"
  using assms
  by (auto simp: overlong_def io_want_end_line_def sock_Read_def scanLineEnd_uncounted conn_close_state_def
      LineBufSize_def MaxTubeNameLen_def Let_def upd split: rd_res.splits if_splits Option.bind_splits)

text \<open>The events of one connection: each is a read or write, then the commands it completed.\<close>

fun serve_line :: "sock_io list \<Rightarrow> cref \<Rightarrow> world \<Rightarrow> world option" where
  "serve_line [] c s = Some s"
| "serve_line (k # ks) c s =
     (if CState (C s c) = StateClose then Some s
      else do { s \<leftarrow> connProcessIO k c s; s \<leftarrow> hConn_loop c s; serve_line ks c s })"

text \<open>C29: a line that fills the buffer is never answered: from then on, whatever the client sends,
  the connection stays in the state that waits for the end of the line and no reply is set up,
  until the client closes. The count of bytes read is reset, the buffer is not, so that
  \<open>scanLineEnd\<close> never sees the two agree again.\<close>

theorem long_line_stuck:
  assumes "CState (C s c) = StateWantCommand" "CmdRead (C s c) \<le> int (length (Cmd (C s c)))"
    and "io_want_command k c s = Some s1" "CState (C s1 c) = StateWantEndLine"
    and "serve_line ks c s1 = Some s'"
  shows "Reply (C s' c) = Reply (C s c) \<and> (CState (C s' c) = StateWantEndLine \<or> CState (C s' c) = StateClose)"
proof -
  have "overlong c s1 \<and> Reply (C s1 c) = Reply (C s c)"
    using assms(1-4)
    by (auto simp: overlong_def io_want_command_def sock_Read_def conn_close_state_def LineBufSize_def
        MaxTubeNameLen_def Let_def upd
        split: rd_res.splits if_splits Option.bind_splits)
  moreover have "overlong c s1 \<Longrightarrow> serve_line ks c s1 = Some s' \<Longrightarrow>
      Reply (C s' c) = Reply (C s1 c) \<and> (CState (C s' c) = StateWantEndLine \<or> CState (C s' c) = StateClose)" for s1
  proof (induction ks arbitrary: s1)
    case Nil
    then show ?case by (simp add: overlong_def)
  next
    case (Cons k ks)
    have st: "CState (C s1 c) = StateWantEndLine" using Cons.prems(1) by (simp add: overlong_def)
    then obtain s2 s3 where s2: "io_want_end_line k c s1 = Some s2" "hConn_loop c s2 = Some s3" "serve_line ks c s3 = Some s'"
      using Cons.prems(2) by (auto simp: connProcessIO_def split: Option.bind_splits)
    have o: "Reply (C s2 c) = Reply (C s1 c)" "overlong c s2 \<or> CState (C s2 c) = StateClose"
      using want_end_line_stuck [OF Cons.prems(1) s2(1)] by auto
    then have "s3 = s2"
      using s2(2) by (auto simp: hConn_loop.simps commandDataReady_def wantCommand_def overlong_def)
    then show ?case using o s2(3) Cons.IH [of s2] by (cases ks) auto
  qed
  ultimately show ?thesis using assms(5) by auto
qed

text \<open>C30: a body that does not arrive together with its command line is refused: the bytes read
  later are counted but not stored, so the search for the line end fails and the job is dropped.\<close>

theorem late_body_refused:
  assumes "InJob (C s c) = Some j" "bytes_Index (Body (J s j)) CRLF = -1"
    and "0 \<le> InJobRead (C s c)" "InJobRead (C s c) \<le> BodySize (R (J s j))"
    and "sock_rd k (BodySize (R (J s j)) - InJobRead (C s c)) = RdOk data"
    and "int (length data) = BodySize (R (J s j)) - InJobRead (C s c)"
    and "RState (R (J s j)) \<noteq> Copy"
  shows "\<exists>s1. io_want_data k c s = replyMsg c MsgExpectedCrlf s1 \<and> JobFind (ID (R (J s j))) s1 = None \<and>
    Body (J s1 j) = Body (J s j) \<and> InJob (C s1 c) = None"
  using assms
  by (auto simp: io_want_data_def sock_Read_def maybeEnqueueInComingJob_def enqueueInComingJob_def JobFree_def
      JobFind_def Let_def upd intro!: exI)

text \<open>A reply that is written in part is never completed. \<open>SendWord\<close> takes \<open>ReplyLen - ReplySent\<close>
  as the end of the slice: the next write panics when more than half was sent, writes nothing and
  closes the connection when half was, and otherwise skips the end of the reply and panics in
  the write after that.\<close>

lemma send_word_partial:
  assumes "sock_wr k = (\<lambda>d. WrOk (int (length d)))"
    and "ReplyLen (C s c) = int (length (Reply (C s c)))"
    and "0 < ReplySent (C s c)" "ReplySent (C s c) < ReplyLen (C s c)"
  shows "case io_send_word k c s of
      None \<Rightarrow> ReplyLen (C s c) < 2 * ReplySent (C s c)
    | Some s' \<Rightarrow> 2 * ReplySent (C s c) \<le> ReplyLen (C s c) \<and>
       (if 2 * ReplySent (C s c) = ReplyLen (C s c) then CState (C s' c) = StateClose
        else ReplySent (C s' c) = ReplyLen (C s c) - ReplySent (C s c) \<and> CState (C s' c) = CState (C s c) \<and>
          io_send_word k c s' = None)"
proof -
  obtain n where n: "ReplySent (C s c) = int n" "n < length (Reply (C s c))"
    using assms(2-4) by (metis less_imp_le zero_le_imp_eq_int of_nat_less_iff)
  let ?r = "Reply (C s c)"
  show ?thesis
    using assms n
    by (auto simp: io_send_word_def slice_def conn_close_state_def Let_def upd nat_diff_distrib)
qed

section \<open>The periodic work\<close>


text \<open>On Linux \<open>sockNext\<close> never reports an event: the kernel fills a copy of the event.\<close>

lemma sockNext_reports_nothing:
  "sockNext wait = (let (r, err, _) = wait [\<lparr>Events = 0, Pad = 0\<rparr>] in if r = -1 \<or> err then (word_of_int r, err) else (0, False))"
  by (auto simp: sockNext_def Let_def split: prod.splits)

section \<open>Handlers that read their arguments from the wrong place\<close>

text \<open>\<open>kick\<close> and \<open>kick-job\<close> are always refused, whatever follows the word: the one parses the
  number with the space before it, the other skips the length of another command.\<close>

lemma kick_always_refused:
  "dispatchOpKick c (modC c (\<lambda>x. x\<lparr>Cmd := ''kick '' @ args\<rparr>) s) =
     replyMsg c MsgBadFormat (modC c (\<lambda>x. x\<lparr>Cmd := ''kick '' @ args\<rparr>) s) \<and>
   dispatchOpKickJob c (modC c (\<lambda>x. x\<lparr>Cmd := ''kick-job '' @ args\<rparr>) s) =
     replyMsg c MsgBadFormat (modC c (\<lambda>x. x\<lparr>Cmd := ''kick-job '' @ args\<rparr>) s)"
proof
  have "StrTol ('' '' @ args) = Inl ParseError" by (simp add: StrTol_def is_digit_def ParseInt_def)
  moreover have "slice_from (''kick '' @ args) 4 = Some ('' '' @ args)"
    using slice_from_nat [of "''kick '' @ args" 4] by simp
  ultimately show "dispatchOpKick c (modC c (\<lambda>x. x\<lparr>Cmd := ''kick '' @ args\<rparr>) s) =
     replyMsg c MsgBadFormat (modC c (\<lambda>x. x\<lparr>Cmd := ''kick '' @ args\<rparr>) s)"
    by (simp add: dispatchOpKick_def CmdKick_def upd)
  have "slice_from (''kick-job '' @ args) 7 = Some (''b '' @ args)"
    using slice_from_nat [of "''kick-job '' @ args" 7] by simp
  moreover have "ReadInt (''b '' @ args) 7 = Some (Inl FmtError)"
    by (simp add: ReadInt_def is_digit_def nth_opt_def)
  ultimately show "dispatchOpKickJob c (modC c (\<lambda>x. x\<lparr>Cmd := ''kick-job '' @ args\<rparr>) s) =
     replyMsg c MsgBadFormat (modC c (\<lambda>x. x\<lparr>Cmd := ''kick-job '' @ args\<rparr>) s)"
    by (simp add: dispatchOpKickJob_def read_int_def CmdRelease_def on_ok_def upd)
qed

text \<open>\<open>touch\<close> and \<open>bury\<close> look for the job's id at the place where \<open>release\<close> has it. \<open>touch\<close>
  drops the first digit, so that with two digits or more it works on another job and with one
  digit it is refused; \<open>bury\<close> without arguments panics.\<close>

lemma touch_drops_digit:
  assumes "n < 2 ^ 63" "is_digit d"
  shows "(let s1 = modC c (\<lambda>x. x\<lparr>Cmd := ''touch '' @ d # dec_nat n @ CRLF\<rparr>) s in
      dispatchOpTouch c s1 =
        do {
          (ok, s2) \<leftarrow> touchJob c (JobFind (word_of_int (int n)) s1) (count_op OpTouch s1);
          replyMsg c (if ok then MsgTouched else MsgNotFound) s2
        }) \<and>
    (let s1 = modC c (\<lambda>x. x\<lparr>Cmd := ''touch '' @ d # CRLF\<rparr>) s in
      dispatchOpTouch c s1 = replyMsg c MsgBadFormat s1) \<and>
    dispatchOpBury c (modC c (\<lambda>x. x\<lparr>Cmd := ''bury'' @ CRLF\<rparr>) s) = None"
proof (intro conjI)
  have sl: "slice_from (''touch '' @ d # args) 7 = Some args" for args
    using slice_from_nat [of "''touch '' @ d # args" 7] by simp
  have num: "ReadInt (dec_nat n @ CRLF) 7 = Some (Inr (int n, 7 + int (length (dec_nat n))))"
    using ReadInt_number [OF dec_nat_nonempty dec_nat_digits, of CRLF 0 n 7] assms(1)
    by (simp add: digits_val_dec is_digit_def)
  show "let s1 = modC c (\<lambda>x. x\<lparr>Cmd := ''touch '' @ d # dec_nat n @ CRLF\<rparr>) s in
      dispatchOpTouch c s1 =
        do {
          (ok, s2) \<leftarrow> touchJob c (JobFind (word_of_int (int n)) s1) (count_op OpTouch s1);
          replyMsg c (if ok then MsgTouched else MsgNotFound) s2
        }"
    using sl num by (simp add: Let_def dispatchOpTouch_def read_int_def CmdRelease_def on_ok_def JobFind_def count_op_def upd)
  have "ReadInt CRLF 7 = Some (Inl FmtError)" by code_simp
  then show "let s1 = modC c (\<lambda>x. x\<lparr>Cmd := ''touch '' @ d # CRLF\<rparr>) s in
      dispatchOpTouch c s1 = replyMsg c MsgBadFormat s1"
    using sl by (simp add: Let_def dispatchOpTouch_def read_int_def CmdRelease_def on_ok_def upd)
  have "slice_from (''bury'' @ CRLF) 7 = None"
    using slice_from_nat [of "''bury'' @ CRLF" 7] by simp
  then show "dispatchOpBury c (modC c (\<lambda>x. x\<lparr>Cmd := ''bury'' @ CRLF\<rparr>) s) = None"
    by (simp add: dispatchOpBury_def read_int_def CmdRelease_def on_ok_def upd)
qed

end
