(* ===== verification/Service.thy ===== *)
theory Service
  imports Server
begin

text \<open>
  Properties of the service a connection gets: its list of reserved jobs and the soonest deadline
  in it, waiting on the watched tubes, and the list of connections whose socket interest changes,
  each against the plain list that the pointers stand for.
\<close>

section \<open>Reserved jobs\<close>

lemma setSoonestJob_keeps:
  "J (setSoonestJob c j s) = J s" "ReservedJobs (C (setSoonestJob c j s) c) = ReservedJobs (C s c)"
  by (auto simp: setSoonestJob_def upd split: option.splits)

lemma fold_setSoonestJob_keeps:
  "J (fold (setSoonestJob c) xs s) = J s"
  by (induction xs arbitrary: s) (simp_all add: setSoonestJob_keeps)

lemma SoonestJob_fold:
  "SoonestJob (C (fold (setSoonestJob c) xs s) c) =
     fold (keep_best (\<lambda>a b. DeadlineAt (R (J s a)) < DeadlineAt (R (J s b))) Some) xs (SoonestJob (C s c))"
proof (induction xs arbitrary: s)
  case (Cons x xs)
  have "SoonestJob (C (setSoonestJob c x s) c) =
      keep_best (\<lambda>a b. DeadlineAt (R (J s a)) < DeadlineAt (R (J s b))) Some x (SoonestJob (C s c))"
    by (auto simp: setSoonestJob_def keep_best_def upd split: option.splits)
  then show ?case using Cons.IH [of "setSoonestJob c x s"] by (simp add: setSoonestJob_keeps)
qed simp

lemma soonest_loop_seg:
  "seg (J s) a xs h \<Longrightarrow> h \<notin> set xs \<Longrightarrow> ReservedJobs (C s c) = h \<Longrightarrow>
   soonest_loop c (Next (J s a)) s = Some (fold (setSoonestJob c) xs s)"
proof (induction xs arbitrary: a s)
  case Nil
  then show ?case by (simp add: soonest_loop.simps)
next
  case (Cons x xs)
  let ?s = "setSoonestJob c x s"
  have "seg (J ?s) x xs h" using Cons.prems(1) by (simp add: setSoonestJob_keeps)
  then have "soonest_loop c (Next (J ?s x)) ?s = Some (fold (setSoonestJob c) xs ?s)"
    using Cons.prems(2,3) by (intro Cons.IH) (simp_all add: setSoonestJob_keeps)
  then show ?case using Cons.prems by (simp add: soonest_loop.simps [of c "Some x"] Let_def)
qed

lemma connSoonestJob_min:
  assumes "dll (J s) (ReservedJobs (C s c)) xs" "SoonestJob (C s c) = None"
  shows "\<exists>jp s'. connSoonestJob c s = Some (jp, s') \<and> SoonestJob (C s' c) = jp \<and> J s' = J s \<and>
    (case jp of None \<Rightarrow> xs = []
      | Some j \<Rightarrow> j \<in> set xs \<and> (\<forall>i\<in>set xs. DeadlineAt (R (J s j)) \<le> DeadlineAt (R (J s i))))"
proof -
  let ?s = "fold (setSoonestJob c) xs s"
  have "soonest_loop c (Next (J s (ReservedJobs (C s c)))) s = Some ?s"
    using assms(1) by (intro soonest_loop_seg) (auto simp: dll_def)
  then have "connSoonestJob c s = Some (SoonestJob (C ?s c), ?s)"
    using assms(2) by (simp add: connSoonestJob_def)
  moreover have "weak_less (\<lambda>a b. DeadlineAt (R (J s a)) < DeadlineAt (R (J s b)))" by unfold_locales auto
  from keep_best_fold [OF this, where pick = Some and xs = xs and b = None]
  have "case SoonestJob (C ?s c) of None \<Rightarrow> xs = []
      | Some j \<Rightarrow> j \<in> set xs \<and> (\<forall>i\<in>set xs. DeadlineAt (R (J s j)) \<le> DeadlineAt (R (J s i)))"
    unfolding SoonestJob_fold assms(2) by (auto simp: not_less split: option.splits)
  ultimately show ?thesis by (auto simp: fold_setSoonestJob_keeps)
qed

lemma insert_fields:
  "JobListInsert h j s = Some s' \<Longrightarrow>
   JTube (J s' x) = JTube (J s x) \<and> Reservoir (J s' x) = Reservoir (J s x) \<and> Body (J s' x) = Body (J s x)"
  by (auto simp: JobListInsert_def upd Let_def split: if_splits Option.bind_splits)

lemma connReserveJob_same: "connReserveJob c j s = reserveJob c j s"
  by (simp add: connReserveJob_def reserveJob_def connSetSoonestJob_def setSoonestJob_def)

lemma reserveJob_list:
  assumes "dll (J s) (ReservedJobs (C s c)) xs" "j \<notin> set (ReservedJobs (C s c) # xs)" "JobListEmpty j s"
    and "JTube (J s j) = Some t"
  shows "\<exists>s'. reserveJob c j s = Some s' \<and> dll (J s') (ReservedJobs (C s' c)) (xs @ [j]) \<and>
    isJobReservedByConn c (Some j) s' \<and> JTube (J s' j) = Some t \<and>
    DeadlineAt (R (J s' j)) = i64 (clock s (ticks s) + TTR (R (J s j))) \<and>
    Stat (T s' t) = (Stat (T s t))\<lparr>ReservedCt := ReservedCt (Stat (T s t)) + 1\<rparr> \<and>
    SoonestJob (C s' c) = keep_best (\<lambda>a b. DeadlineAt (R (J s' a)) < DeadlineAt (R (J s' b))) Some j (SoonestJob (C s c))"
proof -
  let ?h = "ReservedJobs (C s c)" and ?d = "i64 (clock s (ticks s) + TTR (R (J s j)))"
  define s1 where "s1 = modR j (\<lambda>r. r\<lparr>DeadlineAt := ?d, RState := Reserved\<rparr>)
      (snd (time_Now (modR j (\<lambda>r. r\<lparr>ReserveCt := ReserveCt r + 1\<rparr>)
        (modStat t (\<lambda>g. g\<lparr>ReservedCt := ReservedCt g + 1\<rparr>) s))))"
  have links: "Next (J s1 x) = Next (J s x) \<and> Prev (J s1 x) = Prev (J s x)" for x
    by (simp add: s1_def upd time_Now_def)
  have s1: "C s1 = C s" "JTube (J s1 j) = Some t" "RState (R (J s1 j)) = Reserved" "DeadlineAt (R (J s1 j)) = ?d"
    "Stat (T s1 t) = (Stat (T s t))\<lparr>ReservedCt := ReservedCt (Stat (T s t)) + 1\<rparr>"
    using assms(4) by (simp_all add: s1_def upd time_Now_def)
  have "JobListEmpty j s1" using assms(3) by (simp add: JobListEmpty_def links)
  then obtain s2 where i: "JobListInsert ?h j s1 = Some s2" "dll (J s2) ?h (xs @ [j])" "s2 = s1\<lparr>J := J s2\<rparr>"
    "\<And>x. R (J s2 x) = R (J s1 x)"
    using insert_dll [OF dll_frame [OF assms(1) links] assms(2)] by metis
  have s2: "C s2 = C s" "T s2 = T s1" by (subst i(3); simp add: s1(1))+
  let ?s3 = "modC c (\<lambda>x. x\<lparr>PendingTimeout := -1\<rparr>) (modJ j (\<lambda>x. x\<lparr>Reservoir := Some c\<rparr>) s2)"
  let ?s' = "setSoonestJob c j ?s3"
  have "reserveJob c j s = Some ?s'"
    using assms(4) i(1) s1(1) unfolding s1_def
    by (simp add: reserveJob_def time_Now_def Let_def upd comp_def)
  moreover have S: "J ?s' = J ?s3" "ReservedJobs (C ?s' c) = ?h" "T ?s' = T s1"
    by (auto simp: setSoonestJob_def upd s2 split: option.splits)
  moreover have R3: "R (J ?s3 x) = R (J s1 x)" for x using i(4) by (simp add: upd)
  moreover have "dll (J ?s3) ?h (xs @ [j])" by (rule dll_frame [OF i(2)]) (auto simp: upd)
  moreover have "Reservoir (J ?s3 j) = Some c" "JTube (J ?s3 j) = Some t"
    using insert_fields [OF i(1)] s1(2) by (simp_all add: upd)
  moreover have "SoonestJob (C ?s' c) =
      keep_best (\<lambda>a b. DeadlineAt (R (J ?s' a)) < DeadlineAt (R (J ?s' b))) Some j (SoonestJob (C s c))"
    unfolding S(1) by (auto simp: setSoonestJob_def keep_best_def upd s2 split: option.splits)
  ultimately show ?thesis using s1(3-5) by (intro exI [of _ ?s']) (simp add: isJobReservedByConn_def)
qed

lemma removeReservedJob_list:
  assumes "dll (J s) (ReservedJobs (C s c)) (xs @ [j])" "isJobReservedByConn c (Some j) s" "JTube (J s j) = Some t"
  shows "\<exists>s'. removeReservedJob c (Some j) s = Some (Some j, s') \<and> dll (J s') (ReservedJobs (C s' c)) xs \<and>
    Stat (T s' t) = (Stat (T s t))\<lparr>ReservedCt := ReservedCt (Stat (T s t)) - 1\<rparr> \<and> Reservoir (J s' j) = None \<and>
    SoonestJob (C s' c) = None"
proof -
  let ?h = "ReservedJobs (C s c)"
  obtain s4 where m: "JobListRemove (Some j) s = Some (Some j, s4)" "dll (J s4) ?h xs" "s4 = s\<lparr>J := J s4\<rparr>"
    "\<And>x. JTube (J s4 x) = JTube (J s x)"
    using remove_dll [of s ?h xs j "[]"] assms(1) by (metis append_Nil2)
  have s4: "C s4 = C s" "T s4 = T s" by (subst m(3); simp)+
  let ?s5 = "modC c (\<lambda>x. x\<lparr>SoonestJob := None\<rparr>) (modJ j (\<lambda>x. x\<lparr>Reservoir := None\<rparr>)
      (modStat t (\<lambda>g. g\<lparr>ReservedCt := ReservedCt g - 1\<rparr>) (modG (\<lambda>g. g\<lparr>ReservedCt := ReservedCt g - 1\<rparr>) s4)))"
  have "removeReservedJob c (Some j) s = Some (Some j, ?s5)"
    using assms(2,3) m(1,4) by (simp add: removeReservedJob_def removeThisReservedJob_def upd)
  moreover have "dll (J ?s5) ?h xs" by (rule dll_frame [OF m(2)]) (auto simp: upd)
  ultimately show ?thesis using s4 by (intro exI [of _ ?s5]) (simp add: upd)
qed

text \<open>C20: reserving a job that is on no list puts it at the end of the connection's reserved jobs,
  with the deadline its time to run from now and the connection as its holder, and takes it into
  account for the soonest deadline; giving it back leaves the list as it was. The two copies of
  the routine agree.\<close>

theorem reserveJob_reserves:
  assumes "dll (J s) (ReservedJobs (C s c)) xs" "j \<notin> set (ReservedJobs (C s c) # xs)" "JobListEmpty j s"
    and "JTube (J s j) = Some t"
  shows "\<exists>s'. reserveJob c j s = Some s' \<and> connReserveJob c j s = Some s' \<and>
    dll (J s') (ReservedJobs (C s' c)) (xs @ [j]) \<and> isJobReservedByConn c (Some j) s' \<and>
    DeadlineAt (R (J s' j)) = i64 (clock s (ticks s) + TTR (R (J s j))) \<and>
    ReservedCt (Stat (T s' t)) = ReservedCt (Stat (T s t)) + 1 \<and>
    SoonestJob (C s' c) = keep_best (\<lambda>a b. DeadlineAt (R (J s' a)) < DeadlineAt (R (J s' b))) Some j (SoonestJob (C s c)) \<and>
    (\<exists>s''. removeReservedJob c (Some j) s' = Some (Some j, s'') \<and> dll (J s'') (ReservedJobs (C s'' c)) xs \<and>
      Stat (T s'' t) = Stat (T s t) \<and> Reservoir (J s'' j) = None \<and> SoonestJob (C s'' c) = None)"
proof -
  obtain s' where r: "reserveJob c j s = Some s'" "dll (J s') (ReservedJobs (C s' c)) (xs @ [j])"
    "isJobReservedByConn c (Some j) s'" "JTube (J s' j) = Some t"
    "DeadlineAt (R (J s' j)) = i64 (clock s (ticks s) + TTR (R (J s j)))"
    "Stat (T s' t) = (Stat (T s t))\<lparr>ReservedCt := ReservedCt (Stat (T s t)) + 1\<rparr>"
    "SoonestJob (C s' c) = keep_best (\<lambda>a b. DeadlineAt (R (J s' a)) < DeadlineAt (R (J s' b))) Some j (SoonestJob (C s c))"
    using reserveJob_list [OF assms] by blast
  then show ?thesis using removeReservedJob_list [OF r(2-4)] by (auto simp: connReserveJob_same)
qed

section \<open>Waiting on the watched tubes\<close>

text \<open>What joining and leaving the queue of one tube do to the tube.\<close>

definition join_tube :: "cref \<Rightarrow> tube \<Rightarrow> tube" where
  "join_tube c x = x\<lparr>Stat := (Stat x)\<lparr>WaitingCt := WaitingCt (Stat x) + 1\<rparr>,
     WaitingConns := (WaitingConns x)\<lparr>ms_items := ms_items (WaitingConns x) @ [c]\<rparr>\<rparr>"

definition leave_tube :: "cref \<Rightarrow> tube \<Rightarrow> tube" where
  "leave_tube c x = x\<lparr>Stat := (Stat x)\<lparr>WaitingCt := WaitingCt (Stat x) - 1\<rparr>,
     WaitingConns := (WaitingConns x)\<lparr>ms_items := remove1 c (ms_items (WaitingConns x))\<rparr>\<rparr>"

lemma ms_Remove_none: "ms_Remove None x m s = (x \<in> set (ms_items m), m\<lparr>ms_items := remove1 x (ms_items m)\<rparr>, s)"
proof -
  have "snd (snd (ms_Remove None x m s)) = s"
    by (auto simp: ms_Remove_def ms_Delete_def ms_fire_def Let_def split: option.splits)
  moreover have "fst (snd (ms_Remove None x m s)) = m\<lparr>ms_items := remove1 x (ms_items m)\<rparr>"
    using ms_Remove_items(1,3) [of None x m s] by (intro ms.equality) simp_all
  ultimately show ?thesis using ms_Remove_items(2) [of None x m s] by (simp add: prod_eq_iff)
qed

lemma watch_type: "Watch (C (modG g (modC c (\<lambda>x. x\<lparr>CType := f x\<rparr>) s)) c) = Watch (C s c)"
  by (simp add: upd)

lemma enqueueWaitingConn_fold:
  "enqueueWaitingConn c s = fold (\<lambda>t. modT t (join_tube c)) (ms_items (Watch (C s c)))
     (modG (\<lambda>g. g\<lparr>WaitingCt := WaitingCt g + 1\<rparr>) (modC c (\<lambda>x. x\<lparr>CType := CType x OR ConnTypeWaiting\<rparr>) s))"
proof -
  have "(\<lambda>t s. let s = modStat t (\<lambda>g. g\<lparr>WaitingCt := WaitingCt g + 1\<rparr>) s;
               (_, m, s) = ms_Append None [c] (WaitingConns (T s t)) s
           in modT t (\<lambda>x. x\<lparr>WaitingConns := m\<rparr>) s) = (\<lambda>t. modT t (join_tube c))"
    by (intro ext) (simp add: upd ms_Append_def ms_fire_def join_tube_def Let_def)
  from this show ?thesis unfolding enqueueWaitingConn_def ms_each_def by (simp only: Let_def watch_type)
qed

lemma removeWaitingCoon_fold:
  assumes "0 < CType (C s c) AND ConnTypeWaiting"
  shows "removeWaitingCoon c s = fold (\<lambda>t. modT t (leave_tube c)) (ms_items (Watch (C s c)))
     (modG (\<lambda>g. g\<lparr>WaitingCt := WaitingCt g - 1\<rparr>) (modC c (\<lambda>x. x\<lparr>CType := CType x AND NOT ConnTypeWaiting\<rparr>) s))"
proof -
  have "(\<lambda>t s. let s = modStat t (\<lambda>g. g\<lparr>WaitingCt := WaitingCt g - 1\<rparr>) s;
               (_, m, s) = ms_Remove None c (WaitingConns (T s t)) s
           in modT t (\<lambda>x. x\<lparr>WaitingConns := m\<rparr>) s) = (\<lambda>t. modT t (leave_tube c))"
    by (intro ext) (simp add: upd ms_Remove_none leave_tube_def Let_def)
  from this show ?thesis unfolding removeWaitingCoon_def ms_each_def using assms
    by (simp only: Let_def watch_type linorder_not_le [symmetric] if_False)
qed

lemma fold_modT: "fold (\<lambda>t. modT t f) ts s = s\<lparr>T := \<lambda>t. (f ^^ count_list ts t) (T s t)\<rparr>"
proof (induction ts arbitrary: s)
  case (Cons t ts)
  have "(\<lambda>u. (f ^^ count_list ts u) (T (modT t f s) u)) = (\<lambda>u. (f ^^ count_list (t # ts) u) (T s u))"
    by (auto simp: upd funpow_swap1 fun_eq_iff)
  then show ?case using Cons.IH [of "modT t f s"] by (simp add: upd)
qed simp

lemma join_leave:
  assumes "c \<notin> set (ms_items (WaitingConns x))"
  shows "(leave_tube c ^^ n) ((join_tube c ^^ n) x) = x"
proof -
  have j: "(join_tube c ^^ n) x = x\<lparr>Stat := (Stat x)\<lparr>WaitingCt := WaitingCt (Stat x) + of_nat n\<rparr>,
      WaitingConns := (WaitingConns x)\<lparr>ms_items := ms_items (WaitingConns x) @ replicate n c\<rparr>\<rparr>" for n
    by (induction n) (simp_all add: join_tube_def replicate_append_same add_ac)
  have "leave_tube c ((join_tube c ^^ Suc n) x) = (join_tube c ^^ n) x" for n
    unfolding j by (simp add: leave_tube_def remove1_append assms)
  moreover have "(leave_tube c ^^ Suc n) y = (leave_tube c ^^ n) (leave_tube c y)" for n y
    by (simp add: funpow_swap1)
  ultimately show ?thesis by (induction n) (simp, metis)
qed

lemma type_bits:
  fixes x w :: int
  assumes "x AND w = 0"
  shows "(x OR w) AND w = w" "(x OR w) AND NOT w = x"
proof -
  have n: "\<not> (bit x n \<and> bit w n)" for n
    using arg_cong [OF assms, of "\<lambda>y. bit y n"] by (simp add: bit_and_iff)
  show "(x OR w) AND w = w" "(x OR w) AND NOT w = x"
    by (rule bit_eqI; use n in \<open>auto simp: bit_and_iff bit_or_iff bit_not_iff\<close>)+
qed

text \<open>C22: leaving the queues undoes joining them: a connection that is not waiting and is on no queue
  of its watched tubes waits and stops waiting, and the state is what it was, counters, queues and
  type bits.\<close>

theorem waiting_round_trip:
  assumes "CType (C s c) AND ConnTypeWaiting = 0"
    and "\<forall>t\<in>set (ms_items (Watch (C s c))). c \<notin> set (ms_items (WaitingConns (T s t)))"
  shows "removeWaitingCoon c (enqueueWaitingConn c s) = s"
proof -
  let ?ts = "ms_items (Watch (C s c))"
  have bits: "0 < (CType (C s c) OR ConnTypeWaiting) AND ConnTypeWaiting"
    "(CType (C s c) OR ConnTypeWaiting) AND NOT ConnTypeWaiting = CType (C s c)"
    using type_bits [OF assms(1)] by (simp_all add: ConnTypeWaiting_def)
  define s1 where "s1 = enqueueWaitingConn c s"
  have s1: "C s1 c = C s c\<lparr>CType := CType (C s c) OR ConnTypeWaiting\<rparr>"
    "s1 = s\<lparr>C := (C s)(c := C s c\<lparr>CType := CType (C s c) OR ConnTypeWaiting\<rparr>),
       GlobalState := (GlobalState s)\<lparr>WaitingCt := WaitingCt (GlobalState s) + 1\<rparr>,
       T := \<lambda>t. (join_tube c ^^ count_list ?ts t) (T s t)\<rparr>"
    by (simp_all add: s1_def enqueueWaitingConn_fold fold_modT upd)
  have undo: "(leave_tube c ^^ count_list ?ts t) ((join_tube c ^^ count_list ?ts t) (T s t)) = T s t" for t
    using assms(2) join_leave [of c "T s t"] by (cases "t \<in> set ?ts") (auto simp: count_list_0_iff)
  have "removeWaitingCoon c s1 = s"
    using s1(1) bits by (subst removeWaitingCoon_fold) (simp_all add: fold_modT upd s1(2) undo)
  then show ?thesis by (simp add: s1_def)
qed

section \<open>The connections whose socket interest changes\<close>

text \<open>\<open>cpath m p xs\<close>: from \<open>p\<close> the connections \<open>xs\<close> are linked by their next pointers.\<close>

fun cpath :: "(cref \<Rightarrow> coon) \<Rightarrow> cref option \<Rightarrow> cref list \<Rightarrow> bool" where
  "cpath m p [] \<longleftrightarrow> p = None"
| "cpath m p (x # xs) \<longleftrightarrow> p = Some x \<and> cpath m (CNext (m x)) xs"

lemma cpath_cong: "(\<And>x. x \<in> set xs \<Longrightarrow> CNext (m' x) = CNext (m x)) \<Longrightarrow> cpath m p xs \<Longrightarrow> cpath m' p xs"
  by (induction xs arbitrary: p) auto

lemma EpollQRm_loop_path:
  "cpath (C s) (epollQ s) xs \<Longrightarrow> cpath (C s) nh ys \<Longrightarrow> distinct (xs @ ys) \<Longrightarrow>
   \<exists>s'. EpollQRm_loop c nh s = Some s' \<and> cpath (C s') (epollQ s') (rev (filter (\<lambda>x. x \<noteq> c) xs) @ ys) \<and>
     (\<forall>x. x \<notin> set xs \<longrightarrow> C s' x = C s x) \<and> (c \<in> set xs \<longrightarrow> CNext (C s' c) = None)"
proof (induction xs arbitrary: s nh ys)
  case Nil
  then show ?case by (simp add: EpollQRm_loop.simps)
next
  case (Cons x xs)
  let ?s = "modC x (\<lambda>y. y\<lparr>CNext := None\<rparr>) (s\<lparr>epollQ := CNext (C s x)\<rparr>)"
  have x: "epollQ s = Some x" "x \<notin> set xs" "x \<notin> set ys" using Cons.prems by auto
  have p: "cpath (C s) (CNext (C s x)) xs" using Cons.prems(1) by simp
  show ?case
  proof (cases "x = c")
    case True
    have "cpath (C ?s) (epollQ ?s) xs" using x(2) by (auto simp: upd intro: cpath_cong [OF _ p])
    moreover have "cpath (C ?s) nh ys" using x(3) by (auto simp: upd intro: cpath_cong [OF _ Cons.prems(2)])
    ultimately obtain s' where s': "EpollQRm_loop c nh ?s = Some s'"
      "cpath (C s') (epollQ s') (rev (filter (\<lambda>x. x \<noteq> c) xs) @ ys)" "\<And>z. z \<notin> set xs \<Longrightarrow> C s' z = C ?s z"
      using Cons.IH [of ?s nh ys] Cons.prems(3) by auto
    then show ?thesis using True x(1,2) by (simp add: EpollQRm_loop.simps [of c nh s] Let_def) (simp add: upd)
  next
    case False
    let ?s2 = "modC x (\<lambda>y. y\<lparr>CNext := nh\<rparr>) ?s"
    have "cpath (C ?s2) (epollQ ?s2) xs" using x(2) by (auto simp: upd intro: cpath_cong [OF _ p])
    moreover have "cpath (C ?s2) (Some x) (x # ys)"
      using x(3) by (auto simp: upd intro: cpath_cong [OF _ Cons.prems(2)])
    ultimately obtain s' where s': "EpollQRm_loop c (Some x) ?s2 = Some s'"
      "cpath (C s') (epollQ s') (rev (filter (\<lambda>x. x \<noteq> c) xs) @ x # ys)" "\<And>z. z \<notin> set xs \<Longrightarrow> C s' z = C ?s2 z"
      "c \<in> set xs \<longrightarrow> CNext (C s' c) = None"
      using Cons.IH [of ?s2 "Some x" "x # ys"] Cons.prems(3) by auto
    then show ?thesis using False x(1) by (simp add: EpollQRm_loop.simps [of c nh s] Let_def) (simp add: upd)
  qed
qed

text \<open>C23: \<open>EpollQRmConn\<close> returns, takes the connection out of the list, wherever it stands, keeps all
  the others (in reverse order) and changes no connection that is not on the list.\<close>

theorem EpollQRmConn_removes:
  assumes "cpath (C s) (epollQ s) xs" "distinct xs"
  shows "\<exists>s'. EpollQRmConn c s = Some s' \<and> cpath (C s') (epollQ s') (rev (filter (\<lambda>x. x \<noteq> c) xs)) \<and>
    (\<forall>x. x \<notin> set xs \<longrightarrow> C s' x = C s x) \<and> (c \<in> set xs \<longrightarrow> CNext (C s' c) = None)"
  using EpollQRm_loop_path [of s xs None "[]" c] assms by (simp add: EpollQRmConn_def)

lemma cpath_inner:
  "cpath m p (ys @ c # zs) \<Longrightarrow> p \<in> Some ` set (c # ys) \<and> (\<forall>x\<in>set ys. CNext (m x) \<in> Some ` set (c # ys))"
proof (induction ys arbitrary: p)
  case (Cons y ys)
  then show ?case using Cons.IH [of "CNext (m y)"] by auto
qed simp

lemma cpath_closed: "\<forall>x\<in>A. CNext (m x) \<in> Some ` A \<Longrightarrow> p \<in> Some ` A \<Longrightarrow> \<not> cpath m p ps"
  by (induction ps arbitrary: p) auto

text \<open>Queueing a connection puts it in front of the list if it is not on it yet; queueing one
  that is on it already closes a cycle, and the connections that stood behind it are lost.\<close>

lemma EpollQAdd_twice:
  assumes "InCoons (C s c) = 0" "\<not> connWaiting (C s c)" "JobListEmpty (ReservedJobs (C s c)) s"
    and "PendingTimeout (C s c) < 0" "cpath (C s) (epollQ s) xs" "distinct xs"
  shows "\<exists>s'. EpollQAdd c rw s = Some s' \<and> Rw (C s' c) = rw \<and> epollQ s' = Some c \<and> CNext (C s' c) = epollQ s \<and>
    (c \<notin> set xs \<longrightarrow> cpath (C s') (epollQ s') (c # xs)) \<and>
    (\<forall>ys zs. xs = ys @ c # zs \<longrightarrow> (\<forall>ps. \<not> cpath (C s') (epollQ s') ps) \<and>
       (\<forall>x\<in>set (c # ys). CNext (C s' x) \<in> Some ` set (c # ys)))"
proof -
  let ?s' = "(modC c (\<lambda>x. x\<lparr>Rw := rw, TickAt := 0, CNext := epollQ s\<rparr>) s)\<lparr>epollQ := Some c\<rparr>"
  have "EpollQAdd c rw s = Some ?s'"
    using assms(1-4)
    by (simp add: EpollQAdd_def connSched_def coonTickAt_def hasReservedJob_def JobListEmpty_def connWaiting_def upd Let_def)
  moreover have "cpath (C ?s') (epollQ ?s') (c # xs)" if "c \<notin> set xs"
    using that by (auto simp: upd intro: cpath_cong [OF _ assms(5)])
  moreover have "(\<forall>ps. \<not> cpath (C ?s') (epollQ ?s') ps) \<and> (\<forall>x\<in>set (c # ys). CNext (C ?s' x) \<in> Some ` set (c # ys))"
    if "xs = ys @ c # zs" for ys zs
  proof -
    have "epollQ s \<in> Some ` set (c # ys)" "\<forall>x\<in>set ys. CNext (C s x) \<in> Some ` set (c # ys)"
      using cpath_inner [of "C s" "epollQ s" ys c zs] assms(5) that by auto
    then have cl: "\<forall>x\<in>set (c # ys). CNext (C ?s' x) \<in> Some ` set (c # ys)" by (auto simp: upd)
    then show ?thesis using cpath_closed [OF cl] by simp
  qed
  ultimately show ?thesis by (intro exI [of _ ?s']) (simp add: upd)
qed

end
