(* ===== verification/Enqueue.thy ===== *)
theory Enqueue
  imports Server
begin

text \<open>
  What enqueueing a job does when no connection waits, and what follows for the operations that
  end in it: the end of a \<open>put\<close> and the periodic release of delayed jobs. Waiting connections are
  served by \<open>processQueue\<close>; without any, it only resets pauses that are over.
\<close>

section \<open>processQueue with nobody waiting\<close>

definition nobody_waits :: "world \<Rightarrow> bool" where
  "nobody_waits s \<longleftrightarrow> (\<forall>t\<in>set (ms_items (tubes s)). ms_items (WaitingConns (T s t)) = [])"

text \<open>\<open>quiet s s'\<close>: \<open>s'\<close> differs from \<open>s\<close> at most in the clock ticks and the pauses of tubes.\<close>

definition quiet :: "world \<Rightarrow> world \<Rightarrow> bool" where
  "quiet s s' \<longleftrightarrow> s' = s\<lparr>T := T s', ticks := ticks s'\<rparr> \<and> (\<forall>t. \<exists>p. T s' t = (T s t)\<lparr>Pause := p\<rparr>)"

lemma quiet_tube:
  assumes "quiet s s'"
  shows "ReadyQ (T s' t) = ReadyQ (T s t)" "DelayQ (T s' t) = DelayQ (T s t)"
    "WaitingConns (T s' t) = WaitingConns (T s t)" "Stat (T s' t) = Stat (T s t)" "Name (T s' t) = Name (T s t)"
proof -
  obtain p where "T s' t = (T s t)\<lparr>Pause := p\<rparr>" using assms by (auto simp: quiet_def)
  then show "ReadyQ (T s' t) = ReadyQ (T s t)" "DelayQ (T s' t) = DelayQ (T s t)"
    "WaitingConns (T s' t) = WaitingConns (T s t)" "Stat (T s' t) = Stat (T s t)" "Name (T s' t) = Name (T s t)"
    by simp_all
qed

lemma quiet_rest:
  assumes "quiet s s'"
  shows "J s' = J s" "C s' = C s" "tubes s' = tubes s" "Wal s' = Wal s" "ReadyCt s' = ReadyCt s"
    "allJobs s' = allJobs s" "clock s' = clock s" "GlobalState s' = GlobalState s"
proof -
  have e: "s' = s\<lparr>T := T s', ticks := ticks s'\<rparr>" using assms by (simp add: quiet_def)
  show "J s' = J s" "C s' = C s" "tubes s' = tubes s" "Wal s' = Wal s" "ReadyCt s' = ReadyCt s"
    "allJobs s' = allJobs s" "clock s' = clock s" "GlobalState s' = GlobalState s"
    by (subst e, simp)+
qed

lemma processQueue_quiet:
  assumes "nobody_waits s"
  shows "\<exists>s'. processQueue s = Some s' \<and> quiet s s'"
proof -
  define now s0 where "now = clock s (ticks s)" and "s0 = s\<lparr>ticks := Suc (ticks s)\<rparr>"
  have idle: "\<not> awaited now s0 t" if "t \<in> set (ms_items (tubes s0))" for t
    using assms that by (simp add: nobody_waits_def awaited_def ms_Len_def s0_def)
  have "unpaused now s0 s' \<Longrightarrow> set ts \<subseteq> set (ms_items (tubes s0)) \<Longrightarrow>
      fst (fold (await_step now) ts (None, s')) = None \<and> unpaused now s0 (snd (fold (await_step now) ts (None, s')))" for ts s'
  proof (induction ts arbitrary: s')
    case (Cons t ts)
    have "fst (await_step now t (None, s')) = None"
      using await_step_unpaused(2) [OF Cons.prems(1), of t None] idle [of t] Cons.prems(2)
      by (simp add: keep_best_def)
    moreover have "unpaused now s0 (snd (await_step now t (None, s')))"
      by (rule await_step_unpaused(1) [OF Cons.prems(1)])
    ultimately show ?case
      using Cons.IH [of "snd (await_step now t (None, s'))"] Cons.prems(2)
      by (cases "await_step now t (None, s')") simp
  qed simp
  then have N: "fst (NextAwaitedJob now s0) = None" "unpaused now s0 (snd (NextAwaitedJob now s0))"
    by (simp_all add: NextAwaitedJob_fold unpaused_def)
  let ?s' = "snd (NextAwaitedJob now s0)"
  have "processQueue s = Some ?s'"
    using N(1) by (cases "NextAwaitedJob now s0")
      (simp add: processQueue_def time_Now_def processQueue_loop.simps flip: now_def s0_def)
  moreover have "quiet s ?s'"
  proof -
    have p: "\<exists>p. T ?s' t = (T s0 t)\<lparr>Pause := p\<rparr>" for t
    proof -
      have "T ?s' t = T s0 t \<or> T ?s' t = (T s0 t)\<lparr>Pause := 0\<rparr>" using N(2) by (auto simp: unpaused_def)
      then show ?thesis
      proof
        assume "T ?s' t = T s0 t"
        then show ?thesis by (intro exI [of _ "Pause (T s0 t)"]) simp
      qed blast
    qed
    have u: "?s' = s0\<lparr>T := T ?s'\<rparr>" using N(2) by (simp only: unpaused_def)
    have "ticks ?s' = Suc (ticks s)" by (subst u) (simp add: s0_def)
    then have "?s' = s\<lparr>T := T ?s', ticks := ticks ?s'\<rparr>" by (subst u) (simp add: s0_def)
    then show ?thesis unfolding quiet_def using p by (simp add: s0_def)
  qed
  ultimately show ?thesis by blast
qed

section \<open>enqueueJob without the log\<close>

text \<open>The queues after adding job \<open>j\<close> to one of tube \<open>t\<close>: \<open>q\<close> and \<open>q'\<close> select that queue and the
  other one.\<close>

definition added :: "(tube \<Rightarrow> jref mHeap) \<Rightarrow> (tube \<Rightarrow> jref mHeap) \<Rightarrow> tref \<Rightarrow> jref \<Rightarrow> world \<Rightarrow> world \<Rightarrow> bool" where
  "added q q' t j s s' \<longleftrightarrow>
     heap_vals (q (T s' t)) = add_mset j (heap_vals (q (T s t))) \<and>
     (\<forall>u. u \<noteq> t \<longrightarrow> q (T s' u) = q (T s u)) \<and> (\<forall>u. q' (T s' u) = q' (T s u)) \<and>
     (\<forall>u. WaitingConns (T s' u) = WaitingConns (T s u)) \<and> tubes s' = tubes s \<and> C s' = C s \<and>
     allJobs s' = allJobs s \<and> Wal s' = Wal s"

lemma added_quiet:
  "added q q' t j s s1 \<Longrightarrow> quiet s1 s' \<Longrightarrow> (\<And>x p. q (x\<lparr>Pause := p\<rparr>) = q x) \<Longrightarrow> (\<And>x p. q' (x\<lparr>Pause := p\<rparr>) = q' x) \<Longrightarrow>
   added q q' t j s s'"
  unfolding added_def using quiet_rest [of s1 s'] quiet_tube(3) [of s1 s']
  by (metis quiet_def)

lemma JobPriLess_cong:
  "(\<And>x. Pri (R (m' x)) = Pri (R (m x)) \<and> ID (R (m' x)) = ID (R (m x))) \<Longrightarrow> JobPriLess m' = JobPriLess m"
  by (intro ext) (simp add: JobPriLess_def Let_def)

lemma JobDelayLess_cong:
  "(\<And>x. DeadlineAt (R (m' x)) = DeadlineAt (R (m x)) \<and> ID (R (m' x)) = ID (R (m x))) \<Longrightarrow> JobDelayLess m' = JobDelayLess m"
  by (intro ext) (simp add: JobDelayLess_def Let_def)

lemma enqueue_ready:
  assumes "JTube (J s j) = Some t" "\<not> WalUse (Wal s)" "nobody_waits s" "d \<le> 0"
  shows "\<exists>s'. enqueueJob j d u s = Some (1, s') \<and> added ReadyQ DelayQ t j s s' \<and>
    J s' = (J s)(j := (J s j)\<lparr>Reservoir := None, R := (R (J s j))\<lparr>RState := Ready\<rparr>\<rparr>) \<and>
    ReadyCt s' = ReadyCt s + 1 \<and> TotalJobsCt (Stat (T s' t)) = TotalJobsCt (Stat (T s t)) \<and>
    (heap_ok (JobPriLess (J s)) (ReadyQ (T s t)) \<longrightarrow> heap_ok (JobPriLess (J s')) (ReadyQ (T s' t)))"
proof -
  let ?J = "(J s)(j := (J s j)\<lparr>Reservoir := None, R := (R (J s j))\<lparr>RState := Ready\<rparr>\<rparr>)"
  let ?h = "snd (heap_Push (JobPriLess ?J) (newItem j) (ReadyQ (T s t)))"
  let ?s1 = "(modT t (\<lambda>x. x\<lparr>ReadyQ := ?h\<rparr>) (s\<lparr>J := ?J\<rparr>))\<lparr>ReadyCt := ReadyCt s + 1\<rparr>"
  let ?s2 = "if Pri (R (J s j)) < UrgentThreshold
     then modStat t (\<lambda>g. g\<lparr>UrgentCt := UrgentCt g + 1\<rparr>) (modG (\<lambda>g. g\<lparr>UrgentCt := UrgentCt g + 1\<rparr>) ?s1) else ?s1"
  have p: "fst (heap_Push (JobPriLess ?J) (newItem j) (ReadyQ (T s t)))" "Value (newItem j) = j"
    using push_vals(1) by (auto simp: newItem_def)
  have "nobody_waits ?s2" using assms(3) by (auto simp: nobody_waits_def upd)
  then obtain s' where s': "processQueue ?s2 = Some s'" "quiet ?s2 s'" using processQueue_quiet by blast
  have "enqueueJob j d u s = Some (1, s')"
    using assms(1,2,4) p(1) s'(1)
    by (cases "heap_Push (JobPriLess ?J) (newItem j) (ReadyQ (T s t))")
      (auto simp: enqueueJob_def Ready_Push_def WalWrite_def WalMain_def upd Let_def comp_def split: if_splits)
  moreover have "added ReadyQ DelayQ t j s ?s2"
    using push_vals(2) [of "JobPriLess ?J" "newItem j" "ReadyQ (T s t)"] p(2) by (auto simp: added_def upd)
  from added_quiet [OF this s'(2)] have "added ReadyQ DelayQ t j s s'" by simp
  moreover have "J s' = ?J" "ReadyCt s' = ReadyCt s + 1" "ReadyQ (T s' t) = ?h"
    "TotalJobsCt (Stat (T s' t)) = TotalJobsCt (Stat (T s t))"
    using quiet_rest [OF s'(2)] quiet_tube(1,4) [OF s'(2), of t] by (auto simp: upd)
  moreover have "JobPriLess ?J = JobPriLess (J s)" by (rule JobPriLess_cong) simp
  ultimately show ?thesis using weak_less.push_ok [OF pri.weak_less_axioms] by auto
qed

lemma enqueue_delayed:
  assumes "JTube (J s j) = Some t" "\<not> WalUse (Wal s)" "nobody_waits s" "0 < d"
  shows "\<exists>s'. enqueueJob j d u s = Some (1, s') \<and> added DelayQ ReadyQ t j s s' \<and>
    J s' = (J s)(j := (J s j)\<lparr>Reservoir := None,
      R := (R (J s j))\<lparr>RState := Delayed, DeadlineAt := i64 (clock s (ticks s) + d)\<rparr>\<rparr>) \<and> ReadyCt s' = ReadyCt s \<and>
    Stat (T s' t) = Stat (T s t)"
proof -
  let ?J = "(J s)(j := (J s j)\<lparr>Reservoir := None,
      R := (R (J s j))\<lparr>RState := Delayed, DeadlineAt := i64 (clock s (ticks s) + d)\<rparr>\<rparr>)"
  let ?h = "snd (heap_Push (JobDelayLess ?J) (newItem j) (DelayQ (T s t)))"
  let ?s1 = "modT t (\<lambda>x. x\<lparr>DelayQ := ?h\<rparr>) (s\<lparr>ticks := Suc (ticks s), J := ?J\<rparr>)"
  have p: "fst (heap_Push (JobDelayLess ?J) (newItem j) (DelayQ (T s t)))" "Value (newItem j) = j"
    using push_vals(1) by (auto simp: newItem_def)
  have "nobody_waits ?s1" using assms(3) by (auto simp: nobody_waits_def upd)
  then obtain s' where s': "processQueue ?s1 = Some s'" "quiet ?s1 s'" using processQueue_quiet by blast
  have "enqueueJob j d u s = Some (1, s')"
    using assms(1,2,4) p(1) s'(1)
    by (cases "heap_Push (JobDelayLess ?J) (newItem j) (DelayQ (T s t))")
      (auto simp: enqueueJob_def Delay_Push_def WalWrite_def WalMain_def time_Now_def upd Let_def comp_def split: if_splits)
  moreover have "added DelayQ ReadyQ t j s ?s1"
    using push_vals(2) [of "JobDelayLess ?J" "newItem j" "DelayQ (T s t)"] p(2) by (auto simp: added_def upd)
  from added_quiet [OF this s'(2)] have "added DelayQ ReadyQ t j s s'" by simp
  moreover have "J s' = ?J" "ReadyCt s' = ReadyCt s" "Stat (T s' t) = Stat (T s t)"
    using quiet_rest [OF s'(2)] quiet_tube(4) [OF s'(2), of t] by (auto simp: upd)
  ultimately show ?thesis by blast
qed

section \<open>The release of delayed jobs\<close>

definition due :: "int \<Rightarrow> world \<Rightarrow> jref \<Rightarrow> bool" where
  "due now s j \<longleftrightarrow> DeadlineAt (R (J s j)) \<le> now"

text \<open>The delay queues are heaps, and their jobs belong to their tubes.\<close>

definition delays_ok :: "int \<Rightarrow> world \<Rightarrow> bool" where
  "delays_ok now s \<longleftrightarrow> (\<forall>t\<in>set (ms_items (tubes s)). heap_ok (JobDelayLess (J s)) (DelayQ (T s t)) \<and>
     (\<forall>j. j \<in># heap_vals (DelayQ (T s t)) \<longrightarrow>
        JTube (J s j) = Some t \<and> HeapIndex (J s j) = 0 \<and> in_i64 (DeadlineAt (R (J s j)) - now)))"

definition delayed_total :: "world \<Rightarrow> nat" where
  "delayed_total s = (\<Sum>t\<in>set (ms_items (tubes s)). size (heap_vals (DelayQ (T s t))))"

text \<open>Job \<open>j\<close> has moved from the delay queue of tube \<open>t\<close> to its ready queue.\<close>

definition moved :: "tref \<Rightarrow> jref \<Rightarrow> world \<Rightarrow> world \<Rightarrow> bool" where
  "moved t j s s' \<longleftrightarrow>
     heap_vals (DelayQ (T s t)) = add_mset j (heap_vals (DelayQ (T s' t))) \<and>
     heap_vals (ReadyQ (T s' t)) = add_mset j (heap_vals (ReadyQ (T s t))) \<and>
     (\<forall>u. u \<noteq> t \<longrightarrow> DelayQ (T s' u) = DelayQ (T s u) \<and> ReadyQ (T s' u) = ReadyQ (T s u)) \<and>
     (\<forall>x. DeadlineAt (R (J s' x)) = DeadlineAt (R (J s x)) \<and> ID (R (J s' x)) = ID (R (J s x)) \<and>
        JTube (J s' x) = JTube (J s x) \<and> HeapIndex (J s' x) = HeapIndex (J s x) \<and>
        RState (R (J s' x)) = (if x = j then Ready else RState (R (J s x)))) \<and>
     heap_ok (JobDelayLess (J s')) (DelayQ (T s' t)) \<and> tubes s' = tubes s \<and> nobody_waits s' \<and> Wal s' = Wal s"

text \<open>One turn of the loop: the soonest delayed job becomes ready.\<close>

lemma release_step:
  assumes "delays_ok now s" "nobody_waits s" "\<not> WalUse (Wal s)" "SoonestDelayedJob s = Some j"
  obtains t s1 s2 where "t \<in> set (ms_items (tubes s))" "JTube (J s j) = Some t"
    "Delay_Remove t (HeapIndex (J s j)) s = Some (j, s1)" "enqueueJob j 0 False s1 = Some (1, s2)" "moved t j s s2"
proof -
  let ?ts = "set (ms_items (tubes s))"
  have "fold (keep_best (\<lambda>a b. DeadlineAt (R (J s a)) < DeadlineAt (R (J s b))) (\<lambda>t. root_of (DelayQ (T s t))))
      (ms_items (tubes s)) None = Some j"
    using assms(4) by (simp add: SoonestDelayedJob_best)
  moreover have "weak_less (\<lambda>a b. DeadlineAt (R (J s a)) < DeadlineAt (R (J s b)))" by unfold_locales auto
  ultimately obtain t where t: "t \<in> ?ts" "root_of (DelayQ (T s t)) = Some j"
    using keep_best_fold [where pick = "\<lambda>t. root_of (DelayQ (T s t))" and xs = "ms_items (tubes s)" and b = None]
    by fastforce
  have j: "JTube (J s j) = Some t" "HeapIndex (J s j) = 0" and ok: "heap_ok (JobDelayLess (J s)) (DelayQ (T s t))"
    using assms(1) t root_of_mem [OF t(2)] by (auto simp: delays_ok_def)
  have ne: "DelayQ (T s t) \<noteq> []" and root: "Value (DelayQ (T s t) ! 0) = j"
    using t(2) by (auto simp: root_of_def split: if_splits)
  then have "heap_Remove (JobDelayLess (J s)) 0 (DelayQ (T s t)) \<noteq> None" by (simp add: heap_Remove_None_iff)
  then obtain it h where r: "heap_Remove (JobDelayLess (J s)) 0 (DelayQ (T s t)) = Some (it, h)" by auto
  have h: "Value it = j" "heap_vals (DelayQ (T s t)) = add_mset j (heap_vals h)"
    using remove_vals(3,4) [OF r] root by simp_all
  have hok: "heap_ok (JobDelayLess (J s)) h" by (rule weak_less.remove_ok [OF del.weak_less_axioms ok r])
  define s1 where "s1 = modT t (\<lambda>x. x\<lparr>DelayQ := h\<rparr>) s"
  have s1: "Delay_Remove t (HeapIndex (J s j)) s = Some (j, s1)"
    using r h(1) j(2) by (simp add: Delay_Remove_def s1_def)
  have "JTube (J s1 j) = Some t" "\<not> WalUse (Wal s1)" "nobody_waits s1"
    using j(1) assms(2,3) by (auto simp: s1_def nobody_waits_def upd)
  from enqueue_ready [OF this, of 0 False] obtain s2 where s2: "enqueueJob j 0 False s1 = Some (1, s2)"
    "added ReadyQ DelayQ t j s1 s2"
    "J s2 = (J s1)(j := (J s1 j)\<lparr>Reservoir := None, R := (R (J s1 j))\<lparr>RState := Ready\<rparr>\<rparr>)"
    by auto
  have D: "DelayQ (T s2 t) = h" using s2(2) by (simp add: added_def s1_def upd)
  have "JobDelayLess (J s2) = JobDelayLess (J s)"
    using s2(3) by (intro JobDelayLess_cong) (simp add: s1_def upd)
  then have "heap_ok (JobDelayLess (J s2)) (DelayQ (T s2 t))" using hok D by simp
  moreover have "nobody_waits s2"
    using s2(2) assms(2) by (auto simp: added_def nobody_waits_def s1_def upd)
  ultimately have "moved t j s s2" using h(2) D s2(2,3) by (simp add: moved_def added_def s1_def upd)
  then show thesis using that [OF t(1) j(1) s1 s2(1)] by blast
qed

lemma moved_delays_ok: "moved t j s s' \<Longrightarrow> delays_ok now s \<Longrightarrow> delays_ok now s'"
proof -
  assume m: "moved t j s s'" and d: "delays_ok now s"
  then have "JobDelayLess (J s') = JobDelayLess (J s)" by (intro JobDelayLess_cong) (simp add: moved_def)
  then show "delays_ok now s'"
    using m d unfolding delays_ok_def moved_def by (metis insert_iff set_mset_add_mset_insert)
qed

lemma moved_total:
  assumes "moved t j s s'" "t \<in> set (ms_items (tubes s))"
  shows "delayed_total s' < delayed_total s"
proof -
  have "size (heap_vals (DelayQ (T s' u))) \<le> size (heap_vals (DelayQ (T s u)))" for u
    using assms(1) by (cases "u = t") (auto simp: moved_def)
  moreover have "size (heap_vals (DelayQ (T s' t))) < size (heap_vals (DelayQ (T s t)))"
    using assms(1) by (simp add: moved_def)
  moreover have "tubes s' = tubes s" using assms(1) by (simp add: moved_def)
  ultimately show ?thesis unfolding delayed_total_def using assms(2) by (auto intro!: sum_strict_mono_ex1)
qed

text \<open>The result of the whole loop.\<close>

definition released :: "int \<Rightarrow> world \<Rightarrow> world \<Rightarrow> bool" where
  "released now s s' \<longleftrightarrow> tubes s' = tubes s \<and>
    (\<forall>t\<in>set (ms_items (tubes s)).
       heap_vals (ReadyQ (T s' t)) = heap_vals (ReadyQ (T s t)) + filter_mset (due now s) (heap_vals (DelayQ (T s t))) \<and>
       heap_vals (DelayQ (T s' t)) = filter_mset (\<lambda>j. \<not> due now s j) (heap_vals (DelayQ (T s t)))) \<and>
    (\<forall>j. RState (R (J s' j)) =
       (if due now s j \<and> (\<exists>t\<in>set (ms_items (tubes s)). j \<in># heap_vals (DelayQ (T s t))) then Ready else RState (R (J s j))))"

lemma released_none:
  assumes "\<And>t j. t \<in> set (ms_items (tubes s)) \<Longrightarrow> j \<in># heap_vals (DelayQ (T s t)) \<Longrightarrow> \<not> due now s j"
  shows "released now s s"
proof -
  have "filter_mset (due now s) (heap_vals (DelayQ (T s t))) = {#} \<and>
      filter_mset (\<lambda>j. \<not> due now s j) (heap_vals (DelayQ (T s t))) = heap_vals (DelayQ (T s t))"
    if "t \<in> set (ms_items (tubes s))" for t
    using assms [OF that] by (auto simp: filter_mset_eq_conv)
  then show ?thesis using assms by (auto simp: released_def)
qed

lemma released_moved:
  assumes "moved t j s s1" "t \<in> set (ms_items (tubes s))" "due now s j" "released now s1 s'"
  shows "released now s s'"
proof -
  let ?ts = "set (ms_items (tubes s))"
  have m: "tubes s1 = tubes s" "due now s1 = due now s"
    "heap_vals (DelayQ (T s t)) = add_mset j (heap_vals (DelayQ (T s1 t)))"
    "heap_vals (ReadyQ (T s1 t)) = add_mset j (heap_vals (ReadyQ (T s t)))"
    "\<And>u. u \<noteq> t \<Longrightarrow> DelayQ (T s1 u) = DelayQ (T s u) \<and> ReadyQ (T s1 u) = ReadyQ (T s u)"
    "\<And>x. RState (R (J s1 x)) = (if x = j then Ready else RState (R (J s x)))"
    using assms(1) by (simp_all add: moved_def due_def fun_eq_iff)
  have "heap_vals (ReadyQ (T s' u)) = heap_vals (ReadyQ (T s u)) + filter_mset (due now s) (heap_vals (DelayQ (T s u))) \<and>
      heap_vals (DelayQ (T s' u)) = filter_mset (\<lambda>j. \<not> due now s j) (heap_vals (DelayQ (T s u)))" if "u \<in> ?ts" for u
    using that assms(3,4) m(3-5) unfolding released_def m(1,2) by (cases "u = t") auto
  moreover have "(\<exists>u\<in>?ts. x \<in># heap_vals (DelayQ (T s u))) \<longleftrightarrow> x = j \<or> (\<exists>u\<in>?ts. x \<in># heap_vals (DelayQ (T s1 u)))" for x
    using assms(2) m(3,5) by (metis insert_iff set_mset_add_mset_insert)
  then have "RState (R (J s' x)) =
      (if due now s x \<and> (\<exists>u\<in>?ts. x \<in># heap_vals (DelayQ (T s u))) then Ready else RState (R (J s x)))" for x
    using assms(3,4) m(6) [of x] unfolding released_def m(1,2) by auto
  ultimately show ?thesis using assms(4) unfolding released_def m(1) by auto
qed

lemma tick_delayed_released:
  assumes "delays_ok now s" "nobody_waits s" "\<not> WalUse (Wal s)"
  shows "\<exists>period' s'. tick_delayed now period s = Some (period', s') \<and> released now s s'"
  using assms
proof (induction s rule: measure_induct_rule [where f = delayed_total])
  case (less s)
  have least: "case SoonestDelayedJob s of
      None \<Rightarrow> \<forall>t\<in>set (ms_items (tubes s)). DelayQ (T s t) = []
    | Some j \<Rightarrow> (\<exists>t\<in>set (ms_items (tubes s)). j \<in># heap_vals (DelayQ (T s t))) \<and>
        (\<forall>t\<in>set (ms_items (tubes s)). \<forall>i. i \<in># heap_vals (DelayQ (T s t)) \<longrightarrow> DeadlineAt (R (J s j)) \<le> DeadlineAt (R (J s i)))"
    using less.prems(1) by (intro SoonestDelayedJob_min) (simp add: delays_ok_def)
  show ?case
  proof (cases "SoonestDelayedJob s")
    case None
    then have "released now s s" using least by (intro released_none) (simp add: heap_vals_def)
    then show ?thesis using None by (auto simp: tick_delayed.simps)
  next
    case (Some j)
    have range: "i64 (DeadlineAt (R (J s j)) - now) = DeadlineAt (R (J s j)) - now"
      using least Some less.prems(1) by (auto simp: delays_ok_def intro: i64_id)
    show ?thesis
    proof (cases "due now s j")
      case False
      then have "released now s s" using least Some by (intro released_none) (fastforce simp: due_def)
      then show ?thesis using False Some range by (auto simp: tick_delayed.simps due_def)
    next
      case True
      obtain t s1 s2 where r: "t \<in> set (ms_items (tubes s))" "JTube (J s j) = Some t"
        "Delay_Remove t (HeapIndex (J s j)) s = Some (j, s1)" "enqueueJob j 0 False s1 = Some (1, s2)" "moved t j s s2"
        by (rule release_step [OF less.prems Some])
      have "nobody_waits s2" "\<not> WalUse (Wal s2)" using r(5) less.prems(3) by (auto simp: moved_def)
      then obtain p s' where "tick_delayed now period s2 = Some (p, s')" "released now s2 s'"
        using less.IH [OF moved_total [OF r(5,1)] moved_delays_ok [OF r(5) less.prems(1)]] by blast
      then show ?thesis
        using True Some range r(2-4) released_moved [OF r(5,1) True] by (auto simp: tick_delayed.simps [of now period s] due_def)
    qed
  qed
qed

text \<open>C14: with the log not in use and nobody waiting, the periodic release ends, and moves exactly the
  jobs whose delay is over from the delay queue of their tube to its ready queue.\<close>

theorem tick_delayed_releases:
  assumes "delays_ok now s" "nobody_waits s" "\<not> WalUse (Wal s)"
  shows "\<exists>period' s'. tick_delayed now period s = Some (period', s') \<and> tubes s' = tubes s \<and>
    (\<forall>t\<in>set (ms_items (tubes s)).
       heap_vals (ReadyQ (T s' t)) = heap_vals (ReadyQ (T s t)) + filter_mset (due now s) (heap_vals (DelayQ (T s t))) \<and>
       heap_vals (DelayQ (T s' t)) = filter_mset (\<lambda>j. \<not> due now s j) (heap_vals (DelayQ (T s t)))) \<and>
    (\<forall>j. RState (R (J s' j)) =
       (if due now s j \<and> (\<exists>t\<in>set (ms_items (tubes s)). j \<in># heap_vals (DelayQ (T s t))) then Ready else RState (R (J s j))))"
  using tick_delayed_released [OF assms] unfolding released_def .

end
