(* ===== verification/Recovery.thy ===== *)
theory Recovery
  imports ProtOps
begin

text \<open>
  Recovery from the write-ahead log: the reading side of \<open>core/file.go\<close> and \<open>core/wal.go\<close>,
  \<open>protReplay\<close> of \<open>net/prot.go\<close> and \<open>SrvAcquireWal\<close> of \<open>net/serv.go\<close>.

  An open file is the list of bytes not read yet, passed along. The directory and the contents
  of the binlog files are arguments; opening a file that \<open>disk\<close> does not give fails. The
  messages \<open>warnPos\<close> logs only read the state.
\<close>

section \<open>encoding/binary, decoding\<close>

definition le_val :: "8 word list \<Rightarrow> int" where
  "le_val bs = foldr (\<lambda>b n. uint b + 256 * n) bs 0"

definition le_i64 :: "8 word list \<Rightarrow> int" where
  "le_i64 bs = i64 (le_val bs)"

text \<open>\<open>field a n bs\<close> is the \<open>n\<close>-byte field at offset \<open>a\<close> of an encoded struct.\<close>

definition field :: "nat \<Rightarrow> nat \<Rightarrow> 8 word list \<Rightarrow> 8 word list" where
  "field a n bs = take n (drop a bs)"

definition rec_of_bytes :: "8 word list \<Rightarrow> job_rec" where
  "rec_of_bytes bs =
     \<lparr>ID = word_of_int (le_val (field 0 8 bs)), Pri = word_of_int (le_val (field 8 4 bs)),
      Delay = le_i64 (field 12 8 bs), TTR = le_i64 (field 20 8 bs), BodySize = le_i64 (field 28 8 bs),
      CreateAt = le_i64 (field 36 8 bs), DeadlineAt = le_i64 (field 44 8 bs),
      ReserveCt = word_of_int (le_val (field 52 4 bs)), TimeoutCt = word_of_int (le_val (field 56 4 bs)),
      ReleaseCt = word_of_int (le_val (field 60 4 bs)), BuryCt = word_of_int (le_val (field 64 4 bs)),
      KickCt = word_of_int (le_val (field 68 4 bs)), RState = word_of_int (le_val (field 72 1 bs))\<rparr>"

text \<open>\<open>model.JobRec5\<close>: the record of version 5 of the log.\<close>

record job_rec5 =
  ID5 :: "64 word"
  Pri5 :: "32 word"
  Delay5 :: "64 word"
  TTR5 :: "64 word"
  BodySize5 :: int
  CreatedAt5 :: "64 word"
  DeadlineAt5 :: "64 word"
  ReserveCt5 :: "64 word"
  TimeoutCt5 :: "32 word"
  ReleaseCt5 :: "32 word"
  BuryCt5 :: "32 word"
  KickCt5 :: "32 word"
  State5 :: "8 word"
  Pad5 :: "8 word"

definition rec5_of_bytes :: "8 word list \<Rightarrow> job_rec5" where
  "rec5_of_bytes bs =
     \<lparr>ID5 = word_of_int (le_val (field 0 8 bs)), Pri5 = word_of_int (le_val (field 8 4 bs)),
      Delay5 = word_of_int (le_val (field 12 8 bs)), TTR5 = word_of_int (le_val (field 20 8 bs)),
      BodySize5 = sint (word_of_int (le_val (field 28 4 bs)) :: 32 word),
      CreatedAt5 = word_of_int (le_val (field 32 8 bs)), DeadlineAt5 = word_of_int (le_val (field 40 8 bs)),
      ReserveCt5 = word_of_int (le_val (field 48 8 bs)), TimeoutCt5 = word_of_int (le_val (field 56 4 bs)),
      ReleaseCt5 = word_of_int (le_val (field 60 4 bs)), BuryCt5 = word_of_int (le_val (field 64 4 bs)),
      KickCt5 = word_of_int (le_val (field 68 4 bs)), State5 = word_of_int (le_val (field 72 1 bs)),
      Pad5 = word_of_int (le_val (field 73 1 bs))\<rparr>"

definition rec5_size :: nat where "rec5_size = 74"

text \<open>\<open>binary.Read\<close> of an object of \<open>n\<close> bytes fails when fewer are left.\<close>

definition readFull :: "int \<Rightarrow> 8 word list \<Rightarrow> (8 word list \<times> 8 word list) option" where
  "readFull n bs = (if n \<le> int (length bs) then Some (take (nat n) bs, drop (nat n) bs) else None)"

text \<open>\<open>binary.Read\<close> into a \<open>*string\<close> is always an error: a string is not a fixed-size value.\<close>

definition readFull_string :: "8 word list \<Rightarrow> (string \<times> int \<times> 8 word list) option" where
  "readFull_string bs = None"

section \<open>Reading records\<close>

datatype read_err = ReadFailed | NameTooLong | IdZero | RecordError | UnknownVersion

text \<open>The statements after the label \<open>Error\<close>, without the return.\<close>

definition drop_job :: "jref option \<Rightarrow> world \<Rightarrow> world option" where
  "drop_job jp s =
     (case jp of
        None \<Rightarrow> Some s
      | Some j \<Rightarrow> do {
          (_, s) \<leftarrow> JobListRemove (Some j) s;
          s \<leftarrow> FileRmJob (JFile (J s j)) j s;
          Some (JobFree (Some j) s)
        })"

text \<open>The body of a full record is read into a new slice of \<open>BodySize\<close> zero bytes; \<open>make\<close> panics on
  a negative size. A record that is complete moves the job to the file being read.\<close>

definition read_body :: "fref \<Rightarrow> jref \<Rightarrow> 8 word list \<Rightarrow> world \<Rightarrow> ((int \<times> 8 word list) option \<times> world) option" where
  "read_body f j bs s =
     (let n = BodySize (R (J s j)) in
      if n < 0 then None
      else
        let s = modJ j (\<lambda>x. x\<lparr>Body := replicate (nat n) (CHR 0x00)\<rparr>) s in
        (case readFull n bs of
           None \<Rightarrow> Some (None, s)
         | Some (b, bs) \<Rightarrow> do {
             let s = modJ j (\<lambda>x. x\<lparr>Body := map (\<lambda>w. char_of (unat w)) b\<rparr>) s;
             s \<leftarrow> FileRmJob (JFile (J s j)) j s;
             s \<leftarrow> FileAddJob f j s;
             Some (Some (n, bs), s)
           }))"

text \<open>A job that is alive but not known yet is made; without its tube this dereferences nil. A job
  that is too big is the jump to \<open>Error\<close> with \<open>j == nil\<close>.\<close>

definition read_make :: "string \<Rightarrow> job_rec \<Rightarrow> world \<Rightarrow> (jref option \<times> world) option" where
  "read_make tubeName jr s =
     (if BodySize jr > MaxJobSize s then Some (None, s)
      else do {
        let tp = TubeFind tubeName s;
        let (j, s) = MakeJobWithID (Pri jr) (Delay jr) (TTR jr) (BodySize jr) tp (Some (ID jr)) s;
        let s = JobListRest j s;
        let s = modR j (\<lambda>r. r\<lparr>CreateAt := CreateAt jr\<rparr>) s;
        t \<leftarrow> tp;
        let s = modStat t (\<lambda>g. g\<lparr>TotalJobsCt := TotalJobsCt g + 1\<rparr>) s;
        let s = modG (\<lambda>g. g\<lparr>TotalJobsCt := TotalJobsCt g + 1\<rparr>) s;
        Some (Some j,
          if RState jr = Buried
          then modG (\<lambda>g. g\<lparr>BuriedCt := BuriedCt g + 1\<rparr>)
                 (modStat t (\<lambda>g. g\<lparr>BuriedCt := BuriedCt g + 1\<rparr>) s)
          else s)
      })"

text \<open>The rest of the case; \<open>None\<close> as the first component is the jump to \<open>Error\<close>. The size is
  compared after \<open>j.R = jr\<close>.\<close>

definition read_alive :: "fref \<Rightarrow> jref \<Rightarrow> int \<Rightarrow> job_rec \<Rightarrow> jref \<Rightarrow> int \<Rightarrow> 8 word list \<Rightarrow> world \<Rightarrow>
    (8 word list option \<times> world) option" where
  "read_alive f l nameLen jr j sz bs s =
     do {
       let s = modR j (\<lambda>_. jr) s;
       s \<leftarrow> JobListInsert l j s;
       (r, s) \<leftarrow>
         (if nameLen > 0
          then if BodySize jr \<noteq> BodySize (R (J s j)) then Some (None, s) else read_body f j bs s
          else Some (Some (0, bs), s));
       (case r of
          None \<Rightarrow> Some (None, s)
        | Some (n, bs) \<Rightarrow>
            let s = modJ j (\<lambda>x. x\<lparr>WalUsed := WalUsed x + (sz + n)\<rparr>) s
            in Some (Some bs, modW (\<lambda>w. w\<lparr>Alive := Alive w + (sz + n)\<rparr>) s))
     }"

text \<open>A negative name length returns the outer \<open>err\<close>, which is nil: to the caller a record has been
  read.\<close>

definition ReadRec :: "fref \<Rightarrow> jref \<Rightarrow> 8 word list \<Rightarrow> world \<Rightarrow> ((read_err + 8 word list) \<times> world) option" where
  "ReadRec f l bs s =
     (case readFull int64_size bs of
        None \<Rightarrow> Some (Inl ReadFailed, s)
      | Some (b, bs) \<Rightarrow>
          let nameLen = le_i64 b in
          if nameLen \<ge> MaxTubeNameLen then Some (Inl NameTooLong, s)
          else if nameLen < 0 then Some (Inr bs, s)
          else
            (case (if nameLen > 0 then readFull nameLen bs else Some ([], bs)) of
               None \<Rightarrow> Some (Inl ReadFailed, s)
             | Some (nm, bs) \<Rightarrow>
                 (case readFull rec_size bs of
                    None \<Rightarrow> Some (Inl ReadFailed, s)
                  | Some (rb, bs) \<Rightarrow>
                      let jr = rec_of_bytes rb; sz = int64_size + nameLen + rec_size in
                      if ID jr = 0 then Some (Inl IdZero, s)
                      else
                        let jp = JobFind (ID jr) s in
                        if \<not> (jp \<noteq> None \<or> nameLen > 0) then Some (Inr bs, s)
                        else if RState jr \<in> {Reserved, Ready, Buried, Delayed} then
                          do {
                            let jr = (if RState jr = Reserved then jr\<lparr>RState := Ready\<rparr> else jr);
                            (jp, s) \<leftarrow> (case jp of
                                 Some j \<Rightarrow> Some (Some j, s)
                               | None \<Rightarrow> read_make (map (\<lambda>w. char_of (unat w)) nm) jr s);
                            (case jp of
                               None \<Rightarrow> Some (Inl RecordError, s)
                             | Some j \<Rightarrow> do {
                                 (r, s) \<leftarrow> read_alive f l nameLen jr j sz bs s;
                                 (case r of
                                    Some bs \<Rightarrow> Some (Inr bs, s)
                                  | None \<Rightarrow> do { s \<leftarrow> drop_job jp s; Some (Inl RecordError, s) })
                               })
                          }
                        else if RState jr = Invalid
                        then do { s \<leftarrow> drop_job jp s; Some (Inr bs, s) }
                        else do { s \<leftarrow> drop_job jp s; Some (Inl RecordError, s) })))"

text \<open>What \<open>ReadRec5\<close> assigns field by field. Times are unsigned here and scaled by 1000.\<close>

definition rec_of_rec5 :: "job_rec5 \<Rightarrow> job_rec \<Rightarrow> job_rec" where
  "rec_of_rec5 q r = r\<lparr>ID := ID5 q, Pri := Pri5 q, Delay := sint (Delay5 q * 1000),
     TTR := sint (TTR5 q * 1000), BodySize := BodySize5 q, CreateAt := sint (CreatedAt5 q),
     DeadlineAt := sint (DeadlineAt5 q * 1000), ReserveCt := ucast (ReserveCt5 q),
     TimeoutCt := TimeoutCt5 q, ReleaseCt := ReleaseCt5 q, BuryCt := BuryCt5 q, KickCt := KickCt5 q,
     RState := State5 q\<rparr>"

definition read5_make :: "string \<Rightarrow> job_rec5 \<Rightarrow> world \<Rightarrow> jref option \<times> world" where
  "read5_make tubeName q s =
     (if BodySize5 q > MaxJobSize s then (None, s)
      else
        let (t, s) = TubeFindOrMake tubeName s;
            (j, s) = MakeJobWithID (Pri5 q) (sint (Delay5 q)) (sint (TTR5 q)) (BodySize5 q) (Some t)
                       (Some (ID5 q)) s
        in (Some j, JobListRest j s))"

text \<open>Here the body is read into \<open>j.Body\<close> as it is: as many bytes as it has.\<close>

definition read5_alive :: "fref \<Rightarrow> jref \<Rightarrow> int \<Rightarrow> job_rec5 \<Rightarrow> jref \<Rightarrow> int \<Rightarrow> 8 word list \<Rightarrow> world \<Rightarrow>
    (8 word list option \<times> world) option" where
  "read5_alive f l nameLen q j sz bs s =
     do {
       let s = modR j (rec_of_rec5 q) s;
       s \<leftarrow> JobListInsert l j s;
       (r, s) \<leftarrow>
         (if nameLen > 0
          then if BodySize5 q \<noteq> BodySize (R (J s j)) then Some (None, s)
            else
              let n = int (length (Body (J s j))) in
              (case readFull n bs of
                 None \<Rightarrow> Some (None, s)
               | Some (b, bs) \<Rightarrow> do {
                   let s = modJ j (\<lambda>x. x\<lparr>Body := map (\<lambda>w. char_of (unat w)) b\<rparr>) s;
                   s \<leftarrow> FileRmJob (JFile (J s j)) j s;
                   s \<leftarrow> FileAddJob f j s;
                   Some (Some (n, bs), s)
                 })
          else Some (Some (0, bs), s));
       (case r of
          None \<Rightarrow> Some (None, s)
        | Some (n, bs) \<Rightarrow>
            let s = modJ j (\<lambda>x. x\<lparr>WalUsed := WalUsed x + (sz + n)\<rparr>) s
            in Some (Some bs, modW (\<lambda>w. w\<lparr>Alive := Alive w + (sz + n)\<rparr>) s))
     }"

definition ReadRec5 :: "fref \<Rightarrow> jref \<Rightarrow> 8 word list \<Rightarrow> world \<Rightarrow> ((read_err + 8 word list) \<times> world) option" where
  "ReadRec5 f l bs s =
     (case readFull int64_size bs of
        None \<Rightarrow> Some (Inl ReadFailed, s)
      | Some (b, bs) \<Rightarrow>
          let nameLen = le_i64 b in
          if nameLen \<ge> MaxTubeNameLen then Some (Inl NameTooLong, s)
          else if nameLen < 0 then Some (Inr bs, s)
          else
            (case (if nameLen > 0 then readFull_string bs else Some ([], 0, bs)) of
               None \<Rightarrow> Some (Inl ReadFailed, s)
             | Some (tubeName, r, bs) \<Rightarrow>
                 (case readFull (int rec5_size) bs of
                    None \<Rightarrow> Some (Inl ReadFailed, s)
                  | Some (rb, bs) \<Rightarrow>
                      let q = rec5_of_bytes rb; sz = int64_size + r + int rec5_size in
                      if ID5 q = 0 then Some (Inl IdZero, s)
                      else
                        let jp = JobFind (ID5 q) s in
                        if \<not> (jp \<noteq> None \<or> nameLen > 0) then Some (Inr bs, s)
                        else if State5 q \<in> {Reserved, Ready, Buried, Delayed} then
                          do {
                            let q = (if State5 q = Reserved then q\<lparr>State5 := Ready\<rparr> else q);
                            let (jp, s) = (case jp of Some j \<Rightarrow> (Some j, s) | None \<Rightarrow> read5_make tubeName q s);
                            (case jp of
                               None \<Rightarrow> Some (Inl RecordError, s)
                             | Some j \<Rightarrow> do {
                                 (r, s) \<leftarrow> read5_alive f l nameLen q j sz bs s;
                                 (case r of
                                    Some bs \<Rightarrow> Some (Inr bs, s)
                                  | None \<Rightarrow> do { s \<leftarrow> drop_job jp s; Some (Inl RecordError, s) })
                               })
                          }
                        else if State5 q = Invalid
                        then do { s \<leftarrow> drop_job jp s; Some (Inr bs, s) }
                        else do { s \<leftarrow> drop_job jp s; Some (Inl RecordError, s) })))"

section \<open>Reading a file\<close>

text \<open>\<open>for { if err = ReadRec(f, list); err != nil { break } }\<close>, for either version.\<close>

lemma readFull_length: "readFull n bs = Some (b, r) \<Longrightarrow> length r = length bs - nat n \<and> length b = nat n \<and> n \<le> int (length bs)"
  by (auto simp: readFull_def split: if_splits)

lemma int64_size_eq: "int64_size = 8"
  by (simp add: int64_size_def binary_Size_def le_bytes_def)

lemma rec_size_eq: "rec_size = 73"
  by (simp add: rec_size_def binary_Size_def rec_bytes_def le_bytes_def)

lemma readFull_shorter:
  "readFull n bs = Some (b, r) \<Longrightarrow> length r \<le> length bs \<and> (0 < n \<longrightarrow> length r < length bs)"
  by (auto simp: readFull_def split: if_splits)

lemma read_body_shorter:
  "read_body f j bs s = Some (Some (n, bs'), s') \<Longrightarrow> length bs' \<le> length bs"
  by (auto simp: read_body_def Let_def dest!: readFull_shorter split: if_splits option.splits Option.bind_splits)

lemma read_alive_shorter:
  "read_alive f l nl jr j sz bs s = Some (Some bs', s') \<Longrightarrow> length bs' \<le> length bs"
  by (auto simp: read_alive_def Let_def dest: read_body_shorter split: if_splits option.splits Option.bind_splits)

lemma read5_alive_shorter:
  "read5_alive f l nl q j sz bs s = Some (Some bs', s') \<Longrightarrow> length bs' \<le> length bs"
  by (auto simp: read5_alive_def Let_def dest!: readFull_shorter split: if_splits option.splits Option.bind_splits)

lemma ReadRec_shorter: "ReadRec f l bs s = Some (Inr bs', s') \<Longrightarrow> length bs' < length bs"
  unfolding ReadRec_def int64_size_eq Let_def
  by (auto dest!: readFull_shorter read_alive_shorter split: if_splits option.splits Option.bind_splits)

lemma ReadRec5_shorter: "ReadRec5 f l bs s = Some (Inr bs', s') \<Longrightarrow> length bs' < length bs"
  unfolding ReadRec5_def int64_size_eq Let_def readFull_string_def
  by (auto dest!: readFull_shorter read5_alive_shorter split: if_splits option.splits Option.bind_splits prod.splits)

definition read_one :: "bool \<Rightarrow> fref \<Rightarrow> jref \<Rightarrow> 8 word list \<Rightarrow> world \<Rightarrow> ((read_err + 8 word list) \<times> world) option" where
  "read_one v5 f l bs s = (if v5 then ReadRec5 f l bs s else ReadRec f l bs s)"

function read_loop :: "bool \<Rightarrow> fref \<Rightarrow> jref \<Rightarrow> 8 word list \<Rightarrow> world \<Rightarrow> (read_err \<times> world) option" where
  "read_loop v5 f l bs s =
     (case read_one v5 f l bs s of
        None \<Rightarrow> None
      | Some (Inl e, s) \<Rightarrow> Some (e, s)
      | Some (Inr bs, s) \<Rightarrow> read_loop v5 f l bs s)"
  by pat_completeness auto
termination
  by (relation "measure (\<lambda>(v5, f, l, bs, s). length bs)")
    (auto simp: read_one_def dest: ReadRec_shorter ReadRec5_shorter split: if_splits)

declare read_loop.simps [simp del]

text \<open>The error \<open>FileRead\<close> returns is never nil; \<open>walRead\<close> ignores it.\<close>

definition FileRead :: "fref \<Rightarrow> jref \<Rightarrow> 8 word list \<Rightarrow> world \<Rightarrow> (read_err \<times> world) option" where
  "FileRead f l bs s =
     (case readFull int64_size bs of
        None \<Rightarrow> Some (ReadFailed, s)
      | Some (b, bs) \<Rightarrow>
          let version = le_i64 b in
          if version = WalVer \<or> version = WalVer5
          then do {
            (e, s) \<leftarrow> read_loop (version = WalVer5) f l bs (fileIncRef (Some f) s);
            s \<leftarrow> fileDecRef (Some f) s;
            Some (e, s)
          }
          else Some (UnknownVersion, s))"

section \<open>Reading the log directory\<close>

text \<open>What \<open>os.Open\<close> and \<open>filepath.Walk\<close> see: no directory, a directory that cannot be opened, or
  the names of the regular files below it, in lexical order.\<close>

datatype dir_listing = DirMissing | DirError | DirFiles "string list"

definition binlog_base :: string where "binlog_base = ''binlog.''"

text \<open>The callback of \<open>Walk\<close> on one file; an error it returns ends in \<open>Log.Panic\<close>.\<close>

definition scan_name :: "string \<Rightarrow> int \<times> int \<Rightarrow> (int \<times> int) option" where
  "scan_name nm p =
     (let (mn, mx) = p in
      if take (length binlog_base) nm \<noteq> binlog_base then Some (mn, mx)
      else
        (case ParseInt (drop (length binlog_base) nm) of
           None \<Rightarrow> None
         | Some n \<Rightarrow> Some (if n < mn then n else mn, if n > mx then n else mx)))"

definition walScanDir :: "dir_listing \<Rightarrow> world \<Rightarrow> (int \<times> world) option" where
  "walScanDir dir s =
     (case dir of
        DirMissing \<Rightarrow> Some (2 ^ 30, s)
      | DirError \<Rightarrow> None
      | DirFiles names \<Rightarrow> do {
          (mn, mx) \<leftarrow> foldM scan_name names (2 ^ 30, 0);
          Some (mn, modW (\<lambda>w. w\<lparr>WNext := i64 (mx + 1)\<rparr>) s)
        })"

text \<open>\<open>for i := min; i < w.Next; i++\<close>.\<close>

partial_function (option) walRead :: "(string \<Rightarrow> 8 word list option) \<Rightarrow> jref \<Rightarrow> int \<Rightarrow> world \<Rightarrow> world option" where
  "walRead disk l i s =
     (if \<not> i < WNext (Wal s) then Some s
      else
        let (f, s) = newFile s; (ok, s) = fileInit f i s in
        if \<not> ok then None
        else
          (case disk (Path (F s f)) of
             None \<Rightarrow> walRead disk l (i + 1) s
           | Some bs \<Rightarrow> do {
               (_, s) \<leftarrow> FileRead f l bs (fileAdd f s);
               walRead disk l (i + 1) s
             }))"

declare walRead.simps [code]

definition WalInit :: "dir_listing \<Rightarrow> (string \<Rightarrow> 8 word list option) \<Rightarrow> jref \<Rightarrow> world \<Rightarrow> world option" where
  "WalInit dir disk l s =
     do {
       (mn, s) \<leftarrow> walScanDir dir s;
       s \<leftarrow> walRead disk l mn s;
       (ok, s) \<leftarrow> makeNextFile s;
       if \<not> ok then None else Some (modW (\<lambda>w. w\<lparr>Cur := Tail w\<rparr>) s)
     }"

section \<open>Replaying the jobs\<close>

text \<open>The loop variable \<open>j\<close> is an argument; \<open>nj\<close> is read before \<open>j\<close> leaves the list.\<close>

partial_function (option) protReplay_loop :: "jref \<Rightarrow> jref option \<Rightarrow> world \<Rightarrow> (bool \<times> world) option" where
  "protReplay_loop l jp s =
     (if jp = Some l then Some (True, s)
      else do {
        j \<leftarrow> jp;
        let nj = Next (J s j);
        (_, s) \<leftarrow> JobListRemove (Some j) s;
        (z, s) \<leftarrow> WalResvUpdate s;
        if z \<le> 0 then Some (False, s)
        else do {
          s \<leftarrow>
            (if RState (R (J s j)) = Buried then do { (_, s) \<leftarrow> BuryJob j False s; Some s }
             else do {
               let (delay, s) =
                 (if RState (R (J s j)) = Delayed
                  then (let (t, s) = time_Now s in
                        (if t < DeadlineAt (R (J s j)) then i64 (DeadlineAt (R (J s j)) - t) else 0, s))
                  else (0, s));
               (_, s) \<leftarrow> enqueueJob j delay False s;
               Some s
             });
          protReplay_loop l nj s
        }
      })"

declare protReplay_loop.simps [code]

definition protReplay :: "jref \<Rightarrow> world \<Rightarrow> (bool \<times> world) option" where
  "protReplay l s = protReplay_loop l (Next (J s l)) s"

text \<open>\<open>MkdirAll\<close>, \<open>OpenFile\<close> and \<open>FcntlFlock\<close> can fail.\<close>

definition WalDirLock :: "world \<Rightarrow> bool \<times> world" where
  "WalDirLock s =
     (let (made, s) = syscall_ok s in
      if \<not> made then (False, s)
      else let (opened, s) = syscall_ok s in if \<not> opened then (False, s) else syscall_ok s)"

text \<open>Each failure here is a \<open>Log.Panic\<close>.\<close>

definition SrvAcquireWal :: "dir_listing \<Rightarrow> (string \<Rightarrow> 8 word list option) \<Rightarrow> world \<Rightarrow> world option" where
  "SrvAcquireWal dir disk s =
     (if \<not> WalUse (Wal s) then Some s
      else
        let (locked, s) = WalDirLock s in
        if \<not> locked then None
        else
          let l = nJ s;
              s = s\<lparr>nJ := Suc l, J := (J s)(l := zero_job\<lparr>Prev := Some l, Next := Some l\<rparr>)\<rparr>
          in do {
            s \<leftarrow> WalInit dir disk l s;
            (ok, s) \<leftarrow> protReplay l s;
            if \<not> ok then None else Some s
          })"

section \<open>Encoding and decoding\<close>

lemma length_le_bytes [simp]: "length (le_bytes n x) = n"
  by (simp add: le_bytes_def)

lemma le_bytes_Suc: "le_bytes (Suc n) x = word_of_int x # le_bytes n (x div 256)"
proof -
  have "map (\<lambda>i. word_of_int (x div 256 ^ i) :: 8 word) [0..<Suc n] =
      word_of_int x # map (\<lambda>i. word_of_int (x div 256 ^ Suc i)) [0..<n]"
    by (simp add: upt_conv_Cons map_Suc_upt [symmetric] del: upt_Suc)
  then show ?thesis by (simp add: le_bytes_def zdiv_zmult2_eq mult.commute)
qed

lemma le_val_le_bytes: "le_val (le_bytes n x) = x mod 256 ^ n"
proof (induction n arbitrary: x)
  case (Suc n)
  have "le_val (le_bytes (Suc n) x) = x mod 256 + 256 * (x div 256 mod 256 ^ n)"
    using Suc [of "x div 256"] by (simp add: le_bytes_Suc le_val_def unsigned_of_int take_bit_eq_mod)
  also have "\<dots> = x mod (256 * 256 ^ n)" by (simp add: zmod_zmult2_eq)
  finally show ?case by simp
qed (simp add: le_bytes_def le_val_def)

lemma le_i64_le_bytes: "in_i64 x \<Longrightarrow> le_i64 (le_bytes 8 x) = x"
  by (simp add: le_i64_def le_val_le_bytes i64_def in_i64_def mod_simps)

lemma word_le_bytes:
  "(word_of_int (le_val (le_bytes 8 (uint a))) :: 64 word) = a"
  "(word_of_int (le_val (le_bytes 4 (uint b))) :: 32 word) = b"
  using uint_lt2p [of a] uint_lt2p [of b] by (simp_all add: le_val_le_bytes)

lemma field_append:
  "length xs = n \<Longrightarrow> field 0 n (xs @ ys) = xs"
  "length xs = n \<Longrightarrow> n \<le> a \<Longrightarrow> field a m (xs @ ys) = field (a - n) m ys"
  by (auto simp: field_def)
definition rec_ok :: "job_rec \<Rightarrow> bool" where
  "rec_ok r \<longleftrightarrow> in_i64 (Delay r) \<and> in_i64 (TTR r) \<and> in_i64 (BodySize r) \<and> in_i64 (CreateAt r) \<and>
     in_i64 (DeadlineAt r)"

lemma le_val_byte: "le_val (field 0 (Suc 0) [w]) = uint w"
  by (simp add: field_def le_val_def)

lemma rec_decode: "rec_ok r \<Longrightarrow> rec_of_bytes (rec_bytes r) = r" "length (rec_bytes r) = 73"
  unfolding rec_of_bytes_def rec_bytes_def rec_ok_def
  by (simp_all add: field_append le_i64_le_bytes word_le_bytes le_val_byte)


section \<open>What a full record restores\<close>

definition full_record :: "string \<Rightarrow> job_rec \<Rightarrow> string \<Rightarrow> 8 word list" where
  "full_record nm r body = binary_bytes (WInt64 (int (length nm))) @ binary_bytes (WBytes nm) @
     binary_bytes (WRec r) @ binary_bytes (WBytes body)"

lemma readFull_append: "readFull (int (length xs)) (xs @ ys) = Some (xs, ys)"
  by (simp add: readFull_def)

lemma readFull_app: "n = int (length xs) \<Longrightarrow> readFull n (xs @ ys) = Some (xs, ys)"
  by (simp add: readFull_append)

lemma chars_back: "map (\<lambda>w. char_of (unat w)) (map (of_char :: char \<Rightarrow> 8 word) x) = x"
proof (induction x)
  case (Cons c x)
  have "unat (of_char c :: 8 word) = of_char c"
    by (simp add: of_nat_of_char [symmetric, where 'a = "8 word"] unat_of_nat)
  then show ?case using Cons by simp
qed simp

text \<open>The two states agree on everything about jobs but the lists of the files.\<close>

definition same_loaded :: "world \<Rightarrow> world \<Rightarrow> bool" where
  "same_loaded s s' \<longleftrightarrow> allJobs s' = allJobs s \<and> Wal s' = Wal s \<and>
     (\<forall>x. R (J s' x) = R (J s x) \<and> Body (J s' x) = Body (J s x) \<and> JTube (J s' x) = JTube (J s x) \<and>
       Prev (J s' x) = Prev (J s x) \<and> Next (J s' x) = Next (J s x))"

lemma same_loaded_steps:
  "same_loaded s s"
  "same_loaded s s' \<Longrightarrow> (\<And>x. R (g x) = R x \<and> Body (g x) = Body x \<and> JTube (g x) = JTube x \<and>
     Prev (g x) = Prev x \<and> Next (g x) = Next x) \<Longrightarrow> same_loaded s (modJ j g s')"
  "same_loaded s s' \<Longrightarrow> same_loaded s (modF f h s')"
  by (auto simp: same_loaded_def upd)

lemma FileAddJob_same: "\<exists>s'. FileAddJob f j s = Some s' \<and> same_loaded s s'"
proof -
  have "FileAddJob f j s \<noteq> None" by (auto simp: FileAddJob_def Let_def upd)
  then obtain s' where s': "FileAddJob f j s = Some s'" by auto
  then have "same_loaded s s'"
    by (auto simp: FileAddJob_def Let_def fileIncRef_def bind_eq_Some_conv intro!: same_loaded_steps split: if_splits)
  with s' show ?thesis by blast
qed

lemma read_make_new:
  assumes "BodySize jr \<le> MaxJobSize s" "TubeFind nm s = Some t"
  shows "\<exists>s1. read_make nm jr s = Some (Some (nJ s), s1) \<and> JobListEmpty (nJ s) s1 \<and>
    JTube (J s1 (nJ s)) = Some t \<and> JFile (J s1 (nJ s)) = None \<and> WalUsed (J s1 (nJ s)) = 0 \<and>
    (\<forall>x. x \<noteq> nJ s \<longrightarrow> J s1 x = J s x) \<and> allJobs s1 (ID jr) = Some (nJ s) \<and> Wal s1 = Wal s"
proof -
  obtain s0 where m: "MakeJobWithID (Pri jr) (Delay jr) (TTR jr) (BodySize jr) (Some t) (Some (ID jr)) s = (nJ s, s0)"
    and s0: "JTube (J s0 (nJ s)) = Some t" "JFile (J s0 (nJ s)) = None" "WalUsed (J s0 (nJ s)) = 0"
      "\<And>x. x \<noteq> nJ s \<Longrightarrow> J s0 x = J s x" "allJobs s0 (ID jr) = Some (nJ s)" "Wal s0 = Wal s"
    by (auto simp: MakeJobWithID_def NewJob_def time_Now_def ListReset_def JobStore_def zero_job_def upd Let_def)
  show ?thesis
    using assms m s0 by (auto simp: read_make_def JobListRest_def JobListEmpty_def upd Let_def)
qed

lemma read_body_full:
  assumes "BodySize (R (J s j)) = int (length body)" "JFile (J s j) = None"
  shows "\<exists>s'. read_body f j (binary_bytes (WBytes body) @ rest) s = Some (Some (int (length body), rest), s') \<and>
    same_loaded (modJ j (\<lambda>x. x\<lparr>Body := body\<rparr>) s) s'"
proof -
  let ?s = "modJ j (\<lambda>x. x\<lparr>Body := body\<rparr>) s"
  have "modJ j (\<lambda>x. x\<lparr>Body := body\<rparr>) (modJ j (\<lambda>x. x\<lparr>Body := b\<rparr>) s) = ?s" for b
    by (simp add: upd)
  moreover have "FileRmJob None j ?s = Some ?s" by (simp add: FileRmJob_def)
  moreover have "JFile (J ?s j) = None" using assms(2) by (simp add: upd)
  moreover obtain s' where "FileAddJob f j ?s = Some s'" "same_loaded ?s s'" using FileAddJob_same by blast
  ultimately show ?thesis
    using assms(1) chars_back [of body] readFull_app [of "int (length body)" "binary_bytes (WBytes body)" rest]
    by (auto simp: read_body_def Let_def)
qed

lemma JobListInsert_frame:
  "JobListInsert h j s = Some s' \<Longrightarrow> JFile (J s' x) = JFile (J s x) \<and> JTube (J s' x) = JTube (J s x)"
  by (auto simp: JobListInsert_def upd Let_def split: if_splits Option.bind_splits)

lemma read_alive_full:
  assumes "dll (J s) l xs" "j \<notin> set (l # xs)" "JobListEmpty j s" "JFile (J s j) = None"
    "BodySize jr = int (length body)" "0 < nl"
  shows "\<exists>s'. read_alive f l nl jr j sz (binary_bytes (WBytes body) @ rest) s = Some (Some rest, s') \<and>
    R (J s' j) = jr \<and> Body (J s' j) = body \<and> JTube (J s' j) = JTube (J s j) \<and> dll (J s') l (xs @ [j]) \<and>
    allJobs s' = allJobs s \<and> Alive (Wal s') = Alive (Wal s) + (sz + int (length body))"
proof -
  let ?s1 = "modR j (\<lambda>_. jr) s"
  have links: "Next (J ?s1 x) = Next (J s x) \<and> Prev (J ?s1 x) = Prev (J s x)" for x by (simp add: upd)
  have "JobListEmpty j ?s1" using assms(3) by (simp add: JobListEmpty_def links)
  then obtain s2 where i: "JobListInsert l j ?s1 = Some s2" "dll (J s2) l (xs @ [j])"
    "s2 = ?s1\<lparr>J := J s2\<rparr>" "\<And>x. R (J s2 x) = R (J ?s1 x)"
    using insert_dll [OF dll_frame [OF assms(1) links] assms(2)] by metis
  have s2: "R (J s2 j) = jr" "JFile (J s2 j) = None" "JTube (J s2 j) = JTube (J s j)"
    using i(4) [of j] JobListInsert_frame [OF i(1), of j] assms(4) by (simp_all add: upd)
  have w: "Wal s2 = Wal s" "allJobs s2 = allJobs s" by (subst i(3); simp add: upd)+
  obtain s3 where b: "read_body f j (binary_bytes (WBytes body) @ rest) s2 = Some (Some (int (length body), rest), s3)"
    "same_loaded (modJ j (\<lambda>x. x\<lparr>Body := body\<rparr>) s2) s3"
    using read_body_full [of s2 j body f rest] s2(1,2) assms(5) by auto
  let ?s4 = "modW (\<lambda>w. w\<lparr>Alive := Alive w + (sz + int (length body))\<rparr>)
      (modJ j (\<lambda>x. x\<lparr>WalUsed := WalUsed x + (sz + int (length body))\<rparr>) s3)"
  have "read_alive f l nl jr j sz (binary_bytes (WBytes body) @ rest) s = Some (Some rest, ?s4)"
    using i(1) b(1) s2(1) assms(6) by (simp add: read_alive_def Let_def)
  moreover have "dll (J ?s4) l (xs @ [j])"
    using b(2) by (intro dll_frame [OF i(2)]) (auto simp: same_loaded_def upd)
  ultimately show ?thesis using b(2) s2 w by (auto simp: same_loaded_def upd)
qed

text \<open>C16: reading back a full record that the log was given for a job nothing is known of yet
  restores the job: it is found under its id, with the same record (a reserved job becomes
  ready), body and tube, at the end of the list of recovered jobs; the record's bytes count as
  alive, and reading goes on behind them.\<close>

theorem ReadRec_restores:
  assumes "rec_ok r" "ID r \<noteq> 0" "RState r \<in> {Ready, Reserved, Buried, Delayed}"
    and "BodySize r = int (length body)" "BodySize r \<le> MaxJobSize s"
    and "nm \<noteq> []" "length nm \<le> 200" "TubeFind nm s = Some t" "JobFind (ID r) s = None"
    and "dll (J s) l xs" "nJ s \<notin> set (l # xs)"
  shows "\<exists>s'. ReadRec f l (full_record nm r body @ rest) s = Some (Inr rest, s') \<and>
    JobFind (ID r) s' = Some (nJ s) \<and>
    R (J s' (nJ s)) = (if RState r = Reserved then r\<lparr>RState := Ready\<rparr> else r) \<and>
    Body (J s' (nJ s)) = body \<and> JTube (J s' (nJ s)) = Some t \<and> dll (J s') l (xs @ [nJ s]) \<and>
    Alive (Wal s') = Alive (Wal s) + int (length (full_record nm r body))"
proof -
  define jr where "jr = (if RState r = Reserved then r\<lparr>RState := Ready\<rparr> else r)"
  have jr: "ID jr = ID r" "BodySize jr = BodySize r" by (simp_all add: jr_def)
  define sz where "sz = 8 + int (length nm) + 73"
  obtain s1 where m: "read_make nm jr s = Some (Some (nJ s), s1)" "JobListEmpty (nJ s) s1"
    "JTube (J s1 (nJ s)) = Some t" "JFile (J s1 (nJ s)) = None" "\<And>x. x \<noteq> nJ s \<Longrightarrow> J s1 x = J s x"
    "allJobs s1 (ID jr) = Some (nJ s)" "Wal s1 = Wal s"
    using read_make_new [of jr s nm t] assms(5,8) jr by auto
  have "dll (J s1) l xs" using assms(11) by (intro dll_frame [OF assms(10)]) (metis m(5))
  then obtain s' where a: "read_alive f l (int (length nm)) jr (nJ s) sz (binary_bytes (WBytes body) @ rest) s1 = Some (Some rest, s')"
    "R (J s' (nJ s)) = jr" "Body (J s' (nJ s)) = body" "JTube (J s' (nJ s)) = Some t" "dll (J s') l (xs @ [nJ s])"
    "allJobs s' = allJobs s1" "Alive (Wal s') = Alive (Wal s1) + (sz + int (length body))"
    using read_alive_full [of s1 l xs "nJ s" jr body "int (length nm)" f sz rest] assms(4,6,11) m(2-4) jr by auto
  have d: "rec_of_bytes (rec_bytes r) = r" "length (rec_bytes r) = 73" using rec_decode assms(1) by auto
  have l: "le_i64 (le_bytes 8 (int (length nm))) = int (length nm)"
    using assms(7) by (intro le_i64_le_bytes) (simp add: in_i64_def)
  have n: "0 < length nm" "\<not> int (length nm) \<ge> MaxTubeNameLen" "JobFind (ID r) s = None" "sz = int64_size + int (length nm) + rec_size"
    using assms(6,7,9) by (simp_all add: MaxTubeNameLen_def sz_def int64_size_eq rec_size_eq)
  have st: "RState r = Ready \<or> RState r = Reserved \<or> RState r = Buried \<or> RState r = Delayed"
    using assms(3) by simp
  have "ReadRec f l (full_record nm r body @ rest) s = Some (Inr rest, s')"
    using st m(1) a(1) n assms(2) unfolding n(4) ReadRec_def full_record_def int64_size_eq rec_size_eq
    by (elim disjE)
      (simp_all add: readFull_app l d chars_back [unfolded map_map comp_def] comp_def Let_def jr_def
        Ready_def Reserved_def Buried_def Delayed_def Invalid_def)
  moreover have "length (full_record nm r body) = 8 + length nm + (73 + length body)"
    by (simp add: full_record_def d(2))
  ultimately show ?thesis using a m(6,7) jr(1) by (simp add: JobFind_def jr_def sz_def)
qed

text \<open>C32: the same record makes the server panic when no tube of that name exists yet, and at start
  only the default tube exists: \<open>ReadRec\<close> looks the tube up without making it and
  dereferences nil.\<close>

theorem ReadRec_unknown_tube:
  assumes "rec_ok r" "ID r \<noteq> 0" "RState r \<in> {Ready, Reserved, Buried, Delayed}" "BodySize r \<le> MaxJobSize s"
    and "nm \<noteq> []" "length nm \<le> 200" "TubeFind nm s = None" "JobFind (ID r) s = None"
  shows "ReadRec f l (full_record nm r body @ rest) s = None"
proof -
  have d: "rec_of_bytes (rec_bytes r) = r" "length (rec_bytes r) = 73" using rec_decode assms(1) by auto
  have l: "le_i64 (le_bytes 8 (int (length nm))) = int (length nm)"
    using assms(6) by (intro le_i64_le_bytes) (simp add: in_i64_def)
  have n: "0 < length nm" "\<not> int (length nm) \<ge> MaxTubeNameLen"
    using assms(5,6) by (simp_all add: MaxTubeNameLen_def)
  have m: "read_make nm jr s = None" if "BodySize jr = BodySize r" for jr
    using assms(4,7) that by (simp add: read_make_def Let_def split: prod.splits)
  have st: "RState r = Ready \<or> RState r = Reserved \<or> RState r = Buried \<or> RState r = Delayed"
    using assms(3) by simp
  then show ?thesis
    using n assms(2,8) unfolding ReadRec_def full_record_def int64_size_eq rec_size_eq
    by (elim disjE)
      (simp_all add: readFull_app l d m chars_back [unfolded map_map comp_def] comp_def Let_def
        Ready_def Reserved_def Buried_def Delayed_def Invalid_def)
qed

lemma le_val_zero: "le_val (replicate n 0) = 0"
  by (induction n) (simp_all add: le_val_def)

lemma readFull_zeros:
  "readFull (int m) (replicate n 0) = (if m \<le> n then Some (replicate m 0, replicate (n - m) 0) else None)"
  by (simp add: readFull_def min_def)

text \<open>The zero bytes a binlog file is filled with when it is made end the reading: nothing of
  the state changes.\<close>

lemma ReadRec_padding:
  "ReadRec f l (replicate n 0) s = Some (Inl (if n < 81 then ReadFailed else IdZero), s)"
proof -
  have z: "le_i64 (replicate k 0) = 0" for k by (simp add: le_i64_def le_val_zero i64_def)
  have id: "ID (rec_of_bytes (replicate 73 0)) = 0"
    by (simp add: rec_of_bytes_def field_def le_val_zero)
  note r8 = readFull_zeros [of 8, simplified] and r73 = readFull_zeros [of 73, simplified]
  show ?thesis
  proof (cases "n < 81")
    case True
    then have "\<not> 73 \<le> n - 8" by simp
    then show ?thesis using True
      by (simp add: ReadRec_def int64_size_eq rec_size_eq r8 r73 z MaxTubeNameLen_def)
  next
    case False
    then have "8 \<le> n" "73 \<le> n - 8" by simp_all
    then show ?thesis using False
      by (simp add: ReadRec_def int64_size_eq rec_size_eq r8 r73 z id MaxTubeNameLen_def)
  qed
qed

lemma ReadRec5_idle:
  assumes "allJobs s = Map.empty" "ReadRec5 f l bs s = Some (r, s')"
  shows "s' = s"
  using assms
  by (auto simp: ReadRec5_def readFull_string_def JobFind_def Let_def split: option.splits if_splits)

text \<open>A log of version 5 restores nothing: its full records are never read, because the name is
  read into a string, and its short records are ignored as long as no job is known.\<close>

lemma version5_restores_nothing:
  assumes "allJobs s = Map.empty" "read_loop True f l bs s = Some (e, s')"
  shows "s' = s"
proof -
  have "v5 \<Longrightarrow> allJobs s = Map.empty \<Longrightarrow> read_loop v5 f l bs s = Some (e, s') \<Longrightarrow> s' = s" for v5
  proof (induction v5 f l bs s rule: read_loop.induct)
    case (1 v5 f l bs s)
    show ?case
    proof (cases "read_one v5 f l bs s")
      case None
      then show ?thesis using "1.prems"(3) by (simp add: read_loop.simps [of v5 f l bs s])
    next
      case (Some p)
      obtain r s1 where p: "p = (r, s1)" by fastforce
      have s1: "s1 = s" using ReadRec5_idle [OF "1.prems"(2)] Some p "1.prems"(1) by (simp add: read_one_def)
      show ?thesis
      proof (cases r)
        case (Inl e')
        then show ?thesis using "1.prems"(3) Some p s1 by (simp add: read_loop.simps [of v5 f l bs s])
      next
        case (Inr bs')
        then have "read_loop v5 f l bs' s = Some (e, s')"
          using "1.prems"(3) Some p s1 by (simp add: read_loop.simps [of v5 f l bs s])
        then show ?thesis using "1.IH" [OF Some p [symmetric] Inr] "1.prems"(1,2) s1 by simp
      qed
    qed
  qed
  then show ?thesis using assms by simp
qed

lemma scan_name_number:
  "n < 2 ^ 63 \<Longrightarrow> scan_name (binlog_base @ dec_nat n) (mn, mx) = Some (min (int n) mn, max (int n) mx)"
  using ParseInt_digits [OF dec_nat_nonempty dec_nat_digits, of n]
  by (simp add: scan_name_def digits_val_dec min_def max_def)

text \<open>\<open>walScanDir\<close> reads the numbers of the binlog files back from their names: the least one
  is returned, and the next file gets a number above all of them. Any other file whose name
  starts with \<open>binlog.\<close> stops the server.\<close>

lemma walScanDir_numbers:
  assumes "\<forall>n\<in>set ns. n < 2 ^ 62"
  shows "walScanDir (DirFiles (map (\<lambda>n. binlog_base @ dec_nat n) ns)) s =
      Some (Min (insert (2 ^ 30) (int ` set ns)),
        modW (\<lambda>w. w\<lparr>WNext := Max (insert 0 (int ` set ns)) + 1\<rparr>) s) \<and>
    (ParseInt x = None \<longrightarrow> walScanDir (DirFiles (map (\<lambda>n. binlog_base @ dec_nat n) ns @ [binlog_base @ x])) s = None)"
proof -
  have f: "foldM scan_name (map (\<lambda>n. binlog_base @ dec_nat n) ns) (mn, mx) =
      Some (Min (insert mn (int ` set ns)), Max (insert mx (int ` set ns)))" for mn mx
    using assms
  proof (induction ns arbitrary: mn mx)
    case (Cons n ns)
    have "Min (insert (min (int n) mn) (int ` set ns)) = Min (insert mn (int ` set (n # ns)))"
      "Max (insert (max (int n) mx) (int ` set ns)) = Max (insert mx (int ` set (n # ns)))"
      by (cases "ns = []"; simp add: insert_commute min.left_commute max.left_commute min.commute max.commute)+
    then show ?case using Cons by (simp add: scan_name_number)
  qed simp
  have "Max (insert 0 (int ` set ns)) < 2 ^ 62" "0 \<le> Max (insert 0 (int ` set ns))"
    using assms by (auto simp: Max_ge_iff)
  moreover have "m < 2 ^ 62 \<Longrightarrow> 0 \<le> m \<Longrightarrow> in_i64 (m + 1)" for m by (simp add: in_i64_def)
  ultimately have "in_i64 (Max (insert 0 (int ` set ns)) + 1)" by blast
  then have "i64 (Max (insert 0 (int ` set ns)) + 1) = Max (insert 0 (int ` set ns)) + 1" by (rule i64_id)
  then show ?thesis by (simp add: walScanDir_def f foldM_append scan_name_def)
qed

section \<open>What the log reserves and writes for a job\<close>

text \<open>The effect of \<open>n\<close> successful writes of the bytes \<open>bs\<close> in all.\<close>

definition wrote :: "fref \<Rightarrow> jref \<Rightarrow> nat \<Rightarrow> 8 word list \<Rightarrow> world \<Rightarrow> world" where
  "wrote f j n bs s =
     (let l = int (length bs) in
      s\<lparr>ios := ios s + n,
        F := (F s)(f := (F s f)\<lparr>FBytes := FBytes (F s f) @ bs, FResv := FResv (F s f) - l\<rparr>),
        J := (J s)(j := (J s j)\<lparr>WalResv := WalResv (J s j) - l, WalUsed := WalUsed (J s j) + l\<rparr>),
        Wal := (Wal s)\<lparr>WResv := WResv (Wal s) - l, Alive := Alive (Wal s) + l\<rparr>\<rparr>)"

lemma fileWrite_wrote:
  assumes "io s = (\<lambda>_. True)"
  shows "fileWrite f j x s = (True, wrote f j 1 (binary_bytes x) s)"
  using assms by (simp add: fileWrite_def wrote_def syscall_ok_def binary_Size_def Let_def upd)

lemma wrote_io [simp]: "io (wrote f j n bs s) = io s"
  by (simp add: wrote_def Let_def)

lemma wrote_wrote: "wrote f j m ys (wrote f j n xs s) = wrote f j (n + m) (xs @ ys) s"
  by (simp add: wrote_def Let_def diff_diff_eq add.assoc)

lemma fileWriteAll_wrote:
  "io s = (\<lambda>_. True) \<Longrightarrow>
   fileWriteAll f j xs s = (True, wrote f j (length xs) (concat (map binary_bytes xs)) s)"
proof (induction xs arbitrary: s)
  case Nil
  then show ?case by (simp add: wrote_def)
next
  case (Cons x xs)
  then show ?case by (simp add: fileWrite_wrote wrote_wrote)
qed

definition short_record :: "job_rec \<Rightarrow> 8 word list" where
  "short_record r = binary_bytes (WInt64 0) @ binary_bytes (WRec r)"

lemma FileAddJob_space:
  assumes "FileAddJob c j s = Some s'"
  shows "F s' = (F s)(c := (F s c)\<lparr>Refs := Refs (F s c) + 1\<rparr>)" "Wal s' = Wal s" "nF s' = nF s" "T s' = T s" "io s' = io s"
    "JFile (J s' j) = Some c" "WalResv (J s' j) = WalResv (J s j)" "WalUsed (J s' j) = WalUsed (J s j)"
  using assms by (auto simp: FileAddJob_def fileIncRef_def Let_def upd split: if_splits Option.bind_splits)

lemma WalWrite_full:
  assumes "WalUse (Wal s)" "Cur (Wal s) = Some f" "0 < FResv (F s f)" "io s = (\<lambda>_. True)" "JFile (J s j) = None" "JTube (J s j) = Some t"
  shows "\<exists>s1. FileAddJob f j s = Some s1 \<and> WalWrite j s =
    Some (True, modW (\<lambda>w. w\<lparr>Nrec := Nrec w + 1\<rparr>) (wrote f j (Suc (Suc (Suc (Suc 0)))) (full_record (Name (T s t)) (R (J s j)) (Body (J s j))) s1))"
proof -
  obtain s1 where s1: "FileAddJob f j s = Some s1" "same_loaded s s1" using FileAddJob_same by blast
  have same: "R (J s1 j) = R (J s j)" "Body (J s1 j) = Body (J s j)" "JTube (J s1 j) = JTube (J s j)"
    using s1(2) by (auto simp: same_loaded_def)
  have "fileWrJobFull f j s = Some (True, wrote f j (Suc (Suc (Suc (Suc 0)))) (full_record (Name (T s t)) (R (J s j)) (Body (J s j))) s1)"
    using s1(1) same FileAddJob_space [OF s1(1)] assms(4,6)
    by (simp add: fileWrJobFull_def fileWriteAll_wrote full_record_def Let_def del: fileWriteAll.simps)
  then show ?thesis using s1(1) assms(1-3,5) by (simp add: WalWrite_def)
qed

end
