(* ===== verification/Setup.thy ===== *)
theory Setup
  imports Recovery Server
begin

text \<open>
  The way to the main loop: the options of \<open>model/srv.go\<close>, the flags of \<open>utils/options.go\<close>,
  \<open>makeServerListener\<close> and \<open>NewServer\<close> of \<open>net/serv.go\<close>, \<open>main\<close>, and what the signal handlers
  of \<open>signal.go\<close> do to the state.
\<close>

section \<open>Options\<close>

record server_options =
  Port :: int
  Addr :: string
  User :: string

type_synonym server_option = "server_options \<Rightarrow> server_options"

definition WithPort :: "int \<Rightarrow> server_option" where
  "WithPort port = (\<lambda>o'. o'\<lparr>Port := port\<rparr>)"

definition WithAddr :: "string \<Rightarrow> server_option" where
  "WithAddr addr = (\<lambda>o'. o'\<lparr>Addr := addr\<rparr>)"

definition WithUser :: "string \<Rightarrow> server_option" where
  "WithUser user = (\<lambda>o'. o'\<lparr>User := user\<rparr>)"

section \<open>The listening socket\<close>

datatype listener = UnixListener string | TCPListener string

definition unix_prefix :: string where "unix_prefix = ''unix:''"

text \<open>Resolving and listening can fail; \<open>None\<close> is an error.\<close>

definition makeServerListener :: "string \<Rightarrow> int \<Rightarrow> world \<Rightarrow> listener option \<times> world" where
  "makeServerListener addr port s =
     (if take (length unix_prefix) addr = unix_prefix
      then
        let (resolved, s) = syscall_ok s in
        if \<not> resolved then (None, s)
        else let (listening, s) = syscall_ok s in
          if \<not> listening then (None, s) else (Some (UnixListener (drop (length unix_prefix) addr)), s)
      else
        let (resolved, s) = syscall_ok s in
        if \<not> resolved then (None, s)
        else let (listening, s) = syscall_ok s in
          if \<not> listening then (None, s) else (Some (TCPListener (addr @ '':'' @ dec_int port)), s))"

text \<open>\<open>model.Server\<close> without the log, which is part of the state; \<open>Connes\<close> starts empty.\<close>

record server =
  Options :: server_options
  Ln :: listener

text \<open>The result is the returned pointer and whether the returned error is not nil. When \<open>sockWant\<close>
  fails, the function returns \<open>err\<close>, which is nil there.\<close>

definition NewServer :: "server_option list \<Rightarrow> world \<Rightarrow> (server option \<times> bool) \<times> world" where
  "NewServer options s =
     (let opts = fold (\<lambda>f o'. f o') options \<lparr>Port = 0, Addr = [], User = []\<rparr>;
          s = s\<lparr>Connes := []\<rparr>;
          (l, s) = makeServerListener (Addr opts) (Port opts) s
      in case l of
           None \<Rightarrow> ((None, True), s)
         | Some l \<Rightarrow>
             let (file, s) = syscall_ok s in
             if \<not> file then ((None, True), s)
             else
               let (wanted, s) = syscall_ok s in
               if \<not> wanted then ((None, False), s)
               else ((Some \<lparr>Options = opts, Ln = l\<rparr>, False), s))"

section \<open>Flags\<close>

record flags =
  PortFlag :: int
  BingLogDir :: string
  FsyncMs :: int
  FsyncNever :: bool
  ListenAddr :: string
  UserFlag :: string
  MaxJobSizeFlag :: int
  EachWriteAheadLogSize :: int
  ShowVersion :: bool
  LogLevelKnown :: bool

definition JobDataSizeLimitMax :: int where
  [go_const]: "JobDataSizeLimitMax = 1073741824"

text \<open>The values the flags have when they are not given.\<close>

definition default_flags :: flags where
  "default_flags = \<lparr>PortFlag = 11400, BingLogDir = [], FsyncMs = 50, FsyncNever = True,
     ListenAddr = ''0.0.0.0'', UserFlag = [], MaxJobSizeFlag = 2 ^ 16 - 1,
     EachWriteAheadLogSize = 10 * 2 ^ 20, ShowVersion = False, LogLevelKnown = True\<rparr>"

text \<open>\<open>su\<close> looks the user up and changes group and user; a failure is a \<open>Log.Panic\<close>.\<close>

definition su :: "string \<Rightarrow> world \<Rightarrow> world option" where
  "su u s =
     (let (found, s) = syscall_ok s in
      if \<not> found then None
      else let (gid, s) = syscall_ok s in
        if \<not> gid then None
        else let (uid, s) = syscall_ok s in if \<not> uid then None else Some s)"

text \<open>\<open>None\<close>: the process ends, by \<open>os.Exit\<close> after printing the version or by a panic
  (\<open>MustParseLevel\<close> of an unknown level, \<open>su\<close>). The size limit is \<open>*MaxJobSize\<close>.\<close>

definition OptParse :: "flags \<Rightarrow> world \<Rightarrow> world option" where
  "OptParse fl s =
     (if ShowVersion fl then None
      else if \<not> LogLevelKnown fl then None
      else do {
        let s = s\<lparr>MaxJobSize := MaxJobSizeFlag fl\<rparr>;
        let s = (if MaxJobSize s > JobDataSizeLimitMax then s\<lparr>MaxJobSize := JobDataSizeLimitMax\<rparr> else s);
        let s = modW (\<lambda>w. w\<lparr>FileSize := EachWriteAheadLogSize fl, SyncRate := i64 (FsyncMs fl * 1000000),
                  WantSync := True\<rparr>) s;
        let s = (if FsyncNever fl then modW (\<lambda>w. w\<lparr>WantSync := False\<rparr>) s else s);
        s \<leftarrow> (if UserFlag fl \<noteq> [] then su (UserFlag fl) s else Some s);
        Some (if BingLogDir fl \<noteq> [] then modW (\<lambda>w. w\<lparr>Dir := BingLogDir fl, WalUse := True\<rparr>) s else s)
      })"

section \<open>main and the signals\<close>

text \<open>\<open>main\<close> up to the call of \<open>Start\<close>. A nil server is dereferenced by \<open>OptParse\<close> (unless it exits
  before).\<close>

definition main_init :: "flags \<Rightarrow> dir_listing \<Rightarrow> (string \<Rightarrow> 8 word list option) \<Rightarrow> world \<Rightarrow> world option" where
  "main_init fl dir disk s =
     (let ((srv, err), s) = NewServer [WithPort (PortFlag fl), WithAddr (ListenAddr fl), WithUser (UserFlag fl)] s in
      if err then None
      else do {
        _ \<leftarrow> srv;
        s \<leftarrow> OptParse fl s;
        SrvAcquireWal dir disk s
      })"

definition enterDrainMode :: "world \<Rightarrow> world" where
  "enterDrainMode s = s\<lparr>DrainMode := 1\<rparr>"

text \<open>SIGINT and its like: sync the log, then exit; \<open>None\<close> is a panic in the handler.\<close>

definition sigIntTermHandle :: "world \<Rightarrow> world option" where
  "sigIntTermHandle s = WalSync s"

section \<open>What starting the server yields\<close>

text \<open>Resolving, listening and taking the listener's file must succeed, or \<open>NewServer\<close> reports
  an error; when only the registration of the listening socket fails, it returns a nil server
  and no error, and \<open>main\<close> dereferences it.\<close>

lemma NewServer_outcomes:
  "fst (NewServer options s) =
     (let opts = fold (\<lambda>f o'. f o') options \<lparr>Port = 0, Addr = [], User = []\<rparr> in
      if \<not> (io s (ios s) \<and> io s (ios s + 1) \<and> io s (ios s + 2)) then (None, True)
      else if \<not> io s (ios s + 3) then (None, False)
      else (Some \<lparr>Options = opts,
              Ln = (if take 5 (Addr opts) = ''unix:'' then UnixListener (drop 5 (Addr opts))
                    else TCPListener (Addr opts @ '':'' @ dec_int (Port opts)))\<rparr>, False)) \<and>
   (io s (ios s) \<and> io s (ios s + 1) \<and> io s (ios s + 2) \<and> io s (ios s + 3) \<or> main_init fl dir disk s = None)"
  by (simp add: NewServer_def main_init_def makeServerListener_def unix_prefix_def syscall_ok_def Let_def
      eval_nat_numeral)

text \<open>The size limit of jobs is the flag's value, at most \<open>JobDataSizeLimitMax\<close>; the size of a
  log file is the flag's value as it is, not rounded; syncing is wanted exactly without the flag
  for never, which is set by default, and with it but without a log directory the handler of
  SIGINT panics.\<close>

lemma OptParse_settings:
  assumes "OptParse fl s = Some s'"
  shows "MaxJobSize s' = min (MaxJobSizeFlag fl) JobDataSizeLimitMax \<and>
    FileSize (Wal s') = EachWriteAheadLogSize fl \<and> SyncRate (Wal s') = i64 (FsyncMs fl * 1000000) \<and>
    (WantSync (Wal s') \<longleftrightarrow> \<not> FsyncNever fl) \<and> FsyncNever default_flags \<and>
    (WalUse (Wal s') \<longleftrightarrow> WalUse (Wal s) \<or> BingLogDir fl \<noteq> []) \<and>
    (\<not> FsyncNever fl \<and> Cur (Wal s) = None \<and> LastSync (Wal s) + SyncRate (Wal s') \<le> clock s (ticks s) \<longrightarrow>
       sigIntTermHandle s' = None)"
proof -
  have su: "Wal s2 = Wal s1 \<and> MaxJobSize s2 = MaxJobSize s1 \<and> clock s2 = clock s1 \<and> ticks s2 = ticks s1"
    if "su u s1 = Some s2" for u s1 s2
    using that by (auto simp: su_def syscall_ok_def Let_def split: if_splits)
  show ?thesis
    using assms
    by (auto simp: OptParse_def sigIntTermHandle_def WalSync_def time_Now_def default_flags_def Let_def upd
        split: if_splits Option.bind_splits dest!: su)
qed

end
