(* ===== verification/Witnesses.thy ===== *)
theory Witnesses
  imports Reachable Behaviour Service Enqueue Setup
begin

text \<open>
  The properties of the jobs and the tubes applied to states of the concrete run of theory
  Reachable.
\<close>

definition one_job :: world where
  "one_job = snd (NewJob None demo)"

definition two_linked :: world where
  "two_linked = the (JobListInsert 0 1 one_job)"

theorem JobListInsert_appends_witness:
  "\<exists>s'. JobListInsert 0 1 one_job = Some s' \<and> dll (J s') 0 [1]"
proof -
  have "dll (J one_job) 0 []" "JobListEmpty 1 one_job" by code_simp+
  then show ?thesis using JobListInsert_appends [of one_job 0 "[]" 1] by auto
qed

theorem JobListRemove_removes_witness:
  "\<exists>s'. JobListRemove (Some 1) two_linked = Some (Some 1, s') \<and> dll (J s') 0 []"
proof -
  have "dll (J two_linked) 0 [1]" by code_simp
  then show ?thesis using JobListRemove_removes [of two_linked 0 "[]" 1 "[]"] by auto
qed

text \<open>A state with two delayed jobs.\<close>

definition delay_run :: "event list" where
  "delay_run = [AcceptEvent,
     rd_ev 0 (''put 0 9 60 1'' @ CRLF @ ''x'' @ CRLF), rd_ev 0 [],
     rd_ev 0 (''put 0 5 60 1'' @ CRLF @ ''x'' @ CRLF), rd_ev 0 []]"

definition demo_delayed :: world where
  "demo_delayed = the (Start delay_run demo)"

definition well_heaped :: "world \<Rightarrow> bool" where
  "well_heaped s \<longleftrightarrow> list_all (\<lambda>t. heap_ok (JobPriLess (J s)) (ReadyQ (T s t)) \<and>
     heap_ok (JobDelayLess (J s)) (DelayQ (T s t))) (ms_items (tubes s))"

lemma demo_heaps:
  "map_option (\<lambda>s. (well_heaped s, ms_items (tubes s), length (ReadyQ (T s 0)), Pause (T s 0),
     JobPriLess (J s) 2 3, JobPriLess (J s) 3 2, RState (R (J s 3)), JTube (J s 3))) (Start demo_run demo) =
   Some (True, [0], 2, 0, True, False, Ready, Some 0)"
  by code_simp

lemma demo_end_heaps:
  "well_heaped demo_end" "ms_items (tubes demo_end) = [0]" "length (ReadyQ (T demo_end 0)) = 2"
  "Pause (T demo_end 0) = 0" "JobPriLess (J demo_end) 2 3" "\<not> JobPriLess (J demo_end) 3 2"
  "RState (R (J demo_end 3)) = Ready" "JTube (J demo_end 3) = Some 0"
  using demo_heaps by (auto simp: demo_end_def)

lemma delay_heaps:
  "map_option (\<lambda>s. (well_heaped s, ms_items (tubes s), map Value (DelayQ (T s 0)),
     map (\<lambda>j. (JTube (J s j), HeapIndex (J s j), DeadlineAt (R (J s j)))) [2, 3],
     ms_items (WaitingConns (T s 0)), WalUse (Wal s), ReadyQ (T s 0))) (Start delay_run demo) =
   Some (True, [0], [3, 2], [(Some 0, 0, 9000000000), (Some 0, 0, 5000000000)], [], False, [])"
  by code_simp

lemma demo_delayed_heaps:
  "well_heaped demo_delayed" "ms_items (tubes demo_delayed) = [0]"
  "map Value (DelayQ (T demo_delayed 0)) = [3, 2]"
  "DeadlineAt (R (J demo_delayed 2)) = 9000000000" "DeadlineAt (R (J demo_delayed 3)) = 5000000000"
  "length (DelayQ (T demo_delayed 0)) = 2"
proof -
  obtain s where "Start delay_run demo = Some s" using delay_heaps by auto
  then show "well_heaped demo_delayed" "ms_items (tubes demo_delayed) = [0]"
    "map Value (DelayQ (T demo_delayed 0)) = [3, 2]" "DeadlineAt (R (J demo_delayed 2)) = 9000000000"
    "DeadlineAt (R (J demo_delayed 3)) = 5000000000"
    using delay_heaps by (auto simp: demo_delayed_def)
  from this(3) show "length (DelayQ (T demo_delayed 0)) = 2" by (metis One_nat_def Suc_1 length_Cons length_map list.size(3))
qed

theorem ready_order_witness:
  "\<exists>xs. drain (JobPriLess (J demo_end)) 2 (ReadyQ (T demo_end 0)) = Some xs \<and> mset xs = {#2, 3#}"
proof -
  have "heap_vals (ReadyQ (T demo_end 0)) = {#2, 3#}" by (simp add: heap_vals_def demo_end_obs)
  then show ?thesis using ready_order [of "J demo_end" "ReadyQ (T demo_end 0)"] demo_end_heaps
    by (auto simp: well_heaped_def)
qed

section \<open>The handling of input and output\<close>

text \<open>A put whose command line, body and next command have arrived, and one whose body has not.\<close>

definition put_arrived :: world where
  "put_arrived = modR 1 (\<lambda>r. r\<lparr>BodySize := 3\<rparr>) (modC 0 (\<lambda>x. x\<lparr>SockF := True, InJob := Some 1,
     Cmd := put_x @ ''quit'', CmdLen := 14, CmdRead := 21\<rparr>) one_job)"

lemma put_arrived_facts:
  "SockF (C put_arrived 0)" "InJob (C put_arrived 0) = Some 1" "CmdRead (C put_arrived 0) = int (length (Cmd (C put_arrived 0)))"
  "CmdLen (C put_arrived 0) = 14" "CmdRead (C put_arrived 0) = 21" "BodySize (R (J put_arrived 1)) = 3"
  "Cmd (C put_arrived 0) = put_x @ ''quit''" "Body (J put_arrived 1) = []" "InJobRead (C put_arrived 0) = 0"
  "RState (R (J put_arrived 1)) = 0" "ID (R (J put_arrived 1)) = 0"
  by code_simp+

lemma length_put_x: "length put_x = 17"
  by code_simp

theorem fillExtraData_splits_witness:
  "\<exists>s'. fillExtraData 0 put_arrived = Some s' \<and> Body (J s' 1) @ Cmd (C s' 0) = ''x'' @ CRLF @ ''quit'' \<and>
     length (Body (J s' 1)) = 3"
proof -
  obtain s' where s': "fillExtraData 0 put_arrived = Some s'"
    "take 14 (put_x @ ''quit'') @ Body (J s' 1) @ Cmd (C s' 0) = put_x @ ''quit''" "length (Body (J s' 1)) = 3"
    using fillExtraData_splits [of put_arrived 0 1]
    by (auto simp: put_arrived_facts length_put_x simp del: One_nat_def)
  have "take 14 (put_x @ ''quit'') = take 14 put_x" "put_x = take 14 put_x @ ''x'' @ CRLF" by code_simp+
  then show ?thesis using s' by (metis append.assoc same_append_eq)
qed

definition late_io :: sock_io where
  "late_io = \<lparr>sock_rd = (\<lambda>n. RdOk (''x'' @ CRLF)), sock_wr = (\<lambda>d. WrOk (int (length d)))\<rparr>"

theorem late_body_refused_witness:
  "\<exists>s1. io_want_data late_io 0 put_arrived = replyMsg 0 MsgExpectedCrlf s1 \<and> Body (J s1 1) = []"
proof -
  have "bytes_Index (Body (J put_arrived 1)) CRLF = -1" by code_simp
  moreover have "sock_rd late_io n = RdOk (''x'' @ CRLF)" for n by (simp add: late_io_def)
  ultimately obtain s1 where "io_want_data late_io 0 put_arrived = replyMsg 0 MsgExpectedCrlf s1"
    "Body (J s1 1) = Body (J put_arrived 1)"
    using late_body_refused [of put_arrived 0 1 late_io "''x'' @ CRLF"] by (auto simp: put_arrived_facts Copy_def simp del: One_nat_def)
  then show ?thesis by (auto simp: put_arrived_facts simp del: One_nat_def)
qed

definition half_sent :: world where
  "half_sent = modC 0 (\<lambda>x. x\<lparr>Reply := ''INSERTED 2'' @ CRLF, ReplyLen := 12, ReplySent := 8\<rparr>) demo"

lemma send_word_partial_example: "io_send_word late_io 0 half_sent = None"
proof -
  have "Reply (C half_sent 0) = ''INSERTED 2'' @ CRLF" "ReplyLen (C half_sent 0) = 12" "ReplySent (C half_sent 0) = 8"
    by code_simp+
  then show ?thesis
    using send_word_partial [of late_io half_sent 0] by (simp add: late_io_def split: option.splits)
qed

definition long_start :: world where
  "long_start = modC 0 (\<lambda>x. x\<lparr>SockF := True\<rparr>) demo"

definition long_io :: sock_io where
  "long_io = \<lparr>sock_rd = (\<lambda>n. RdOk (replicate (nat n) (CHR ''a''))), sock_wr = (\<lambda>d. WrOk (int (length d)))\<rparr>"

lemma long_start_obs:
  "map_option (\<lambda>s. CState (C s 0)) (io_want_command long_io 0 long_start) = Some StateWantEndLine"
  "map_option (\<lambda>s. CState (C s 0)) (io_want_command long_io 0 long_start \<bind> serve_line [late_io, late_io] 0) = Some StateWantEndLine"
  "CState (C long_start 0) = StateWantCommand" "CmdRead (C long_start 0) \<le> int (length (Cmd (C long_start 0)))"
  by code_simp+

theorem long_line_stuck_witness:
  "\<exists>s1 s'. io_want_command long_io 0 long_start = Some s1 \<and> serve_line [late_io, late_io] 0 s1 = Some s' \<and>
     Reply (C s' 0) = Reply (C long_start 0)"
proof -
  obtain s1 where s1: "io_want_command long_io 0 long_start = Some s1" "CState (C s1 0) = StateWantEndLine"
    using long_start_obs(1) by auto
  moreover obtain s' where "serve_line [late_io, late_io] 0 s1 = Some s'" using long_start_obs(2) s1(1) by auto
  ultimately show ?thesis using long_line_stuck [OF long_start_obs(3,4)] by blast
qed

lemma touch_one_digit:
  "dispatchOpTouch 0 (modC 0 (\<lambda>x. x\<lparr>Cmd := ''touch 1'' @ CRLF\<rparr>) demo) =
     replyMsg 0 MsgBadFormat (modC 0 (\<lambda>x. x\<lparr>Cmd := ''touch 1'' @ CRLF\<rparr>) demo)"
  using touch_drops_digit [of 2 "CHR ''1''" 0 demo] by (simp add: is_digit_def Let_def)

section \<open>The service of a connection\<close>

text \<open>A connection has been accepted and a job made; two connections are queued.\<close>

definition accepted :: world where
  "accepted = the (Start_step AcceptEvent demo)"

definition one_more :: world where
  "one_more = modJ 2 (\<lambda>x. x\<lparr>JTube := Some 0, Body := ''x'' @ CRLF\<rparr>) (snd (NewJob (Some 3) accepted))"

lemma one_more_facts:
  "ReservedJobs (C one_more 0) = 1" "dll (J one_more) 1 []" "JobListEmpty 2 one_more" "JTube (J one_more 2) = Some 0"
  "clock one_more 0 = 0" "WalUse (Wal one_more) = False" "DrainMode one_more = 0" "WalResv (J one_more 2) = 0"
  "ms_items (tubes one_more) = [0]" "ms_items (WaitingConns (T one_more 0)) = []" "Delay (R (J one_more 2)) = 0"
  "Body (J one_more 2) = ''x'' @ CRLF" "ReadyQ (T one_more 0) = []" "BodySize (R (J one_more 2)) = 3"
  "JFile (J one_more 2) = None" "Name (T one_more 0) = ''default''" "ID (R (J one_more 2)) = 0"
  by code_simp+

theorem reserveJob_reserves_witness:
  "\<exists>s'. reserveJob 0 2 one_more = Some s' \<and> dll (J s') (ReservedJobs (C s' 0)) [2] \<and> isJobReservedByConn 0 (Some 2) s'"
  using reserveJob_reserves [of one_more 0 "[]" 2 0] by (auto simp: one_more_facts simp del: One_nat_def)

lemma accepted_facts:
  "CType (C accepted 0) AND ConnTypeWaiting = 0" "ms_items (Watch (C accepted 0)) = [0]"
  "ms_items (WaitingConns (T accepted 0)) = []"
  by code_simp+

theorem waiting_round_trip_witness: "removeWaitingCoon 0 (enqueueWaitingConn 0 accepted) = accepted"
  by (rule waiting_round_trip) (simp_all add: accepted_facts)

definition three_queued :: world where
  "three_queued = demo\<lparr>epollQ := Some 0, C := (C demo)(0 := zero_coon\<lparr>CNext := Some 1, PendingTimeout := -1\<rparr>,
     1 := zero_coon\<lparr>CNext := Some 2, PendingTimeout := -1\<rparr>, 2 := zero_coon)\<rparr>"

lemma three_queued_path: "cpath (C three_queued) (epollQ three_queued) [0, 1, 2]"
  by (simp add: three_queued_def zero_coon_def)

theorem EpollQRmConn_removes_witness:
  "\<exists>s'. EpollQRmConn 1 three_queued = Some s' \<and> cpath (C s') (epollQ s') [2, 0]"
  using EpollQRmConn_removes [OF three_queued_path, of 1] by auto

lemma three_queued_again: "\<exists>s'. EpollQAdd 1 (CHR ''w'') three_queued = Some s' \<and> \<not> cpath (C s') (epollQ s') [1, 0, 2]"
proof -
  have "InCoons (C three_queued 1) = 0" "\<not> connWaiting (C three_queued 1)" "JobListEmpty (ReservedJobs (C three_queued 1)) three_queued"
    "PendingTimeout (C three_queued 1) < 0" by code_simp+
  moreover have "distinct [0, 1, 2::cref]" by simp
  ultimately obtain s' where "EpollQAdd 1 (CHR ''w'') three_queued = Some s'"
    "\<And>ys zs ps. [0, 1, 2::cref] = ys @ 1 # zs \<Longrightarrow> \<not> cpath (C s') (epollQ s') ps"
    using EpollQAdd_twice [OF _ _ _ _ three_queued_path, of 1 "CHR ''w''"] by blast
  moreover have "[0, 1, 2] = [0] @ 1 # [2::cref]" by simp
  ultimately show ?thesis by blast
qed

section \<open>Queueing\<close>

lemma demo_delayed_facts:
  "delays_ok 6000000000 demo_delayed" "nobody_waits demo_delayed" "\<not> WalUse (Wal demo_delayed)"
  "ms_items (tubes demo_delayed) = [0]" "heap_vals (DelayQ (T demo_delayed 0)) = {#2, 3#}"
  "due 6000000000 demo_delayed 3" "\<not> due 6000000000 demo_delayed 2" "ReadyQ (T demo_delayed 0) = []"
proof -
  obtain s where s: "Start delay_run demo = Some s" using delay_heaps by auto
  then have d: "demo_delayed = s" by (simp add: demo_delayed_def)
  have v: "heap_vals (DelayQ (T s 0)) = {#2, 3#}" using delay_heaps s by (auto simp: heap_vals_def)
  then show "heap_vals (DelayQ (T demo_delayed 0)) = {#2, 3#}" by (simp add: d)
  show "delays_ok 6000000000 demo_delayed"
    using delay_heaps s v by (auto simp: d delays_ok_def well_heaped_def in_i64_def)
  show "nobody_waits demo_delayed" "\<not> WalUse (Wal demo_delayed)" "ms_items (tubes demo_delayed) = [0]"
    "due 6000000000 demo_delayed 3" "\<not> due 6000000000 demo_delayed 2" "ReadyQ (T demo_delayed 0) = []"
    using delay_heaps s by (auto simp: d nobody_waits_def due_def)
qed

theorem tick_delayed_releases_witness:
  "\<exists>p s'. tick_delayed 6000000000 DefaultPeriod demo_delayed = Some (p, s') \<and>
     heap_vals (ReadyQ (T s' 0)) = {#3#} \<and> heap_vals (DelayQ (T s' 0)) = {#2#} \<and> RState (R (J s' 3)) = Ready"
  using tick_delayed_releases [OF demo_delayed_facts(1-3), of DefaultPeriod]
  by (auto simp: demo_delayed_facts(4-) heap_vals_def [of "[]"])

section \<open>The log\<close>

definition job7 :: job_rec where
  "job7 = zero_rec\<lparr>ID := 7, Pri := 5, TTR := 60000000000, BodySize := 3, RState := Reserved\<rparr>"

lemma job7_facts: "rec_ok job7" "ID job7 = 7" "RState job7 = Reserved" "BodySize job7 = 3"
  by (simp_all add: job7_def rec_ok_def in_i64_def zero_rec_def)


lemma demo_facts:
  "MaxJobSize demo = 65535" "TubeFind ''default'' demo = Some 0" "TubeFind ''jobs'' demo = None" "JobFind 7 demo = None"
  "dll (J demo) 0 []" "nJ demo = 1" "length (''x'' @ CRLF) = 3"
  by code_simp+

theorem ReadRec_restores_witness:
  "\<exists>s'. ReadRec 0 0 (full_record ''default'' job7 (''x'' @ CRLF)) demo = Some (Inr [], s') \<and>
     JobFind 7 s' = Some 1 \<and> R (J s' 1) = job7\<lparr>RState := Ready\<rparr> \<and> dll (J s') 0 [1]"
  using ReadRec_restores [of job7 "''x'' @ CRLF" demo "''default''" 0 0 "[]" 0 "[]"]
  by (auto simp: job7_facts demo_facts simp del: One_nat_def)

theorem ReadRec_unknown_tube_witness:
  "ReadRec 0 0 (full_record ''jobs'' job7 (''x'' @ CRLF)) demo = None"
  using ReadRec_unknown_tube [of job7 demo "''jobs''" 0 0 "''x'' @ CRLF" "[]"]
  by (simp add: job7_facts demo_facts)

end
