(* ===== verification/Places.thy ===== *)
theory Places
  imports Service Enqueue Invariants
begin

text \<open>
  An abstract view of the server's queues. A job stands in at most one place: the ready queue or
  the delay queue of a tube, the buried list of a tube, or the list of jobs a connection holds;
  a connection waits on tubes. \<open>holds a s\<close> says that the heaps, circular lists and waiting lists
  of the state \<open>s\<close> are well formed and represent the places \<open>a\<close>. The lemmas say what the basic
  operations do to the places: each is a move of one job or one connection.
\<close>

section \<open>The abstract state\<close>

record places =
  a_ready :: "tref \<Rightarrow> jref multiset"
  a_delayed :: "tref \<Rightarrow> jref multiset"
  a_buried :: "tref \<Rightarrow> jref list"
  a_held :: "cref \<Rightarrow> jref list"
  a_waiting :: "tref \<Rightarrow> cref multiset"

definition loose_links :: "(jref \<Rightarrow> job) \<Rightarrow> jref \<Rightarrow> bool" where
  "loose_links m j \<longleftrightarrow> Next (m j) = Some j \<and> Prev (m j) = Some j"

lemma loose_links_empty: "loose_links (J s) j \<longleftrightarrow> JobListEmpty j s"
  by (simp add: loose_links_def JobListEmpty_def)

definition queued :: "((jref \<Rightarrow> job) \<Rightarrow> jref \<Rightarrow> jref \<Rightarrow> bool) \<Rightarrow> 8 word \<Rightarrow> (jref \<Rightarrow> job) \<Rightarrow> tref \<Rightarrow>
    jref mHeap \<Rightarrow> jref multiset \<Rightarrow> bool" where
  "queued lt st m t h q \<longleftrightarrow> heap_vals h = q \<and> heap_ok (lt m) h \<and>
     (\<forall>j\<in>#q. count q j = 1 \<and> RState (R (m j)) = st \<and> JTube (m j) = Some t \<and> loose_links m j)"

definition buried_at :: "(jref \<Rightarrow> job) \<Rightarrow> tref \<Rightarrow> jref \<Rightarrow> jref list \<Rightarrow> bool" where
  "buried_at m t h xs \<longleftrightarrow> dll m h xs \<and> RState (R (m h)) = Invalid \<and>
     (\<forall>j\<in>set xs. RState (R (m j)) = Buried \<and> JTube (m j) = Some t)"

definition held_by :: "(jref \<Rightarrow> job) \<Rightarrow> cref \<Rightarrow> jref \<Rightarrow> jref list \<Rightarrow> nat \<Rightarrow> bool" where
  "held_by m c h xs n \<longleftrightarrow> dll m h xs \<and> RState (R (m h)) = Invalid \<and>
     (\<forall>j\<in>set xs. RState (R (m j)) = Reserved \<and> Reservoir (m j) = Some c \<and> (\<exists>t<n. JTube (m j) = Some t))"

text \<open>The sentinels of all lists are different.\<close>

definition heads_ok :: "world \<Rightarrow> bool" where
  "heads_ok s \<longleftrightarrow> inj_on (\<lambda>t. BuriedL (T s t)) {..<nT s} \<and> inj_on (\<lambda>c. ReservedJobs (C s c)) {..<nC s} \<and>
     (\<forall>t<nT s. \<forall>c<nC s. BuriedL (T s t) \<noteq> ReservedJobs (C s c))"

text \<open>A connection that waits on a tube watches it and has the type bit.\<close>

definition waits_ok :: "places \<Rightarrow> world \<Rightarrow> bool" where
  "waits_ok a s \<longleftrightarrow> (\<forall>t<nT s. mset (ms_items (WaitingConns (T s t))) = a_waiting a t \<and>
     (\<forall>c\<in>#a_waiting a t. c < nC s \<and> connWaiting (C s c) \<and>
        count (a_waiting a t) c \<le> count_list (ms_items (Watch (C s c))) t)) \<and>
     set (ms_items (tubes s)) \<subseteq> {..<nT s}"

text \<open>The heap of connections with a deadline has one entry for each connection that counts itself in,
  and the recorded positions are 0.\<close>

definition sched_ok :: "world \<Rightarrow> bool" where
  "sched_ok s \<longleftrightarrow> card {c. c < nC s \<and> InCoons (C s c) > 0} = length (Connes s) \<and>
     (\<forall>c. TickPos (C s c) = 0) \<and> (\<forall>j. HeapIndex (J s j) = 0)"

definition holds :: "places \<Rightarrow> world \<Rightarrow> bool" where
  "holds a s \<longleftrightarrow>
     (\<forall>t<nT s. queued JobPriLess Ready (J s) t (ReadyQ (T s t)) (a_ready a t) \<and>
        queued JobDelayLess Delayed (J s) t (DelayQ (T s t)) (a_delayed a t) \<and>
        buried_at (J s) t (BuriedL (T s t)) (a_buried a t)) \<and>
     (\<forall>c<nC s. held_by (J s) c (ReservedJobs (C s c)) (a_held a c) (nT s)) \<and>
     heads_ok s \<and> waits_ok a s \<and> sched_ok s"

text \<open>The jobs that stand somewhere, with the sentinels; any other job is nowhere.\<close>

definition placed :: "places \<Rightarrow> world \<Rightarrow> jref set" where
  "placed a s =
     (\<Union>t<nT s. set_mset (a_ready a t) \<union> set_mset (a_delayed a t) \<union> set (BuriedL (T s t) # a_buried a t)) \<union>
     (\<Union>c<nC s. set (ReservedJobs (C s c) # a_held a c))"

definition nowhere :: "places \<Rightarrow> world \<Rightarrow> jref \<Rightarrow> bool" where
  "nowhere a s j \<longleftrightarrow> loose_links (J s) j \<and> j \<notin> placed a s"

section \<open>Frames\<close>

lemma heap_ok_cong:
  assumes "\<And>a b. a \<in># heap_vals h \<Longrightarrow> b \<in># heap_vals h \<Longrightarrow> lt' a b = lt a b"
  shows "heap_ok lt' h = heap_ok lt h"
proof -
  have m: "Value (h ! i) \<in># heap_vals h" if "i < length h" for i
    using that by (auto simp: heap_vals_def)
  show ?thesis unfolding heap_ok_def heap_upto_def edge_ok_def
    by (auto simp: mHeap_Less_def assms m)
qed

lemma queued_cong:
  assumes "queued lt st m t h q" "\<And>j. j \<in># q \<Longrightarrow> m' j = m j"
    and "\<And>m m' a b. m' a = m a \<Longrightarrow> m' b = m b \<Longrightarrow> lt m' a b = lt m a b"
  shows "queued lt st m' t h q"
proof -
  have "heap_ok (lt m') h = heap_ok (lt m) h"
    using assms(1,2) by (intro heap_ok_cong assms(3)) (auto simp: queued_def)
  then show ?thesis using assms(1,2) by (simp add: queued_def loose_links_def)
qed

lemma less_local:
  "m' a = m a \<Longrightarrow> m' b = m b \<Longrightarrow> JobPriLess m' a b = JobPriLess m a b"
  "m' a = m a \<Longrightarrow> m' b = m b \<Longrightarrow> JobDelayLess m' a b = JobDelayLess m a b"
  by (simp_all add: JobPriLess_def JobDelayLess_def)

lemma buried_at_cong:
  "buried_at m t h xs \<Longrightarrow> (\<And>j. j \<in> set (h # xs) \<Longrightarrow> m' j = m j) \<Longrightarrow> buried_at m' t h xs"
  unfolding buried_at_def using dll_frame [of m h xs m'] by auto

lemma held_by_cong:
  "held_by m c h xs n \<Longrightarrow> (\<And>j. j \<in> set (h # xs) \<Longrightarrow> m' j = m j) \<Longrightarrow> held_by m' c h xs n"
  unfolding held_by_def using dll_frame [of m h xs m'] by auto

lemma waits_ok_cong:
  "waits_ok a s \<Longrightarrow> nT s' = nT s \<Longrightarrow> nC s' = nC s \<Longrightarrow> tubes s' = tubes s \<Longrightarrow>
   (\<And>t. WaitingConns (T s' t) = WaitingConns (T s t)) \<Longrightarrow>
   (\<And>c. CType (C s' c) = CType (C s c) \<and> Watch (C s' c) = Watch (C s c)) \<Longrightarrow> waits_ok a s'"
  by (simp add: waits_ok_def connWaiting_def)

lemma sched_ok_cong:
  "sched_ok s \<Longrightarrow> nC s' = nC s \<Longrightarrow> Connes s' = Connes s \<Longrightarrow>
   (\<And>c. InCoons (C s' c) = InCoons (C s c) \<and> TickPos (C s' c) = TickPos (C s c)) \<Longrightarrow>
   (\<And>j. HeapIndex (J s' j) = HeapIndex (J s j)) \<Longrightarrow> sched_ok s'"
  by (simp add: sched_ok_def)

text \<open>What an operation has to leave alone for the places to stay as they are.\<close>

definition same_conn :: "coon \<Rightarrow> coon \<Rightarrow> bool" where
  "same_conn x y \<longleftrightarrow> ReservedJobs x = ReservedJobs y \<and> CType x = CType y \<and> Watch x = Watch y \<and> TickPos x = TickPos y"

definition same_tube :: "tube \<Rightarrow> tube \<Rightarrow> bool" where
  "same_tube x y \<longleftrightarrow> ReadyQ x = ReadyQ y \<and> DelayQ x = DelayQ y \<and> WaitingConns x = WaitingConns y \<and> BuriedL x = BuriedL y"

lemma holds_frame:
  assumes "holds a s" "nT s' = nT s" "nC s' = nC s" "tubes s' = tubes s"
    and J: "\<And>j. j \<in> placed a s \<Longrightarrow> J s' j = J s j"
    and T: "\<And>t. same_tube (T s' t) (T s t)" and C: "\<And>c. same_conn (C s' c) (C s c)" and "sched_ok s'"
  shows "holds a s'"
proof -
  have "queued JobPriLess Ready (J s') t (ReadyQ (T s' t)) (a_ready a t) \<and>
      queued JobDelayLess Delayed (J s') t (DelayQ (T s' t)) (a_delayed a t) \<and>
      buried_at (J s') t (BuriedL (T s' t)) (a_buried a t)" if "t < nT s" for t
  proof -
    have j: "J s' j = J s j" if "j \<in># a_ready a t \<or> j \<in># a_delayed a t \<or> j \<in> set (BuriedL (T s t) # a_buried a t)" for j
      using that \<open>t < nT s\<close> by (intro J) (auto simp: placed_def)
    have h: "queued JobPriLess Ready (J s) t (ReadyQ (T s t)) (a_ready a t)"
      "queued JobDelayLess Delayed (J s) t (DelayQ (T s t)) (a_delayed a t)"
      "buried_at (J s) t (BuriedL (T s t)) (a_buried a t)"
      using assms(1) that by (simp_all add: holds_def)
    have "queued JobPriLess Ready (J s') t (ReadyQ (T s t)) (a_ready a t)"
      by (rule queued_cong [OF h(1) j less_local(1)]) auto
    moreover have "queued JobDelayLess Delayed (J s') t (DelayQ (T s t)) (a_delayed a t)"
      by (rule queued_cong [OF h(2) j less_local(2)]) auto
    moreover have "buried_at (J s') t (BuriedL (T s t)) (a_buried a t)"
      by (rule buried_at_cong [OF h(3) j]) auto
    ultimately show ?thesis using T [of t] by (simp add: same_tube_def)
  qed
  moreover have "held_by (J s') c (ReservedJobs (C s' c)) (a_held a c) (nT s)" if "c < nC s" for c
  proof -
    have "held_by (J s) c (ReservedJobs (C s c)) (a_held a c) (nT s)" using assms(1) that by (simp add: holds_def)
    moreover have "J s' j = J s j" if "j \<in> set (ReservedJobs (C s c) # a_held a c)" for j
      using that \<open>c < nC s\<close> by (intro J) (auto simp: placed_def)
    ultimately have "held_by (J s') c (ReservedJobs (C s c)) (a_held a c) (nT s)" by (rule held_by_cong)
    then show ?thesis using C [of c] by (simp add: same_conn_def)
  qed
  moreover have "heads_ok s'" "waits_ok a s'"
    using assms(1-4) T C by (auto simp: holds_def heads_ok_def same_tube_def same_conn_def intro!: waits_ok_cong [of a s s'])
  ultimately show ?thesis using assms(2,3,8) by (simp add: holds_def)
qed

text \<open>Assignments to a job that is nowhere, and to fields that do not matter here.\<close>

lemma holds_sched: "holds a s \<Longrightarrow> sched_ok s"
  by (simp add: holds_def)

lemma same_refl [simp]: "same_tube x x" "same_conn y y"
  by (simp_all add: same_tube_def same_conn_def)

lemma holds_modJ:
  assumes "holds a s" "j \<notin> placed a s" "HeapIndex (f (J s j)) = HeapIndex (J s j)"
  shows "holds a (modJ j f s)"
proof (rule holds_frame [OF assms(1)])
  show "J (modJ j f s) x = J s x" if "x \<in> placed a s" for x using that assms(2) by (auto simp: upd)
  show "sched_ok (modJ j f s)"
    by (rule sched_ok_cong [OF holds_sched [OF assms(1)]]) (simp_all add: upd assms(3))
qed (simp_all add: upd)

lemma holds_modT:
  assumes "holds a s" "same_tube (f (T s t)) (T s t)"
  shows "holds a (modT t f s)"
proof (rule holds_frame [OF assms(1)])
  show "same_tube (T (modT t f s) u) (T s u)" for u using assms(2) by (simp add: upd)
  show "sched_ok (modT t f s)" by (rule sched_ok_cong [OF holds_sched [OF assms(1)]]) (simp_all add: upd)
qed (simp_all add: upd)

lemma holds_modC:
  assumes "holds a s" "same_conn (f (C s c)) (C s c)" "InCoons (f (C s c)) = InCoons (C s c)"
  shows "holds a (modC c f s)"
proof (rule holds_frame [OF assms(1)])
  show "same_conn (C (modC c f s) d) (C s d)" for d using assms(2) by (simp add: upd)
  show "sched_ok (modC c f s)"
    using assms(2,3) by (intro sched_ok_cong [OF holds_sched [OF assms(1)]]) (simp_all add: upd same_conn_def)
qed (simp_all add: upd)

section \<open>Scheduling and replying\<close>

text \<open>\<open>answered c s s'\<close>: all that has changed is the connection \<open>c\<close>, apart from its jobs, input, type, watch
  list and output job, and the queues of connections and the clock.\<close>

definition kept_conn :: "coon \<Rightarrow> coon \<Rightarrow> bool" where
  "kept_conn x y \<longleftrightarrow> same_conn x y \<and> Use x = Use y \<and> Cmd x = Cmd y \<and> CmdLen x = CmdLen y \<and> CmdRead x = CmdRead y \<and>
     InJob x = InJob y \<and> InJobRead x = InJobRead y \<and> HalfClosed x = HalfClosed y \<and> SockF x = SockF y \<and>
     PendingTimeout x = PendingTimeout y \<and> OutJob x = OutJob y \<and> OutJobSent x = OutJobSent y \<and> ReplyBuf x = ReplyBuf y"

definition answered :: "cref \<Rightarrow> world \<Rightarrow> world \<Rightarrow> bool" where
  "answered c s s' \<longleftrightarrow> (\<exists>x k h q. s' = s\<lparr>C := (C s)(c := x), ticks := k, Connes := h, epollQ := q\<rparr> \<and> kept_conn x (C s c))"

lemma same_conn_kept [simp]: "kept_conn x x"
  by (simp add: kept_conn_def)

lemma answered_refl: "answered c s s"
  unfolding answered_def
  by (rule exI [of _ "C s c"], rule exI [of _ "ticks s"], rule exI [of _ "Connes s"], rule exI [of _ "epollQ s"]) simp

lemma answered_trans: "answered c s s' \<Longrightarrow> answered c s' s'' \<Longrightarrow> answered c s s''"
proof -
  assume "answered c s s'" "answered c s' s''"
  then obtain x k h q x2 k2 h2 q2 where 1: "s' = s\<lparr>C := (C s)(c := x), ticks := k, Connes := h, epollQ := q\<rparr>"
    "kept_conn x (C s c)" and 2: "s'' = s'\<lparr>C := (C s')(c := x2), ticks := k2, Connes := h2, epollQ := q2\<rparr>"
    "kept_conn x2 (C s' c)" unfolding answered_def by blast
  have "kept_conn x2 (C s c)" using 1 2(2) by (simp add: kept_conn_def same_conn_def)
  moreover have "s'' = s\<lparr>C := (C s)(c := x2), ticks := k2, Connes := h2, epollQ := q2\<rparr>" by (simp add: 1(1) 2(1))
  ultimately show "answered c s s''" unfolding answered_def by blast
qed

lemma answered_D:
  assumes "answered c s s'"
  shows "J s' = J s" "nJ s' = nJ s" "T s' = T s" "nT s' = nT s" "nC s' = nC s" "tubes s' = tubes s" "Wal s' = Wal s"
    "allJobs s' = allJobs s" "clock s' = clock s" "GlobalState s' = GlobalState s" "ReadyCt s' = ReadyCt s"
    "DrainMode s' = DrainMode s" "kept_conn (C s' c) (C s c)" "x \<noteq> c \<Longrightarrow> C s' x = C s x"
  using assms by (auto simp: answered_def)

lemma answered_holds:
  assumes "answered c s s'" "holds a s" "sched_ok s'"
  shows "holds a s'"
proof (rule holds_frame [OF assms(2)])
  show "same_conn (C s' d) (C s d)" for d
    using answered_D(13,14) [OF assms(1)] by (cases "d = c") (auto simp: kept_conn_def)
qed (simp_all add: answered_D [OF assms(1)] assms(3))

lemma answered_modC: "kept_conn (f (C s c)) (C s c) \<Longrightarrow> answered c s (modC c f s)"
  unfolding answered_def
  by (rule exI [of _ "f (C s c)"], rule exI [of _ "ticks s"], rule exI [of _ "Connes s"], rule exI [of _ "epollQ s"])
    (simp add: modC_def)

lemma same_soonest: "modC c (\<lambda>x. x\<lparr>SoonestJob := SoonestJob (C s c)\<rparr>) s = s"
  by (simp add: upd)

lemma fold_setSoonestJob_shape:
  "\<exists>p. fold (setSoonestJob c) xs s = modC c (\<lambda>x. x\<lparr>SoonestJob := p\<rparr>) s"
proof (induction xs arbitrary: s)
  case Nil
  show ?case using same_soonest [of c s] by (metis fold_simps(1))
next
  case (Cons x xs)
  have "\<exists>p. setSoonestJob c x s = modC c (\<lambda>x. x\<lparr>SoonestJob := p\<rparr>) s"
  proof (cases "SoonestJob (C s c)")
    case (Some k)
    then show ?thesis using same_soonest [of c s] by (auto simp: setSoonestJob_def dest: sym)
  qed (auto simp: setSoonestJob_def)
  then show ?case using Cons.IH [of "setSoonestJob c x s"] by (auto simp: upd)
qed

lemma connSoonestJob_total:
  assumes "dll (J s) (ReservedJobs (C s c)) xs"
  shows "\<exists>jp s'. connSoonestJob c s = Some (jp, s') \<and> (xs \<noteq> [] \<longrightarrow> jp \<noteq> None) \<and> answered c s s' \<and>
    Connes s' = Connes s \<and> ticks s' = ticks s \<and> InCoons (C s' c) = InCoons (C s c)"
proof (cases "SoonestJob (C s c)")
  case None
  have "soonest_loop c (Next (J s (ReservedJobs (C s c)))) s = Some (fold (setSoonestJob c) xs s)"
    using assms by (intro soonest_loop_seg) (auto simp: dll_def)
  moreover obtain p where "fold (setSoonestJob c) xs s = modC c (\<lambda>x. x\<lparr>SoonestJob := p\<rparr>) s"
    using fold_setSoonestJob_shape by blast
  ultimately have c: "connSoonestJob c s = Some (p, modC c (\<lambda>x. x\<lparr>SoonestJob := p\<rparr>) s)"
    using None by (simp add: connSoonestJob_def) (simp add: upd)
  moreover have "answered c s (modC c (\<lambda>x. x\<lparr>SoonestJob := p\<rparr>) s)"
    by (rule answered_modC) (simp add: kept_conn_def same_conn_def)
  moreover have "xs \<noteq> [] \<longrightarrow> p \<noteq> None" using connSoonestJob_min [OF assms None] c by (cases p) simp_all
  ultimately show ?thesis by (simp add: upd)
qed (use answered_refl in \<open>auto simp: connSoonestJob_def\<close>)

lemma time_Now_answered: "answered c s (snd (time_Now s))"
  unfolding answered_def
  by (rule exI [of _ "C s c"], rule exI [of _ "Suc (ticks s)"], rule exI [of _ "Connes s"], rule exI [of _ "epollQ s"])
    (simp add: time_Now_def)

lemma coonTickAt_total:
  assumes "dll (J s) (ReservedJobs (C s c)) xs"
  shows "\<exists>t s'. coonTickAt c s = Some (t, s') \<and> answered c s s' \<and> Connes s' = Connes s \<and> InCoons (C s' c) = InCoons (C s c)"
proof -
  have hr: "hasReservedJob c s \<longleftrightarrow> xs \<noteq> []" by (simp add: hasReservedJob_def dll_empty_iff [OF assms])
  have tick: "answered c s (snd (time_Now s1)) \<and> Connes (snd (time_Now s1)) = Connes s \<and> InCoons (C (snd (time_Now s1)) c) = InCoons (C s c)"
    if "answered c s s1" "Connes s1 = Connes s" "InCoons (C s1 c) = InCoons (C s c)" for s1
    using answered_trans [OF that(1) time_Now_answered] that(2,3) by (simp add: time_Now_def)
  show ?thesis
  proof (cases "xs = []")
    case True
    then show ?thesis using hr tick [OF answered_refl] answered_refl [of c s]
      by (simp add: coonTickAt_def time_Now_def)
  next
    case False
    obtain j s1 where 1: "connSoonestJob c s = Some (Some j, s1)" "answered c s s1" "Connes s1 = Connes s"
      "InCoons (C s1 c) = InCoons (C s c)"
      using connSoonestJob_total [OF assms] False by auto
    note 2 = tick [OF 1(2-4)]
    then have "answered c s (snd (time_Now (snd (time_Now s1)))) \<and> Connes (snd (time_Now (snd (time_Now s1)))) = Connes s \<and>
      InCoons (C (snd (time_Now (snd (time_Now s1)))) c) = InCoons (C s c)" using tick by blast
    then show ?thesis using hr False 1(1) by (simp add: coonTickAt_def time_Now_def Let_def)
  qed
qed

lemma answered_sched:
  "answered c s s' \<Longrightarrow> sched_ok s \<Longrightarrow> Connes s' = Connes s \<Longrightarrow> InCoons (C s' c) = InCoons (C s c) \<Longrightarrow> sched_ok s'"
proof (rule sched_ok_cong [of s])
  assume a: "answered c s s'" and i: "InCoons (C s' c) = InCoons (C s c)"
  show "InCoons (C s' d) = InCoons (C s d) \<and> TickPos (C s' d) = TickPos (C s d)" for d
    using answered_D(13,14) [OF a] i by (cases "d = c") (auto simp: kept_conn_def same_conn_def)
qed (simp_all add: answered_D)

lemma answered_queues: "answered c s (s\<lparr>Connes := h, epollQ := q\<rparr>)"
  unfolding answered_def
  by (rule exI [of _ "C s c"], rule exI [of _ "ticks s"], rule exI [of _ h], rule exI [of _ q]) simp

lemma size_heap_vals: "size (heap_vals h) = length h"
  by (simp add: heap_vals_def)

text \<open>Joining and leaving the heap of connections.\<close>

lemma sched_leave:
  assumes "sched_ok s" "c < nC s" "InCoons (C s c) > 0"
  shows "\<exists>h. Connes_Remove (TickPos (C s c)) s = Some (s\<lparr>Connes := h\<rparr>) \<and>
    sched_ok (modC c (\<lambda>x. x\<lparr>InCoons := 0\<rparr>) (s\<lparr>Connes := h\<rparr>))"
proof -
  let ?A = "{d. d < nC s \<and> InCoons (C s d) > 0}"
  have "card ?A > 0" using assms(2,3) by (subst card_gt_0_iff) auto
  then have "length (Connes s) > 0" using assms(1) by (simp add: sched_ok_def)
  then have "heap_Remove (connLess (C s)) 0 (Connes s) \<noteq> None" by (simp add: heap_Remove_None_iff)
  then obtain it h where r: "heap_Remove (connLess (C s)) 0 (Connes s) = Some (it, h)" by auto
  have "length (Connes s) = Suc (length h)"
    using remove_vals(5) [OF r] .
  moreover have "{d. d < nC s \<and> InCoons (C (modC c (\<lambda>x. x\<lparr>InCoons := 0\<rparr>) (s\<lparr>Connes := h\<rparr>)) d) > 0} = ?A - {c}"
    by (auto simp: upd)
  ultimately have "card {d. d < nC s \<and> InCoons (C (modC c (\<lambda>x. x\<lparr>InCoons := 0\<rparr>) (s\<lparr>Connes := h\<rparr>)) d) > 0} = length h"
    using assms by (simp add: sched_ok_def card_Diff_singleton)
  then have "sched_ok (modC c (\<lambda>x. x\<lparr>InCoons := 0\<rparr>) (s\<lparr>Connes := h\<rparr>))"
    using assms(1) by (simp add: sched_ok_def upd)
  moreover have "Connes_Remove (TickPos (C s c)) s = Some (s\<lparr>Connes := h\<rparr>)"
    using r assms(1) by (simp add: Connes_Remove_def sched_ok_def)
  ultimately show ?thesis by blast
qed

lemma sched_join:
  assumes "sched_ok s" "c < nC s" "\<not> InCoons (C s c) > 0"
  shows "sched_ok (modC c (\<lambda>x. x\<lparr>InCoons := 1\<rparr>) (Connes_Push c s))"
proof -
  let ?A = "{d. d < nC s \<and> InCoons (C s d) > 0}"
  let ?h = "snd (heap_Push (connLess (C s)) (newItem c) (Connes s))"
  have "length ?h = Suc (length (Connes s))"
    using arg_cong [OF push_vals(2) [of "connLess (C s)" "newItem c" "Connes s"], of size] by (simp add: size_heap_vals)
  moreover have "{d. d < nC s \<and> InCoons (C (modC c (\<lambda>x. x\<lparr>InCoons := 1\<rparr>) (Connes_Push c s)) d) > 0} = insert c ?A"
    using assms(2) by (auto simp: upd Connes_Push_def)
  ultimately show ?thesis using assms(1,3) by (simp add: sched_ok_def) (simp add: upd Connes_Push_def)
qed

lemma connSched_total:
  assumes "dll (J s) (ReservedJobs (C s c)) xs" "sched_ok s" "c < nC s"
  shows "\<exists>s'. connSched c s = Some s' \<and> answered c s s' \<and> sched_ok s'"
proof -
  obtain s1 where 1: "(if InCoons (C s c) > 0
             then do { s \<leftarrow> Connes_Remove (TickPos (C s c)) s; Some (modC c (\<lambda>x. x\<lparr>InCoons := 0\<rparr>) s) }
             else Some s) = Some s1" "answered c s s1" "sched_ok s1" "\<not> InCoons (C s1 c) > 0"
  proof (cases "InCoons (C s c) > 0")
    case True
    obtain h where h: "Connes_Remove (TickPos (C s c)) s = Some (s\<lparr>Connes := h\<rparr>)"
      "sched_ok (modC c (\<lambda>x. x\<lparr>InCoons := 0\<rparr>) (s\<lparr>Connes := h\<rparr>))"
      using sched_leave [OF assms(2,3) True] by blast
    have "answered c (s\<lparr>Connes := h\<rparr>) (modC c (\<lambda>x. x\<lparr>InCoons := 0\<rparr>) (s\<lparr>Connes := h\<rparr>))"
      by (rule answered_modC) (simp add: kept_conn_def same_conn_def)
    moreover have "answered c s (s\<lparr>Connes := h\<rparr>)" using answered_queues [of c s "epollQ s" h] by simp
    ultimately have "answered c s (modC c (\<lambda>x. x\<lparr>InCoons := 0\<rparr>) (s\<lparr>Connes := h\<rparr>))" by (metis answered_trans)
    from that [OF _ this h(2)] show thesis using True h(1) by (simp add: upd)
  next
    case False
    then show thesis using that [OF _ answered_refl assms(2)] by simp
  qed
  have "dll (J s1) (ReservedJobs (C s1 c)) xs"
    using assms(1) answered_D(1,13) [OF 1(2)] by (simp add: kept_conn_def same_conn_def)
  then obtain t s2 where 2: "coonTickAt c s1 = Some (t, s2)" "answered c s1 s2" "Connes s2 = Connes s1"
    "InCoons (C s2 c) = InCoons (C s1 c)" using coonTickAt_total by blast
  let ?s3 = "modC c (\<lambda>x. x\<lparr>TickAt := t\<rparr>) s2"
  have a3: "answered c s2 ?s3" by (rule answered_modC) (simp add: kept_conn_def same_conn_def)
  have o3: "sched_ok ?s3"
    by (rule answered_sched [OF a3 answered_sched [OF 2(2) 1(3) 2(3,4)]]) (simp_all add: upd)
  have n3: "c < nC ?s3" "\<not> InCoons (C ?s3 c) > 0"
    using assms(3) 1(4) 2(4) answered_D(5) [OF 1(2)] answered_D(5) [OF 2(2)] by (simp_all add: upd)
  let ?s4 = "modC c (\<lambda>x. x\<lparr>InCoons := 1\<rparr>) (Connes_Push c ?s3)"
  have "answered c ?s3 (Connes_Push c ?s3)" 
    using answered_queues [of c ?s3 "epollQ ?s3"] by (simp add: Connes_Push_def)
  moreover have "answered c (Connes_Push c ?s3) ?s4"
    by (rule answered_modC) (simp add: kept_conn_def same_conn_def)
  ultimately have a4: "answered c ?s3 ?s4" by (rule answered_trans)
  have a: "answered c s ?s3" using answered_trans [OF answered_trans [OF 1(2) 2(2)] a3] .
  show ?thesis
  proof (cases "t > 0")
    case True
    have "connSched c s = Some ?s4" using 1(1) 2(1) True by (simp add: connSched_def Let_def upd)
    then show ?thesis using answered_trans [OF a a4] sched_join [OF o3 n3] by blast
  next
    case False
    have "connSched c s = Some ?s3" using 1(1) 2(1) False by (simp add: connSched_def Let_def upd)
    then show ?thesis using a o3 by blast
  qed
qed

lemma EpollQAdd_total:
  assumes "dll (J s) (ReservedJobs (C s c)) xs" "sched_ok s" "c < nC s"
  shows "\<exists>s'. EpollQAdd c rw s = Some s' \<and> answered c s s' \<and> sched_ok s'"
proof -
  let ?s1 = "modC c (\<lambda>x. x\<lparr>Rw := rw\<rparr>) s"
  have a1: "answered c s ?s1" by (rule answered_modC) (simp add: kept_conn_def same_conn_def)
  have "sched_ok ?s1" by (rule answered_sched [OF a1 assms(2)]) (simp_all add: upd)
  moreover have "dll (J ?s1) (ReservedJobs (C ?s1 c)) xs" "c < nC ?s1" using assms(1,3) by (simp_all add: upd)
  ultimately obtain s2 where 2: "connSched c ?s1 = Some s2" "answered c ?s1 s2" "sched_ok s2"
    using connSched_total by blast
  let ?s3 = "modC c (\<lambda>x. x\<lparr>CNext := epollQ s2\<rparr>) s2"
  have a3: "answered c s2 ?s3" by (rule answered_modC) (simp add: kept_conn_def same_conn_def)
  have a4: "answered c ?s3 (?s3\<lparr>epollQ := Some c\<rparr>)" using answered_queues [of c ?s3 "Some c" "Connes ?s3"] by simp
  have "sched_ok (?s3\<lparr>epollQ := Some c\<rparr>)"
    by (rule answered_sched [OF a4 answered_sched [OF a3 2(3)]]) (simp_all add: upd)
  moreover have "answered c s (?s3\<lparr>epollQ := Some c\<rparr>)"
    by (rule answered_trans [OF answered_trans [OF answered_trans [OF a1 2(2)] a3] a4])
  ultimately show ?thesis using 2(1) by (simp add: EpollQAdd_def)
qed

lemma reply_total:
  assumes "dll (J s) (ReservedJobs (C s c)) xs" "sched_ok s" "c < nC s"
  shows "\<exists>s'. reply c line l st s = Some s' \<and> answered c s s' \<and> sched_ok s' \<and>
    Reply (C s' c) = line \<and> ReplyLen (C s' c) = l \<and> ReplySent (C s' c) = 0 \<and> CState (C s' c) = st"
proof -
  obtain s1 where 1: "EpollQAdd c (CHR ''w'') s = Some s1" "answered c s s1" "sched_ok s1"
    using EpollQAdd_total [OF assms] by blast
  let ?s2 = "modC c (\<lambda>x. x\<lparr>Reply := line, ReplyLen := l, ReplySent := 0, CState := st\<rparr>) s1"
  have a: "answered c s1 ?s2" by (rule answered_modC) (simp add: kept_conn_def same_conn_def)
  have "sched_ok ?s2" by (rule answered_sched [OF a 1(3)]) (simp_all add: upd)
  then show ?thesis using 1(1) answered_trans [OF 1(2) a] by (simp add: reply_def) (simp add: upd)
qed

lemma replyMsg_total:
  assumes "dll (J s) (ReservedJobs (C s c)) xs" "sched_ok s" "c < nC s"
  shows "\<exists>s'. replyMsg c m s = Some s' \<and> answered c s s' \<and> sched_ok s' \<and>
    Reply (C s' c) = m \<and> ReplyLen (C s' c) = int (length m) \<and> ReplySent (C s' c) = 0 \<and> CState (C s' c) = StateSendWord"
  using reply_total [OF assms] by (simp add: replyMsg_def)

lemma replyLine_total:
  assumes "dll (J s) (ReservedJobs (C s c)) xs" "sched_ok s" "c < nC s"
  shows "\<exists>s'. replyLine c st txt s = Some s' \<and> answered c (modC c (\<lambda>x. x\<lparr>ReplyBuf := txt\<rparr>) s) s' \<and> sched_ok s' \<and>
    Reply (C s' c) = txt \<and> ReplyLen (C s' c) = int (length txt) \<and> ReplySent (C s' c) = 0 \<and> CState (C s' c) = st"
proof -
  let ?s1 = "modC c (\<lambda>x. x\<lparr>ReplyBuf := txt\<rparr>) s"
  have 1: "dll (J ?s1) (ReservedJobs (C ?s1 c)) xs" "c < nC ?s1" using assms by (simp_all add: upd)
  have "sched_ok ?s1" by (rule sched_ok_cong [OF assms(2)]) (simp_all add: upd)
  then obtain s2 where 2: "(if int (length txt) \<ge> LineBufSize then replyErr c MsgInternalError ?s1 else Some ?s1) = Some s2"
    "answered c ?s1 s2" "sched_ok s2"
  proof (cases "int (length txt) \<ge> LineBufSize")
    case True
    then show thesis using replyMsg_total [OF 1(1) \<open>sched_ok ?s1\<close> 1(2)] that by (auto simp: replyErr_def)
  qed (use that answered_refl in auto)
  have "dll (J s2) (ReservedJobs (C s2 c)) xs" "c < nC s2" and b: "ReplyBuf (C s2 c) = txt"
    using 1 answered_D(1,5,13) [OF 2(2)] by (simp_all add: kept_conn_def same_conn_def) (simp add: upd)
  then obtain s3 where "reply c txt (int (length txt)) st s2 = Some s3" "answered c s2 s3" "sched_ok s3"
    "Reply (C s3 c) = txt" "ReplyLen (C s3 c) = int (length txt)" "ReplySent (C s3 c) = 0" "CState (C s3 c) = st"
    using reply_total 2(3) by blast
  then show ?thesis using 2(1) b answered_trans [OF 2(2)] by (simp add: replyLine_def Let_def)
qed

text \<open>The text of the reply that carries a job.\<close>

definition job_line :: "string \<Rightarrow> job_rec \<Rightarrow> string" where
  "job_line msg r = msg @ '' '' @ dec_nat (unat (ID r)) @ '' '' @ dec_int (BodySize r - 2) @ CRLF"

lemma replyJob_total:
  assumes "dll (J s) (ReservedJobs (C s c)) xs" "sched_ok s" "c < nC s"
  shows "\<exists>s'. replyJob c j msg s = Some s' \<and> sched_ok s' \<and>
    answered c (modC c (\<lambda>x. x\<lparr>OutJob := Some j, OutJobSent := 0, ReplyBuf := job_line msg (R (J s j))\<rparr>) s) s' \<and>
    Reply (C s' c) = job_line msg (R (J s j)) \<and> CState (C s' c) = StateSendJob \<and> ReplySent (C s' c) = 0"
proof -
  let ?s1 = "modC c (\<lambda>x. x\<lparr>OutJob := Some j, OutJobSent := 0\<rparr>) s"
  have "dll (J ?s1) (ReservedJobs (C ?s1 c)) xs" "c < nC ?s1" using assms by (simp_all add: upd)
  moreover have "sched_ok ?s1" by (rule sched_ok_cong [OF assms(2)]) (simp_all add: upd)
  ultimately obtain s' where s': "replyLine c StateSendJob (job_line msg (R (J s j))) ?s1 = Some s'" "sched_ok s'"
    "answered c (modC c (\<lambda>x. x\<lparr>ReplyBuf := job_line msg (R (J s j))\<rparr>) ?s1) s'"
    "Reply (C s' c) = job_line msg (R (J s j))" "CState (C s' c) = StateSendJob" "ReplySent (C s' c) = 0"
    using replyLine_total by blast
  have "modC c (\<lambda>x. x\<lparr>ReplyBuf := b\<rparr>) ?s1 = modC c (\<lambda>x. x\<lparr>OutJob := Some j, OutJobSent := 0, ReplyBuf := b\<rparr>) s" for b
    by (simp add: upd)
  moreover have "replyJob c j msg s = Some s'" using s'(1) by (simp add: replyJob_def job_line_def upd)
  ultimately show ?thesis using s'(2-6) by auto
qed

section \<open>Where a job can be\<close>

lemma state_codes [simp]:
  "Ready \<noteq> Invalid" "Reserved \<noteq> Invalid" "Buried \<noteq> Invalid" "Delayed \<noteq> Invalid" "Ready \<noteq> Reserved" "Ready \<noteq> Buried"
  "Ready \<noteq> Delayed" "Reserved \<noteq> Buried" "Reserved \<noteq> Delayed" "Buried \<noteq> Delayed" "Invalid \<noteq> Ready" "Invalid \<noteq> Reserved"
  "Invalid \<noteq> Buried" "Invalid \<noteq> Delayed" "Reserved \<noteq> Ready" "Buried \<noteq> Ready" "Delayed \<noteq> Ready" "Buried \<noteq> Reserved"
  "Delayed \<noteq> Reserved" "Delayed \<noteq> Buried"
  by (simp_all add: go_const)

lemma holds_D:
  assumes "holds a s"
  shows "t < nT s \<Longrightarrow> queued JobPriLess Ready (J s) t (ReadyQ (T s t)) (a_ready a t)"
    "t < nT s \<Longrightarrow> queued JobDelayLess Delayed (J s) t (DelayQ (T s t)) (a_delayed a t)"
    "t < nT s \<Longrightarrow> buried_at (J s) t (BuriedL (T s t)) (a_buried a t)"
    "c < nC s \<Longrightarrow> held_by (J s) c (ReservedJobs (C s c)) (a_held a c) (nT s)"
    "heads_ok s" "waits_ok a s" "sched_ok s"
  using assms by (simp_all add: holds_def)

lemma holds_dll:
  assumes "holds a s"
  shows "c < nC s \<Longrightarrow> dll (J s) (ReservedJobs (C s c)) (a_held a c)"
    "t < nT s \<Longrightarrow> dll (J s) (BuriedL (T s t)) (a_buried a t)"
  using holds_D(3,4) [OF assms] by (simp_all add: held_by_def buried_at_def)

text \<open>The state and the links of a job tell where it is.\<close>

lemma where_ready: "holds a s \<Longrightarrow> t < nT s \<Longrightarrow> j \<in># a_ready a t \<Longrightarrow>
    RState (R (J s j)) = Ready \<and> JTube (J s j) = Some t \<and> loose_links (J s) j \<and> count (a_ready a t) j = 1"
  using holds_D(1) by (auto simp: queued_def)

lemma where_delayed: "holds a s \<Longrightarrow> t < nT s \<Longrightarrow> j \<in># a_delayed a t \<Longrightarrow>
    RState (R (J s j)) = Delayed \<and> JTube (J s j) = Some t \<and> loose_links (J s) j \<and> count (a_delayed a t) j = 1"
  using holds_D(2) by (auto simp: queued_def)

lemma where_buried: "holds a s \<Longrightarrow> t < nT s \<Longrightarrow> j \<in> set (a_buried a t) \<Longrightarrow>
    RState (R (J s j)) = Buried \<and> JTube (J s j) = Some t"
  using holds_D(3) by (auto simp: buried_at_def)

lemma where_held: "holds a s \<Longrightarrow> c < nC s \<Longrightarrow> j \<in> set (a_held a c) \<Longrightarrow>
    RState (R (J s j)) = Reserved \<and> Reservoir (J s j) = Some c \<and> (\<exists>t<nT s. JTube (J s j) = Some t)"
  using holds_D(4) by (auto simp: held_by_def)

lemma head_state: "holds a s \<Longrightarrow> t < nT s \<Longrightarrow> RState (R (J s (BuriedL (T s t)))) = Invalid"
    "holds a s \<Longrightarrow> c < nC s \<Longrightarrow> RState (R (J s (ReservedJobs (C s c)))) = Invalid"
  using holds_D(3,4) by (auto simp: buried_at_def held_by_def)

lemma not_placed:
  assumes "holds a s"
    and "\<And>t. t < nT s \<Longrightarrow> RState (R (J s j)) = Ready \<Longrightarrow> JTube (J s j) = Some t \<Longrightarrow> j \<notin># a_ready a t"
    and "\<And>t. t < nT s \<Longrightarrow> RState (R (J s j)) = Delayed \<Longrightarrow> JTube (J s j) = Some t \<Longrightarrow> j \<notin># a_delayed a t"
    and "\<And>t. t < nT s \<Longrightarrow> RState (R (J s j)) = Buried \<Longrightarrow> JTube (J s j) = Some t \<Longrightarrow> j \<notin> set (a_buried a t)"
    and "\<And>c. c < nC s \<Longrightarrow> RState (R (J s j)) = Reserved \<Longrightarrow> Reservoir (J s j) = Some c \<Longrightarrow> j \<notin> set (a_held a c)"
    and "RState (R (J s j)) \<noteq> Invalid"
  shows "j \<notin> placed a s"
proof
  assume "j \<in> placed a s"
  then consider t where "t < nT s" "j \<in># a_ready a t" | t where "t < nT s" "j \<in># a_delayed a t"
    | t where "t < nT s" "j \<in> set (a_buried a t)" | c where "c < nC s" "j \<in> set (a_held a c)"
    | t where "t < nT s" "j = BuriedL (T s t)" | c where "c < nC s" "j = ReservedJobs (C s c)"
    unfolding placed_def by auto
  then show False
  proof cases
    case 1 then show ?thesis using assms(2) where_ready [OF assms(1)] by blast
  next
    case 2 then show ?thesis using assms(3) where_delayed [OF assms(1)] by blast
  next
    case 3 then show ?thesis using assms(4) where_buried [OF assms(1)] by blast
  next
    case 4 then show ?thesis using assms(5) where_held [OF assms(1)] by blast
  next
    case 5 then show ?thesis using assms(6) head_state(1) [OF assms(1)] by blast
  next
    case 6 then show ?thesis using assms(6) head_state(2) [OF assms(1)] by blast
  qed
qed

lemma held_apart:
  assumes "holds a s" "c < nC s" "x \<in> set (ReservedJobs (C s c) # a_held a c)"
  shows "t < nT s \<Longrightarrow> x \<notin># a_ready a t" "t < nT s \<Longrightarrow> x \<notin># a_delayed a t" "t < nT s \<Longrightarrow> x \<notin> set (BuriedL (T s t) # a_buried a t)"
    "d < nC s \<Longrightarrow> d \<noteq> c \<Longrightarrow> x \<notin> set (ReservedJobs (C s d) # a_held a d)"
proof -
  have x: "x = ReservedJobs (C s c) \<and> RState (R (J s x)) = Invalid \<or>
      x \<in> set (a_held a c) \<and> RState (R (J s x)) = Reserved \<and> Reservoir (J s x) = Some c"
    using assms(3) head_state(2) [OF assms(1,2)] where_held [OF assms(1,2)] by auto
  show "t < nT s \<Longrightarrow> x \<notin># a_ready a t" "t < nT s \<Longrightarrow> x \<notin># a_delayed a t"
    using x where_ready [OF assms(1)] where_delayed [OF assms(1)] by force+
  show "x \<notin> set (BuriedL (T s t) # a_buried a t)" if t: "t < nT s"
  proof -
    have "BuriedL (T s t) \<noteq> ReservedJobs (C s c)" using holds_D(5) [OF assms(1)] t assms(2) by (simp add: heads_ok_def)
    then show ?thesis using x where_buried [OF assms(1) t, of x] head_state(1) [OF assms(1) t] by auto
  qed
  show "x \<notin> set (ReservedJobs (C s d) # a_held a d)" if d: "d < nC s" "d \<noteq> c"
  proof -
    have "ReservedJobs (C s d) \<noteq> ReservedJobs (C s c)"
      using holds_D(5) [OF assms(1)] d assms(2) by (auto simp: heads_ok_def inj_on_def)
    then show ?thesis using x where_held [OF assms(1) d(1), of x] head_state(2) [OF assms(1) d(1)] d(2) by auto
  qed
qed

lemma buried_apart:
  assumes "holds a s" "u < nT s" "x \<in> set (BuriedL (T s u) # a_buried a u)"
  shows "t < nT s \<Longrightarrow> x \<notin># a_ready a t" "t < nT s \<Longrightarrow> x \<notin># a_delayed a t" "c < nC s \<Longrightarrow> x \<notin> set (ReservedJobs (C s c) # a_held a c)"
    "t < nT s \<Longrightarrow> t \<noteq> u \<Longrightarrow> x \<notin> set (BuriedL (T s t) # a_buried a t)"
proof -
  have x: "x = BuriedL (T s u) \<and> RState (R (J s x)) = Invalid \<or>
      x \<in> set (a_buried a u) \<and> RState (R (J s x)) = Buried \<and> JTube (J s x) = Some u"
    using assms(3) head_state(1) [OF assms(1,2)] where_buried [OF assms(1,2)] by auto
  show "t < nT s \<Longrightarrow> x \<notin># a_ready a t" "t < nT s \<Longrightarrow> x \<notin># a_delayed a t"
    using x where_ready [OF assms(1)] where_delayed [OF assms(1)] by force+
  show "c < nC s \<Longrightarrow> x \<notin> set (ReservedJobs (C s c) # a_held a c)"
    using held_apart(3) [OF assms(1)] assms(2,3) by blast
  show "x \<notin> set (BuriedL (T s t) # a_buried a t)" if t: "t < nT s" "t \<noteq> u"
  proof -
    have "BuriedL (T s t) \<noteq> BuriedL (T s u)"
      using holds_D(5) [OF assms(1)] t assms(2) by (auto simp: heads_ok_def inj_on_def)
    then show ?thesis using x where_buried [OF assms(1) t(1), of x] head_state(1) [OF assms(1) t(1)] t(2) by auto
  qed
qed

end
