(* ===== verification/Moves.thy ===== *)
theory Moves
  imports Places
begin

text \<open>
  What the basic operations on queues, lists and waiting connections do to the places of theory
  Places: each takes one job or connection out of a place or puts it into one.
\<close>

section \<open>The moves\<close>

definition ready_in :: "tref \<Rightarrow> jref \<Rightarrow> places \<Rightarrow> places" where
  "ready_in t j a = a\<lparr>a_ready := (a_ready a)(t := add_mset j (a_ready a t))\<rparr>"

definition ready_out :: "tref \<Rightarrow> jref \<Rightarrow> places \<Rightarrow> places" where
  "ready_out t j a = a\<lparr>a_ready := (a_ready a)(t := a_ready a t - {#j#})\<rparr>"

definition delay_in :: "tref \<Rightarrow> jref \<Rightarrow> places \<Rightarrow> places" where
  "delay_in t j a = a\<lparr>a_delayed := (a_delayed a)(t := add_mset j (a_delayed a t))\<rparr>"

definition delay_out :: "tref \<Rightarrow> jref \<Rightarrow> places \<Rightarrow> places" where
  "delay_out t j a = a\<lparr>a_delayed := (a_delayed a)(t := a_delayed a t - {#j#})\<rparr>"

definition bury_in :: "tref \<Rightarrow> jref \<Rightarrow> places \<Rightarrow> places" where
  "bury_in t j a = a\<lparr>a_buried := (a_buried a)(t := a_buried a t @ [j])\<rparr>"

definition bury_out :: "tref \<Rightarrow> jref \<Rightarrow> places \<Rightarrow> places" where
  "bury_out t j a = a\<lparr>a_buried := (a_buried a)(t := remove1 j (a_buried a t))\<rparr>"

definition hold_in :: "cref \<Rightarrow> jref \<Rightarrow> places \<Rightarrow> places" where
  "hold_in c j a = a\<lparr>a_held := (a_held a)(c := a_held a c @ [j])\<rparr>"

definition hold_out :: "cref \<Rightarrow> jref \<Rightarrow> places \<Rightarrow> places" where
  "hold_out c j a = a\<lparr>a_held := (a_held a)(c := remove1 j (a_held a c))\<rparr>"

definition wait_in :: "cref \<Rightarrow> tref list \<Rightarrow> places \<Rightarrow> places" where
  "wait_in c ts a = a\<lparr>a_waiting := \<lambda>t. a_waiting a t + replicate_mset (count_list ts t) c\<rparr>"

definition wait_out :: "cref \<Rightarrow> places \<Rightarrow> places" where
  "wait_out c a = a\<lparr>a_waiting := \<lambda>t. filter_mset (\<lambda>d. d \<noteq> c) (a_waiting a t)\<rparr>"

lemmas move_defs = ready_in_def ready_out_def delay_in_def delay_out_def bury_in_def bury_out_def
  hold_in_def hold_out_def wait_in_def wait_out_def

section \<open>The queues of a tube\<close>

lemma sched_modT: "sched_ok s \<Longrightarrow> sched_ok (modT t f s)"
  by (simp add: sched_ok_def upd)

lemma heads_modT:
  assumes "heads_ok s" "\<And>x. BuriedL (f x) = BuriedL x"
  shows "heads_ok (modT t f s)"
proof -
  have "BuriedL (T (modT t f s) u) = BuriedL (T s u)" for u by (simp add: upd assms(2))
  then show ?thesis using assms(1) unfolding heads_ok_def by (simp add: upd)
qed

lemma waits_modT: "waits_ok a s \<Longrightarrow> (\<And>x. WaitingConns (f x) = WaitingConns x) \<Longrightarrow> waits_ok a (modT t f s)"
  by (rule waits_ok_cong) (simp_all add: upd)

lemma waits_ok_waiting [simp]:
  "waits_ok (a\<lparr>a_ready := q\<rparr>) s = waits_ok a s" "waits_ok (a\<lparr>a_delayed := q\<rparr>) s = waits_ok a s"
  "waits_ok (a\<lparr>a_buried := l\<rparr>) s = waits_ok a s" "waits_ok (a\<lparr>a_held := h\<rparr>) s = waits_ok a s"
  by (simp_all add: waits_ok_def)

lemma holds_setReady:
  assumes "holds a s" "t < nT s" "queued JobPriLess Ready (J s) t h q"
  shows "holds (a\<lparr>a_ready := (a_ready a)(t := q)\<rparr>) (modT t (\<lambda>x. x\<lparr>ReadyQ := h\<rparr>) s)"
proof -
  let ?s = "modT t (\<lambda>x. x\<lparr>ReadyQ := h\<rparr>) s"
  have "heads_ok ?s" "waits_ok a ?s" "sched_ok ?s"
    using holds_D(5-7) [OF assms(1)] by (simp_all add: heads_modT waits_modT sched_modT)
  moreover have "queued JobPriLess Ready (J ?s) u (ReadyQ (T ?s u)) (((a_ready a)(t := q)) u) \<and>
      queued JobDelayLess Delayed (J ?s) u (DelayQ (T ?s u)) (a_delayed a u) \<and>
      buried_at (J ?s) u (BuriedL (T ?s u)) (a_buried a u)" if "u < nT s" for u
    using holds_D(1-3) [OF assms(1) that] assms(3) by (cases "u = t") (simp_all add: upd)
  moreover have "held_by (J ?s) c (ReservedJobs (C ?s c)) (a_held a c) (nT s)" if "c < nC s" for c
    using holds_D(4) [OF assms(1) that] by (simp add: upd)
  ultimately show ?thesis unfolding holds_def by (simp add: upd)
qed

lemma holds_setDelay:
  assumes "holds a s" "t < nT s" "queued JobDelayLess Delayed (J s) t h q"
  shows "holds (a\<lparr>a_delayed := (a_delayed a)(t := q)\<rparr>) (modT t (\<lambda>x. x\<lparr>DelayQ := h\<rparr>) s)"
proof -
  let ?s = "modT t (\<lambda>x. x\<lparr>DelayQ := h\<rparr>) s"
  have "heads_ok ?s" "waits_ok a ?s" "sched_ok ?s"
    using holds_D(5-7) [OF assms(1)] by (simp_all add: heads_modT waits_modT sched_modT)
  moreover have "queued JobPriLess Ready (J ?s) u (ReadyQ (T ?s u)) (a_ready a u) \<and>
      queued JobDelayLess Delayed (J ?s) u (DelayQ (T ?s u)) (((a_delayed a)(t := q)) u) \<and>
      buried_at (J ?s) u (BuriedL (T ?s u)) (a_buried a u)" if "u < nT s" for u
    using holds_D(1-3) [OF assms(1) that] assms(3) by (cases "u = t") (simp_all add: upd)
  moreover have "held_by (J ?s) c (ReservedJobs (C ?s c)) (a_held a c) (nT s)" if "c < nC s" for c
    using holds_D(4) [OF assms(1) that] by (simp add: upd)
  ultimately show ?thesis unfolding holds_def by (simp add: upd)
qed

lemma queued_push:
  assumes "queued lt st m t h q" "weak_less (lt m)" "j \<notin># q" "RState (R (m j)) = st" "JTube (m j) = Some t" "loose_links m j"
  shows "queued lt st m t (snd (heap_Push (lt m) (newItem j) h)) (add_mset j q)"
proof -
  have "heap_vals (snd (heap_Push (lt m) (newItem j) h)) = add_mset j (heap_vals h)"
    using push_vals(2) [of "lt m" "newItem j" h] by (simp add: newItem_def)
  then show ?thesis using assms weak_less.push_ok [OF assms(2), of h "newItem j"]
    by (auto simp: queued_def not_in_iff)
qed

lemma queued_remove_root:
  assumes "queued lt st m t h q" "weak_less (lt m)" "root_of h = Some j"
  shows "\<exists>it h'. heap_Remove (lt m) 0 h = Some (it, h') \<and> Value it = j \<and> queued lt st m t h' (q - {#j#})"
proof -
  have ne: "h \<noteq> []" "Value (h ! 0) = j" using assms(3) by (auto simp: root_of_def split: if_splits)
  then have "heap_Remove (lt m) 0 h \<noteq> None" by (simp add: heap_Remove_None_iff)
  then obtain it h' where r: "heap_Remove (lt m) 0 h = Some (it, h')" by auto
  have v: "Value it = j" "heap_vals h = add_mset j (heap_vals h')" using remove_vals(3,4) [OF r] ne by simp_all
  have "count (q - {#j#}) x = 1" if "x \<in># q - {#j#}" for x
  proof -
    have "x \<in># q" using that by (rule in_diffD)
    then have "count q x = 1" using assms(1) by (simp add: queued_def)
    moreover have "x \<noteq> j" using that \<open>count q x = 1\<close> by (auto simp: in_diff_count)
    ultimately show ?thesis by simp
  qed
  moreover have "heap_vals h' = q - {#j#}" using v(2) assms(1) by (metis add_mset_remove_trivial queued_def)
  ultimately have "queued lt st m t h' (q - {#j#})"
    using assms(1) weak_less.remove_ok [OF assms(2) _ r] by (auto simp: queued_def dest: in_diffD)
  then show ?thesis using r v(1) by blast
qed

lemma Ready_Push_moves:
  assumes "holds a s" "t < nT s" "nowhere a s j" "RState (R (J s j)) = Ready" "JTube (J s j) = Some t"
  shows "\<exists>h. Ready_Push t j s = (True, modT t (\<lambda>x. x\<lparr>ReadyQ := h\<rparr>) s) \<and>
    holds (ready_in t j a) (modT t (\<lambda>x. x\<lparr>ReadyQ := h\<rparr>) s)"
proof -
  let ?h = "snd (heap_Push (JobPriLess (J s)) (newItem j) (ReadyQ (T s t)))"
  have "j \<notin># a_ready a t" "loose_links (J s) j" using assms(2,3) by (auto simp: nowhere_def placed_def)
  then have "queued JobPriLess Ready (J s) t ?h (add_mset j (a_ready a t))"
    using queued_push [OF holds_D(1) [OF assms(1,2)] pri.weak_less_axioms] assms(4,5) by blast
  from holds_setReady [OF assms(1,2) this] show ?thesis
    using push_vals(1) by (auto simp: Ready_Push_def ready_in_def case_prod_unfold Let_def)
qed

lemma Delay_Push_moves:
  assumes "holds a s" "t < nT s" "nowhere a s j" "RState (R (J s j)) = Delayed" "JTube (J s j) = Some t"
  shows "\<exists>h. Delay_Push t j s = (True, modT t (\<lambda>x. x\<lparr>DelayQ := h\<rparr>) s) \<and>
    holds (delay_in t j a) (modT t (\<lambda>x. x\<lparr>DelayQ := h\<rparr>) s)"
proof -
  let ?h = "snd (heap_Push (JobDelayLess (J s)) (newItem j) (DelayQ (T s t)))"
  have "j \<notin># a_delayed a t" "loose_links (J s) j" using assms(2,3) by (auto simp: nowhere_def placed_def)
  then have "queued JobDelayLess Delayed (J s) t ?h (add_mset j (a_delayed a t))"
    using queued_push [OF holds_D(2) [OF assms(1,2)] del.weak_less_axioms] assms(4,5) by blast
  from holds_setDelay [OF assms(1,2) this] show ?thesis
    using push_vals(1) by (auto simp: Delay_Push_def delay_in_def case_prod_unfold Let_def)
qed

lemma nowhere_modT: "nowhere a s j \<Longrightarrow> (\<And>x. BuriedL (f x) = BuriedL x) \<Longrightarrow> nowhere a (modT t f s) j"
  by (auto simp: nowhere_def placed_def upd)

lemma Ready_Remove_moves:
  assumes "holds a s" "t < nT s" "root_of (ReadyQ (T s t)) = Some j"
  shows "\<exists>h. Ready_Remove t (HeapIndex (J s j)) s = Some (j, modT t (\<lambda>x. x\<lparr>ReadyQ := h\<rparr>) s) \<and>
    holds (ready_out t j a) (modT t (\<lambda>x. x\<lparr>ReadyQ := h\<rparr>) s) \<and>
    nowhere (ready_out t j a) (modT t (\<lambda>x. x\<lparr>ReadyQ := h\<rparr>) s) j \<and> RState (R (J s j)) = Ready \<and> JTube (J s j) = Some t"
proof -
  obtain it h where r: "heap_Remove (JobPriLess (J s)) 0 (ReadyQ (T s t)) = Some (it, h)" "Value it = j"
    "queued JobPriLess Ready (J s) t h (a_ready a t - {#j#})"
    using queued_remove_root [OF holds_D(1) [OF assms(1,2)] pri.weak_less_axioms assms(3)] by blast
  let ?s = "modT t (\<lambda>x. x\<lparr>ReadyQ := h\<rparr>) s"
  have h: "holds (ready_out t j a) ?s" unfolding ready_out_def by (rule holds_setReady [OF assms(1,2) r(3)])
  have "j \<in># a_ready a t" using root_of_mem [OF assms(3)] holds_D(1) [OF assms(1,2)] by (simp add: queued_def)
  then have j: "RState (R (J s j)) = Ready" "JTube (J s j) = Some t" "loose_links (J s) j" "count (a_ready a t) j = 1"
    using where_ready [OF assms(1,2)] by auto
  have "j \<notin> placed (ready_out t j a) ?s"
    by (rule not_placed [OF h]) (use j in \<open>auto simp: upd ready_out_def in_diff_count\<close>)
  then have "nowhere (ready_out t j a) ?s j" using j(3) by (simp add: nowhere_def loose_links_def upd)
  moreover have "HeapIndex (J s j) = 0" using holds_D(7) [OF assms(1)] by (simp add: sched_ok_def)
  ultimately show ?thesis using r(1,2) h j(1,2) by (auto simp: Ready_Remove_def)
qed

lemma Delay_Remove_moves:
  assumes "holds a s" "t < nT s" "root_of (DelayQ (T s t)) = Some j"
  shows "\<exists>h. Delay_Remove t (HeapIndex (J s j)) s = Some (j, modT t (\<lambda>x. x\<lparr>DelayQ := h\<rparr>) s) \<and>
    holds (delay_out t j a) (modT t (\<lambda>x. x\<lparr>DelayQ := h\<rparr>) s) \<and>
    nowhere (delay_out t j a) (modT t (\<lambda>x. x\<lparr>DelayQ := h\<rparr>) s) j \<and> RState (R (J s j)) = Delayed \<and> JTube (J s j) = Some t"
proof -
  obtain it h where r: "heap_Remove (JobDelayLess (J s)) 0 (DelayQ (T s t)) = Some (it, h)" "Value it = j"
    "queued JobDelayLess Delayed (J s) t h (a_delayed a t - {#j#})"
    using queued_remove_root [OF holds_D(2) [OF assms(1,2)] del.weak_less_axioms assms(3)] by blast
  let ?s = "modT t (\<lambda>x. x\<lparr>DelayQ := h\<rparr>) s"
  have h: "holds (delay_out t j a) ?s" unfolding delay_out_def by (rule holds_setDelay [OF assms(1,2) r(3)])
  have "j \<in># a_delayed a t" using root_of_mem [OF assms(3)] holds_D(2) [OF assms(1,2)] by (simp add: queued_def)
  then have j: "RState (R (J s j)) = Delayed" "JTube (J s j) = Some t" "loose_links (J s) j" "count (a_delayed a t) j = 1"
    using where_delayed [OF assms(1,2)] by auto
  have "j \<notin> placed (delay_out t j a) ?s"
    by (rule not_placed [OF h]) (use j in \<open>auto simp: upd delay_out_def in_diff_count\<close>)
  then have "nowhere (delay_out t j a) ?s j" using j(3) by (simp add: nowhere_def loose_links_def upd)
  moreover have "HeapIndex (J s j) = 0" using holds_D(7) [OF assms(1)] by (simp add: sched_ok_def)
  ultimately show ?thesis using r(1,2) h j(1,2) by (auto simp: Delay_Remove_def)
qed

section \<open>Waiting connections\<close>

lemma holds_setWaiting:
  assumes "holds a s" "nT s' = nT s" "nC s' = nC s" "tubes s' = tubes s" "J s' = J s"
    and T: "\<And>t. ReadyQ (T s' t) = ReadyQ (T s t) \<and> DelayQ (T s' t) = DelayQ (T s t) \<and> BuriedL (T s' t) = BuriedL (T s t)"
    and C: "\<And>c. ReservedJobs (C s' c) = ReservedJobs (C s c)" and "sched_ok s'" "waits_ok (a\<lparr>a_waiting := w\<rparr>) s'"
  shows "holds (a\<lparr>a_waiting := w\<rparr>) s'"
  using assms by (simp add: holds_def heads_ok_def)

lemma Waiting_Take_moves:
  assumes "holds a s" "t < nT s" "ms_items (WaitingConns (T s t)) \<noteq> []"
  shows "\<exists>c m. Waiting_Take t s = (Some c, modT t (\<lambda>x. x\<lparr>WaitingConns := m\<rparr>) s) \<and> c \<in># a_waiting a t \<and> c < nC s \<and>
    holds (a\<lparr>a_waiting := (a_waiting a)(t := a_waiting a t - {#c#})\<rparr>) (modT t (\<lambda>x. x\<lparr>WaitingConns := m\<rparr>) s)"
proof -
  let ?w = "WaitingConns (T s t)"
  obtain c m where k: "ms_Take None ?w s = (Some c, m, s)"
    using assms(3) by (simp add: ms_Take_def ms_Len_def ms_fire_def Let_def)
  have ms: "mset (ms_items ?w) = add_mset c (mset (ms_items m))"
    using ms_Take_mset [of None ?w s c] k by simp
  have w: "waits_ok a s" "mset (ms_items ?w) = a_waiting a t" using holds_D(6) [OF assms(1)] assms(2) by (auto simp: waits_ok_def)
  have c: "c \<in># a_waiting a t" "c < nC s" using ms w assms(2) by (auto simp: waits_ok_def)
  let ?s = "modT t (\<lambda>x. x\<lparr>WaitingConns := m\<rparr>) s"
  have "mset (ms_items m) = a_waiting a t - {#c#}" using ms w(2) by (metis add_mset_remove_trivial)
  moreover have "\<forall>d\<in>#a_waiting a t - {#c#}. d < nC s \<and> connWaiting (C s d) \<and>
      count (a_waiting a t - {#c#}) d \<le> count_list (ms_items (Watch (C s d))) t"
  proof
    fix d assume "d \<in># a_waiting a t - {#c#}"
    then have "d \<in># a_waiting a t" by (rule in_diffD)
    then have "d < nC s \<and> connWaiting (C s d) \<and> count (a_waiting a t) d \<le> count_list (ms_items (Watch (C s d))) t"
      using w(1) assms(2) by (auto simp: waits_ok_def)
    moreover have "count (a_waiting a t - {#c#}) d \<le> count (a_waiting a t) d" by simp
    ultimately show "d < nC s \<and> connWaiting (C s d) \<and>
      count (a_waiting a t - {#c#}) d \<le> count_list (ms_items (Watch (C s d))) t" using order_trans by blast
  qed
  ultimately have "waits_ok (a\<lparr>a_waiting := (a_waiting a)(t := a_waiting a t - {#c#})\<rparr>) ?s"
    using w(1) by (simp add: waits_ok_def upd)
  then have "holds (a\<lparr>a_waiting := (a_waiting a)(t := a_waiting a t - {#c#})\<rparr>) ?s"
    using holds_D(7) [OF assms(1)] by (intro holds_setWaiting [OF assms(1)]) (simp_all add: upd sched_ok_def)
  moreover have "Waiting_Take t s = (Some c, ?s)" using k by (simp add: Waiting_Take_def)
  ultimately show ?thesis using c by blast
qed

lemma leave_tube_upd:
  "leave_tube c (x\<lparr>Stat := st, WaitingConns := w\<rparr>) = x\<lparr>Stat := st\<lparr>WaitingCt := WaitingCt st - 1\<rparr>, WaitingConns := w\<lparr>ms_items := remove1 c (ms_items w)\<rparr>\<rparr>"
  by (simp add: leave_tube_def)

lemma leave_pow_ex:
  "\<exists>st w. (leave_tube c ^^ n) x = x\<lparr>Stat := st, WaitingConns := w\<rparr> \<and>
     mset (ms_items w) = mset (ms_items (WaitingConns x)) - replicate_mset n c"
proof (induction n)
  case 0
  show ?case by (rule exI [of _ "Stat x"], rule exI [of _ "WaitingConns x"]) simp
next
  case (Suc n)
  then obtain st w where "(leave_tube c ^^ n) x = x\<lparr>Stat := st, WaitingConns := w\<rparr>"
    "mset (ms_items w) = mset (ms_items (WaitingConns x)) - replicate_mset n c" by blast
  moreover from this have "(leave_tube c ^^ Suc n) x = x\<lparr>Stat := st\<lparr>WaitingCt := WaitingCt st - 1\<rparr>, WaitingConns := w\<lparr>ms_items := remove1 c (ms_items w)\<rparr>\<rparr>" by (simp add: leave_tube_upd)
  ultimately show ?case
    by (intro exI [of _ "st\<lparr>WaitingCt := WaitingCt st - 1\<rparr>"] exI [of _ "w\<lparr>ms_items := remove1 c (ms_items w)\<rparr>"]) simp
qed

lemma join_tube_upd:
  "join_tube c (x\<lparr>Stat := st, WaitingConns := w\<rparr>) = x\<lparr>Stat := st\<lparr>WaitingCt := WaitingCt st + 1\<rparr>, WaitingConns := w\<lparr>ms_items := ms_items w @ [c]\<rparr>\<rparr>"
  by (simp add: join_tube_def)

lemma join_pow_ex:
  "\<exists>st w. (join_tube c ^^ n) x = x\<lparr>Stat := st, WaitingConns := w\<rparr> \<and>
     mset (ms_items w) = mset (ms_items (WaitingConns x)) + replicate_mset n c"
proof (induction n)
  case 0
  show ?case by (rule exI [of _ "Stat x"], rule exI [of _ "WaitingConns x"]) simp
next
  case (Suc n)
  then obtain st w where "(join_tube c ^^ n) x = x\<lparr>Stat := st, WaitingConns := w\<rparr>"
    "mset (ms_items w) = mset (ms_items (WaitingConns x)) + replicate_mset n c" by blast
  moreover from this have "(join_tube c ^^ Suc n) x = x\<lparr>Stat := st\<lparr>WaitingCt := WaitingCt st + 1\<rparr>, WaitingConns := w\<lparr>ms_items := ms_items w @ [c]\<rparr>\<rparr>" by (simp add: join_tube_upd)
  ultimately show ?case
    by (intro exI [of _ "st\<lparr>WaitingCt := WaitingCt st + 1\<rparr>"] exI [of _ "w\<lparr>ms_items := ms_items w @ [c]\<rparr>"]) simp
qed

lemma leave_pow:
  "(leave_tube c ^^ n) x = x\<lparr>Stat := Stat ((leave_tube c ^^ n) x), WaitingConns := WaitingConns ((leave_tube c ^^ n) x)\<rparr>"
  "mset (ms_items (WaitingConns ((leave_tube c ^^ n) x))) = mset (ms_items (WaitingConns x)) - replicate_mset n c"
proof -
  obtain st w where "(leave_tube c ^^ n) x = x\<lparr>Stat := st, WaitingConns := w\<rparr>"
    "mset (ms_items w) = mset (ms_items (WaitingConns x)) - replicate_mset n c" using leave_pow_ex by blast
  then show "(leave_tube c ^^ n) x = x\<lparr>Stat := Stat ((leave_tube c ^^ n) x), WaitingConns := WaitingConns ((leave_tube c ^^ n) x)\<rparr>"
    "mset (ms_items (WaitingConns ((leave_tube c ^^ n) x))) = mset (ms_items (WaitingConns x)) - replicate_mset n c" by simp_all
qed

lemma join_pow:
  "(join_tube c ^^ n) x = x\<lparr>Stat := Stat ((join_tube c ^^ n) x), WaitingConns := WaitingConns ((join_tube c ^^ n) x)\<rparr>"
  "mset (ms_items (WaitingConns ((join_tube c ^^ n) x))) = mset (ms_items (WaitingConns x)) + replicate_mset n c"
proof -
  obtain st w where "(join_tube c ^^ n) x = x\<lparr>Stat := st, WaitingConns := w\<rparr>"
    "mset (ms_items w) = mset (ms_items (WaitingConns x)) + replicate_mset n c" using join_pow_ex by blast
  then show "(join_tube c ^^ n) x = x\<lparr>Stat := Stat ((join_tube c ^^ n) x), WaitingConns := WaitingConns ((join_tube c ^^ n) x)\<rparr>"
    "mset (ms_items (WaitingConns ((join_tube c ^^ n) x))) = mset (ms_items (WaitingConns x)) + replicate_mset n c" by simp_all
qed

lemma pow_fields:
  "ReadyQ ((leave_tube c ^^ n) x) = ReadyQ x" "DelayQ ((leave_tube c ^^ n) x) = DelayQ x" "BuriedL ((leave_tube c ^^ n) x) = BuriedL x"
  "Pause ((leave_tube c ^^ n) x) = Pause x" "UnpauseAt ((leave_tube c ^^ n) x) = UnpauseAt x"
  "ReadyQ ((join_tube c ^^ n) x) = ReadyQ x" "DelayQ ((join_tube c ^^ n) x) = DelayQ x" "BuriedL ((join_tube c ^^ n) x) = BuriedL x"
  "Pause ((join_tube c ^^ n) x) = Pause x" "UnpauseAt ((join_tube c ^^ n) x) = UnpauseAt x"
  by (subst leave_pow(1) join_pow(1), simp)+

lemma all_removed: "count M c \<le> n \<Longrightarrow> M - replicate_mset n c = filter_mset (\<lambda>d. d \<noteq> c) M"
  by (rule multiset_eqI) auto

text \<open>What leaving the queues may change: waiting lists, counters, and the type bit of the connection.\<close>

definition unwaited :: "cref \<Rightarrow> world \<Rightarrow> world \<Rightarrow> bool" where
  "unwaited c s s' \<longleftrightarrow> (\<exists>n w g. s' = s\<lparr>T := \<lambda>t. (T s t)\<lparr>Stat := n t, WaitingConns := w t\<rparr>,
     C := (C s)(c := (C s c)\<lparr>CType := CType (C s' c)\<rparr>), GlobalState := g\<rparr>)"

lemma removeWaitingCoon_moves:
  assumes "holds a s" "c < nC s"
  shows "holds (wait_out c a) (removeWaitingCoon c s)" "unwaited c s (removeWaitingCoon c s)"
    "\<not> connWaiting (C (removeWaitingCoon c s) c)"
proof -
  have W: "waits_ok a s" by (rule holds_D(6) [OF assms(1)])
  let ?s = "removeWaitingCoon c s"
  have "holds (wait_out c a) ?s \<and> unwaited c s ?s \<and> \<not> connWaiting (C ?s c)"
  proof (cases "CType (C s c) AND ConnTypeWaiting \<le> 0")
    case True
    then have s: "?s = s" "\<not> connWaiting (C s c)" by (simp_all add: removeWaitingCoon_def connWaiting_def)
    have "filter_mset (\<lambda>d. d \<noteq> c) (a_waiting a t) = a_waiting a t" if "t < nT s" for t
      using W that s(2) by (auto simp: waits_ok_def filter_mset_eq_conv)
    then have "waits_ok (wait_out c a) s" using W by (simp add: waits_ok_def wait_out_def)
    then have "holds (wait_out c a) s"
      using holds_D(7) [OF assms(1)] unfolding wait_out_def by (intro holds_setWaiting [OF assms(1)]) simp_all
    moreover have "unwaited c s s" unfolding unwaited_def
      by (rule exI [of _ "\<lambda>t. Stat (T s t)"], rule exI [of _ "\<lambda>t. WaitingConns (T s t)"], rule exI [of _ "GlobalState s"]) simp
    ultimately show ?thesis using s by simp
  next
    case False
    define n where "n t = count_list (ms_items (Watch (C s c))) t" for t
    define x where "x = (C s c)\<lparr>CType := CType (C s c) AND NOT ConnTypeWaiting\<rparr>"
    have s: "?s = s\<lparr>C := (C s)(c := x), GlobalState := (GlobalState s)\<lparr>WaitingCt := WaitingCt (GlobalState s) - 1\<rparr>,
        T := \<lambda>t. (leave_tube c ^^ n t) (T s t)\<rparr>"
      using False by (subst removeWaitingCoon_fold) (simp_all add: fold_modT upd n_def x_def)
    have "mset (ms_items (WaitingConns ((leave_tube c ^^ n t) (T s t)))) = filter_mset (\<lambda>d. d \<noteq> c) (a_waiting a t)" if "t < nT s" for t
    proof -
      have "count (a_waiting a t) c \<le> n t" using W that by (cases "c \<in># a_waiting a t") (auto simp: waits_ok_def n_def not_in_iff)
      moreover have "mset (ms_items (WaitingConns (T s t))) = a_waiting a t" using W that by (simp add: waits_ok_def)
      ultimately show ?thesis by (simp add: leave_pow(2) all_removed)
    qed
    then have "waits_ok (wait_out c a) ?s" using W by (auto simp: waits_ok_def wait_out_def s)
    moreover have "sched_ok ?s"
      by (rule sched_ok_cong [OF holds_D(7) [OF assms(1)]]) (simp_all add: s x_def)
    ultimately have "holds (wait_out c a) ?s" unfolding wait_out_def
      by (intro holds_setWaiting [OF assms(1)]) (simp_all add: s x_def pow_fields)
    moreover have "unwaited c s ?s" unfolding unwaited_def
      by (rule exI [of _ "\<lambda>t. Stat ((leave_tube c ^^ n t) (T s t))"], rule exI [of _ "\<lambda>t. WaitingConns ((leave_tube c ^^ n t) (T s t))"],
        rule exI [of _ "(GlobalState s)\<lparr>WaitingCt := WaitingCt (GlobalState s) - 1\<rparr>"])
        (simp add: s x_def leave_pow(1) [symmetric])
    moreover have "(CType (C s c) AND NOT ConnTypeWaiting) AND ConnTypeWaiting = 0" by (simp add: and.assoc)
    then have "\<not> connWaiting (C ?s c)" by (simp add: s x_def connWaiting_def)
    ultimately show ?thesis by blast
  qed
  then show "holds (wait_out c a) ?s" "unwaited c s ?s" "\<not> connWaiting (C ?s c)" by blast+
qed

section \<open>The circular lists\<close>

lemma holds_setHeld:
  assumes "holds a s" "c < nC s" "nT s' = nT s" "nC s' = nC s" "tubes s' = tubes s"
    and T: "\<And>t. same_tube (T s' t) (T s t)" and C: "\<And>d. same_conn (C s' d) (C s d)" and "sched_ok s'"
    and J: "\<And>x. x \<notin> set (ReservedJobs (C s c) # a_held a c) \<Longrightarrow> x \<noteq> j \<Longrightarrow> J s' x = J s x"
    and j: "j \<in> placed a s \<Longrightarrow> j \<in> set (a_held a c)"
    and xs: "held_by (J s') c (ReservedJobs (C s c)) xs (nT s)"
  shows "holds (a\<lparr>a_held := (a_held a)(c := xs)\<rparr>) s'"
proof -
  note apart = held_apart [OF assms(1,2)]
  have other: "J s' x = J s x" if "x \<in> placed a s" "x \<notin> set (ReservedJobs (C s c) # a_held a c)" for x
    using J [OF that(2)] j that by (cases "x = j") auto
  have "queued JobPriLess Ready (J s') t (ReadyQ (T s' t)) (a_ready a t) \<and>
      queued JobDelayLess Delayed (J s') t (DelayQ (T s' t)) (a_delayed a t) \<and>
      buried_at (J s') t (BuriedL (T s' t)) (a_buried a t)" if t: "t < nT s" for t
  proof -
    have p: "J s' x = J s x" if "x \<in># a_ready a t \<or> x \<in># a_delayed a t \<or> x \<in> set (BuriedL (T s t) # a_buried a t)" for x
      using that t apart(1-3) [of x t] by (intro other) (auto simp: placed_def)
    have "queued JobPriLess Ready (J s') t (ReadyQ (T s t)) (a_ready a t)"
      by (rule queued_cong [OF holds_D(1) [OF assms(1) t] p less_local(1)]) auto
    moreover have "queued JobDelayLess Delayed (J s') t (DelayQ (T s t)) (a_delayed a t)"
      by (rule queued_cong [OF holds_D(2) [OF assms(1) t] p less_local(2)]) auto
    moreover have "buried_at (J s') t (BuriedL (T s t)) (a_buried a t)"
      by (rule buried_at_cong [OF holds_D(3) [OF assms(1) t] p]) auto
    ultimately show ?thesis using T [of t] by (simp add: same_tube_def)
  qed
  moreover have "held_by (J s') d (ReservedJobs (C s' d)) (((a_held a)(c := xs)) d) (nT s)" if d: "d < nC s" for d
  proof (cases "d = c")
    case True
    then show ?thesis using xs C [of c] by (simp add: same_conn_def)
  next
    case False
    have "J s' x = J s x" if "x \<in> set (ReservedJobs (C s d) # a_held a d)" for x
      using that d apart(4) [of x d] False by (intro other) (auto simp: placed_def)
    from held_by_cong [OF holds_D(4) [OF assms(1) d] this] show ?thesis using False C [of d] by (simp add: same_conn_def)
  qed
  moreover have "heads_ok s'" "waits_ok a s'"
    using holds_D(5,6) [OF assms(1)] assms(3-5) T C
    by (auto simp: heads_ok_def same_tube_def same_conn_def intro!: waits_ok_cong [of a s s'])
  ultimately show ?thesis using assms(3,4,8) by (simp add: holds_def)
qed

lemma holds_setBuried:
  assumes "holds a s" "u < nT s" "nT s' = nT s" "nC s' = nC s" "tubes s' = tubes s"
    and T: "\<And>t. same_tube (T s' t) (T s t)" and C: "\<And>d. same_conn (C s' d) (C s d)" and "sched_ok s'"
    and J: "\<And>x. x \<notin> set (BuriedL (T s u) # a_buried a u) \<Longrightarrow> x \<noteq> j \<Longrightarrow> J s' x = J s x"
    and j: "j \<in> placed a s \<Longrightarrow> j \<in> set (a_buried a u)"
    and xs: "buried_at (J s') u (BuriedL (T s u)) xs"
  shows "holds (a\<lparr>a_buried := (a_buried a)(u := xs)\<rparr>) s'"
proof -
  note apart = buried_apart [OF assms(1,2)]
  have other: "J s' x = J s x" if "x \<in> placed a s" "x \<notin> set (BuriedL (T s u) # a_buried a u)" for x
    using J [OF that(2)] j that by (cases "x = j") auto
  have "queued JobPriLess Ready (J s') t (ReadyQ (T s' t)) (a_ready a t) \<and>
      queued JobDelayLess Delayed (J s') t (DelayQ (T s' t)) (a_delayed a t) \<and>
      buried_at (J s') t (BuriedL (T s' t)) (((a_buried a)(u := xs)) t)" if t: "t < nT s" for t
  proof -
    have p: "J s' x = J s x" if "x \<in># a_ready a t \<or> x \<in># a_delayed a t" for x
      using that t apart(1,2) [of x t] by (intro other) (auto simp: placed_def)
    have "queued JobPriLess Ready (J s') t (ReadyQ (T s t)) (a_ready a t)"
      by (rule queued_cong [OF holds_D(1) [OF assms(1) t] p less_local(1)]) auto
    moreover have "queued JobDelayLess Delayed (J s') t (DelayQ (T s t)) (a_delayed a t)"
      by (rule queued_cong [OF holds_D(2) [OF assms(1) t] p less_local(2)]) auto
    moreover have "buried_at (J s') t (BuriedL (T s t)) (((a_buried a)(u := xs)) t)"
    proof (cases "t = u")
      case False
      have "J s' x = J s x" if "x \<in> set (BuriedL (T s t) # a_buried a t)" for x
        using that t apart(4) [of x t] False by (intro other) (auto simp: placed_def)
      from buried_at_cong [OF holds_D(3) [OF assms(1) t] this] show ?thesis using False by simp
    qed (use xs in simp)
    ultimately show ?thesis using T [of t] by (simp add: same_tube_def)
  qed
  moreover have "held_by (J s') d (ReservedJobs (C s' d)) (a_held a d) (nT s)" if d: "d < nC s" for d
  proof -
    have "J s' x = J s x" if "x \<in> set (ReservedJobs (C s d) # a_held a d)" for x
      using that d apart(3) [of x d] by (intro other) (auto simp: placed_def)
    from held_by_cong [OF holds_D(4) [OF assms(1) d] this] show ?thesis using C [of d] by (simp add: same_conn_def)
  qed
  moreover have "heads_ok s'" "waits_ok a s'"
    using holds_D(5,6) [OF assms(1)] assms(3-5) T C
    by (auto simp: heads_ok_def same_tube_def same_conn_def intro!: waits_ok_cong [of a s s'])
  ultimately show ?thesis using assms(3,4,8) by (simp add: holds_def)
qed

section \<open>Reserving and burying\<close>

text \<open>\<open>same_jobs s s'\<close>: the identity, order and contents of the jobs, the tubes and their pauses, the table
  of jobs and the log are as before; \<open>same_input c s s'\<close>: so is what connection \<open>c\<close> has read.\<close>

definition same_job :: "job \<Rightarrow> job \<Rightarrow> bool" where
  "same_job x y \<longleftrightarrow> ID (R x) = ID (R y) \<and> Pri (R x) = Pri (R y) \<and> BodySize (R x) = BodySize (R y) \<and> TTR (R x) = TTR (R y) \<and>
     Body x = Body y \<and> JTube x = JTube y \<and> HeapIndex x = HeapIndex y"

definition same_jobs :: "world \<Rightarrow> world \<Rightarrow> bool" where
  "same_jobs s s' \<longleftrightarrow> (\<forall>x. same_job (J s' x) (J s x)) \<and> nT s' = nT s \<and> nC s' = nC s \<and> nJ s' = nJ s \<and> tubes s' = tubes s \<and>
     allJobs s' = allJobs s \<and> Wal s' = Wal s \<and> clock s' = clock s \<and>
     (\<forall>t. Name (T s' t) = Name (T s t) \<and> Pause (T s' t) = Pause (T s t) \<and> UnpauseAt (T s' t) = UnpauseAt (T s t)) \<and>
     (\<forall>t. BuriedL (T s' t) = BuriedL (T s t)) \<and> (\<forall>c. ReservedJobs (C s' c) = ReservedJobs (C s c) \<and> InJob (C s' c) = InJob (C s c))"

lemma same_job_refl [simp]: "same_job x x"
  by (simp add: same_job_def)

lemma same_jobs_refl: "same_jobs s s"
  by (simp add: same_jobs_def)

lemma same_jobs_trans: "same_jobs s s' \<Longrightarrow> same_jobs s' s'' \<Longrightarrow> same_jobs s s''"
  unfolding same_jobs_def same_job_def by presburger

lemma same_jobs_less: "same_jobs s s' \<Longrightarrow> JobPriLess (J s') = JobPriLess (J s)"
  by (rule JobPriLess_cong) (simp add: same_jobs_def same_job_def)

lemma answered_InJob: "answered c s s' \<Longrightarrow> InJob (C s' d) = InJob (C s d)"
  using answered_D(13,14) [of c s s'] by (cases "d = c") (simp_all add: kept_conn_def)

lemma answered_reserved: "answered c s s' \<Longrightarrow> ReservedJobs (C s' d) = ReservedJobs (C s d)"
  using answered_D(13,14) [of c s s'] by (cases "d = c") (simp_all add: kept_conn_def same_conn_def)

lemma same_jobs_answered: "answered c s s' \<Longrightarrow> same_jobs s s'"
  by (simp add: same_jobs_def answered_D answered_InJob answered_reserved)

lemma same_jobs_unwaited: "unwaited c s s' \<Longrightarrow> same_jobs s s'"
proof -
  assume "unwaited c s s'"
  then obtain n w g k where "s' = s\<lparr>T := \<lambda>t. (T s t)\<lparr>Stat := n t, WaitingConns := w t\<rparr>,
      C := (C s)(c := (C s c)\<lparr>CType := k\<rparr>), GlobalState := g\<rparr>"
    unfolding unwaited_def by blast
  then show ?thesis by (simp add: same_jobs_def)
qed

text \<open>What all operations here leave alone: the log, the tubes and connections there are with the sentinels of their
  lists, and the jobs being read.\<close>

definition kept_books :: "world \<Rightarrow> world \<Rightarrow> bool" where
  "kept_books s s' \<longleftrightarrow> Wal s' = Wal s \<and> nT s' = nT s \<and> nC s' = nC s \<and> tubes s' = tubes s \<and>
     (\<forall>t. BuriedL (T s' t) = BuriedL (T s t)) \<and> (\<forall>c. ReservedJobs (C s' c) = ReservedJobs (C s c) \<and> InJob (C s' c) = InJob (C s c))"

lemma kept_books_refl: "kept_books s s"
  by (simp add: kept_books_def)

lemma kept_books_trans: "kept_books s s' \<Longrightarrow> kept_books s' s'' \<Longrightarrow> kept_books s s''"
  by (simp add: kept_books_def)

lemma kept_books_same_jobs: "same_jobs s s' \<Longrightarrow> kept_books s s'"
  by (simp add: kept_books_def same_jobs_def)

lemma kept_books_answered: "answered c s s' \<Longrightarrow> kept_books s s'"
  by (rule kept_books_same_jobs [OF same_jobs_answered])

text \<open>No tube that is not paused has both a ready job and a waiting connection.\<close>

definition idle :: "places \<Rightarrow> world \<Rightarrow> bool" where
  "idle a s \<longleftrightarrow> (\<forall>t\<in>set (ms_items (tubes s)). Pause (T s t) = 0 \<longrightarrow> a_ready a t = {#} \<or> a_waiting a t = {#})"

text \<open>\<open>spared D X a s a' s'\<close>: on the way from the places \<open>a\<close> of \<open>s\<close> to the places \<open>a'\<close> of \<open>s'\<close> no job is touched that
  stands nowhere, apart from those in \<open>X\<close>, no connection starts to wait, and those that still wait are in the state they
  were in, apart from those in \<open>D\<close>. With \<open>kept\<close>, nobody is left waiting beside a ready job who was not before, either.\<close>

definition spared :: "cref set \<Rightarrow> jref set \<Rightarrow> places \<Rightarrow> world \<Rightarrow> places \<Rightarrow> world \<Rightarrow> bool" where
  "spared D X a s a' s' \<longleftrightarrow> kept_books s s' \<and>
     (\<forall>x. x \<notin> placed a s \<longrightarrow> x \<notin> X \<longrightarrow> J s' x = J s x \<and> x \<notin> placed a' s') \<and>
     (\<forall>t<nT s. a_waiting a' t \<subseteq># a_waiting a t) \<and>
     (\<forall>d. (\<exists>t<nT s. d \<in># a_waiting a' t) \<longrightarrow> d \<notin> D \<longrightarrow> CState (C s' d) = CState (C s d))"

definition kept :: "cref set \<Rightarrow> jref set \<Rightarrow> places \<Rightarrow> world \<Rightarrow> places \<Rightarrow> world \<Rightarrow> bool" where
  "kept D X a s a' s' \<longleftrightarrow> spared D X a s a' s' \<and> (idle a s \<longrightarrow> idle a' s')"

lemma placed_books: "kept_books s s' \<Longrightarrow> placed a s' = placed a s"
  by (simp add: kept_books_def placed_def)

lemma spared_refl: "spared D X a s a s"
  by (simp add: spared_def kept_books_refl)

lemma spared_trans:
  assumes "spared D X a s b t" "spared D X b t c u"
  shows "spared D X a s c u"
proof -
  have n: "nT t = nT s" using assms(1) by (simp add: spared_def kept_books_def)
  have "a_waiting c v \<subseteq># a_waiting a v" if "v < nT s" for v
    using that assms n subset_mset.order_trans unfolding spared_def by metis
  moreover have "CState (C u d) = CState (C s d)" if d: "v < nT s" "d \<in># a_waiting c v" "d \<notin> D" for d v
  proof -
    have "d \<in># a_waiting b v" using assms(2) d(1,2) n by (auto simp: spared_def dest: mset_subset_eqD)
    then have "CState (C t d) = CState (C s d)" using assms(1) d by (auto simp: spared_def)
    moreover have "CState (C u d) = CState (C t d)" using assms(2) d n by (auto simp: spared_def)
    ultimately show ?thesis by simp
  qed
  moreover have "J u x = J s x \<and> x \<notin> placed c u" if "x \<notin> placed a s" "x \<notin> X" for x
    using assms that unfolding spared_def by metis
  moreover have "kept_books s u" using assms kept_books_trans unfolding spared_def by blast
  ultimately show ?thesis unfolding spared_def by blast
qed

lemma spared_mono: "spared D X a s a' s' \<Longrightarrow> D \<subseteq> D' \<Longrightarrow> X \<subseteq> X' \<Longrightarrow> spared D' X' a s a' s'"
  unfolding spared_def by blast

lemma kept_refl: "kept D X a s a s"
  by (simp add: kept_def spared_refl)

lemma kept_trans: "kept D X a s b t \<Longrightarrow> kept D X b t c u \<Longrightarrow> kept D X a s c u"
  unfolding kept_def using spared_trans by blast

lemma kept_mono: "kept D X a s a' s' \<Longrightarrow> D \<subseteq> D' \<Longrightarrow> X \<subseteq> X' \<Longrightarrow> kept D' X' a s a' s'"
  unfolding kept_def using spared_mono by blast

lemma kept_gone: "kept {c} X a s a' s' \<Longrightarrow> (\<And>t. t < nT s \<Longrightarrow> c \<notin># a_waiting a' t) \<Longrightarrow> kept {} X a s a' s'"
  unfolding kept_def spared_def by auto

lemma kept_less: "kept D (insert j X) a s a' s' \<Longrightarrow> j \<in> placed a s \<Longrightarrow> kept D X a s a' s'"
  unfolding kept_def spared_def by auto

lemma idle_mono:
  assumes "idle a s" "tubes s' = tubes s" "\<And>t. Pause (T s' t) = Pause (T s t)"
    and "\<And>t. a_ready a' t \<subseteq># a_ready a t" "\<And>t. a_waiting a' t \<subseteq># a_waiting a t"
  shows "idle a' s'"
  unfolding idle_def
proof (intro ballI impI)
  fix t assume t: "t \<in> set (ms_items (tubes s'))" "Pause (T s' t) = 0"
  then have "a_ready a t = {#} \<or> a_waiting a t = {#}" using assms(1-3) by (simp add: idle_def)
  then show "a_ready a' t = {#} \<or> a_waiting a' t = {#}" using assms(4,5) [of t] by auto
qed

lemma spared_I:
  assumes "kept_books s s'" "\<And>x. x \<notin> placed a s \<Longrightarrow> x \<notin> X \<Longrightarrow> J s' x = J s x"
    and "\<And>d. d \<notin> D \<Longrightarrow> CState (C s' d) = CState (C s d)"
    and "\<And>t. a_waiting a' t \<subseteq># a_waiting a t" "placed a' s \<subseteq> placed a s \<union> X"
  shows "spared D X a s a' s'"
  using assms placed_books [OF assms(1)] unfolding spared_def by blast

lemma kept_I:
  assumes "kept_books s s'" "\<And>x. x \<notin> placed a s \<Longrightarrow> x \<notin> X \<Longrightarrow> J s' x = J s x"
    and "\<And>d. d \<notin> D \<Longrightarrow> CState (C s' d) = CState (C s d)" "\<And>t. Pause (T s' t) = Pause (T s t)"
    and "\<And>t. a_waiting a' t \<subseteq># a_waiting a t" "\<And>t. a_ready a' t \<subseteq># a_ready a t" "placed a' s \<subseteq> placed a s \<union> X"
  shows "kept D X a s a' s'"
proof -
  have "idle a' s'" if "idle a s"
    using assms(1) by (intro idle_mono [OF that _ assms(4) assms(6,5)]) (simp add: kept_books_def)
  then show ?thesis using spared_I [OF assms(1-3,5,7)] unfolding kept_def by blast
qed

lemma placed_mono:
  assumes "\<And>t. set_mset (a_ready a' t) \<subseteq> set_mset (a_ready a t) \<union> X" "\<And>t. set_mset (a_delayed a' t) \<subseteq> set_mset (a_delayed a t) \<union> X"
    and "\<And>t. set (a_buried a' t) \<subseteq> set (a_buried a t) \<union> X" "\<And>c. set (a_held a' c) \<subseteq> set (a_held a c) \<union> X"
  shows "placed a' s \<subseteq> placed a s \<union> X"
proof
  fix x assume "x \<in> placed a' s"
  then show "x \<in> placed a s \<union> X" unfolding placed_def using assms by simp blast
qed

lemma placed_moves:
  "placed (ready_in t j a) s \<subseteq> insert j (placed a s)" "placed (delay_in t j a) s \<subseteq> insert j (placed a s)"
  "placed (bury_in t j a) s \<subseteq> insert j (placed a s)" "placed (hold_in c j a) s \<subseteq> insert j (placed a s)"
  "placed (ready_out t j a) s \<subseteq> placed a s" "placed (delay_out t j a) s \<subseteq> placed a s"
  "placed (bury_out t j a) s \<subseteq> placed a s" "placed (hold_out c j a) s \<subseteq> placed a s"
  "placed (wait_in c ts a) s = placed a s" "placed (wait_out c a) s = placed a s"
proof -
  have grow: "placed b s \<subseteq> insert j (placed a s)" if "b \<in> {ready_in t j a, delay_in t j a, bury_in t j a, hold_in c j a}" for b
  proof -
    have "placed b s \<subseteq> placed a s \<union> {j}"
      by (rule placed_mono) (use that in \<open>auto simp: move_defs split: if_splits\<close>)
    then show ?thesis by simp
  qed
  show "placed (ready_in t j a) s \<subseteq> insert j (placed a s)" "placed (delay_in t j a) s \<subseteq> insert j (placed a s)"
    "placed (bury_in t j a) s \<subseteq> insert j (placed a s)" "placed (hold_in c j a) s \<subseteq> insert j (placed a s)"
    by (rule grow, simp)+
  have shrink: "placed b s \<subseteq> placed a s" if "b \<in> {ready_out t j a, delay_out t j a, bury_out t j a, hold_out c j a}" for b
  proof -
    have "placed b s \<subseteq> placed a s \<union> {}"
      by (rule placed_mono) (use that in \<open>auto simp: move_defs split: if_splits dest: in_diffD set_remove1_subset [THEN subsetD]\<close>)
    then show ?thesis by simp
  qed
  show "placed (ready_out t j a) s \<subseteq> placed a s" "placed (delay_out t j a) s \<subseteq> placed a s"
    "placed (bury_out t j a) s \<subseteq> placed a s" "placed (hold_out c j a) s \<subseteq> placed a s"
    by (rule shrink, simp)+
  show "placed (wait_in c ts a) s = placed a s" "placed (wait_out c a) s = placed a s"
    by (simp_all add: placed_def move_defs)
qed

lemma placed_intro:
  "t < nT s \<Longrightarrow> j \<in># a_ready a t \<Longrightarrow> j \<in> placed a s" "t < nT s \<Longrightarrow> j \<in># a_delayed a t \<Longrightarrow> j \<in> placed a s"
  "t < nT s \<Longrightarrow> j \<in> set (BuriedL (T s t) # a_buried a t) \<Longrightarrow> j \<in> placed a s"
  "c < nC s \<Longrightarrow> j \<in> set (ReservedJobs (C s c) # a_held a c) \<Longrightarrow> j \<in> placed a s"
  "t < nT s \<Longrightarrow> j \<in> placed (ready_in t j a) s" "t < nT s \<Longrightarrow> j \<in> placed (delay_in t j a) s"
  by (auto simp: placed_def ready_in_def delay_in_def)

text \<open>Steps that change no place.\<close>

lemma kept_frame:
  assumes "kept_books s s'" "\<And>x. x \<notin> X \<Longrightarrow> J s' x = J s x"
    and "\<And>d. d \<notin> D \<Longrightarrow> CState (C s' d) = CState (C s d)" "\<And>t. Pause (T s' t) = Pause (T s t)"
  shows "kept D X a s a s'"
  by (rule kept_I [OF assms(1) _ assms(3,4)]) (use assms(2) in auto)

lemma kept_answered: "answered c s s' \<Longrightarrow> kept {c} X a s a s'"
  using answered_D [of c s s'] by (intro kept_frame kept_books_answered) auto

lemma kept_unwaited: "unwaited c s s' \<Longrightarrow> kept D X a s (wait_out c a) s'"
proof -
  assume u: "unwaited c s s'"
  then obtain n w g x where s': "s' = s\<lparr>T := \<lambda>t. (T s t)\<lparr>Stat := n t, WaitingConns := w t\<rparr>,
      C := (C s)(c := (C s c)\<lparr>CType := x\<rparr>), GlobalState := g\<rparr>"
    unfolding unwaited_def by blast
  show ?thesis
    by (rule kept_I [OF kept_books_same_jobs [OF same_jobs_unwaited [OF u]]])
      (simp_all add: s' placed_moves, simp_all add: wait_out_def)
qed

lemma insert_keeps:
  "JobListInsert h j s = Some s' \<Longrightarrow> HeapIndex (J s' x) = HeapIndex (J s x)"
  by (auto simp: JobListInsert_def upd Let_def split: if_splits Option.bind_splits)

lemma remove_keeps:
  "JobListRemove jp s = Some (r, s') \<Longrightarrow>
   JTube (J s' x) = JTube (J s x) \<and> Reservoir (J s' x) = Reservoir (J s x) \<and> Body (J s' x) = Body (J s x) \<and>
   HeapIndex (J s' x) = HeapIndex (J s x)"
  by (auto simp: JobListRemove_def upd Let_def split: option.splits if_splits Option.bind_splits)

lemma setSoonestJob_shape: "\<exists>p. setSoonestJob c j s = modC c (\<lambda>x. x\<lparr>SoonestJob := p\<rparr>) s"
  using fold_setSoonestJob_shape [of c "[j]" s] by simp

lemma nowhere_D:
  assumes "nowhere a s j"
  shows "JobListEmpty j s" "c < nC s \<Longrightarrow> j \<notin> set (ReservedJobs (C s c) # a_held a c)"
    "t < nT s \<Longrightarrow> j \<notin> set (BuriedL (T s t) # a_buried a t)"
  using assms by (auto simp: nowhere_def placed_def loose_links_empty)

lemma reserveJob_moves:
  assumes "holds a s" "c < nC s" "nowhere a s j" "JTube (J s j) = Some t" "t < nT s"
  shows "\<exists>s'. reserveJob c j s = Some s' \<and> holds (hold_in c j a) s' \<and> same_jobs s s' \<and>
    (\<forall>d. d \<noteq> c \<longrightarrow> C s' d = C s d) \<and> (\<forall>x. x \<noteq> j \<longrightarrow> R (J s' x) = R (J s x)) \<and>
    (\<exists>k. R (J s' j) = (R (J s j))\<lparr>ReserveCt := k, DeadlineAt := i64 (clock s (ticks s) + TTR (R (J s j))), RState := Reserved\<rparr>) \<and>
    (\<exists>p. C s' c = (C s c)\<lparr>PendingTimeout := -1, SoonestJob := p\<rparr>) \<and> kept D {j} a s (hold_in c j a) s'"
proof -
  let ?h = "ReservedJobs (C s c)" and ?xs = "a_held a c" and ?r = "(R (J s j))\<lparr>ReserveCt := ReserveCt (R (J s j)) + 1,
    DeadlineAt := i64 (clock s (ticks s) + TTR (R (J s j))), RState := Reserved\<rparr>"
  define s1 where "s1 = modR j (\<lambda>r. ?r) ((modStat t (\<lambda>g. g\<lparr>ReservedCt := ReservedCt g + 1\<rparr>) s)\<lparr>ticks := Suc (ticks s)\<rparr>)"
  have J1: "J s1 = (J s)(j := (J s j)\<lparr>R := ?r\<rparr>)" by (simp add: s1_def upd)
  have "dll (J s1) ?h ?xs" by (rule dll_frame [OF holds_dll(1) [OF assms(1,2)]]) (simp add: J1)
  moreover have "JobListEmpty j s1" using nowhere_D(1) [OF assms(3)] by (simp add: JobListEmpty_def J1)
  ultimately obtain s2 where 2: "JobListInsert ?h j s1 = Some s2" "dll (J s2) ?h (?xs @ [j])"
    "\<And>x. x \<notin> set (?h # ?xs @ [j]) \<Longrightarrow> J s2 x = J s1 x" "s2 = s1\<lparr>J := J s2\<rparr>" "\<And>x. R (J s2 x) = R (J s1 x)"
    using insert_dll [of s1 ?h ?xs j] nowhere_D(2) [OF assms(3,2)] by metis
  note f2 = insert_fields [OF 2(1)] insert_keeps [OF 2(1)]
  let ?s3 = "modC c (\<lambda>x. x\<lparr>PendingTimeout := -1\<rparr>) (modJ j (\<lambda>x. x\<lparr>Reservoir := Some c\<rparr>) s2)"
  obtain p where p: "setSoonestJob c j ?s3 = modC c (\<lambda>x. x\<lparr>SoonestJob := p\<rparr>) ?s3" using setSoonestJob_shape by blast
  define s' where "s' = modC c (\<lambda>x. x\<lparr>SoonestJob := p\<rparr>) ?s3"
  have s2: "C s2 = C s" "T s2 = T s1" "nT s2 = nT s" "nC s2 = nC s" "nJ s2 = nJ s" "tubes s2 = tubes s" "Wal s2 = Wal s" "allJobs s2 = allJobs s"
    "clock s2 = clock s" "Connes s2 = Connes s"
    by (subst 2(4), simp add: s1_def upd)+
  have J': "J s' = (J s2)(j := (J s2 j)\<lparr>Reservoir := Some c\<rparr>)" and C': "C s' = (C s)(c := (C s c)\<lparr>PendingTimeout := -1, SoonestJob := p\<rparr>)"
    and T': "T s' = T s1" and n': "nT s' = nT s" "nC s' = nC s" "nJ s' = nJ s" "tubes s' = tubes s" "Wal s' = Wal s" "allJobs s' = allJobs s" "clock s' = clock s"
    "Connes s' = Connes s"
    by (simp_all add: s'_def upd s2)
  have run: "reserveJob c j s = Some s'"
    using assms(4) 2(1) p unfolding s'_def by (simp add: reserveJob_def time_Now_def Let_def s1_def upd comp_def)
  have R': "R (J s' x) = (if x = j then ?r else R (J s x))" for x by (simp add: J' 2(5) J1)
  have same: "same_job (J s' x) (J s x)" for x
    using f2 by (auto simp: same_job_def R') (auto simp: J' J1)
  have T: "same_tube (T s' u) (T s u)" for u by (simp add: T' s1_def upd same_tube_def)
  have sched: "sched_ok s'"
    using same by (intro sched_ok_cong [OF holds_D(7) [OF assms(1)]]) (simp_all add: n' C' same_job_def)
  have "held_by (J s') c ?h (?xs @ [j]) (nT s)"
  proof -
    have "dll (J s') ?h (?xs @ [j])" by (rule dll_frame [OF 2(2)]) (simp add: J')
    moreover have "RState (R (J s' ?h)) = Invalid"
      using head_state(2) [OF assms(1,2)] nowhere_D(2) [OF assms(3,2)] by (simp add: R')
    moreover have "RState (R (J s' x)) = Reserved \<and> Reservoir (J s' x) = Some c \<and> (\<exists>t<nT s. JTube (J s' x) = Some t)"
      if "x \<in> set (?xs @ [j])" for x
    proof (cases "x = j")
      case True
      then show ?thesis using assms(4,5) f2 by (simp add: R') (simp add: J' J1)
    next
      case False
      then show ?thesis using that where_held [OF assms(1,2), of x] f2 by (simp add: R') (simp add: J' J1)
    qed
    ultimately show ?thesis unfolding held_by_def by blast
  qed
  then have "holds (hold_in c j a) s'" unfolding hold_in_def
  proof (intro holds_setHeld [OF assms(1,2), where j = j])
    show "same_conn (C s' d) (C s d)" for d by (simp add: C' same_conn_def)
    show "J s' x = J s x" if "x \<notin> set (?h # ?xs)" "x \<noteq> j" for x
      using that 2(3) [of x] by (simp add: J' J1)
    show "j \<in> placed a s \<Longrightarrow> j \<in> set ?xs" using assms(3) by (simp add: nowhere_def)
  qed (use T sched in \<open>simp_all add: n'\<close>)
  moreover have sj: "same_jobs s s'" using same by (simp add: same_jobs_def n') (simp add: T' C' s1_def upd)
  moreover have "kept D {j} a s (hold_in c j a) s'"
  proof (rule kept_I [OF kept_books_same_jobs [OF sj]])
    show "J s' x = J s x" if "x \<notin> placed a s" "x \<notin> {j}" for x
      using that assms(2) 2(3) [of x] by (simp add: J' J1 placed_def)
    show "Pause (T s' u) = Pause (T s u)" for u using sj by (simp add: same_jobs_def)
    show "placed (hold_in c j a) s \<subseteq> placed a s \<union> {j}" using placed_moves(4) by blast
  qed (simp_all add: C' hold_in_def)
  moreover have "\<exists>p. C s' c = (C s c)\<lparr>PendingTimeout := -1, SoonestJob := p\<rparr>" by (rule exI [of _ p]) (simp add: C')
  moreover have "\<exists>k. R (J s' j) = (R (J s j))\<lparr>ReserveCt := k, DeadlineAt := i64 (clock s (ticks s) + TTR (R (J s j))), RState := Reserved\<rparr>"
    by (rule exI [of _ "ReserveCt (R (J s j)) + 1"]) (simp add: R')
  moreover have "\<forall>d. d \<noteq> c \<longrightarrow> C s' d = C s d" "\<forall>x. x \<noteq> j \<longrightarrow> R (J s' x) = R (J s x)" by (simp_all add: C' R')
  ultimately show ?thesis using run by blast
qed

end
