(* ===== verification/Matching.thy ===== *)
theory Matching
  imports Moves
begin

text \<open>
  \<open>processQueue\<close> against an abstract description: as long as some tube that is not paused has both a
  ready job and a waiting connection, the first of all those jobs is given to one of the
  connections waiting on its tube, which then waits no longer.
\<close>

section \<open>The abstract step\<close>

definition open_tubes :: "int \<Rightarrow> world \<Rightarrow> tref set" where
  "open_tubes now s = {t \<in> set (ms_items (tubes s)). \<not> (Pause (T s t) > 0 \<and> UnpauseAt (T s t) > now)}"

definition give :: "tref \<Rightarrow> jref \<Rightarrow> cref \<Rightarrow> places \<Rightarrow> places" where
  "give t j c a = hold_in c j (wait_out c (ready_out t j a))"

inductive serve :: "tref set \<Rightarrow> (jref \<Rightarrow> jref \<Rightarrow> bool) \<Rightarrow> places \<Rightarrow> places \<Rightarrow> bool" for ts lt where
  serve_one: "t \<in> ts \<Longrightarrow> j \<in># a_ready a t \<Longrightarrow> c \<in># a_waiting a t \<Longrightarrow>
    (\<forall>u\<in>ts. \<forall>i\<in>#a_ready a u. a_waiting a u \<noteq> {#} \<longrightarrow> \<not> lt i j) \<Longrightarrow> serve ts lt a (give t j c a)"

inductive_cases serve_cases: "serve ts lt a b"

definition unmatched :: "tref set \<Rightarrow> places \<Rightarrow> bool" where
  "unmatched ts a \<longleftrightarrow> (\<forall>t\<in>ts. a_ready a t = {#} \<or> a_waiting a t = {#})"

text \<open>A connection that was given a job has it as its output, behind the line with its id and size.\<close>

definition got :: "places \<Rightarrow> places \<Rightarrow> world \<Rightarrow> world \<Rightarrow> cref \<Rightarrow> bool" where
  "got a a' s s' c \<longleftrightarrow>
     a_held a' c = a_held a c \<and> C s' c = C s c \<or>
     (\<exists>j. a_held a' c = a_held a c @ [j] \<and> (\<forall>t<nT s. c \<notin># a_waiting a' t) \<and> OutJob (C s' c) = Some j \<and> OutJobSent (C s' c) = 0 \<and>
        Reply (C s' c) = job_line MsgReserved (R (J s' j)) \<and> CState (C s' c) = StateSendJob \<and>
        Use (C s' c) = Use (C s c) \<and> Watch (C s' c) = Watch (C s c) \<and> \<not> connWaiting (C s' c))"

definition settled :: "int \<Rightarrow> world \<Rightarrow> world \<Rightarrow> bool" where
  "settled now s s' \<longleftrightarrow> (\<forall>x. same_job (J s' x) (J s x)) \<and> nT s' = nT s \<and> nC s' = nC s \<and> nJ s' = nJ s \<and> tubes s' = tubes s \<and>
     allJobs s' = allJobs s \<and> Wal s' = Wal s \<and> clock s' = clock s \<and> (\<forall>t. Name (T s' t) = Name (T s t)) \<and>
     open_tubes now s' = open_tubes now s \<and> (\<forall>c. InJob (C s' c) = InJob (C s c))"

lemma settled_refl: "settled now s s"
  by (simp add: settled_def)

lemma settled_trans: "settled now s s' \<Longrightarrow> settled now s' s'' \<Longrightarrow> settled now s s''"
  unfolding settled_def same_job_def by presburger

lemma same_jobs_settled: "same_jobs s s' \<Longrightarrow> settled now s s'"
  by (simp add: same_jobs_def settled_def open_tubes_def)

lemma settled_less: "settled now s s' \<Longrightarrow> JobPriLess (J s') = JobPriLess (J s)"
  by (rule JobPriLess_cong) (simp add: settled_def same_job_def)

section \<open>Searching changes no place\<close>

lemma unpaused_rest:
  assumes "unpaused now s s'"
  shows "J s' = J s" "C s' = C s" "nT s' = nT s" "nC s' = nC s" "nJ s' = nJ s" "tubes s' = tubes s" "Connes s' = Connes s"
    "allJobs s' = allJobs s" "Wal s' = Wal s" "clock s' = clock s" "ticks s' = ticks s"
proof -
  have e: "s' = s\<lparr>T := T s'\<rparr>" using assms by (simp only: unpaused_def)
  show "J s' = J s" "C s' = C s" "nT s' = nT s" "nC s' = nC s" "nJ s' = nJ s" "tubes s' = tubes s" "Connes s' = Connes s"
    "allJobs s' = allJobs s" "Wal s' = Wal s" "clock s' = clock s" "ticks s' = ticks s"
    by (subst e, simp)+
qed

lemma unpaused_tube:
  assumes "unpaused now s s'"
  shows "same_tube (T s' t) (T s t)" "Name (T s' t) = Name (T s t)"
    "\<not> (Pause (T s' t) > 0 \<and> UnpauseAt (T s' t) > now) \<longleftrightarrow> \<not> (Pause (T s t) > 0 \<and> UnpauseAt (T s t) > now)"
proof -
  have "T s' t = T s t \<or> Pause (T s t) > 0 \<and> UnpauseAt (T s t) \<le> now \<and> T s' t = (T s t)\<lparr>Pause := 0\<rparr>"
    using assms by (simp only: unpaused_def)
  then show "same_tube (T s' t) (T s t)" "Name (T s' t) = Name (T s t)"
    "\<not> (Pause (T s' t) > 0 \<and> UnpauseAt (T s' t) > now) \<longleftrightarrow> \<not> (Pause (T s t) > 0 \<and> UnpauseAt (T s t) > now)"
    by (auto simp: same_tube_def)
qed

lemma unpaused_holds: "unpaused now s s' \<Longrightarrow> holds a s \<Longrightarrow> holds a s'"
proof -
  assume u: "unpaused now s s'" and h: "holds a s"
  have "sched_ok s'" by (rule sched_ok_cong [OF holds_D(7) [OF h]]) (simp_all add: unpaused_rest [OF u])
  then show ?thesis by (intro holds_frame [OF h]) (simp_all add: unpaused_rest [OF u] unpaused_tube(1) [OF u])
qed

lemma unpaused_spared: "unpaused now s s' \<Longrightarrow> spared D X a s a s'"
proof -
  assume u: "unpaused now s s'"
  have "BuriedL (T s' t) = BuriedL (T s t)" for t using unpaused_tube(1) [OF u] by (simp add: same_tube_def)
  then show ?thesis by (intro spared_I) (simp_all add: kept_books_def unpaused_rest [OF u])
qed

lemma unpaused_settled: "unpaused now s s' \<Longrightarrow> settled now s s'"
proof -
  assume u: "unpaused now s s'"
  have "open_tubes now s' = open_tubes now s"
    unfolding open_tubes_def unpaused_rest(6) [OF u] unpaused_tube(3) [OF u] ..
  then show ?thesis by (simp add: settled_def unpaused_rest [OF u] unpaused_tube(2) [OF u])
qed

lemma awaited_places:
  assumes "holds a s" "t \<in> set (ms_items (tubes s))"
  shows "awaited now s t \<longleftrightarrow> t \<in> open_tubes now s \<and> a_ready a t \<noteq> {#} \<and> a_waiting a t \<noteq> {#}" "t < nT s"
    "heap_vals (ReadyQ (T s t)) = a_ready a t"
proof -
  show t: "t < nT s" using holds_D(6) [OF assms(1)] assms(2) by (auto simp: waits_ok_def)
  show r: "heap_vals (ReadyQ (T s t)) = a_ready a t" using holds_D(1) [OF assms(1) t] by (simp add: queued_def)
  have "mset (ms_items (WaitingConns (T s t))) = a_waiting a t" using holds_D(6) [OF assms(1)] t by (simp add: waits_ok_def)
  then have "ms_Len (WaitingConns (T s t)) > 0 \<longleftrightarrow> a_waiting a t \<noteq> {#}" by (auto simp: ms_Len_def)
  moreover have "ReadyQ (T s t) \<noteq> [] \<longleftrightarrow> a_ready a t \<noteq> {#}" using r by (auto simp: heap_vals_def)
  ultimately show "awaited now s t \<longleftrightarrow> t \<in> open_tubes now s \<and> a_ready a t \<noteq> {#} \<and> a_waiting a t \<noteq> {#}"
    using assms(2) by (auto simp: awaited_def open_tubes_def)
qed

section \<open>One turn\<close>

lemma nowhere_frame:
  assumes "nowhere a s j" "loose_links (J s') j = loose_links (J s) j" "nT s' = nT s" "nC s' = nC s"
    and "\<And>t. BuriedL (T s' t) = BuriedL (T s t)" "\<And>c. ReservedJobs (C s' c) = ReservedJobs (C s c)"
    and "a_ready a' = a_ready a" "a_delayed a' = a_delayed a" "a_buried a' = a_buried a" "a_held a' = a_held a"
  shows "nowhere a' s' j"
  using assms by (simp add: nowhere_def placed_def)

lemma ready_left_holds:
  assumes "holds a s"
  shows "holds a (ready_left j t s)" "same_jobs s (ready_left j t s)" "C (ready_left j t s) = C s" "J (ready_left j t s) = J s"
    "BuriedL (T (ready_left j t s) u) = BuriedL (T s u)" "WaitingConns (T (ready_left j t s) u) = WaitingConns (T s u)"
    "ticks (ready_left j t s) = ticks s"
proof -
  show "holds a (ready_left j t s)"
  proof (rule holds_frame [OF assms])
    show "sched_ok (ready_left j t s)"
      by (rule sched_ok_cong [OF holds_D(7) [OF assms]]) (simp_all add: ready_left_def upd Let_def)
  qed (simp_all add: ready_left_def upd Let_def same_tube_def)
qed (simp_all add: ready_left_def upd Let_def same_jobs_def)

lemma unwaited_D:
  assumes "unwaited c s s'"
  shows "J s' = J s" "nT s' = nT s" "nC s' = nC s" "BuriedL (T s' t) = BuriedL (T s t)" "ticks s' = ticks s"
    "d \<noteq> c \<Longrightarrow> C s' d = C s d" "C s' c = (C s c)\<lparr>CType := CType (C s' c)\<rparr>" "ReservedJobs (C s' d) = ReservedJobs (C s d)"
proof -
  obtain n w g x where s': "s' = s\<lparr>T := \<lambda>t. (T s t)\<lparr>Stat := n t, WaitingConns := w t\<rparr>,
      C := (C s)(c := (C s c)\<lparr>CType := x\<rparr>), GlobalState := g\<rparr>"
    using assms unfolding unwaited_def by blast
  show "J s' = J s" "nT s' = nT s" "nC s' = nC s" "BuriedL (T s' t) = BuriedL (T s t)" "ticks s' = ticks s"
    "d \<noteq> c \<Longrightarrow> C s' d = C s d" "C s' c = (C s c)\<lparr>CType := CType (C s' c)\<rparr>" "ReservedJobs (C s' d) = ReservedJobs (C s d)"
    by (simp_all add: s')
qed

lemma wait_out_fewer: "wait_out c (a\<lparr>a_waiting := (a_waiting a)(t := a_waiting a t - {#c#})\<rparr>) = wait_out c a"
  by (auto simp: wait_out_def fun_eq_iff multiset_eq_iff)

text \<open>What connection \<open>c\<close> looks like once it has been given job \<open>j\<close>.\<close>

definition served_with :: "jref \<Rightarrow> cref \<Rightarrow> world \<Rightarrow> world \<Rightarrow> bool" where
  "served_with j c s s' \<longleftrightarrow> OutJob (C s' c) = Some j \<and> OutJobSent (C s' c) = 0 \<and>
     Reply (C s' c) = job_line MsgReserved (R (J s' j)) \<and> CState (C s' c) = StateSendJob \<and>
     Use (C s' c) = Use (C s c) \<and> Watch (C s' c) = Watch (C s c) \<and> \<not> connWaiting (C s' c) \<and>
     (\<forall>d. d \<noteq> c \<longrightarrow> C s' d = C s d) \<and> (\<forall>x. x \<noteq> j \<longrightarrow> R (J s' x) = R (J s x))"

text \<open>A job that is nowhere is handed over to a connection.\<close>

lemma hand_over:
  assumes "holds a s" "c < nC s" "nowhere a s j" "JTube (J s j) = Some t" "t < nT s"
  obtains s1 s2 where "reserveJob c j (removeWaitingCoon c s) = Some s1" "replyJob c j MsgReserved s1 = Some s2"
    "holds (hold_in c j (wait_out c a)) s2" "same_jobs s s2" "served_with j c s s2" "kept {} {j} a s (hold_in c j (wait_out c a)) s2"
proof -
  define s0 where "s0 = removeWaitingCoon c s"
  note h0 = removeWaitingCoon_moves [OF assms(1,2), folded s0_def]
  note d0 = unwaited_D [OF h0(2)]
  have "nowhere (wait_out c a) s0 j" using assms(3) by (rule nowhere_frame) (simp_all add: d0 wait_out_def)
  then obtain s1 k p where 1: "reserveJob c j s0 = Some s1" "holds (hold_in c j (wait_out c a)) s1" "same_jobs s0 s1"
    "\<forall>d. d \<noteq> c \<longrightarrow> C s1 d = C s0 d" "\<forall>x. x \<noteq> j \<longrightarrow> R (J s1 x) = R (J s0 x)"
    "C s1 c = (C s0 c)\<lparr>PendingTimeout := -1, SoonestJob := p\<rparr>" "kept {c} {j} (wait_out c a) s0 (hold_in c j (wait_out c a)) s1"
    using reserveJob_moves [OF h0(1), of c j t "{c}"] assms(2,4,5) d0 by auto
  have c1: "c < nC s1" using 1(3) assms(2) d0(3) by (simp add: same_jobs_def)
  obtain s2 where 2: "replyJob c j MsgReserved s1 = Some s2" "sched_ok s2"
    "answered c (modC c (\<lambda>x. x\<lparr>OutJob := Some j, OutJobSent := 0, ReplyBuf := job_line MsgReserved (R (J s1 j))\<rparr>) s1) s2"
    "Reply (C s2 c) = job_line MsgReserved (R (J s1 j))" "CState (C s2 c) = StateSendJob"
    using replyJob_total [OF holds_dll(1) [OF 1(2) c1] holds_D(7) [OF 1(2)] c1] by blast
  let ?s1 = "modC c (\<lambda>x. x\<lparr>OutJob := Some j, OutJobSent := 0, ReplyBuf := job_line MsgReserved (R (J s1 j))\<rparr>) s1"
  have h: "holds (hold_in c j (wait_out c a)) s2"
    by (rule answered_holds [OF 2(3) holds_modC [OF 1(2)] 2(2)]) (simp_all add: same_conn_def)
  have k: "kept_conn (C s2 c) (C ?s1 c)" "J s2 = J s1" "d \<noteq> c \<Longrightarrow> C s2 d = C ?s1 d" for d
    using answered_D(1,13,14) [OF 2(3)] by (simp_all add: upd)
  have "same_jobs s1 ?s1" by (simp add: same_jobs_def upd)
  then have j: "same_jobs s s2"
    using same_jobs_unwaited [OF h0(2)] 1(3) same_jobs_answered [OF 2(3)] same_jobs_trans by blast
  have "Use (C s0 c) = Use (C s c)" "Watch (C s0 c) = Watch (C s c)" by (subst d0(7), simp)+
  then have "Use (C s2 c) = Use (C s c)" "Watch (C s2 c) = Watch (C s c)" "\<not> connWaiting (C s2 c)"
    "OutJob (C s2 c) = Some j" "OutJobSent (C s2 c) = 0"
    using k(1) 1(6) h0(3) by (simp_all add: kept_conn_def same_conn_def upd connWaiting_def)
  moreover have "C s2 d = C s d" if "d \<noteq> c" for d using k(3) [OF that] 1(4) d0(6) [OF that] that by (simp add: upd)
  moreover have "R (J s2 x) = R (J s x)" if "x \<noteq> j" for x using k(2) 1(5) d0(1) that by simp
  ultimately have "served_with j c s s2" using 2(4,5) k(2) by (simp add: served_with_def)
  moreover have "kept {} {j} a s (hold_in c j (wait_out c a)) s2"
  proof -
    let ?b = "hold_in c j (wait_out c a)"
    have "kept {c} {j} ?b s1 ?b ?s1" by (rule kept_frame) (simp_all add: kept_books_def upd)
    then have "kept {c} {j} a s ?b s2"
      using kept_trans [OF kept_unwaited [OF h0(2)] 1(7)] kept_trans kept_answered [OF 2(3)] by metis
    then show ?thesis by (rule kept_gone) (simp add: hold_in_def wait_out_def)
  qed
  ultimately show thesis using that 1(1) 2(1) h j by (simp add: s0_def)
qed

text \<open>A ready job that is first in its queue is given to a connection that waits for the tube.\<close>

lemma give_turn:
  assumes "holds a s" "t < nT s" "root_of (ReadyQ (T s t)) = Some j" "a_waiting a t \<noteq> {#}"
  obtains q c m s1 s2 where "Ready_Remove t (HeapIndex (J s j)) s = Some (j, modT t (\<lambda>x. x\<lparr>ReadyQ := q\<rparr>) s)"
    "Waiting_Take t (ready_left j t (modT t (\<lambda>x. x\<lparr>ReadyQ := q\<rparr>) s)) = (Some c, m)"
    "reserveJob c j (removeWaitingCoon c (modG (\<lambda>g. g\<lparr>ReservedCt := ReservedCt g + 1\<rparr>) m)) = Some s1"
    "replyJob c j MsgReserved s1 = Some s2" "JTube (J s j) = Some t" "c \<in># a_waiting a t" "c < nC s"
    "holds (give t j c a) s2" "same_jobs s s2" "served_with j c s s2" "kept {} {} a s (give t j c a) s2"
proof -
  obtain q where 1: "Ready_Remove t (HeapIndex (J s j)) s = Some (j, modT t (\<lambda>x. x\<lparr>ReadyQ := q\<rparr>) s)"
    "holds (ready_out t j a) (modT t (\<lambda>x. x\<lparr>ReadyQ := q\<rparr>) s)" "nowhere (ready_out t j a) (modT t (\<lambda>x. x\<lparr>ReadyQ := q\<rparr>) s) j"
    "JTube (J s j) = Some t"
    using Ready_Remove_moves [OF assms(1-3)] by blast
  define s1 where "s1 = modT t (\<lambda>x. x\<lparr>ReadyQ := q\<rparr>) s"
  define s2 where "s2 = ready_left j t s1"
  note h2 = ready_left_holds [OF 1(2) [folded s1_def], of j t, folded s2_def]
  have n2: "nT s2 = nT s" "nC s2 = nC s" using h2(2) by (simp_all add: same_jobs_def s1_def upd)
  have "mset (ms_items (WaitingConns (T s2 t))) = a_waiting a t"
    using holds_D(6) [OF h2(1)] assms(2) n2 by (simp add: waits_ok_def ready_out_def)
  then have w2: "ms_items (WaitingConns (T s2 t)) \<noteq> []" using assms(4) by auto
  let ?a3 = "\<lambda>c. (ready_out t j a)\<lparr>a_waiting := (a_waiting a)(t := a_waiting a t - {#c#})\<rparr>"
  obtain c m where 3: "Waiting_Take t s2 = (Some c, modT t (\<lambda>x. x\<lparr>WaitingConns := m\<rparr>) s2)" "c \<in># a_waiting a t" "c < nC s"
    "holds (?a3 c) (modT t (\<lambda>x. x\<lparr>WaitingConns := m\<rparr>) s2)"
    using Waiting_Take_moves [OF h2(1) _ w2] assms(2) n2 by (auto simp: ready_out_def)
  define s3 where "s3 = modT t (\<lambda>x. x\<lparr>WaitingConns := m\<rparr>) s2"
  define s4 where "s4 = modG (\<lambda>g. g\<lparr>ReservedCt := ReservedCt g + 1\<rparr>) s3"
  have h4: "holds (?a3 c) s4"
  proof (rule holds_frame [OF 3(4) [folded s3_def]])
    show "sched_ok s4" by (rule sched_ok_cong [OF holds_D(7) [OF 3(4) [folded s3_def]]]) (simp_all add: s4_def upd)
  qed (simp_all add: s4_def upd)
  have n4: "nT s4 = nT s" "nC s4 = nC s" "J s4 = J s" "C s4 = C s"
    using n2 h2(3,4) by (simp_all add: s4_def s3_def s1_def upd)
  have "nowhere (?a3 c) s4 j"
    using 1(3) by (rule nowhere_frame) (simp_all add: n4 upd, simp_all add: s4_def s3_def h2(5) s1_def upd)
  moreover have "c < nC s4" "JTube (J s4 j) = Some t" "t < nT s4" using 3(3) 1(4) assms(2) n4 by simp_all
  ultimately obtain s5 s6 where 5: "reserveJob c j (removeWaitingCoon c s4) = Some s5" "replyJob c j MsgReserved s5 = Some s6"
    "holds (hold_in c j (wait_out c (?a3 c))) s6" "same_jobs s4 s6" "served_with j c s4 s6"
    "kept {} {j} (?a3 c) s4 (hold_in c j (wait_out c (?a3 c))) s6"
    using hand_over [OF h4] by metis
  have "wait_out c (?a3 c) = wait_out c (ready_out t j a)"
    using wait_out_fewer [of c "ready_out t j a" t] by (simp add: ready_out_def)
  then have h: "holds (give t j c a) s6" using 5(3) by (simp add: give_def)
  have "same_jobs s s1" "same_jobs s1 s2" "same_jobs s2 s4"
    using h2(2) by (simp_all add: s3_def s4_def same_jobs_def upd s1_def)
  then have j: "same_jobs s s6" using 5(4) same_jobs_trans by blast
  have "served_with j c s s6" using 5(5) n4(3,4) by (simp add: served_with_def)
  moreover have "kept {} {} a s (give t j c a) s6"
  proof -
    have "placed (?a3 c) s = placed (ready_out t j a) s" by (simp add: placed_def)
    then have p: "placed (?a3 c) s \<subseteq> placed a s" using placed_moves(5) by blast
    have "kept_books s s4" using kept_books_same_jobs same_jobs_trans \<open>same_jobs s s1\<close> \<open>same_jobs s1 s2\<close> \<open>same_jobs s2 s4\<close> by blast
    then have "kept {} {j} a s (?a3 c) s4"
    proof (rule kept_I)
      show "Pause (T s4 u) = Pause (T s u)" for u
        using \<open>same_jobs s s1\<close> \<open>same_jobs s1 s2\<close> \<open>same_jobs s2 s4\<close> by (simp add: same_jobs_def)
    qed (use p in \<open>auto simp: n4 ready_out_def\<close>)
    then have "kept {} {j} a s (hold_in c j (wait_out c (?a3 c))) s6" using 5(6) by (rule kept_trans)
    moreover have "hold_in c j (wait_out c (?a3 c)) = give t j c a"
      using \<open>wait_out c (?a3 c) = wait_out c (ready_out t j a)\<close> by (simp add: give_def)
    moreover have "j \<in> placed a s"
      using root_of_mem [OF assms(3)] holds_D(1) [OF assms(1,2)] assms(2) by (auto simp: placed_def queued_def)
    ultimately show ?thesis using kept_less by metis
  qed
  ultimately show thesis
    using that [OF 1(1) 3(1) [unfolded s2_def s1_def] 5(1) [unfolded s4_def s3_def s2_def s1_def] 5(2) 1(4) 3(2,3) h j] by blast
qed

text \<open>The search finds the first of the jobs somebody waits for, at the root of its queue.\<close>

lemma pick_turn:
  assumes "holds a s" "NextAwaitedJob now s = (jp, s0)"
  shows "holds a s0" "settled now s s0" "C s0 = C s" "J s0 = J s" "nT s0 = nT s" "nC s0 = nC s"
    "jp = None \<Longrightarrow> unmatched (open_tubes now s) a"
    "jp = Some j \<Longrightarrow> \<exists>t<nT s. t \<in> open_tubes now s \<and> root_of (ReadyQ (T s0 t)) = Some j \<and> j \<in># a_ready a t \<and>
       a_waiting a t \<noteq> {#} \<and> (\<forall>u\<in>open_tubes now s. \<forall>i\<in>#a_ready a u. a_waiting a u \<noteq> {#} \<longrightarrow> \<not> JobPriLess (J s) i j)"
    "spared D X a s a s0"
proof -
  let ?ts = "set (ms_items (tubes s))"
  have ok: "\<forall>t\<in>?ts. heap_ok (JobPriLess (J s)) (ReadyQ (T s t))"
    using holds_D(1,6) [OF assms(1)] by (auto simp: queued_def waits_ok_def)
  note best = NextAwaitedJob_best [OF ok, of now, unfolded assms(2) fst_conv snd_conv]
  then have u0: "unpaused now s s0" by blast
  show "holds a s0" "settled now s s0" "C s0 = C s" "J s0 = J s" "nT s0 = nT s" "nC s0 = nC s"
    using unpaused_holds [OF u0 assms(1)] unpaused_settled [OF u0] unpaused_rest [OF u0] by simp_all
  show "spared D X a s a s0" by (rule unpaused_spared [OF u0])
  note aw = awaited_places [OF assms(1)]
  show "unmatched (open_tubes now s) a" if "jp = None"
  proof -
    have "\<not> awaited now s t" if "t \<in> ?ts" for t using best \<open>jp = None\<close> that by simp
    then show ?thesis using aw(1) by (auto simp: unmatched_def open_tubes_def)
  qed
  show "\<exists>t<nT s. t \<in> open_tubes now s \<and> root_of (ReadyQ (T s0 t)) = Some j \<and> j \<in># a_ready a t \<and> a_waiting a t \<noteq> {#} \<and>
      (\<forall>u\<in>open_tubes now s. \<forall>i\<in>#a_ready a u. a_waiting a u \<noteq> {#} \<longrightarrow> \<not> JobPriLess (J s) i j)" if jn: "jp = Some j"
  proof -
    obtain t where t: "t \<in> ?ts" "awaited now s t" "root_of (ReadyQ (T s t)) = Some j"
      and least: "\<And>u i. u \<in> ?ts \<Longrightarrow> awaited now s u \<Longrightarrow> i \<in># heap_vals (ReadyQ (T s u)) \<Longrightarrow> \<not> JobPriLess (J s) i j"
      using best jn by auto
    have "\<not> JobPriLess (J s) i j" if u: "u \<in> open_tubes now s" "i \<in># a_ready a u" "a_waiting a u \<noteq> {#}" for u i
    proof -
      have m: "u \<in> ?ts" using u(1) by (simp add: open_tubes_def)
      then have "awaited now s u" using aw(1) [OF m] u by auto
      then show ?thesis using least [OF m] u(2) aw(3) [OF m] by simp
    qed
    moreover have "root_of (ReadyQ (T s0 t)) = Some j"
      using t(3) unpaused_tube(1) [OF u0, of t] by (simp add: same_tube_def)
    ultimately show ?thesis using aw [OF t(1)] t(2) root_of_mem [OF t(3)] by auto
  qed
qed

section \<open>The loop\<close>

lemma give_places:
  "a_ready (give t j c a) = (a_ready a)(t := a_ready a t - {#j#})" "a_held (give t j c a) = (a_held a)(c := a_held a c @ [j])"
  "a_waiting (give t j c a) = (\<lambda>u. filter_mset (\<lambda>d. d \<noteq> c) (a_waiting a u))" "a_delayed (give t j c a) = a_delayed a"
  "a_buried (give t j c a) = a_buried a"
  by (simp_all add: give_def move_defs)

lemma serves_keep:
  assumes "(serve ts lt)\<^sup>*\<^sup>* a b"
  shows "a_waiting b t \<subseteq># a_waiting a t" "a_delayed b = a_delayed a" "a_buried b = a_buried a" "a_ready b t \<subseteq># a_ready a t"
proof -
  have "a_waiting b t \<subseteq># a_waiting a t \<and> a_delayed b = a_delayed a \<and> a_buried b = a_buried a \<and> a_ready b t \<subseteq># a_ready a t"
    using assms
  proof (induction rule: rtranclp_induct)
    case (step y z)
    from step.hyps(2) obtain u j c where "z = give u j c y" by (auto elim: serve_cases)
    then have "a_waiting z t \<subseteq># a_waiting y t" "a_ready z t \<subseteq># a_ready y t" "a_delayed z = a_delayed y" "a_buried z = a_buried y"
      by (simp_all add: give_places)
    then show ?case using step.IH subset_mset.order_trans by metis
  qed simp
  then show "a_waiting b t \<subseteq># a_waiting a t" "a_delayed b = a_delayed a" "a_buried b = a_buried a" "a_ready b t \<subseteq># a_ready a t"
    by blast+
qed

definition ready_jobs :: "nat \<Rightarrow> places \<Rightarrow> nat" where
  "ready_jobs n a = (\<Sum>t<n. size (a_ready a t))"

lemma give_fewer:
  assumes "j \<in># a_ready a t" "t < n"
  shows "ready_jobs n (give t j c a) < ready_jobs n a"
proof -
  have "size (a_ready a t - {#j#}) < size (a_ready a t)" using assms(1) by (rule size_Diff1_less)
  then show ?thesis unfolding ready_jobs_def using assms(2)
    by (intro sum_strict_mono_ex1) (auto simp: give_places intro: order.strict_implies_order)
qed

text \<open>The result of the loop.\<close>

definition matched :: "int \<Rightarrow> places \<Rightarrow> places \<Rightarrow> world \<Rightarrow> world \<Rightarrow> bool" where
  "matched now a a' s s' \<longleftrightarrow> holds a' s' \<and> (serve (open_tubes now s) (JobPriLess (J s)))\<^sup>*\<^sup>* a a' \<and>
     unmatched (open_tubes now s) a' \<and> settled now s s' \<and>
     (\<forall>c. got a a' s s' c \<and> ((\<forall>t<nT s. c \<notin># a_waiting a t) \<longrightarrow> a_held a' c = a_held a c \<and> C s' c = C s c)) \<and>
     (\<forall>x. (\<forall>t<nT s. x \<notin># a_ready a t) \<longrightarrow> R (J s' x) = R (J s x)) \<and> spared {} {} a s a' s'"

lemma job_line_same: "same_job x y \<Longrightarrow> job_line m (R x) = job_line m (R y)"
  by (simp add: job_line_def same_job_def)

lemma matched_after:
  assumes "served_with j c s s1" "settled now s s1" "matched now (give t j c a) a' s1 s'"
    and "serve (open_tubes now s) (JobPriLess (J s)) a (give t j c a)"
    and "c \<in># a_waiting a t" "j \<in># a_ready a t" "t < nT s" "spared {} {} a s (give t j c a) s1"
  shows "matched now a a' s s'"
proof -
  let ?b = "give t j c a"
  have eq: "nT s1 = nT s" "open_tubes now s1 = open_tubes now s" "JobPriLess (J s1) = JobPriLess (J s)"
    using assms(2) settled_less [OF assms(2)] by (simp_all add: settled_def)
  have m: "holds a' s'" "(serve (open_tubes now s) (JobPriLess (J s)))\<^sup>*\<^sup>* ?b a'" "unmatched (open_tubes now s) a'" "settled now s1 s'"
    and g: "\<And>d. got ?b a' s1 s' d"
    and w: "\<And>d. (\<forall>t<nT s. d \<notin># a_waiting ?b t) \<Longrightarrow> a_held a' d = a_held ?b d \<and> C s' d = C s1 d"
    and r: "\<And>x. (\<forall>t<nT s. x \<notin># a_ready ?b t) \<Longrightarrow> R (J s' x) = R (J s1 x)"
    using assms(3) by (simp_all add: matched_def eq)
  have c: "a_held a' c = a_held a c @ [j]" "C s' c = C s1 c" using w [of c] by (simp_all add: give_places)
  have other: "a_held ?b d = a_held a d" "C s1 d = C s d" if "d \<noteq> c" for d
    using that assms(1) by (simp_all add: give_places served_with_def)
  have "c \<notin># a_waiting a' u" for u
    using serves_keep(1) [OF m(2), of u] by (auto simp: give_places dest: mset_subset_eqD)
  moreover have "same_job (J s' j) (J s1 j)" using m(4) by (simp add: settled_def)
  ultimately have "got a a' s s' c" using c assms(1) job_line_same [of "J s' j" "J s1 j"]
    by (simp add: got_def served_with_def)
  moreover have "got a a' s s' d" if "d \<noteq> c" for d
    using g [of d] other [OF that] by (simp add: got_def eq)
  moreover have "a_held a' d = a_held a d \<and> C s' d = C s d" if "\<forall>u<nT s. d \<notin># a_waiting a u" for d
    using w [of d] other [of d] assms(5,7) that by (auto simp: give_places)
  ultimately have "\<forall>d. got a a' s s' d \<and> ((\<forall>t<nT s. d \<notin># a_waiting a t) \<longrightarrow> a_held a' d = a_held a d \<and> C s' d = C s d)" by metis
  moreover have "R (J s' x) = R (J s x)" if "\<forall>u<nT s. x \<notin># a_ready a u" for x
  proof -
    have "x \<noteq> j" using that assms(6,7) by auto
    moreover have "\<forall>u<nT s. x \<notin># a_ready ?b u" using that by (auto simp: give_places dest: in_diffD)
    ultimately show ?thesis using r [of x] assms(1) by (simp add: served_with_def)
  qed
  moreover have "settled now s s'" using settled_trans [OF assms(2) m(4)] .
  moreover have "spared {} {} a s a' s'" using assms(3,8) spared_trans unfolding matched_def by blast
  ultimately show ?thesis using m(1-3) assms(4) by (simp add: matched_def)
qed

lemma processQueue_loop_matches:
  "holds a s \<Longrightarrow> \<exists>s' a'. processQueue_loop now s = Some s' \<and> matched now a a' s s'"
proof (induction "ready_jobs (nT s) a" arbitrary: a s rule: less_induct)
  case less
  obtain jp s0 where n: "NextAwaitedJob now s = (jp, s0)" by (cases "NextAwaitedJob now s")
  note p = pick_turn [OF less.prems n]
  show ?case
  proof (cases jp)
    case None
    then have "matched now a a s s0" using p by (simp add: matched_def got_def)
    moreover have "processQueue_loop now s = Some s0" using n None by (simp add: processQueue_loop.simps)
    ultimately show ?thesis by blast
  next
    case (Some j)
    then obtain t where t: "t < nT s" "t \<in> open_tubes now s" "root_of (ReadyQ (T s0 t)) = Some j" "j \<in># a_ready a t" "a_waiting a t \<noteq> {#}"
      "\<forall>u\<in>open_tubes now s. \<forall>i\<in>#a_ready a u. a_waiting a u \<noteq> {#} \<longrightarrow> \<not> JobPriLess (J s) i j" using p(8) by blast
    have "t < nT s0" using t(1) p(5) by simp
    from give_turn [OF p(1) this t(3,5)] obtain q c m s1 s2 where g:
      "Ready_Remove t (HeapIndex (J s0 j)) s0 = Some (j, modT t (\<lambda>x. x\<lparr>ReadyQ := q\<rparr>) s0)"
      "Waiting_Take t (ready_left j t (modT t (\<lambda>x. x\<lparr>ReadyQ := q\<rparr>) s0)) = (Some c, m)"
      "reserveJob c j (removeWaitingCoon c (modG (\<lambda>g. g\<lparr>ReservedCt := ReservedCt g + 1\<rparr>) m)) = Some s1"
      "replyJob c j MsgReserved s1 = Some s2" "JTube (J s0 j) = Some t" "c \<in># a_waiting a t" "c < nC s0"
      "holds (give t j c a) s2" "same_jobs s0 s2" "served_with j c s0 s2" "kept {} {} a s0 (give t j c a) s2" by blast
    have loop: "processQueue_loop now s = processQueue_loop now s2"
      by (subst processQueue_loop.simps) (simp add: n Some g(1-5))
    have st: "settled now s s2" using settled_trans [OF p(2) same_jobs_settled [OF g(9)]] .
    have "ready_jobs (nT s2) (give t j c a) < ready_jobs (nT s) a"
      using give_fewer [OF t(4,1)] st by (simp add: settled_def)
    from less.hyps [OF this g(8)] obtain s' a' where r: "processQueue_loop now s2 = Some s'" "matched now (give t j c a) a' s2 s'" by blast
    have "served_with j c s s2" using g(10) p(3,4) by (simp add: served_with_def)
    moreover have "serve (open_tubes now s) (JobPriLess (J s)) a (give t j c a)" using t(2,4) g(6) t(6) by (rule serve_one)
    moreover have "spared {} {} a s (give t j c a) s2"
      using spared_trans [OF p(9)] g(11) unfolding kept_def by blast
    ultimately have "matched now a a' s s'" using matched_after [OF _ st r(2) _ g(6) t(4,1)] by blast
    then show ?thesis using loop r(1) by auto
  qed
qed

lemma holds_ticks: "holds a s \<Longrightarrow> holds a (s\<lparr>ticks := k\<rparr>)"
  by (rule holds_frame) (auto intro: sched_ok_cong [of s] dest: holds_D(7))

lemma matched_ticks: "matched now a a' (s\<lparr>ticks := k\<rparr>) s' = matched now a a' s s'"
proof -
  have "open_tubes now (s\<lparr>ticks := k\<rparr>) = open_tubes now s" by (simp add: open_tubes_def)
  moreover from this have "settled now (s\<lparr>ticks := k\<rparr>) s' = settled now s s'" by (simp add: settled_def)
  moreover have "got a a' (s\<lparr>ticks := k\<rparr>) s' c = got a a' s s' c" for c by (simp add: got_def)
  moreover have "spared {} {} a (s\<lparr>ticks := k\<rparr>) a' s' = spared {} {} a s a' s'"
    by (simp add: spared_def kept_books_def placed_def)
  ultimately show ?thesis by (simp add: matched_def)
qed

text \<open>After the loop nobody waits beside a ready job.\<close>

lemma matched_kept:
  assumes "matched now a a' s s'"
  shows "kept {} {} a s a' s'" "idle a' s'"
proof -
  have "tubes s' = tubes s" "open_tubes now s' = open_tubes now s" using assms by (simp_all add: matched_def settled_def)
  then show "idle a' s'" using assms by (auto simp: matched_def idle_def unmatched_def open_tubes_def)
  then show "kept {} {} a s a' s'" using assms by (simp add: kept_def matched_def)
qed

lemma processQueue_matches:
  assumes "holds a s"
  shows "\<exists>s' a'. processQueue s = Some s' \<and> matched (clock s (ticks s)) a a' s s'"
proof -
  let ?s = "s\<lparr>ticks := Suc (ticks s)\<rparr>"
  obtain s' a' where r: "processQueue_loop (clock s (ticks s)) ?s = Some s'" "matched (clock s (ticks s)) a a' ?s s'"
    using processQueue_loop_matches [OF holds_ticks [OF assms]] by blast
  have "matched (clock s (ticks s)) a a' s s'"
    using r(2) by (simp add: matched_ticks)
  then show ?thesis using r(1) by (auto simp: processQueue_def time_Now_def)
qed

text \<open>C3: \<open>processQueue\<close> terminates, whoever waits for whatever: it carries out steps \<open>serve\<close>, each of which
  gives a least ready job of the open tubes somebody waits on to a connection waiting on its tube, until no
  open tube has both a ready job and a waiter. The places of all jobs and connections follow these steps, a
  connection has got one job at most, with the reply that carries it, and no other connection changes.\<close>

theorem processQueue_serves:
  assumes "holds a s"
  shows "\<exists>s' a'. processQueue s = Some s' \<and> holds a' s' \<and>
    (serve (open_tubes (clock s (ticks s)) s) (JobPriLess (J s)))\<^sup>*\<^sup>* a a' \<and>
    unmatched (open_tubes (clock s (ticks s)) s) a' \<and> (\<forall>c. got a a' s s' c) \<and> allJobs s' = allJobs s"
proof -
  obtain s' a' where "processQueue s = Some s'" "matched (clock s (ticks s)) a a' s s'"
    using processQueue_matches [OF assms] by blast
  then show ?thesis unfolding matched_def settled_def by (intro exI [of _ s'] exI [of _ a']) simp
qed

end
