(* ===== verification/Lifecycle.thy ===== *)
theory Lifecycle
  imports Matching
begin

text \<open>
  The life of a job over the places of theory Places: enqueueing, reserving, releasing, burying,
  kicking and deleting, each as a move of the job followed by the service of waiting connections.
  The log is not in use.
\<close>

section \<open>Enqueueing\<close>

lemma matched_from:
  assumes "matched now a a' s1 s'" "settled now s s1" "C s1 = C s" "spared {} {} a s a s1"
    and "\<And>x. (\<forall>t<nT s. x \<notin># a_ready a t) \<Longrightarrow> R (J s1 x) = R (J s x)"
  shows "matched now a a' s s'"
proof -
  have "nT s1 = nT s" "open_tubes now s1 = open_tubes now s" "JobPriLess (J s1) = JobPriLess (J s)"
    using assms(2) settled_less [OF assms(2)] by (simp_all add: settled_def)
  moreover have "spared {} {} a s a' s'" using assms(1) spared_trans [OF assms(4)] by (simp add: matched_def)
  ultimately show ?thesis using assms settled_trans [OF assms(2)] by (simp add: matched_def got_def)
qed

lemma holds_counters:
  assumes "holds a s"
  shows "holds a (s\<lparr>ReadyCt := k\<rparr>)" "holds a (modG g s)" "holds a (modStat t f s)"
proof -
  show "holds a (s\<lparr>ReadyCt := k\<rparr>)"
    using holds_D(7) [OF assms] by (intro holds_frame [OF assms]) (auto intro: sched_ok_cong [of s])
  show "holds a (modG g s)"
    using holds_D(7) [OF assms] by (intro holds_frame [OF assms]) (auto simp: upd intro: sched_ok_cong [of s])
  show "holds a (modStat t f s)" unfolding modStat_def by (rule holds_modT [OF assms]) (simp add: same_tube_def)
qed

lemma enqueueJob_ready_matches:
  assumes "holds a s" "nowhere a s j" "JTube (J s j) = Some t" "t < nT s" "\<not> WalUse (Wal s)" "d \<le> 0"
  shows "\<exists>s' a'. enqueueJob j d u s = Some (1, s') \<and> matched (clock s (ticks s)) (ready_in t j a) a' s s'"
proof -
  define s1 where "s1 = modR j (\<lambda>r. r\<lparr>RState := Ready\<rparr>) (modJ j (\<lambda>x. x\<lparr>Reservoir := None\<rparr>) s)"
  have "j \<notin> placed a s" using assms(2) by (simp add: nowhere_def)
  then have h1: "holds a s1" unfolding s1_def modR_def
    by (intro holds_modJ assms(1)) (simp_all add: placed_def upd)
  have n1: "nowhere a s1 j" using assms(2) by (rule nowhere_frame) (simp_all add: s1_def upd loose_links_def)
  have f1: "nT s1 = nT s" "C s1 = C s" "Wal s1 = Wal s" "RState (R (J s1 j)) = Ready" "JTube (J s1 j) = Some t"
    using assms(3) by (simp_all add: s1_def upd)
  obtain h where p: "Ready_Push t j s1 = (True, modT t (\<lambda>x. x\<lparr>ReadyQ := h\<rparr>) s1)"
    "holds (ready_in t j a) (modT t (\<lambda>x. x\<lparr>ReadyQ := h\<rparr>) s1)"
    using Ready_Push_moves [OF h1 _ n1 f1(4,5)] assms(4) f1(1) by auto
  define s2 where "s2 = (modT t (\<lambda>x. x\<lparr>ReadyQ := h\<rparr>) s1)\<lparr>ReadyCt := ReadyCt s1 + 1\<rparr>"
  define s3 where "s3 = (if Pri (R (J s2 j)) < UrgentThreshold
     then modStat t (\<lambda>g. g\<lparr>UrgentCt := UrgentCt g + 1\<rparr>) (modG (\<lambda>g. g\<lparr>UrgentCt := UrgentCt g + 1\<rparr>) s2) else s2)"
  have "holds (ready_in t j a) s2" using holds_counters(1) [OF p(2)] by (simp add: s2_def)
  then have h3: "holds (ready_in t j a) s3" unfolding s3_def by (simp add: holds_counters)
  obtain s' a' where m: "processQueue s3 = Some s'" "matched (clock s3 (ticks s3)) (ready_in t j a) a' s3 s'"
    using processQueue_matches [OF h3] by blast
  have J3: "J s3 = (J s)(j := (J s j)\<lparr>Reservoir := None, R := (R (J s j))\<lparr>RState := Ready\<rparr>\<rparr>)"
    by (simp add: s3_def s2_def s1_def upd)
  have f3: "C s3 = C s" "clock s3 (ticks s3) = clock s (ticks s)" "Wal s3 = Wal s"
    by (simp_all add: s3_def s2_def s1_def upd)
  have run: "enqueueJob j d u s = Some (1, s')"
    using assms(3,5,6) p(1) m(1) f3(3)
    by (cases "Pri (R (J s j)) < UrgentThreshold")
      (simp_all add: enqueueJob_def WalWrite_def WalMain_def Let_def s3_def s2_def s1_def upd comp_def)
  have sj: "same_jobs s s3" unfolding same_jobs_def
    by (simp add: J3 same_job_def) (simp add: s3_def s2_def s1_def upd)
  then have st: "settled (clock s (ticks s)) s s3" by (rule same_jobs_settled)
  have sp: "spared {} {} (ready_in t j a) s (ready_in t j a) s3"
    by (rule spared_I [OF kept_books_same_jobs [OF sj]]) (use placed_intro(5) [OF assms(4)] in \<open>auto simp: J3 f3\<close>)
  have "matched (clock s (ticks s)) (ready_in t j a) a' s s'"
  proof (rule matched_from [OF m(2) [unfolded f3(2)] st f3(1) sp])
    fix x assume "\<forall>u<nT s. x \<notin># a_ready (ready_in t j a) u"
    then have "x \<noteq> j" using assms(4) by (auto simp: ready_in_def)
    then show "R (J s3 x) = R (J s x)" by (simp add: J3)
  qed
  then show ?thesis using run by blast
qed

lemma enqueueJob_delayed_matches:
  assumes "holds a s" "nowhere a s j" "JTube (J s j) = Some t" "t < nT s" "\<not> WalUse (Wal s)" "0 < d"
  shows "\<exists>s1 s' a'. enqueueJob j d u s = Some (1, s') \<and> matched (clock s (Suc (ticks s))) (delay_in t j a) a' s1 s' \<and>
    same_jobs s s1 \<and> C s1 = C s \<and> spared {} {} (delay_in t j a) s (delay_in t j a) s1 \<and>
    R (J s1 j) = (R (J s j))\<lparr>RState := Delayed, DeadlineAt := i64 (clock s (ticks s) + d)\<rparr>"
proof -
  let ?r = "(R (J s j))\<lparr>RState := Delayed, DeadlineAt := i64 (clock s (ticks s) + d)\<rparr>"
  define s1 where "s1 = modR j (\<lambda>r. ?r) ((modJ j (\<lambda>x. x\<lparr>Reservoir := None\<rparr>) s)\<lparr>ticks := Suc (ticks s)\<rparr>)"
  have "j \<notin> placed a s" using assms(2) by (simp add: nowhere_def)
  then have h1: "holds a s1" unfolding s1_def modR_def
    by (intro holds_modJ holds_ticks assms(1)) (simp_all add: placed_def upd)
  have n1: "nowhere a s1 j" using assms(2) by (rule nowhere_frame) (simp_all add: s1_def upd loose_links_def)
  have f1: "nT s1 = nT s" "C s1 = C s" "Wal s1 = Wal s" "RState (R (J s1 j)) = Delayed" "JTube (J s1 j) = Some t"
    using assms(3) by (simp_all add: s1_def upd)
  obtain h where p: "Delay_Push t j s1 = (True, modT t (\<lambda>x. x\<lparr>DelayQ := h\<rparr>) s1)"
    "holds (delay_in t j a) (modT t (\<lambda>x. x\<lparr>DelayQ := h\<rparr>) s1)"
    using Delay_Push_moves [OF h1 _ n1 f1(4,5)] assms(4) f1(1) by auto
  define s2 where "s2 = modT t (\<lambda>x. x\<lparr>DelayQ := h\<rparr>) s1"
  obtain s' a' where m: "processQueue s2 = Some s'" "matched (clock s2 (ticks s2)) (delay_in t j a) a' s2 s'"
    using processQueue_matches [OF p(2)] unfolding s2_def by blast
  have J2: "J s2 = (J s)(j := (J s j)\<lparr>Reservoir := None, R := ?r\<rparr>)" by (simp add: s2_def s1_def upd)
  have f2: "C s2 = C s" "clock s2 (ticks s2) = clock s (Suc (ticks s))" by (simp_all add: s2_def s1_def upd)
  have "enqueueJob j d u s = Some (1, s')"
    using assms(3,5,6) p(1) m(1)
    by (simp add: enqueueJob_def WalWrite_def WalMain_def Let_def time_Now_def s2_def s1_def upd comp_def)
  moreover have sj: "same_jobs s s2" unfolding same_jobs_def by (simp add: J2 same_job_def) (simp add: s2_def s1_def upd)
  moreover have "spared {} {} (delay_in t j a) s (delay_in t j a) s2"
    by (rule spared_I [OF kept_books_same_jobs [OF sj]]) (use placed_intro(6) [OF assms(4)] in \<open>auto simp: J2 f2\<close>)
  ultimately show ?thesis using m(2) f2 J2 by (intro exI [of _ s2] exI [of _ s'] exI [of _ a']) simp
qed

section \<open>Giving a job back, burying and digging out\<close>

lemma unlink_held:
  assumes "holds a s" "c < nC s" "j \<in> set (a_held a c)"
  shows "\<exists>s1. JobListRemove (Some j) s = Some (Some j, s1) \<and> holds (hold_out c j a) s1 \<and> nowhere (hold_out c j a) s1 j \<and>
    s1 = s\<lparr>J := J s1\<rparr> \<and> same_jobs s s1 \<and> (\<forall>x. R (J s1 x) = R (J s x) \<and> Reservoir (J s1 x) = Reservoir (J s x)) \<and>
    kept D {} a s (hold_out c j a) s1"
proof -
  obtain xs ys where l: "a_held a c = xs @ j # ys" using split_list [OF assms(3)] by blast
  let ?h = "ReservedJobs (C s c)"
  note d = holds_dll(1) [OF assms(1,2), unfolded l]
  obtain s1 where 1: "JobListRemove (Some j) s = Some (Some j, s1)" "dll (J s1) ?h (xs @ ys)" "JobListEmpty j s1"
    "\<And>x. x \<notin> set (?h # xs @ j # ys) \<Longrightarrow> J s1 x = J s x" "s1 = s\<lparr>J := J s1\<rparr>" "\<And>x. R (J s1 x) = R (J s x)"
    using remove_dll [OF d] by metis
  have f1: "nT s1 = nT s" "nC s1 = nC s" "nJ s1 = nJ s" "tubes s1 = tubes s" "T s1 = T s" "C s1 = C s" "Connes s1 = Connes s"
    "allJobs s1 = allJobs s" "Wal s1 = Wal s" "clock s1 = clock s"
    by (subst 1(5), simp)+
  note k1 = remove_keeps [OF 1(1)]
  have di: "distinct (xs @ j # ys)" "j \<noteq> ?h" using d by (auto simp: dll_def)
  then have r1: "remove1 j (a_held a c) = xs @ ys" by (simp add: l remove1_append)
  have sched: "sched_ok s1" by (rule sched_ok_cong [OF holds_D(7) [OF assms(1)]]) (simp_all add: f1 k1)
  have "held_by (J s1) c ?h (xs @ ys) (nT s)"
    using holds_D(4) [OF assms(1,2)] 1(2,6) k1 by (auto simp: held_by_def l)
  then have h: "holds (hold_out c j a) s1" unfolding hold_out_def r1
    by (intro holds_setHeld [OF assms(1,2), where j = j]) (use 1(4) sched assms(3) in \<open>auto simp: f1 l\<close>)
  have "RState (R (J s1 j)) = Reserved" "Reservoir (J s1 j) = Some c" using where_held [OF assms] 1(6) k1 by auto
  then have "j \<notin> placed (hold_out c j a) s1"
    by (intro not_placed [OF h]) (use di in \<open>auto simp: hold_out_def r1\<close>)
  then have "nowhere (hold_out c j a) s1 j" using 1(3) by (simp add: nowhere_def loose_links_empty)
  moreover have sj: "same_jobs s s1" using 1(6) k1 by (simp add: same_jobs_def f1 same_job_def)
  moreover have "kept D {} a s (hold_out c j a) s1"
  proof (rule kept_I [OF kept_books_same_jobs [OF sj]])
    show "J s1 x = J s x" if "x \<notin> placed a s" for x
      using that placed_intro(4) [OF assms(2), of x a] by (intro 1(4)) (auto simp: l)
    show "placed (hold_out c j a) s \<subseteq> placed a s \<union> {}" using placed_moves(8) by simp
  qed (simp_all add: f1 hold_out_def)
  ultimately show ?thesis using 1(1,5,6) h k1 by blast
qed

lemma unlink_buried:
  assumes "holds a s" "t < nT s" "j \<in> set (a_buried a t)"
  shows "\<exists>s1. JobListRemove (Some j) s = Some (Some j, s1) \<and> holds (bury_out t j a) s1 \<and> nowhere (bury_out t j a) s1 j \<and>
    s1 = s\<lparr>J := J s1\<rparr> \<and> same_jobs s s1 \<and> (\<forall>x. R (J s1 x) = R (J s x) \<and> Reservoir (J s1 x) = Reservoir (J s x)) \<and>
    kept D {} a s (bury_out t j a) s1"
proof -
  obtain xs ys where l: "a_buried a t = xs @ j # ys" using split_list [OF assms(3)] by blast
  let ?h = "BuriedL (T s t)"
  note d = holds_dll(2) [OF assms(1,2), unfolded l]
  obtain s1 where 1: "JobListRemove (Some j) s = Some (Some j, s1)" "dll (J s1) ?h (xs @ ys)" "JobListEmpty j s1"
    "\<And>x. x \<notin> set (?h # xs @ j # ys) \<Longrightarrow> J s1 x = J s x" "s1 = s\<lparr>J := J s1\<rparr>" "\<And>x. R (J s1 x) = R (J s x)"
    using remove_dll [OF d] by metis
  have f1: "nT s1 = nT s" "nC s1 = nC s" "nJ s1 = nJ s" "tubes s1 = tubes s" "T s1 = T s" "C s1 = C s" "Connes s1 = Connes s"
    "allJobs s1 = allJobs s" "Wal s1 = Wal s" "clock s1 = clock s"
    by (subst 1(5), simp)+
  note k1 = remove_keeps [OF 1(1)]
  have di: "distinct (xs @ j # ys)" "j \<noteq> ?h" using d by (auto simp: dll_def)
  then have r1: "remove1 j (a_buried a t) = xs @ ys" by (simp add: l remove1_append)
  have sched: "sched_ok s1" by (rule sched_ok_cong [OF holds_D(7) [OF assms(1)]]) (simp_all add: f1 k1)
  have "buried_at (J s1) t ?h (xs @ ys)"
    using holds_D(3) [OF assms(1,2)] 1(2,6) k1 by (auto simp: buried_at_def l)
  then have h: "holds (bury_out t j a) s1" unfolding bury_out_def r1
    by (intro holds_setBuried [OF assms(1,2), where j = j]) (use 1(4) sched assms(3) in \<open>auto simp: f1 l\<close>)
  have "RState (R (J s1 j)) = Buried" "JTube (J s1 j) = Some t" using where_buried [OF assms] 1(6) k1 by auto
  then have "j \<notin> placed (bury_out t j a) s1"
    by (intro not_placed [OF h]) (use di in \<open>auto simp: bury_out_def r1\<close>)
  then have "nowhere (bury_out t j a) s1 j" using 1(3) by (simp add: nowhere_def loose_links_empty)
  moreover have sj: "same_jobs s s1" using 1(6) k1 by (simp add: same_jobs_def f1 same_job_def)
  moreover have "kept D {} a s (bury_out t j a) s1"
  proof (rule kept_I [OF kept_books_same_jobs [OF sj]])
    show "J s1 x = J s x" if "x \<notin> placed a s" for x
      using that placed_intro(3) [OF assms(2), of x a] by (intro 1(4)) (auto simp: l)
    show "placed (bury_out t j a) s \<subseteq> placed a s \<union> {}" using placed_moves(7) by simp
  qed (simp_all add: f1 bury_out_def)
  ultimately show ?thesis using 1(1,5,6) h k1 by blast
qed

lemma removeReservedJob_moves:
  assumes "holds a s" "c < nC s" "j \<in> set (a_held a c)"
  shows "\<exists>s1 t. removeReservedJob c (Some j) s = Some (Some j, s1) \<and> JTube (J s j) = Some t \<and> t < nT s \<and>
    holds (hold_out c j a) s1 \<and> nowhere (hold_out c j a) s1 j \<and> same_jobs s s1 \<and> (\<forall>x. R (J s1 x) = R (J s x)) \<and>
    (\<forall>d. \<exists>p. C s1 d = (C s d)\<lparr>SoonestJob := p\<rparr>) \<and> Reservoir (J s1 j) = None \<and>
    TotalJobsCt (Stat (T s1 t)) = TotalJobsCt (Stat (T s t)) \<and> ticks s1 = ticks s \<and>
    TotalDeleteCt (Stat (T s1 t)) = TotalDeleteCt (Stat (T s t)) \<and> kept D {} a s (hold_out c j a) s1"
proof -
  obtain t where t: "t < nT s" "JTube (J s j) = Some t" and r: "isJobReservedByConn c (Some j) s"
    using where_held [OF assms] by (auto simp: isJobReservedByConn_def)
  obtain s1 where 1: "JobListRemove (Some j) s = Some (Some j, s1)" "holds (hold_out c j a) s1" "nowhere (hold_out c j a) s1 j"
    "s1 = s\<lparr>J := J s1\<rparr>" "same_jobs s s1" "\<And>x. R (J s1 x) = R (J s x)" "kept D {} a s (hold_out c j a) s1"
    using unlink_held [OF assms, of D] by blast
  have f1: "T s1 = T s" "C s1 = C s" "ticks s1 = ticks s" by (subst 1(4), simp)+
  have jt: "JTube (J s1 j) = Some t" using remove_keeps [OF 1(1)] t(2) by simp
  define s2 where "s2 = modStat t (\<lambda>g. g\<lparr>ReservedCt := ReservedCt g - 1\<rparr>) (modG (\<lambda>g. g\<lparr>ReservedCt := ReservedCt g - 1\<rparr>) s1)"
  define s3 where "s3 = modC c (\<lambda>x. x\<lparr>SoonestJob := None\<rparr>) (modJ j (\<lambda>x. x\<lparr>Reservoir := None\<rparr>) s2)"
  have "removeReservedJob c (Some j) s = Some (Some j, s3)"
    using r 1(1) jt by (simp add: removeReservedJob_def removeThisReservedJob_def s3_def s2_def upd)
  moreover have h2: "holds (hold_out c j a) s2" unfolding s2_def by (intro holds_counters 1(2))
  moreover have n2: "nowhere (hold_out c j a) s2 j" using 1(3) by (rule nowhere_frame) (simp_all add: s2_def upd)
  moreover have "holds (hold_out c j a) s3" unfolding s3_def
    using n2 by (intro holds_modC holds_modJ h2) (simp_all add: nowhere_def same_conn_def)
  moreover have "nowhere (hold_out c j a) s3 j"
    using n2 by (rule nowhere_frame) (simp_all add: s3_def upd loose_links_def)
  moreover have s13: "same_jobs s1 s3" by (simp add: same_jobs_def s3_def s2_def upd same_job_def)
  then have "same_jobs s s3" by (rule same_jobs_trans [OF 1(5)])
  moreover have "kept D {} a s (hold_out c j a) s3"
  proof (rule kept_less [OF kept_trans])
    show "kept D {j} a s (hold_out c j a) s1" using 1(7) by (rule kept_mono) simp_all
    show "kept D {j} (hold_out c j a) s1 (hold_out c j a) s3"
      by (rule kept_frame [OF kept_books_same_jobs [OF s13]]) (simp_all add: s3_def s2_def upd)
    show "j \<in> placed a s" using assms(2,3) by (auto simp: placed_def)
  qed
  moreover have "\<exists>p. C s3 d = (C s d)\<lparr>SoonestJob := p\<rparr>" for d
    by (rule exI [of _ "if d = c then None else SoonestJob (C s d)"]) (simp add: s3_def s2_def upd f1)
  ultimately show ?thesis using t 1(6) f1
    by (intro exI [of _ s3] exI [of _ t]) (simp add: s3_def s2_def upd)
qed

lemma BuryJob_moves:
  assumes "holds a s" "nowhere a s j" "JTube (J s j) = Some t" "t < nT s" "\<not> WalUse (Wal s)"
  shows "\<exists>s'. BuryJob j u s = Some (True, s') \<and> holds (bury_in t j a) s' \<and> same_jobs s s' \<and> C s' = C s \<and>
    R (J s' j) = (R (J s j))\<lparr>RState := Buried, BuryCt := BuryCt (R (J s j)) + 1\<rparr> \<and>
    BuriedCt (Stat (T s' t)) = BuriedCt (Stat (T s t)) + 1 \<and> kept D {j} a s (bury_in t j a) s'"
proof -
  let ?h = "BuriedL (T s t)" and ?xs = "a_buried a t"
  define s0 where "s0 = (if u then modJ j (\<lambda>x. x\<lparr>WalResv := WalResv x + 1\<rparr>) s else s)"
  have J0: "R (J s0 x) = R (J s x)" "JTube (J s0 x) = JTube (J s x)" "Next (J s0 x) = Next (J s x)" "Prev (J s0 x) = Prev (J s x)"
    "Reservoir (J s0 x) = Reservoir (J s x)" "HeapIndex (J s0 x) = HeapIndex (J s x)" "Body (J s0 x) = Body (J s x)"
    "x \<noteq> j \<Longrightarrow> J s0 x = J s x" for x
    by (simp_all add: s0_def upd)
  have f0: "T s0 = T s" "C s0 = C s" by (simp_all add: s0_def upd)
  have "dll (J s0) ?h ?xs" by (rule dll_frame [OF holds_dll(2) [OF assms(1,4)]]) (simp add: J0)
  moreover have "JobListEmpty j s0" using nowhere_D(1) [OF assms(2)] by (simp add: JobListEmpty_def J0)
  ultimately obtain s1 where 1: "JobListInsert ?h j s0 = Some s1" "dll (J s1) ?h (?xs @ [j])"
    "\<And>x. x \<notin> set (?h # ?xs @ [j]) \<Longrightarrow> J s1 x = J s0 x" "s1 = s0\<lparr>J := J s1\<rparr>" "\<And>x. R (J s1 x) = R (J s0 x)"
    using insert_dll [of s0 ?h ?xs j] nowhere_D(3) [OF assms(2,4)] by metis
  note k1 = insert_fields [OF 1(1)] insert_keeps [OF 1(1)]
  have f1: "nT s1 = nT s" "nC s1 = nC s" "nJ s1 = nJ s" "tubes s1 = tubes s" "T s1 = T s" "C s1 = C s" "Connes s1 = Connes s"
    "allJobs s1 = allJobs s" "Wal s1 = Wal s" "clock s1 = clock s"
    by (subst 1(4), simp add: s0_def upd)+
  define s2 where "s2 = modStat t (\<lambda>g. g\<lparr>BuriedCt := BuriedCt g + 1\<rparr>) (modG (\<lambda>g. g\<lparr>BuriedCt := BuriedCt g + 1\<rparr>) s1)"
  define s3 where "s3 = modR j (\<lambda>r. r\<lparr>BuryCt := BuryCt r + 1\<rparr>) (modJ j (\<lambda>x. x\<lparr>Reservoir := None\<rparr>) (modR j (\<lambda>r. r\<lparr>RState := Buried\<rparr>) s2))"
  let ?r = "(R (J s j))\<lparr>RState := Buried, BuryCt := BuryCt (R (J s j)) + 1\<rparr>"
  have J3: "J s3 = (J s1)(j := (J s1 j)\<lparr>Reservoir := None, R := ?r\<rparr>)" by (simp add: s3_def s2_def upd 1(5) J0)
  have run: "BuryJob j u s = Some (True, s3)"
    using assms(3,5) 1(1) k1(1)
    by (cases u) (simp_all add: BuryJob_def WalResvUpdate_def reserve_def WalWrite_def WalMain_def s3_def s2_def s0_def upd Let_def f1 comp_def)
  have f3: "nT s3 = nT s" "nC s3 = nC s" "nJ s3 = nJ s" "tubes s3 = tubes s" "C s3 = C s" "Connes s3 = Connes s"
    "allJobs s3 = allJobs s" "Wal s3 = Wal s" "clock s3 = clock s"
    by (simp_all add: s3_def s2_def upd f1)
  have T3: "same_tube (T s3 v) (T s v)" "Name (T s3 v) = Name (T s v) \<and> Pause (T s3 v) = Pause (T s v) \<and> UnpauseAt (T s3 v) = UnpauseAt (T s v)" for v
    by (simp_all add: s3_def s2_def upd f1 same_tube_def)
  have same: "same_job (J s3 x) (J s x)" for x using k1 by (simp add: same_job_def J3 1(5) J0)
  have sched: "sched_ok s3"
    using same by (intro sched_ok_cong [OF holds_D(7) [OF assms(1)]]) (simp_all add: f3 same_job_def)
  have jh: "j \<noteq> ?h" "j \<notin> set ?xs" using nowhere_D(3) [OF assms(2,4)] by simp_all
  have "buried_at (J s3) t ?h (?xs @ [j])"
  proof -
    have "dll (J s3) ?h (?xs @ [j])" by (rule dll_frame [OF 1(2)]) (simp add: J3)
    moreover have "RState (R (J s3 x)) = Buried \<and> JTube (J s3 x) = Some t" if "x \<in> set (?xs @ [j])" for x
      using that where_buried [OF assms(1,4), of x] assms(3) k1 by (cases "x = j") (auto simp: J3 1(5) J0)
    ultimately show ?thesis using head_state(1) [OF assms(1,4)] jh by (simp add: buried_at_def J3 1(5) J0)
  qed
  then have "holds (bury_in t j a) s3" unfolding bury_in_def
  proof (intro holds_setBuried [OF assms(1,4), where j = j])
    show "J s3 x = J s x" if "x \<notin> set (?h # ?xs)" "x \<noteq> j" for x using that 1(3) [of x] J0(8) [of x] by (simp add: J3)
    show "j \<in> placed a s \<Longrightarrow> j \<in> set ?xs" using assms(2) by (simp add: nowhere_def)
  qed (use T3 sched in \<open>simp_all add: f3\<close>)
  moreover have sj: "same_jobs s s3" using same T3 by (simp add: same_jobs_def f3 same_tube_def)
  moreover have "kept D {j} a s (bury_in t j a) s3"
  proof (rule kept_I [OF kept_books_same_jobs [OF sj]])
    show "J s3 x = J s x" if "x \<notin> placed a s" "x \<notin> {j}" for x
      using that 1(3) [of x] J0(8) [of x] assms(4) by (simp add: J3 placed_def)
    show "placed (bury_in t j a) s \<subseteq> placed a s \<union> {j}" using placed_moves(3) by blast
  qed (use T3(2) in \<open>simp_all add: f3 bury_in_def\<close>)
  moreover have "R (J s3 j) = ?r" "BuriedCt (Stat (T s3 t)) = BuriedCt (Stat (T s t)) + 1" by (simp add: J3, simp add: s3_def s2_def upd f1)
  ultimately show ?thesis using run f3(5) by blast
qed

lemma removeBuriedJob_moves:
  assumes "holds a s" "t < nT s" "j \<in> set (a_buried a t)"
  shows "\<exists>s1. removeBuriedJob (Some j) s = Some (Some j, s1) \<and> holds (bury_out t j a) s1 \<and> nowhere (bury_out t j a) s1 j \<and>
    same_jobs s s1 \<and> (\<forall>x. R (J s1 x) = R (J s x)) \<and> C s1 = C s \<and> ticks s1 = ticks s \<and> kept D {} a s (bury_out t j a) s1"
proof -
  have j: "RState (R (J s j)) = Buried" "JTube (J s j) = Some t" using where_buried [OF assms] by auto
  obtain s1 where 1: "JobListRemove (Some j) s = Some (Some j, s1)" "holds (bury_out t j a) s1" "nowhere (bury_out t j a) s1 j"
    "s1 = s\<lparr>J := J s1\<rparr>" "same_jobs s s1" "\<And>x. R (J s1 x) = R (J s x)" "kept D {} a s (bury_out t j a) s1"
    using unlink_buried [OF assms, of D] by blast
  have f1: "C s1 = C s" "ticks s1 = ticks s" by (subst 1(4), simp)+
  define s2 where "s2 = modStat t (\<lambda>g. g\<lparr>BuriedCt := BuriedCt g - 1\<rparr>) (modG (\<lambda>g. g\<lparr>BuriedCt := BuriedCt g - 1\<rparr>) s1)"
  have "removeBuriedJob (Some j) s = Some (Some j, s2)"
    using j 1(1) remove_keeps [OF 1(1)] by (simp add: removeBuriedJob_def s2_def upd)
  moreover have "holds (bury_out t j a) s2" unfolding s2_def by (intro holds_counters 1(2))
  moreover have "nowhere (bury_out t j a) s2 j" using 1(3) by (rule nowhere_frame) (simp_all add: s2_def upd)
  moreover have s12: "same_jobs s1 s2" by (simp add: same_jobs_def s2_def upd)
  then have "same_jobs s s2" by (rule same_jobs_trans [OF 1(5)])
  moreover have "kept D {} (bury_out t j a) s1 (bury_out t j a) s2"
    by (rule kept_frame [OF kept_books_same_jobs [OF s12]]) (simp_all add: s2_def upd)
  then have "kept D {} a s (bury_out t j a) s2" by (rule kept_trans [OF 1(7)])
  ultimately show ?thesis using 1(6) f1 by (intro exI [of _ s2]) (simp add: s2_def upd)
qed

end
