(* ===== verification/Commands.thy ===== *)
theory Commands
  imports Lifecycle
begin

text \<open>
  The commands of a worker as moves of jobs: what \<open>delete\<close>, \<open>release\<close>, \<open>reserve\<close>, \<open>kick\<close> and the end
  of a \<open>put\<close> do to the places of theory Places and what they reply, and what closing a connection
  does with the jobs it holds. The log is not in use.
\<close>

section \<open>Frames for the bookkeeping of commands\<close>

lemma holds_count_op: "holds a s \<Longrightarrow> holds a (count_op x s)"
  by (rule holds_frame) (auto simp: upd intro: sched_ok_cong [of s] dest: holds_D(7))

lemma holds_JobFree: "holds a s \<Longrightarrow> nowhere a s j \<Longrightarrow> holds a (JobFree (Some j) s)"
proof -
  assume h: "holds a s" and n: "nowhere a s j"
  let ?s = "modJ j (\<lambda>x. x\<lparr>JTube := None\<rparr>) s"
  have h1: "holds a ?s" using n by (intro holds_modJ h) (simp_all add: nowhere_def)
  have "holds a (?s\<lparr>allJobs := m\<rparr>)" for m
    using holds_D(7) [OF h1] by (intro holds_frame [OF h1]) (auto intro: sched_ok_cong [of ?s])
  then show ?thesis using h1 by (simp add: JobFree_def Let_def)
qed

lemma answered_nowhere:
  assumes "answered c s s'" "nowhere a s j"
  shows "nowhere a s' j"
proof -
  have "ReservedJobs (C s' d) = ReservedJobs (C s d)" for d
    using answered_D(13,14) [OF assms(1)] by (cases "d = c") (simp_all add: kept_conn_def same_conn_def)
  then show ?thesis using assms(2) by (elim nowhere_frame) (simp_all add: answered_D [OF assms(1)])
qed

lemma reply_holds:
  assumes "holds a s" "c < nC s"
  shows "\<exists>s'. replyMsg c m s = Some s' \<and> answered c s s' \<and> holds a s' \<and> Reply (C s' c) = m \<and>
      ReplyLen (C s' c) = int (length m) \<and> ReplySent (C s' c) = 0 \<and> CState (C s' c) = StateSendWord"
    "\<exists>s'. replyLine c st l s = Some s' \<and> answered c (modC c (\<lambda>x. x\<lparr>ReplyBuf := l\<rparr>) s) s' \<and> holds a s' \<and> Reply (C s' c) = l \<and>
      ReplyLen (C s' c) = int (length l) \<and> ReplySent (C s' c) = 0 \<and> CState (C s' c) = st"
proof -
  show "\<exists>s'. replyMsg c m s = Some s' \<and> answered c s s' \<and> holds a s' \<and> Reply (C s' c) = m \<and>
      ReplyLen (C s' c) = int (length m) \<and> ReplySent (C s' c) = 0 \<and> CState (C s' c) = StateSendWord"
    using replyMsg_total [OF holds_dll(1) [OF assms] holds_D(7) [OF assms(1)] assms(2)] answered_holds [OF _ assms(1)] by blast
  let ?s = "modC c (\<lambda>x. x\<lparr>ReplyBuf := l\<rparr>) s"
  have "holds a ?s" by (intro holds_modC assms(1)) (simp_all add: same_conn_def)
  then show "\<exists>s'. replyLine c st l s = Some s' \<and> answered c ?s s' \<and> holds a s' \<and> Reply (C s' c) = l \<and>
      ReplyLen (C s' c) = int (length l) \<and> ReplySent (C s' c) = 0 \<and> CState (C s' c) = st"
    using replyLine_total [OF holds_dll(1) [OF assms] holds_D(7) [OF assms(1)] assms(2)] answered_holds by blast
qed

section \<open>delete\<close>

lemma delete_held:
  assumes "holds a s" "c < nC s" "j \<in> set (a_held a c)" "\<not> WalUse (Wal s)"
    and "read_int c (len CmdDelete) s = Some (Inr (jid, idx))" "JobFind (word_of_int jid) s = Some j"
    and "ID (R (J s j)) = word_of_int jid"
  shows "\<exists>s'. dispatchOpDelete c s = Some s' \<and> Reply (C s' c) = MsgDeleted \<and> CState (C s' c) = StateSendWord \<and>
    holds (hold_out c j a) s' \<and> nowhere (hold_out c j a) s' j \<and> JobFind (word_of_int jid) s' = None \<and>
    (\<forall>i. i \<noteq> word_of_int jid \<longrightarrow> JobFind i s' = JobFind i s) \<and>
    (\<forall>t. JTube (J s j) = Some t \<longrightarrow> TotalDeleteCt (Stat (T s' t)) = TotalDeleteCt (Stat (T s t)) + 1) \<and>
    allJobs s' = (allJobs s)(word_of_int jid := None) \<and> kept {c} {} a s (hold_out c j a) s'"
proof -
  let ?a = "hold_out c j a" and ?s0 = "count_op OpDelete s"
  have "c < nC ?s0" using assms(2) by (simp add: upd)
  from removeReservedJob_moves [OF holds_count_op [OF assms(1)] this assms(3)] obtain s1 t where
    1: "removeReservedJob c (Some j) ?s0 = Some (Some j, s1)" "JTube (J ?s0 j) = Some t"
    "holds ?a s1" "nowhere ?a s1 j" "same_jobs ?s0 s1" "TotalDeleteCt (Stat (T s1 t)) = TotalDeleteCt (Stat (T ?s0 t))"
    "\<And>x. R (J s1 x) = R (J ?s0 x)" "kept {c} {} a ?s0 ?a s1" by blast
  define s2 where "s2 = modR j (\<lambda>r. r\<lparr>RState := Invalid\<rparr>)
    (modG (\<lambda>g. g\<lparr>TotalJobsCt := TotalJobsCt g - 1, TotalDeleteCt := TotalDeleteCt g + 1\<rparr>)
      (modStat t (\<lambda>g. g\<lparr>TotalJobsCt := TotalJobsCt g - 1, TotalDeleteCt := TotalDeleteCt g + 1\<rparr>) s1))"
  define s3 where "s3 = JobFree (Some j) s2"
  have j1: "JTube (J s1 j) = Some t" "allJobs s1 = allJobs s" "Wal s1 = Wal s" "nC s1 = nC s"
    using 1(2,5) by (simp_all add: same_jobs_def same_job_def upd)
  have n1: "j \<notin> placed ?a s1" using 1(4) by (simp add: nowhere_def)
  have h2: "holds ?a s2" unfolding s2_def modR_def
    using n1 by (intro holds_modJ holds_counters 1(3)) (simp_all add: placed_def upd)
  have n2: "nowhere ?a s2 j" using 1(4) by (rule nowhere_frame) (simp_all add: s2_def upd loose_links_def)
  have h3: "holds ?a s3" unfolding s3_def by (rule holds_JobFree [OF h2 n2])
  have n3: "nowhere ?a s3 j" using n2 by (rule nowhere_frame) (simp_all add: s3_def JobFree_def Let_def upd loose_links_def)
  have w2: "WalWrite j s2 = Some (True, s2)" "WalMain s2 = Some s2"
    using assms(4) j1(3) by (simp_all add: WalWrite_def WalMain_def s2_def upd)
  have a3: "allJobs s3 = (allJobs s)(word_of_int jid := None)"
    using assms(7) j1(2) 1(7) by (simp add: s3_def s2_def JobFree_def Let_def upd go_const)
  have c3: "c < nC s3" using assms(2) j1(4) by (simp add: s3_def s2_def JobFree_def Let_def upd)
  from reply_holds(1) [OF h3 c3] obtain s' where r: "replyMsg c MsgDeleted s3 = Some s'" "answered c s3 s'" "holds ?a s'"
    "Reply (C s' c) = MsgDeleted" "CState (C s' c) = StateSendWord" by blast
  have "dispatchOpDelete c s = Some s'"
    using 1(1) j1(1) w2 r(1) assms(5,6) unfolding s3_def s2_def
    by (simp add: dispatchOpDelete_def on_ok_def JobFind_def Let_def upd)
  moreover have "nowhere ?a s' j" by (rule answered_nowhere [OF r(2) n3])
  moreover have "TotalDeleteCt (Stat (T s' t)) = TotalDeleteCt (Stat (T s t)) + 1"
    using 1(6) answered_D(3) [OF r(2)] by (simp add: s3_def s2_def JobFree_def Let_def upd)
  moreover have "JTube (J s j) = Some t" using 1(2) by (simp add: upd)
  moreover have "kept {c} {} a s ?a s'"
  proof (rule kept_less)
    have "kept {c} {j} a s a ?s0" "kept {c} {j} ?a s1 ?a s3"
      by (rule kept_frame; simp add: kept_books_def s3_def s2_def JobFree_def Let_def upd)+
    moreover have "kept {c} {j} a ?s0 ?a s1" using 1(8) by (rule kept_mono) simp_all
    ultimately show "kept {c} {j} a s ?a s'" using kept_trans kept_answered [OF r(2)] by metis
    show "j \<in> placed a s" using placed_intro(4) [OF assms(2)] assms(3) by simp
  qed
  ultimately show ?thesis using r(3-5) a3 answered_D(8) [OF r(2)] by (intro exI [of _ s']) (simp add: JobFind_def)
qed

text \<open>C8: \<open>delete\<close> of a job the connection holds is answered \<open>DELETED\<close>: the job leaves the connection's
  list, stands nowhere any more, and is no longer found under its id; every other job stays where it is and
  is found as before. The tube counts the deletion.\<close>

theorem delete_reserved:
  assumes "holds a s" "c < nC s" "j \<in> set (a_held a c)" "\<not> WalUse (Wal s)"
    and "read_int c (len CmdDelete) s = Some (Inr (jid, idx))" "JobFind (word_of_int jid) s = Some j"
    and "ID (R (J s j)) = word_of_int jid"
  shows "\<exists>s'. dispatchOpDelete c s = Some s' \<and> Reply (C s' c) = MsgDeleted \<and> CState (C s' c) = StateSendWord \<and>
    holds (hold_out c j a) s' \<and> nowhere (hold_out c j a) s' j \<and> JobFind (word_of_int jid) s' = None \<and>
    (\<forall>i. i \<noteq> word_of_int jid \<longrightarrow> JobFind i s' = JobFind i s) \<and>
    (\<forall>t. JTube (J s j) = Some t \<longrightarrow> TotalDeleteCt (Stat (T s' t)) = TotalDeleteCt (Stat (T s t)) + 1)"
  using delete_held [OF assms] by blast

section \<open>Enqueueing and the service after it\<close>

text \<open>Where an enqueued job goes, and the service that follows.\<close>

definition enqueue_in :: "int \<Rightarrow> tref \<Rightarrow> jref \<Rightarrow> places \<Rightarrow> places" where
  "enqueue_in d t j a = (if 0 < d then delay_in t j a else ready_in t j a)"

definition served_after :: "places \<Rightarrow> places \<Rightarrow> world \<Rightarrow> bool" where
  "served_after a a' s \<longleftrightarrow> (\<exists>n. let ts = open_tubes (clock s n) s in (serve ts (JobPriLess (J s)))\<^sup>*\<^sup>* a a' \<and> unmatched ts a')"

lemma served_after_matched: "matched (clock s n) a a' s s' \<Longrightarrow> served_after a a' s'"
proof -
  assume m: "matched (clock s n) a a' s s'"
  then have st: "settled (clock s n) s s'" by (simp add: matched_def)
  then have "clock s' n = clock s n" "open_tubes (clock s n) s' = open_tubes (clock s n) s" by (simp_all add: settled_def)
  then show ?thesis using m settled_less [OF st] unfolding served_after_def matched_def
    by (intro exI [of _ n]) (simp add: Let_def)
qed

lemma served_after_answered: "answered c s s' \<Longrightarrow> served_after a a' s \<Longrightarrow> served_after a a' s'"
  by (simp add: served_after_def answered_D open_tubes_def)

lemma kept_entered:
  assumes "placed b s \<subseteq> insert j (placed a s)" "kept {} {} b s1 a' s'" "idle a' s'" "spared {} {} b s b s1" "a_waiting b = a_waiting a"
  shows "kept {} {j} a s a' s'"
proof -
  have "spared {} {j} a s b s" using assms(1,5) by (intro spared_I) (auto simp: kept_books_refl)
  moreover have "spared {} {j} b s b s1" "spared {} {j} b s1 a' s'"
    using assms(2,4) spared_mono unfolding kept_def by blast+
  ultimately show ?thesis using spared_trans assms(3) unfolding kept_def by blast
qed

lemma enqueueJob_moves:
  assumes "holds a s" "nowhere a s j" "JTube (J s j) = Some t" "t < nT s" "\<not> WalUse (Wal s)" "\<forall>t<nT s. c \<notin># a_waiting a t"
  shows "\<exists>s' a'. enqueueJob j d u s = Some (1, s') \<and> holds a' s' \<and> served_after (enqueue_in d t j a) a' s' \<and>
    kept {} {j} a s a' s' \<and> nT s' = nT s \<and> nC s' = nC s \<and> allJobs s' = allJobs s \<and> Wal s' = Wal s \<and> (\<forall>x. same_job (J s' x) (J s x)) \<and>
    C s' c = C s c \<and> a_held a' c = a_held a c \<and> a_buried a' = a_buried a \<and> a_delayed a' = a_delayed (enqueue_in d t j a) \<and>
    (0 < d \<longrightarrow> DeadlineAt (R (J s' j)) = i64 (clock s (ticks s) + d))"
proof (cases "0 < d")
  case True
  from enqueueJob_delayed_matches [OF assms(1-5) True, of u] obtain s1 s' a' where
    e: "enqueueJob j d u s = Some (1, s')" "matched (clock s (Suc (ticks s))) (delay_in t j a) a' s1 s'" "same_jobs s s1" "C s1 = C s" "spared {} {} (delay_in t j a) s (delay_in t j a) s1"
    "R (J s1 j) = (R (J s j))\<lparr>RState := Delayed, DeadlineAt := i64 (clock s (ticks s) + d)\<rparr>" by blast
  let ?now = "clock s (Suc (ticks s))" and ?b = "delay_in t j a"
  have m: "holds a' s'" "settled ?now s1 s'" "(serve (open_tubes ?now s1) (JobPriLess (J s1)))\<^sup>*\<^sup>* ?b a'"
    "(\<forall>t<nT s1. c \<notin># a_waiting ?b t) \<longrightarrow> a_held a' c = a_held ?b c \<and> C s' c = C s1 c"
    "(\<forall>t<nT s1. j \<notin># a_ready ?b t) \<longrightarrow> R (J s' j) = R (J s1 j)"
    using e(2) by (simp_all add: matched_def)
  have f: "nT s1 = nT s" "clock s1 = clock s" using e(3) by (simp_all add: same_jobs_def)
  have "served_after ?b a' s'" by (rule served_after_matched [of s1 "Suc (ticks s)"]) (use e(2) f in simp)
  moreover have "settled ?now s s'" by (rule settled_trans [OF same_jobs_settled [OF e(3)] m(2)])
  moreover have "a_held a' c = a_held a c \<and> C s' c = C s c" using m(4) assms(6) f e(4) by (simp add: delay_in_def)
  moreover have "R (J s' j) = R (J s1 j)" using m(5) assms(2) f by (auto simp: nowhere_def placed_def delay_in_def)
  moreover note serves_keep(2,3) [OF m(3)]
  moreover have "kept {} {j} a s a' s'"
    by (rule kept_entered [OF _ matched_kept [OF e(2)] e(5)]) (rule placed_moves, simp add: delay_in_def)
  ultimately show ?thesis using e(1,6) m(1) True
    by (intro exI [of _ s'] exI [of _ a']) (simp add: enqueue_in_def settled_def delay_in_def)
next
  case False
  then have "d \<le> 0" by simp
  from enqueueJob_ready_matches [OF assms(1-5) this, of u] obtain s' a' where
    e: "enqueueJob j d u s = Some (1, s')" "matched (clock s (ticks s)) (ready_in t j a) a' s s'" by blast
  let ?now = "clock s (ticks s)" and ?b = "ready_in t j a"
  have m: "holds a' s'" "settled ?now s s'" "(serve (open_tubes ?now s) (JobPriLess (J s)))\<^sup>*\<^sup>* ?b a'"
    "(\<forall>t<nT s. c \<notin># a_waiting ?b t) \<longrightarrow> a_held a' c = a_held ?b c \<and> C s' c = C s c"
    using e(2) by (simp_all add: matched_def)
  have "served_after ?b a' s'" using e(2) by (rule served_after_matched)
  moreover have "a_held a' c = a_held a c \<and> C s' c = C s c" using m(4) assms(6) by (simp add: ready_in_def)
  moreover note serves_keep(2,3) [OF m(3)]
  moreover have "kept {} {j} a s a' s'"
    by (rule kept_entered [OF _ matched_kept [OF e(2)] spared_refl]) (rule placed_moves, simp add: ready_in_def)
  ultimately show ?thesis using e(1) m(1,2) False
    by (intro exI [of _ s'] exI [of _ a']) (simp add: enqueue_in_def settled_def ready_in_def)
qed

section \<open>put\<close>

lemma served_after_cong:
  assumes "same_jobs s s'"
  shows "served_after a a' s' = served_after a a' s"
proof -
  have "open_tubes x s' = open_tubes x s" for x using assms by (simp add: open_tubes_def same_jobs_def)
  moreover have "clock s' = clock s" using assms by (simp add: same_jobs_def)
  ultimately show ?thesis using same_jobs_less [OF assms] by (simp add: served_after_def)
qed

lemma put_arrives:
  assumes "holds a s" "c < nC s" "InJob (C s c) = Some j" "nowhere a s j" "JTube (J s j) = Some t" "t < nT s"
    and "bytes_Index (Body (J s j)) CRLF \<noteq> -1" "DrainMode s \<le> 0" "\<not> WalUse (Wal s)" "WalResv (J s j) = 0"
    and "\<forall>t<nT s. c \<notin># a_waiting a t"
  shows "\<exists>s' a'. enqueueInComingJob c s = Some s' \<and> Reply (C s' c) = MsgInsertedFmt (ID (R (J s j))) \<and>
    CState (C s' c) = StateSendWord \<and> InJob (C s' c) = None \<and> holds a' s' \<and>
    served_after (enqueue_in (Delay (R (J s j))) t j a) a' s' \<and> same_job (J s' j) (J s j) \<and> allJobs s' = allJobs s \<and>
    (0 < Delay (R (J s j)) \<longrightarrow> DeadlineAt (R (J s' j)) = i64 (clock s (ticks s) + Delay (R (J s j)))) \<and>
    kept {c} {j} a (modC c (\<lambda>x. x\<lparr>InJob := None\<rparr>) s) a' s'"
proof -
  let ?d = "Delay (R (J s j))" and ?m = "MsgInsertedFmt (ID (R (J s j)))"
  define s1 where "s1 = modJ j (\<lambda>x. x\<lparr>WalResv := 1\<rparr>) (modC c (\<lambda>x. x\<lparr>InJob := None, InJobRead := 0\<rparr>) s)"
  have nj: "j \<notin> placed a s" using assms(4) by (simp add: nowhere_def)
  have h0: "holds a (modC c (\<lambda>x. x\<lparr>InJob := None, InJobRead := 0\<rparr>) s)"
    by (rule holds_modC [OF assms(1)]) (simp_all add: same_conn_def)
  have p0: "ReservedJobs (if d = c then C s c\<lparr>InJob := None, InJobRead := 0\<rparr> else C s d) = ReservedJobs (C s d)" for d by simp
  have h1: "holds a s1" unfolding s1_def
    by (rule holds_modJ [OF h0]) (use nj in \<open>auto simp: placed_def upd p0\<close>)
  have n1: "nowhere a s1 j" using assms(4) by (rule nowhere_frame) (simp_all add: s1_def upd loose_links_def)
  have f1: "JTube (J s1 j) = Some t" "t < nT s1" "\<not> WalUse (Wal s1)" "\<forall>t<nT s1. c \<notin># a_waiting a t" "R (J s1 j) = R (J s j)"
    "same_job (J s1 j) (J s j)" "nC s1 = nC s" "allJobs s1 = allJobs s" "clock s1 (ticks s1) = clock s (ticks s)" "InJob (C s1 c) = None"
    using assms(5,6,9,11) by (simp_all add: s1_def upd same_job_def)
  obtain s2 a' where 2: "enqueueJob j ?d True s1 = Some (1, s2)" "holds a' s2" "served_after (enqueue_in ?d t j a) a' s2"
    "nC s2 = nC s1" "allJobs s2 = allJobs s1" "same_job (J s2 j) (J s1 j)" "C s2 c = C s1 c"
    "0 < ?d \<longrightarrow> DeadlineAt (R (J s2 j)) = i64 (clock s1 (ticks s1) + ?d)"
    "kept {} {j} a s1 a' s2"
    using enqueueJob_moves [OF h1 n1 f1(1-4), of ?d True] by blast
  define s3 where "s3 = modStat t (\<lambda>g. g\<lparr>TotalJobsCt := TotalJobsCt g + 1\<rparr>) (modG (\<lambda>g. g\<lparr>TotalJobsCt := TotalJobsCt g + 1\<rparr>) s2)"
  have h3: "holds a' s3" unfolding s3_def by (intro holds_counters 2(2))
  have "same_jobs s2 s3" by (simp add: same_jobs_def s3_def upd)
  then have sv: "served_after (enqueue_in ?d t j a) a' s3" using 2(3) served_after_cong by blast
  have f3: "J s3 = J s2" "C s3 = C s2" "allJobs s3 = allJobs s" "c < nC s3" "ID (R (J s3 j)) = ID (R (J s j))"
    using 2(4-6) f1 assms(2) by (simp_all add: s3_def upd same_job_def)
  obtain s' where r: "replyLine c StateSendWord ?m s3 = Some s'" "answered c (modC c (\<lambda>x. x\<lparr>ReplyBuf := ?m\<rparr>) s3) s'" "holds a' s'"
    "Reply (C s' c) = ?m" "CState (C s' c) = StateSendWord" using reply_holds(2) [OF h3 f3(4), of StateSendWord ?m] by blast
  have "enqueueInComingJob c s = Some s'"
    using assms(3,5,7-10) 2(1) 2(6) f1(1) f3(5) r(1) unfolding s3_def s1_def
    by (simp add: enqueueInComingJob_def WalResvPut_def reserve_def Let_def comp_def upd same_job_def)
  moreover have "J s' = J s2" "InJob (C s' c) = None" "allJobs s' = allJobs s"
    using answered_D [OF r(2)] f3(1-3) 2(7) f1(10) by (simp_all add: upd kept_conn_def)
  moreover have "same_jobs s3 (modC c (\<lambda>x. x\<lparr>ReplyBuf := ?m\<rparr>) s3)" by (simp add: same_jobs_def upd)
  from served_after_cong [OF this] sv have "served_after (enqueue_in ?d t j a) a' s'"
    by (intro served_after_answered [OF r(2)]) blast
  moreover have "same_job (J s2 j) (J s j)" using 2(6) f1(6) by (simp add: same_job_def)
  moreover have "kept {c} {j} a (modC c (\<lambda>x. x\<lparr>InJob := None\<rparr>) s) a' s'"
  proof -
    have "kept {c} {j} a (modC c (\<lambda>x. x\<lparr>InJob := None\<rparr>) s) a s1" "kept {c} {j} a' s2 a' (modC c (\<lambda>x. x\<lparr>ReplyBuf := ?m\<rparr>) s3)"
      by (rule kept_frame; simp add: kept_books_def s3_def s1_def upd)+
    moreover have "kept {c} {j} a s1 a' s2" using 2(9) by (rule kept_mono) simp_all
    ultimately show ?thesis using kept_trans kept_answered [OF r(2)] by metis
  qed
  ultimately show ?thesis using r(3-5) 2(8) f1(9) by (intro exI [of _ s'] exI [of _ a']) simp
qed

text \<open>C5: a put whose body has arrived is answered \<open>INSERTED\<close> with the id, and the job, which stood
  nowhere, is put into the ready queue of its tube, or into the delay queue with its deadline when it has a
  delay; then waiting connections are served until no open tube has both a ready job and a waiter. The body
  and the record of the job are kept.\<close>

theorem put_moves:
  assumes "holds a s" "c < nC s" "InJob (C s c) = Some j" "nowhere a s j" "JTube (J s j) = Some t" "t < nT s"
    and "bytes_Index (Body (J s j)) CRLF \<noteq> -1" "DrainMode s \<le> 0" "\<not> WalUse (Wal s)" "WalResv (J s j) = 0"
    and "\<forall>t<nT s. c \<notin># a_waiting a t"
  shows "\<exists>s' a'. enqueueInComingJob c s = Some s' \<and> Reply (C s' c) = MsgInsertedFmt (ID (R (J s j))) \<and>
    CState (C s' c) = StateSendWord \<and> InJob (C s' c) = None \<and> holds a' s' \<and>
    served_after (enqueue_in (Delay (R (J s j))) t j a) a' s' \<and> same_job (J s' j) (J s j) \<and> allJobs s' = allJobs s \<and>
    (0 < Delay (R (J s j)) \<longrightarrow> DeadlineAt (R (J s' j)) = i64 (clock s (ticks s) + Delay (R (J s j))))"
  using put_arrives [OF assms] by blast

section \<open>release\<close>

lemma release_held:
  assumes "holds a s" "c < nC s" "j \<in> set (a_held a c)" "\<not> WalUse (Wal s)" "\<forall>t<nT s. c \<notin># a_waiting a t"
    and "read_int c (len CmdRelease) s = Some (Inr (jid, i1))" "read_int c i1 s = Some (Inr (pri, i2))"
    and "read_int c i2 s = Some (Inr (delay, i3))" "JobFind (word_of_int jid) s = Some j"
  shows "\<exists>s' a' t. dispatchOpRelease c s = Some s' \<and> Reply (C s' c) = MsgReleased \<and> CState (C s' c) = StateSendWord \<and>
    JTube (J s j) = Some t \<and> holds a' s' \<and> served_after (enqueue_in delay t j (hold_out c j a)) a' s' \<and>
    Pri (R (J s' j)) = word_of_int pri \<and> a_held a' c = remove1 j (a_held a c) \<and> JobFind (word_of_int jid) s' = Some j \<and>
    allJobs s' = allJobs s \<and> kept {c} {} a s a' s'"
proof -
  let ?a = "hold_out c j a" and ?s0 = "count_op OpRelease s"
  have "c < nC ?s0" using assms(2) by (simp add: upd)
  from removeReservedJob_moves [OF holds_count_op [OF assms(1)] this assms(3)] obtain s1 t where
    1: "removeReservedJob c (Some j) ?s0 = Some (Some j, s1)" "JTube (J ?s0 j) = Some t" "t < nT ?s0"
    "holds ?a s1" "nowhere ?a s1 j" "same_jobs ?s0 s1" "kept {c} {} a ?s0 ?a s1" by blast
  define s2 where "s2 = (if delay > 0 then modJ j (\<lambda>x. x\<lparr>WalResv := WalResv x + 1\<rparr>) s1 else s1)"
  define s3 where "s3 = modR j (\<lambda>r. r\<lparr>Pri := word_of_int pri, Delay := delay, ReleaseCt := ReleaseCt r + 1\<rparr>) s2"
  have f1: "JTube (J s1 j) = Some t" "allJobs s1 = allJobs s" "Wal s1 = Wal s" "nC s1 = nC s" "nT s1 = nT s" "t < nT s"
    using 1(2,3,6) by (simp_all add: same_jobs_def same_job_def upd)
  have n1: "j \<notin> placed ?a s1" using 1(5) by (simp add: nowhere_def)
  have h3: "holds ?a s3" unfolding s3_def modR_def s2_def
    using n1 by (auto intro!: holds_modJ 1(4)) (simp_all add: placed_def upd)
  have n3: "nowhere ?a s3 j" using 1(5) by (rule nowhere_frame) (simp_all add: s3_def s2_def upd loose_links_def)
  have f3: "JTube (J s3 j) = Some t" "t < nT s3" "\<not> WalUse (Wal s3)" "\<forall>t<nT s3. c \<notin># a_waiting ?a t"
    "nC s3 = nC s" "allJobs s3 = allJobs s" "Pri (R (J s3 j)) = word_of_int pri"
    using f1 assms(4,5) by (simp_all add: s3_def s2_def upd hold_out_def)
  from enqueueJob_moves [OF h3 n3 f3(1-4), of delay "delay \<le> 0"] obtain s4 a' where
    4: "enqueueJob j delay (delay \<le> 0) s3 = Some (1, s4)" "holds a' s4" "served_after (enqueue_in delay t j ?a) a' s4"
    "nC s4 = nC s3" "allJobs s4 = allJobs s3" "same_job (J s4 j) (J s3 j)" "a_held a' c = a_held ?a c" "kept {} {j} ?a s3 a' s4" by blast
  have "c < nC s4" using 4(4) f3(5) assms(2) by simp
  from reply_holds(1) [OF 4(2) this] obtain s' where r: "replyMsg c MsgReleased s4 = Some s'" "answered c s4 s'" "holds a' s'"
    "Reply (C s' c) = MsgReleased" "CState (C s' c) = StateSendWord" by blast
  have "dispatchOpRelease c s = Some s'"
    using 1(1) 4(1) r(1) assms(4,6-9) f1(3) unfolding s3_def s2_def
    by (simp add: dispatchOpRelease_def on_ok_def JobFind_def WalResvUpdate_def reserve_def Let_def upd split: if_splits)
  moreover have "Pri (R (J s' j)) = word_of_int pri" using 4(6) f3(7) answered_D(1) [OF r(2)] by (simp add: same_job_def)
  moreover have "JobFind (word_of_int jid) s' = Some j"
    using 4(5) f3(6) answered_D(8) [OF r(2)] assms(9) by (simp add: JobFind_def)
  moreover have "JTube (J s j) = Some t" using 1(2) by (simp add: upd)
  moreover have "kept {c} {} a s a' s'"
  proof (rule kept_less)
    have "kept {c} {j} a s a ?s0" "kept {c} {j} ?a s1 ?a s3"
      by (rule kept_frame; simp add: kept_books_def s3_def s2_def upd)+
    moreover have "kept {c} {j} a ?s0 ?a s1" "kept {c} {j} ?a s3 a' s4"
      using kept_mono [OF 1(7)] kept_mono [OF 4(8)] by simp_all
    ultimately show "kept {c} {j} a s a' s'" using kept_trans kept_answered [OF r(2)] by metis
    show "j \<in> placed a s" using placed_intro(4) [OF assms(2)] assms(3) by simp
  qed
  moreover have "allJobs s' = allJobs s" using 4(5) f3(6) answered_D(8) [OF r(2)] by simp
  ultimately show ?thesis using r(3-5) served_after_answered [OF r(2) 4(3)] 4(7)
    by (intro exI [of _ s'] exI [of _ a'] exI [of _ t]) (simp add: hold_out_def)
qed

text \<open>C7: \<open>release\<close> of a job the connection holds is answered \<open>RELEASED\<close>: the job gets the new priority and
  leaves the connection's list for the ready queue of its tube, or for the delay queue when a delay is
  given; then waiting connections are served until no open tube has both a ready job and a waiter.\<close>

theorem release_moves:
  assumes "holds a s" "c < nC s" "j \<in> set (a_held a c)" "\<not> WalUse (Wal s)" "\<forall>t<nT s. c \<notin># a_waiting a t"
    and "read_int c (len CmdRelease) s = Some (Inr (jid, i1))" "read_int c i1 s = Some (Inr (pri, i2))"
    and "read_int c i2 s = Some (Inr (delay, i3))" "JobFind (word_of_int jid) s = Some j"
  shows "\<exists>s' a' t. dispatchOpRelease c s = Some s' \<and> Reply (C s' c) = MsgReleased \<and> CState (C s' c) = StateSendWord \<and>
    JTube (J s j) = Some t \<and> holds a' s' \<and> served_after (enqueue_in delay t j (hold_out c j a)) a' s' \<and>
    Pri (R (J s' j)) = word_of_int pri \<and> a_held a' c = remove1 j (a_held a c) \<and> JobFind (word_of_int jid) s' = Some j"
  using release_held [OF assms] by blast

section \<open>reserve\<close>

lemma unmatched_stop: "(serve ts lt)\<^sup>*\<^sup>* a b \<Longrightarrow> unmatched ts a \<Longrightarrow> b = a"
proof (erule converse_rtranclpE)
  fix y assume "unmatched ts a" "serve ts lt a y"
  then show "b = a" by (auto elim!: serve_cases simp: unmatched_def)
qed simp

lemma serve_only_one:
  assumes "(serve ts lt)\<^sup>*\<^sup>* b a'" "unmatched ts a'"
    and only: "\<And>t d. t \<in> ts \<Longrightarrow> a_ready b t \<noteq> {#} \<Longrightarrow> d \<in># a_waiting b t \<Longrightarrow> d = c"
    and "t0 \<in> ts" "a_ready b t0 \<noteq> {#}" "a_waiting b t0 \<noteq> {#}"
  shows "\<exists>t j. t \<in> ts \<and> j \<in># a_ready b t \<and> c \<in># a_waiting b t \<and>
    (\<forall>u\<in>ts. \<forall>i\<in>#a_ready b u. a_waiting b u \<noteq> {#} \<longrightarrow> \<not> lt i j) \<and> a' = give t j c b"
  using assms(1)
proof (cases rule: converse_rtranclpE)
  case base
  then show ?thesis using assms(2,4-6) by (auto simp: unmatched_def)
next
  case (step y)
  from step(1) obtain t j d where s: "y = give t j d b" "t \<in> ts" "j \<in># a_ready b t" "d \<in># a_waiting b t"
    "\<forall>u\<in>ts. \<forall>i\<in>#a_ready b u. a_waiting b u \<noteq> {#} \<longrightarrow> \<not> lt i j" by (rule serve_cases) blast
  have d: "d = c" using s(3) by (intro only [OF s(2) _ s(4)]) auto
  have "unmatched ts y" unfolding unmatched_def
  proof
    fix u assume u: "u \<in> ts"
    show "a_ready y u = {#} \<or> a_waiting y u = {#}"
    proof (cases "a_ready b u = {#}")
      case True
      then show ?thesis by (auto simp: s(1) give_places)
    next
      case False
      then have "\<forall>e\<in>#a_waiting b u. e = c" using only u by blast
      then have "a_waiting y u = {#}" by (simp add: s(1) give_places d filter_mset_eq_mempty_iff)
      then show ?thesis ..
    qed
  qed
  then have "a' = y" using unmatched_stop [OF step(2)] by blast
  then show ?thesis using s d by blast
qed

lemma holds_waiting_cong:
  assumes "holds a s" "\<And>t. t < nT s \<Longrightarrow> a_waiting b t = a_waiting a t" "a_ready b = a_ready a" "a_delayed b = a_delayed a"
    "a_buried b = a_buried a" "a_held b = a_held a"
  shows "holds b s"
  using assms by (simp add: holds_def waits_ok_def)

lemma holds_modC_free:
  assumes "holds a s" "\<forall>t<nT s. c \<notin># a_waiting a t"
    and "\<And>x. ReservedJobs (f x) = ReservedJobs x \<and> TickPos (f x) = TickPos x \<and> InCoons (f x) = InCoons x"
  shows "holds a (modC c f s)"
proof -
  let ?s = "modC c f s"
  have r: "ReservedJobs (C ?s d) = ReservedJobs (C s d)" for d by (simp add: upd assms(3))
  have w: "C ?s d = C s d" if "t < nT s" "d \<in># a_waiting a t" for d t using that assms(2) by (auto simp: upd)
  have f: "J ?s = J s" "T ?s = T s" "nT ?s = nT s" "nC ?s = nC s" "tubes ?s = tubes s" by (simp_all add: upd)
  have "waits_ok a ?s" using holds_D(6) [OF assms(1)] w by (simp add: waits_ok_def f)
  moreover have "sched_ok ?s" by (rule sched_ok_cong [OF holds_D(7) [OF assms(1)]]) (simp_all add: upd assms(3))
  moreover have "heads_ok ?s" using holds_D(5) [OF assms(1)] by (simp add: heads_ok_def r f)
  ultimately show ?thesis using assms(1) by (simp add: holds_def r f)
qed

lemma connSetWorker_holds:
  assumes "holds a s" "\<forall>t<nT s. c \<notin># a_waiting a t"
  shows "holds a (connSetWorker c s)" "same_jobs s (connSetWorker c s)" "T (connSetWorker c s) = T s"
    "Watch (C (connSetWorker c s) d) = Watch (C s d)" "CmdLen (C (connSetWorker c s) d) = CmdLen (C s d)"
proof -
  let ?s = "modC c (\<lambda>x. x\<lparr>CType := CType x OR ConnTypeWorker\<rparr>) s"
  have h: "holds a ?s" by (rule holds_modC_free [OF assms]) simp
  have "holds a (?s\<lparr>CurWorkerCt := k\<rparr>)" for k
    using holds_D(7) [OF h] by (intro holds_frame [OF h]) (auto intro: sched_ok_cong [of ?s])
  then show "holds a (connSetWorker c s)" using assms(1) by (simp add: connSetWorker_def Let_def)
qed (simp_all add: connSetWorker_def Let_def upd same_jobs_def)

lemma connDeadLineSoon_total:
  assumes "holds a s" "c < nC s"
  shows "\<exists>b s'. connDeadLineSoon c s = Some (b, s') \<and> answered c s s' \<and> holds a s'"
proof -
  let ?s = "s\<lparr>ticks := Suc (ticks s)\<rparr>"
  have a1: "answered c s ?s" using time_Now_answered [of c s] by (simp add: time_Now_def)
  have h: "holds a ?s" by (rule holds_ticks [OF assms(1)])
  obtain jp s' where 1: "connSoonestJob c ?s = Some (jp, s')" "answered c ?s s'" "Connes s' = Connes ?s" "InCoons (C s' c) = InCoons (C ?s c)"
    using connSoonestJob_total [OF holds_dll(1) [OF h, of c]] assms(2) by auto
  have "holds a s'" by (rule answered_holds [OF 1(2) h answered_sched [OF 1(2) holds_D(7) [OF h] 1(3,4)]])
  then show ?thesis using 1(1) answered_trans [OF a1 1(2)]
    by (cases jp) (auto simp: connDeadLineSoon_def time_Now_def)
qed

lemma enqueueWaitingConn_moves:
  assumes "holds a s" "c < nC s" "\<forall>t<nT s. c \<notin># a_waiting a t"
  shows "holds (wait_in c (ms_items (Watch (C s c))) a) (enqueueWaitingConn c s)" "same_jobs s (enqueueWaitingConn c s)"
    "Watch (C (enqueueWaitingConn c s) c) = Watch (C s c)" "nC (enqueueWaitingConn c s) = nC s"
    "J (enqueueWaitingConn c s) = J s" "d \<noteq> c \<Longrightarrow> C (enqueueWaitingConn c s) d = C s d" "CState (C (enqueueWaitingConn c s) c) = CState (C s c)"
proof -
  define x where "x = (C s c)\<lparr>CType := CType (C s c) OR ConnTypeWaiting\<rparr>"
  define n where "n t = count_list (ms_items (Watch (C s c))) t" for t
  let ?s = "enqueueWaitingConn c s"
  have s: "?s = s\<lparr>C := (C s)(c := x), GlobalState := (GlobalState s)\<lparr>WaitingCt := WaitingCt (GlobalState s) + 1\<rparr>,
      T := \<lambda>t. (join_tube c ^^ n t) (T s t)\<rparr>"
    by (simp add: enqueueWaitingConn_fold fold_modT upd n_def x_def)
  have W: "waits_ok a s" by (rule holds_D(6) [OF assms(1)])
  have cx: "connWaiting x"
  proof -
    have "bit (x AND ConnTypeWaiting) 2" if "bit x 2" for x :: int using that by (simp add: ConnTypeWaiting_def bit_simps)
    have "(CType (C s c) OR ConnTypeWaiting) AND ConnTypeWaiting = ConnTypeWaiting"
      by (rule bit_eqI) (auto simp: bit_simps)
    then show ?thesis by (simp add: x_def connWaiting_def ConnTypeWaiting_def)
  qed
  have "mset (ms_items (WaitingConns ((join_tube c ^^ n t) (T s t)))) = a_waiting a t + replicate_mset (n t) c" if "t < nT s" for t
    using W that by (simp add: join_pow(2) waits_ok_def)
  moreover have "d < nC s \<and> connWaiting (C ?s d) \<and>
      count (a_waiting a t + replicate_mset (n t) c) d \<le> count_list (ms_items (Watch (C ?s d))) t"
    if "t < nT s" "d \<in># a_waiting a t + replicate_mset (n t) c" for t d
  proof (cases "d = c")
    case True
    then show ?thesis using assms(2,3) that(1) cx by (simp add: s x_def n_def not_in_iff)
  next
    case False
    then have "d \<in># a_waiting a t" using that(2) by (auto split: if_splits)
    then have "d < nC s \<and> connWaiting (C s d) \<and> count (a_waiting a t) d \<le> count_list (ms_items (Watch (C s d))) t"
      using W that(1) by (auto simp: waits_ok_def)
    then show ?thesis using False by (simp add: s)
  qed
  ultimately have "waits_ok (wait_in c (ms_items (Watch (C s c))) a) ?s"
    using W unfolding waits_ok_def wait_in_def by (simp add: s n_def)
  moreover have "sched_ok ?s" by (rule sched_ok_cong [OF holds_D(7) [OF assms(1)]]) (simp_all add: s x_def)
  ultimately show "holds (wait_in c (ms_items (Watch (C s c))) a) ?s" unfolding wait_in_def
    by (intro holds_setWaiting [OF assms(1)]) (simp_all add: s x_def pow_fields)
  have "Name ((join_tube c ^^ k) y) = Name y" for k y by (subst join_pow(1)) simp
  then show "same_jobs s ?s" by (simp add: same_jobs_def s pow_fields x_def)
  show "Watch (C ?s c) = Watch (C s c)" "nC ?s = nC s" "J ?s = J s" "d \<noteq> c \<Longrightarrow> C ?s d = C s d" "CState (C ?s c) = CState (C s c)"
    by (simp_all add: s x_def)
qed

text \<open>Nobody can be served before the command: wherever a job is ready, no connection waits.\<close>

definition calm :: "places \<Rightarrow> world \<Rightarrow> bool" where
  "calm a s \<longleftrightarrow> (\<forall>t<nT s. a_ready a t = {#} \<or> a_waiting a t = {#})"

text \<open>Scheduling a connection leaves the states of connections alone.\<close>

lemma setSoonestJob_state: "CState (C (setSoonestJob c j s) d) = CState (C s d)"
  using setSoonestJob_shape [of c j s] by (auto simp: upd)

lemma soonest_loop_state: "soonest_loop c jp s = Some s' \<Longrightarrow> CState (C s' d) = CState (C s d)"
proof (induction rule: soonest_loop.raw_induct [rotated, consumes 1])
  case (1 f c jp s y)
  from 1(2) show ?case by (auto simp: setSoonestJob_state Let_def dest!: 1(1) split: option.splits if_splits)
qed

lemma coonTickAt_state: "coonTickAt c s = Some (t, s') \<Longrightarrow> CState (C s' d) = CState (C s d)"
  by (auto simp: coonTickAt_def connSoonestJob_def time_Now_def Let_def soonest_loop_state split: if_splits Option.bind_splits prod.splits)

lemma EpollQAdd_state: "EpollQAdd c rw s = Some s' \<Longrightarrow> CState (C s' d) = CState (C s d)"
  by (auto simp: EpollQAdd_def connSched_def Connes_Remove_def Connes_Push_def Let_def upd coonTickAt_state
      split: if_splits Option.bind_splits prod.splits)

lemma waitForJob_moves:
  assumes "holds a s" "c < nC s" "\<forall>t<nT s. c \<notin># a_waiting a t"
  shows "\<exists>s'. waitForJob c timeout s = Some s' \<and> holds (wait_in c (ms_items (Watch (C s c))) a) s' \<and> same_jobs s s' \<and>
    J s' = J s \<and> (\<forall>d. d \<noteq> c \<longrightarrow> C s' d = C s d) \<and> CState (C s' c) = StateWait"
proof -
  let ?b = "wait_in c (ms_items (Watch (C s c))) a"
  define s1 where "s1 = modC c (\<lambda>x. x\<lparr>CState := StateWait\<rparr>) s"
  define s2 where "s2 = enqueueWaitingConn c s1"
  define s3 where "s3 = modC c (\<lambda>x. x\<lparr>PendingTimeout := timeout\<rparr>) s2"
  have h1: "holds a s1" unfolding s1_def by (rule holds_modC_free [OF assms(1,3)]) simp
  have f1: "c < nC s1" "\<forall>t<nT s1. c \<notin># a_waiting a t" "Watch (C s1 c) = Watch (C s c)" "same_jobs s s1"
    using assms(2,3) by (simp_all add: s1_def upd same_jobs_def)
  note w = enqueueWaitingConn_moves [OF h1 f1(1,2), unfolded f1(3), folded s2_def]
  have h3: "holds ?b s3" unfolding s3_def by (rule holds_modC [OF w(1)]) (simp_all add: same_conn_def)
  have c3: "c < nC s3" using f1(1) w(4) by (simp add: s3_def upd)
  obtain s' where e: "EpollQAdd c (CHR ''h'') s3 = Some s'" "answered c s3 s'" "sched_ok s'"
    using EpollQAdd_total [OF holds_dll(1) [OF h3 c3] holds_D(7) [OF h3] c3] by blast
  have "same_jobs s2 s3" by (simp add: s3_def upd same_jobs_def)
  then have "same_jobs s s'"
    using same_jobs_trans [OF same_jobs_trans [OF same_jobs_trans [OF f1(4) w(2)]] same_jobs_answered [OF e(2)]] by blast
  moreover have "J s' = J s" using answered_D(1) [OF e(2)] w(5) by (simp add: s3_def s1_def upd)
  moreover have "C s' d = C s d" if "d \<noteq> c" for d using that answered_D(14) [OF e(2)] w(6) by (simp add: s3_def s1_def upd)
  moreover have "CState (C s' c) = StateWait" using EpollQAdd_state [OF e(1)] w(7) by (simp add: s3_def s1_def upd)
  ultimately show ?thesis using e(1) answered_holds [OF e(2) h3 e(3)] by (simp add: waitForJob_def s3_def s2_def s1_def)
qed

lemma connReady_iff:
  assumes "holds a s" "set (ms_items (Watch (C s c))) \<subseteq> {..<nT s}"
  shows "connReady c s \<longleftrightarrow> (\<exists>t\<in>set (ms_items (Watch (C s c))). a_ready a t \<noteq> {#})"
proof -
  have "heap_Len (ReadyQ (T s t)) > 0 \<longleftrightarrow> a_ready a t \<noteq> {#}" if "t < nT s" for t
  proof -
    have "heap_vals (ReadyQ (T s t)) = a_ready a t" using holds_D(1) [OF assms(1) that] by (simp add: queued_def)
    then have "size (a_ready a t) = length (ReadyQ (T s t))" using size_heap_vals [of "ReadyQ (T s t)"] by simp
    then show ?thesis by (auto simp: heap_Len_def)
  qed
  then show ?thesis using assms(2) by (auto simp: connReady_def ms_search_def find_None_iff)
qed


end
