(* ===== verification/Returns.thy ===== *)
theory Returns
  imports Commands
begin

text \<open>
  Jobs that come back to a tube: buried jobs dug out by \<open>kick\<close>, jobs put away by \<open>bury\<close>, and the jobs a
  connection still holds when it is closed, over the places of theory Places. The log is not in use.
\<close>

section \<open>bury\<close>

lemma bury_held:
  assumes "holds a s" "c < nC s" "j \<in> set (a_held a c)" "\<not> WalUse (Wal s)"
    and "read_int c (len CmdRelease) s = Some (Inr (jid, i1))" "read_int c i1 s = Some (Inr (pri, i2))"
    and "JobFind (word_of_int jid) s = Some j"
  shows "\<exists>s' t. dispatchOpBury c s = Some s' \<and> Reply (C s' c) = MsgBuried \<and> CState (C s' c) = StateSendWord \<and>
    JTube (J s j) = Some t \<and> holds (bury_in t j (hold_out c j a)) s' \<and>
    R (J s' j) = (R (J s j))\<lparr>Pri := word_of_int pri, RState := Buried, BuryCt := BuryCt (R (J s j)) + 1\<rparr> \<and>
    allJobs s' = allJobs s \<and> kept {c} {} a s (bury_in t j (hold_out c j a)) s'"
proof -
  let ?a = "hold_out c j a" and ?s0 = "count_op OpBury s"
  have "c < nC ?s0" using assms(2) by (simp add: upd)
  from removeReservedJob_moves [OF holds_count_op [OF assms(1)] this assms(3)] obtain s1 t where
    1: "removeReservedJob c (Some j) ?s0 = Some (Some j, s1)" "JTube (J ?s0 j) = Some t" "t < nT ?s0"
    "holds ?a s1" "nowhere ?a s1 j" "same_jobs ?s0 s1" "\<And>x. R (J s1 x) = R (J ?s0 x)" "kept {c} {} a ?s0 ?a s1" by blast
  define s2 where "s2 = modR j (\<lambda>r. r\<lparr>Pri := word_of_int pri\<rparr>) s1"
  have "j \<notin> placed ?a s1" using 1(5) by (simp add: nowhere_def)
  then have h2: "holds ?a s2" unfolding s2_def modR_def by (intro holds_modJ 1(4)) (simp_all add: placed_def upd)
  have n2: "nowhere ?a s2 j" using 1(5) by (rule nowhere_frame) (simp_all add: s2_def upd loose_links_def)
  have f2: "JTube (J s2 j) = Some t" "t < nT s2" "\<not> WalUse (Wal s2)" "nC s2 = nC s" "allJobs s1 = allJobs s"
    using 1(2,3,6) assms(4) by (simp_all add: s2_def same_jobs_def same_job_def upd)
  obtain s3 where 3: "BuryJob j True s2 = Some (True, s3)" "holds (bury_in t j ?a) s3" "same_jobs s2 s3"
    "R (J s3 j) = (R (J s2 j))\<lparr>RState := Buried, BuryCt := BuryCt (R (J s2 j)) + 1\<rparr>" "kept {c} {j} ?a s2 (bury_in t j ?a) s3"
    using BuryJob_moves [OF h2 n2 f2(1-3)] by blast
  have "c < nC s3" using 3(3) f2(4) assms(2) by (simp add: same_jobs_def)
  from reply_holds(1) [OF 3(2) this] obtain s' where r: "replyMsg c MsgBuried s3 = Some s'" "answered c s3 s'"
    "holds (bury_in t j ?a) s'" "Reply (C s' c) = MsgBuried" "CState (C s' c) = StateSendWord" by blast
  have "dispatchOpBury c s = Some s'"
    using 1(1) 3(1) r(1) assms(5-7) unfolding s2_def
    by (simp add: dispatchOpBury_def on_ok_def JobFind_def Let_def upd)
  moreover have "R (J s' j) = (R (J s j))\<lparr>Pri := word_of_int pri, RState := Buried, BuryCt := BuryCt (R (J s j)) + 1\<rparr>"
    using 3(4) 1(7) answered_D(1) [OF r(2)] by (simp add: s2_def upd)
  moreover have "JTube (J s j) = Some t" using 1(2) by (simp add: upd)
  moreover have "kept {c} {} a s (bury_in t j ?a) s'"
  proof (rule kept_less)
    have "kept {c} {j} a s a ?s0" "kept {c} {j} ?a s1 ?a s2" by (rule kept_frame; simp add: kept_books_def s2_def upd)+
    moreover have "kept {c} {j} a ?s0 ?a s1" using 1(8) by (rule kept_mono) simp_all
    ultimately show "kept {c} {j} a s (bury_in t j ?a) s'" using kept_trans 3(5) kept_answered [OF r(2)] by metis
    show "j \<in> placed a s" using placed_intro(4) [OF assms(2)] assms(3) by simp
  qed
  moreover have "allJobs s' = allJobs s" using 3(3) f2(5) answered_D(8) [OF r(2)] by (simp add: same_jobs_def s2_def upd)
  ultimately show ?thesis using r(3-5) by blast
qed


section \<open>kick\<close>

text \<open>What a job contains and what it has reserved in the log do not matter for its place.\<close>

lemma holds_contents:
  assumes "holds a s" "\<And>x. R (f x) = R x \<and> JTube (f x) = JTube x \<and> Next (f x) = Next x \<and> Prev (f x) = Prev x \<and>
      Reservoir (f x) = Reservoir x \<and> HeapIndex (f x) = HeapIndex x"
  shows "holds a (modJ j f s)"
proof -
  let ?s = "modJ j f s"
  have k: "R (J ?s x) = R (J s x)" "JTube (J ?s x) = JTube (J s x)" "Next (J ?s x) = Next (J s x)" "Prev (J ?s x) = Prev (J s x)"
    "Reservoir (J ?s x) = Reservoir (J s x)" "HeapIndex (J ?s x) = HeapIndex (J s x)" for x
    using assms(2) by (simp_all add: upd)
  have l: "JobPriLess (J ?s) = JobPriLess (J s)" "JobDelayLess (J ?s) = JobDelayLess (J s)"
    by (simp_all add: JobPriLess_def JobDelayLess_def k fun_eq_iff)
  have d: "dll (J ?s) h xs \<longleftrightarrow> dll (J s) h xs" for h xs
    using dll_frame [of "J ?s" h xs "J s"] dll_frame [of "J s" h xs "J ?s"] k by auto
  have f: "T ?s = T s" "C ?s = C s" "nT ?s = nT s" "nC ?s = nC s" "tubes ?s = tubes s" "Connes ?s = Connes s" by (simp_all add: upd)
  have "sched_ok ?s" by (rule sched_ok_cong [OF holds_D(7) [OF assms(1)]]) (simp_all add: f k)
  then show "holds a ?s" using assms(1)
    by (simp add: holds_def queued_def buried_at_def held_by_def heads_ok_def waits_ok_def loose_links_def k l d f)
qed

lemma holds_charge: "holds a s \<Longrightarrow> holds a (modJ j (\<lambda>x. x\<lparr>WalResv := f x\<rparr>) s)"
  by (rule holds_contents) simp_all

lemma enqueueJob_calm:
  assumes "holds a s" "nowhere a s j" "JTube (J s j) = Some t" "t < nT s" "\<not> WalUse (Wal s)"
    and "calm a s" "a_waiting a t = {#}"
  shows "\<exists>s'. enqueueJob j 0 u s = Some (1, s') \<and> holds (ready_in t j a) s' \<and> settled (clock s (ticks s)) s s' \<and> C s' = C s"
proof -
  let ?now = "clock s (ticks s)" and ?b = "ready_in t j a"
  obtain s' a' where e: "enqueueJob j 0 u s = Some (1, s')" "matched ?now ?b a' s s'"
    using enqueueJob_ready_matches [OF assms(1-5) order.refl] by blast
  have "open_tubes ?now s \<subseteq> {..<nT s}" using holds_D(6) [OF assms(1)] by (auto simp: open_tubes_def waits_ok_def)
  then have "unmatched (open_tubes ?now s) ?b" using assms(6,7) by (auto simp: unmatched_def calm_def ready_in_def)
  then have a': "a' = ?b" using e(2) unmatched_stop by (auto simp: matched_def)
  have "C s' c = C s c" for c using e(2) by (auto simp: matched_def a' got_def)
  then show ?thesis using e a' by (auto simp: matched_def)
qed

lemma kickBuriedJob_moves:
  assumes "holds a s" "t < nT s" "j \<in> set (a_buried a t)" "\<not> WalUse (Wal s)" "calm a s" "a_waiting a t = {#}"
  shows "\<exists>s'. kickBuriedJob j s = Some (True, s') \<and> holds (ready_in t j (bury_out t j a)) s' \<and> C s' = C s \<and>
    nC s' = nC s \<and> nT s' = nT s \<and> Wal s' = Wal s \<and> allJobs s' = allJobs s"
proof -
  let ?a = "bury_out t j a"
  define s0 where "s0 = modJ j (\<lambda>x. x\<lparr>WalResv := WalResv x + 1\<rparr>) s"
  have b: "RState (R (J s j)) = Buried" "JTube (J s j) = Some t" using where_buried [OF assms(1-3)] by auto
  have h0: "holds a s0" unfolding s0_def by (rule holds_charge [OF assms(1)])
  have t0: "t < nT s0" using assms(2) by (simp add: s0_def upd)
  obtain s1 where 1: "removeBuriedJob (Some j) s0 = Some (Some j, s1)" "holds ?a s1" "nowhere ?a s1 j" "same_jobs s0 s1"
    "C s1 = C s0" using removeBuriedJob_moves [OF h0 t0 assms(3)] by blast
  define s2 where "s2 = modR j (\<lambda>r. r\<lparr>KickCt := KickCt r + 1\<rparr>) s1"
  have "j \<notin> placed ?a s1" using 1(3) by (simp add: nowhere_def)
  then have h2: "holds ?a s2" unfolding s2_def modR_def by (intro holds_modJ 1(2)) (simp_all add: placed_def upd)
  have n2: "nowhere ?a s2 j" using 1(3) by (rule nowhere_frame) (simp_all add: s2_def upd loose_links_def)
  have f2: "JTube (J s2 j) = Some t" "t < nT s2" "\<not> WalUse (Wal s2)" "calm ?a s2" "a_waiting ?a t = {#}"
    using 1(4) b(2) assms(2,4-6) by (auto simp: s2_def s0_def same_jobs_def same_job_def upd calm_def bury_out_def)
  obtain s3 where 3: "enqueueJob j 0 True s2 = Some (1, s3)" "holds (ready_in t j ?a) s3"
    "settled (clock s2 (ticks s2)) s2 s3" "C s3 = C s2" using enqueueJob_calm [OF h2 n2 f2] by blast
  have "kickBuriedJob j s = Some (True, s3)"
    using 1(1) 3(1) assms(4) unfolding s2_def s0_def
    by (simp add: kickBuriedJob_def WalResvUpdate_def reserve_def Let_def)
  then show ?thesis using 3(2-4) 1(4,5) by (auto simp: s2_def s0_def settled_def same_jobs_def upd)
qed

text \<open>The first \<open>n\<close> buried jobs of the tube, made ready.\<close>

definition dig :: "nat \<Rightarrow> tref \<Rightarrow> places \<Rightarrow> places" where
  "dig n t a = a\<lparr>a_ready := (a_ready a)(t := a_ready a t + mset (take n (a_buried a t))),
     a_buried := (a_buried a)(t := drop n (a_buried a t))\<rparr>"

lemma dig_step:
  assumes "a_buried a t = j # js"
  shows "dig n t (ready_in t j (bury_out t j a)) = dig (Suc n) t a"
  using assms by (simp add: dig_def ready_in_def bury_out_def)

lemma kickBuried_loop_digs:
  assumes "holds a s" "t < nT s" "\<not> WalUse (Wal s)" "calm a s" "a_waiting a t = {#}"
  shows "\<exists>s'. kickBuried_loop t n s = Some (min n (length (a_buried a t)), s') \<and> holds (dig n t a) s' \<and> C s' = C s \<and>
    nC s' = nC s \<and> nT s' = nT s \<and> allJobs s' = allJobs s"
  using assms
proof (induction n arbitrary: a s)
  case 0
  have "dig 0 t a = a" by (simp add: dig_def)
  then show ?case using 0 by simp
next
  case (Suc n)
  note d = holds_dll(2) [OF Suc.prems(1,2)]
  show ?case
  proof (cases "a_buried a t")
    case Nil
    then have "(a_buried a)(t := []) = a_buried a" by auto
    then have "dig (Suc n) t a = a" using Nil by (simp add: dig_def)
    then show ?thesis using Suc.prems(1) Nil d dll_empty_iff [OF d] by (simp add: buriedJobP_def)
  next
    case (Cons j js)
    let ?b = "ready_in t j (bury_out t j a)"
    have j: "Next (J s (BuriedL (T s t))) = Some j" "buriedJobP t s" "j \<in> set (a_buried a t)"
      using dll_empty_iff [OF d] dll_head d by (simp_all add: Cons buriedJobP_def)
    obtain s1 where 1: "kickBuriedJob j s = Some (True, s1)" "holds ?b s1" "C s1 = C s" "nC s1 = nC s" "nT s1 = nT s"
      "Wal s1 = Wal s" "allJobs s1 = allJobs s" using kickBuriedJob_moves [OF Suc.prems(1,2) j(3) Suc.prems(3-5)] by blast
    have "t < nT s1" "\<not> WalUse (Wal s1)" "calm ?b s1" "a_waiting ?b t = {#}"
      using Suc.prems(2-5) 1 by (auto simp: calm_def ready_in_def bury_out_def)
    from Suc.IH [OF 1(2) this] obtain s' where
      "kickBuried_loop t n s1 = Some (min n (length (a_buried ?b t)), s')" "holds (dig n t ?b) s'"
      "C s' = C s1" "nC s' = nC s1" "nT s' = nT s1" "allJobs s' = allJobs s1" by blast
    moreover have "a_buried ?b t = js" by (simp add: ready_in_def bury_out_def Cons)
    ultimately show ?thesis using 1 j by (intro exI [of _ s']) (simp add: dig_step [OF Cons] Cons)
  qed
qed

text \<open>C38: kicking at most \<open>n\<close> jobs of a tube that has buried ones and on which nobody waits makes the first
  \<open>n\<close> of them ready, in the order in which they were buried, or all of them when there are fewer, and counts
  them; every other job stays where it is. (It is the command that stands in the way, not the routine.)\<close>

theorem kickJobs_digs_out:
  assumes "holds a s" "t < nT s" "\<not> WalUse (Wal s)" "calm a s" "a_waiting a t = {#}" "a_buried a t \<noteq> []"
  shows "\<exists>s'. kickJobs t n s = Some (min n (length (a_buried a t)), s') \<and> holds (dig n t a) s' \<and>
    C s' = C s \<and> allJobs s' = allJobs s"
proof -
  have "buriedJobP t s" using dll_empty_iff [OF holds_dll(2) [OF assms(1,2)]] assms(6) by (simp add: buriedJobP_def)
  then show ?thesis using kickBuried_loop_digs [OF assms(1-5), of n] by (auto simp: kickJobs_def kickBuriedJobs_def)
qed

section \<open>Closing a connection\<close>

text \<open>The jobs that are ready on a tube or held by a connection, all together.\<close>

definition active_jobs :: "world \<Rightarrow> places \<Rightarrow> jref multiset" where
  "active_jobs s a = (\<Sum>t<nT s. a_ready a t) + (\<Sum>c<nC s. mset (a_held a c))"

lemma sum_upd_mset:
  fixes f :: "nat \<Rightarrow> 'a multiset"
  assumes "t < n"
  shows "(\<Sum>u<n. (f(t := m)) u) + f t = (\<Sum>u<n. f u) + m"
proof -
  have "(\<Sum>u\<in>{..<n} - {t}. (f(t := m)) u) = (\<Sum>u\<in>{..<n} - {t}. f u)" by (rule sum.cong) auto
  then show ?thesis using assms sum.remove [of "{..<n}" t "f(t := m)"] sum.remove [of "{..<n}" t f] by simp
qed

lemma sum_upd_list:
  fixes f :: "nat \<Rightarrow> 'a list"
  assumes "t < n"
  shows "(\<Sum>u<n. mset ((f(t := xs)) u)) + mset (f t) = (\<Sum>u<n. mset (f u)) + mset xs"
proof -
  have "(\<lambda>u. mset ((f(t := xs)) u)) = (\<lambda>u. mset (f u))(t := mset xs)" by auto
  then show ?thesis using sum_upd_mset [OF assms, of "\<lambda>u. mset (f u)" "mset xs"] by (simp only: )
qed

lemma active_ready_in: "t < nT s \<Longrightarrow> active_jobs s (ready_in t j a) = add_mset j (active_jobs s a)"
  using sum_upd_mset [of t "nT s" "a_ready a" "add_mset j (a_ready a t)"] by (simp add: active_jobs_def ready_in_def)

lemma active_ready_out:
  assumes "t < nT s" "j \<in># a_ready a t"
  shows "add_mset j (active_jobs s (ready_out t j a)) = active_jobs s a"
proof -
  obtain m where m: "a_ready a t = add_mset j m" using assms(2) by (meson multi_member_split)
  show ?thesis using sum_upd_mset [OF assms(1), of "a_ready a" m] by (simp add: active_jobs_def ready_out_def m)
qed

lemma active_hold_in:
  assumes "c < nC s"
  shows "active_jobs s (hold_in c j a) = add_mset j (active_jobs s a)"
proof -
  define A B where "A = (\<Sum>u<nC s. mset (a_held (hold_in c j a) u))" and "B = (\<Sum>u<nC s. mset (a_held a u))"
  have "A + mset (a_held a c) = B + mset (a_held a c @ [j])"
    using sum_upd_list [OF assms(1), of "a_held a" "a_held a c @ [j]"] by (simp add: A_def B_def hold_in_def)
  then have "A = add_mset j B" by simp
  moreover have "a_ready (hold_in c j a) = a_ready a" by (simp add: hold_in_def)
  ultimately show ?thesis by (simp add: active_jobs_def A_def B_def)
qed

lemma active_hold_out:
  assumes "c < nC s" "j \<in> set (a_held a c)"
  shows "add_mset j (active_jobs s (hold_out c j a)) = active_jobs s a"
proof -
  define A B where "A = (\<Sum>u<nC s. mset (a_held (hold_out c j a) u))" and "B = (\<Sum>u<nC s. mset (a_held a u))"
  have m: "mset (a_held a c) = add_mset j (mset (remove1 j (a_held a c)))" using assms(2) by simp
  have "A + mset (a_held a c) = B + mset (remove1 j (a_held a c))"
    using sum_upd_list [OF assms(1), of "a_held a" "remove1 j (a_held a c)"] by (simp add: A_def B_def hold_out_def)
  then have "add_mset j A = B" unfolding m by simp
  moreover have "a_ready (hold_out c j a) = a_ready a" by (simp add: hold_out_def)
  ultimately show ?thesis by (simp add: active_jobs_def A_def B_def)
qed

lemma active_wait [simp]: "active_jobs s (wait_out c a) = active_jobs s a" "active_jobs s (wait_in c ts a) = active_jobs s a"
  by (simp_all add: active_jobs_def wait_out_def wait_in_def)

text \<open>Serving waiting connections loses no job and hands out none twice.\<close>

lemma serves_active:
  assumes "(serve ts lt)\<^sup>*\<^sup>* a b" "ts \<subseteq> {..<nT s}" "\<forall>t<nT s. \<forall>d\<in>#a_waiting a t. d < nC s"
  shows "active_jobs s b = active_jobs s a"
  using assms(1)
proof (induction rule: rtranclp_induct)
  case (step y z)
  from step.hyps(2) obtain t j c where g: "z = give t j c y" "t \<in> ts" "j \<in># a_ready y t" "c \<in># a_waiting y t"
    by (rule serve_cases) blast
  have t: "t < nT s" using g(2) assms(2) by auto
  have "c \<in># a_waiting a t" using serves_keep(1) [OF step.hyps(1)] g(4) by (rule mset_subset_eqD)
  then have "c < nC s" using assms(3) t by blast
  then show ?case using active_ready_out [OF t g(3)] step.IH by (simp add: g(1) give_def active_hold_in)
qed simp

text \<open>One turn of the loop that gives the jobs back.\<close>

definition gave_back :: "cref \<Rightarrow> places \<Rightarrow> places \<Rightarrow> world \<Rightarrow> world \<Rightarrow> bool" where
  "gave_back c a a' s s' \<longleftrightarrow> holds a' s' \<and> active_jobs s a' = active_jobs s a \<and> a_delayed a' = a_delayed a \<and>
     a_buried a' = a_buried a \<and> (\<forall>t. a_waiting a' t \<subseteq># a_waiting a t) \<and> nT s' = nT s \<and> nC s' = nC s \<and> Wal s' = Wal s \<and>
     allJobs s' = allJobs s \<and> (\<forall>x. same_job (J s' x) (J s x)) \<and> (\<exists>p. C s' c = (C s c)\<lparr>SoonestJob := p\<rparr>) \<and>
     kept {} {} a s a' s'"

lemma gave_back_trans: "gave_back c a b s t \<Longrightarrow> gave_back c b d t u \<Longrightarrow> gave_back c a d s u"
  unfolding gave_back_def active_jobs_def same_job_def by (auto intro: subset_mset.order_trans kept_trans)

lemma give_back_turn:
  assumes "holds a s" "c < nC s" "\<forall>t<nT s. c \<notin># a_waiting a t" "\<not> WalUse (Wal s)" "a_held a c = j # js"
  shows "\<exists>s' a'. enqueueReservedJobs c s = enqueueReservedJobs c s' \<and> gave_back c a a' s s' \<and> a_held a' c = js"
proof -
  let ?a = "hold_out c j a"
  note d = holds_dll(1) [OF assms(1,2)]
  have j: "j \<in> set (a_held a c)" "Next (J s (ReservedJobs (C s c))) = Some j" "\<not> JobListEmpty (ReservedJobs (C s c)) s"
    using dll_empty_iff [OF d] dll_head d by (simp_all add: assms(5))
  obtain t where t: "t < nT s" "JTube (J s j) = Some t" using where_held [OF assms(1,2) j(1)] by auto
  obtain s1 where 1: "JobListRemove (Some j) s = Some (Some j, s1)" "holds ?a s1" "nowhere ?a s1 j" "s1 = s\<lparr>J := J s1\<rparr>"
    "same_jobs s s1" "kept {} {} a s ?a s1" using unlink_held [OF assms(1,2) j(1)] by blast
  have f1: "nT s1 = nT s" "nC s1 = nC s" "C s1 = C s" "Wal s1 = Wal s" "allJobs s1 = allJobs s" by (subst 1(4), simp)+
  have jt: "JTube (J s1 j) = Some t" "t < nT s1" "\<not> WalUse (Wal s1)"
    using remove_keeps [OF 1(1)] t assms(4) f1 by simp_all
  obtain s2 a' where e: "enqueueJob j 0 False s1 = Some (1, s2)" "matched (clock s1 (ticks s1)) (ready_in t j ?a) a' s1 s2"
    using enqueueJob_ready_matches [OF 1(2,3) jt order.refl] by blast
  let ?now = "clock s1 (ticks s1)" and ?b = "ready_in t j ?a"
  have m: "holds a' s2" "(serve (open_tubes ?now s1) (JobPriLess (J s1)))\<^sup>*\<^sup>* ?b a'" "settled ?now s1 s2"
    "(\<forall>t<nT s1. c \<notin># a_waiting ?b t) \<longrightarrow> a_held a' c = a_held ?b c \<and> C s2 c = C s1 c"
    using e(2) by (simp_all add: matched_def)
  have hc: "a_held a' c = js" "C s2 c = C s c"
    using m(4) assms(3,5) f1 by (simp_all add: ready_in_def hold_out_def)
  have ts: "open_tubes ?now s1 \<subseteq> {..<nT s}" using holds_D(6) [OF 1(2)] f1 by (auto simp: open_tubes_def waits_ok_def)
  have wt: "\<forall>t<nT s. \<forall>d\<in>#a_waiting ?b t. d < nC s"
    using holds_D(6) [OF assms(1)] by (simp add: waits_ok_def ready_in_def hold_out_def)
  have "active_jobs s a' = active_jobs s ?b" by (rule serves_active [OF m(2) ts wt])
  also have "\<dots> = active_jobs s a" using active_ready_in [OF t(1)] active_hold_out [OF assms(2) j(1)] by simp
  finally have act: "active_jobs s a' = active_jobs s a" .
  define s3 where "s3 = modC c (\<lambda>x. x\<lparr>SoonestJob := None\<rparr>) (modStat t (\<lambda>g. g\<lparr>ReservedCt := ReservedCt g - 1\<rparr>)
     (modG (\<lambda>g. g\<lparr>ReservedCt := ReservedCt g - 1\<rparr>) s2))"
  have "holds a' s3" unfolding s3_def
    by (intro holds_modC holds_counters m(1)) (simp_all add: same_conn_def)
  moreover have "\<exists>p. C s3 c = (C s c)\<lparr>SoonestJob := p\<rparr>" by (rule exI [of _ None]) (simp add: s3_def upd hc)
  moreover have "same_job (J s3 x) (J s x)" for x
    using m(3) 1(5) by (simp add: s3_def upd settled_def same_jobs_def same_job_def)
  moreover have "kept {} {} a s a' s3"
  proof (rule kept_less)
    have "kept {} {j} ?a s1 a' s2"
      by (rule kept_entered [OF _ matched_kept [OF e(2)] spared_refl]) (rule placed_moves, simp add: ready_in_def)
    moreover have "kept {} {j} a' s2 a' s3" by (rule kept_frame) (simp_all add: kept_books_def s3_def upd)
    moreover have "kept {} {j} a s ?a s1" using 1(6) by (rule kept_mono) simp_all
    ultimately show "kept {} {j} a s a' s3" using kept_trans by metis
    show "j \<in> placed a s" using placed_intro(4) [OF assms(2)] j(1) by simp
  qed
  ultimately have gb: "gave_back c a a' s s3"
    using act m(3) serves_keep [OF m(2)] f1
    by (simp add: gave_back_def settled_def s3_def upd ready_in_def hold_out_def)
  have "JTube (J s2 j) = Some t" using m(3) jt(1) by (simp add: settled_def same_job_def)
  then have "enqueueReservedJobs c s = enqueueReservedJobs c s3"
    by (subst enqueueReservedJobs.simps) (simp add: j(2,3) 1(1) e(1) s3_def upd)
  then show ?thesis using gb hc(1) by blast
qed

lemma enqueueReservedJobs_gives_back:
  assumes "holds a s" "c < nC s" "\<forall>t<nT s. c \<notin># a_waiting a t" "\<not> WalUse (Wal s)"
  shows "\<exists>s' a'. enqueueReservedJobs c s = Some s' \<and> gave_back c a a' s s' \<and> a_held a' c = []"
  using assms
proof (induction "a_held a c" arbitrary: a s)
  case Nil
  have "JobListEmpty (ReservedJobs (C s c)) s" using dll_empty_iff [OF holds_dll(1) [OF Nil.prems(1,2)]] Nil.hyps by simp
  then have "enqueueReservedJobs c s = Some s" by (simp add: enqueueReservedJobs.simps)
  moreover have "gave_back c a a s s" using Nil.prems(1)
    by (auto simp: gave_back_def kept_refl intro: exI [of _ "SoonestJob (C s c)"])
  ultimately show ?case using Nil.hyps by auto
next
  case (Cons j js)
  obtain s1 b where 1: "enqueueReservedJobs c s = enqueueReservedJobs c s1" "gave_back c a b s s1" "a_held b c = js"
    using give_back_turn [OF Cons.prems Cons.hyps(2) [symmetric]] by blast
  have "holds b s1" "c < nC s1" "\<not> WalUse (Wal s1)" using 1(2) Cons.prems by (simp_all add: gave_back_def)
  moreover have "\<forall>t<nT s1. c \<notin># a_waiting b t" using 1(2) Cons.prems(3) by (auto simp: gave_back_def dest: mset_subset_eqD)
  ultimately obtain s' a' where "enqueueReservedJobs c s1 = Some s'" "gave_back c b a' s1 s'" "a_held a' c = []"
    using Cons.hyps(1) [OF 1(3) [symmetric]] by blast
  then show ?case using 1(1) gave_back_trans [OF 1(2)] by auto
qed

text \<open>The rest of \<open>connClose\<close>: the connection stops waiting and watching and leaves the heap of deadlines.\<close>

lemma Watch_Clear_moves:
  assumes "holds a s" "\<forall>t<nT s. c \<notin># a_waiting a t"
  shows "holds a (Watch_Clear c s)" "nC (Watch_Clear c s) = nC s" "nT (Watch_Clear c s) = nT s"
    "C (Watch_Clear c s) c = (C s c)\<lparr>Watch := NewMs\<rparr>"
    "kept D X a s a (Watch_Clear c s)" "allJobs (Watch_Clear c s) = allJobs s"
proof -
  obtain m s1 where e: "ms_Clear (Some onIgnore) (Watch (C s c)) s = (m, s1)"
    by (cases "ms_Clear (Some onIgnore) (Watch (C s c)) s") auto
  have "only_watching s (fold (\<lambda>x. onIgnore x 0) xs s)" for xs
    by (induction xs arbitrary: s) (auto intro: only_watching_refl only_watching_trans only_watching_callbacks(2))
  then have "only_watching s s1" and m: "m = NewMs" using e by (auto simp: ms_Clear_eq ms_fire_def)
  then obtain w where s1: "s1 = s\<lparr>T := \<lambda>t. T s t\<lparr>WatchingCt := w t\<rparr>\<rparr>" unfolding only_watching_def by blast
  have h1: "holds a s1" unfolding s1
    by (rule holds_frame [OF assms(1)])
      (auto simp: same_tube_def intro: sched_ok_cong [OF holds_D(7) [OF assms(1)]])
  have W: "Watch_Clear c s = modC c (\<lambda>x. x\<lparr>Watch := NewMs\<rparr>) s1" by (simp add: Watch_Clear_def e m)
  show "holds a (Watch_Clear c s)" unfolding W
    by (rule holds_modC_free [OF h1]) (use assms(2) in \<open>simp_all add: s1\<close>)
  show "nC (Watch_Clear c s) = nC s" "nT (Watch_Clear c s) = nT s" "C (Watch_Clear c s) c = (C s c)\<lparr>Watch := NewMs\<rparr>"
    "allJobs (Watch_Clear c s) = allJobs s"
    by (simp_all add: W s1 upd)
  show "kept D X a s a (Watch_Clear c s)"
    by (rule kept_frame) (simp_all add: W s1 upd kept_books_def)
qed

lemma unwaited_use: "unwaited c s s' \<Longrightarrow> Use (C s' c) = Use (C s c)"
proof -
  assume "unwaited c s s'"
  then obtain n w g x where "s' = s\<lparr>T := \<lambda>t. (T s t)\<lparr>Stat := n t, WaitingConns := w t\<rparr>,
      C := (C s)(c := (C s c)\<lparr>CType := x\<rparr>), GlobalState := g\<rparr>" unfolding unwaited_def by blast
  then show ?thesis by simp
qed

lemma connUnschedule_total:
  assumes "holds a s" "c < nC s"
  shows "\<exists>s'. (if InCoons (C s c) > 0
        then do { s \<leftarrow> Connes_Remove (TickPos (C s c)) s; Some (modC c (\<lambda>x. x\<lparr>InCoons := 0\<rparr>) s) } else Some s) = Some s' \<and>
      answered c s s' \<and> holds a s' \<and> Use (C s' c) = Use (C s c)"
proof (cases "InCoons (C s c) > 0")
  case True
  obtain h where h: "Connes_Remove (TickPos (C s c)) s = Some (s\<lparr>Connes := h\<rparr>)"
    "sched_ok (modC c (\<lambda>x. x\<lparr>InCoons := 0\<rparr>) (s\<lparr>Connes := h\<rparr>))"
    using sched_leave [OF holds_D(7) [OF assms(1)] assms(2) True] by blast
  let ?s = "s\<lparr>Connes := h\<rparr>"
  have "answered c s ?s" using answered_queues [where c = c and s = s and h = h and q = "epollQ s"] by simp
  moreover have "answered c ?s (modC c (\<lambda>x. x\<lparr>InCoons := 0\<rparr>) ?s)" by (rule answered_modC) (simp add: kept_conn_def same_conn_def)
  ultimately have a: "answered c s (modC c (\<lambda>x. x\<lparr>InCoons := 0\<rparr>) ?s)" by (rule answered_trans)
  then show ?thesis using True h answered_holds [OF a assms(1) h(2)] by (simp add: upd)
qed (use assms answered_refl in simp)

lemma connClose_moves:
  assumes "holds a s" "c < nC s" "\<not> WalUse (Wal s)" "fst (sockWant c (CHR 0x00) s)"
  shows "Use (C s c) = None \<and> connClose c s = None \<or> (\<exists>s' a'. connClose c s = Some s' \<and> holds a' s' \<and> a_held a' c = [] \<and> active_jobs s a' = active_jobs s a \<and>
    a_delayed a' = a_delayed a \<and> a_buried a' = a_buried a \<and> (\<forall>t. c \<notin># a_waiting a' t) \<and>
    Use (C s' c) = None \<and> ms_items (Watch (C s' c)) = [] \<and> \<not> InCoons (C s' c) > 0 \<and>
    allJobs s' = allJobs s \<and> kept {c} {} a (modC c (\<lambda>x. x\<lparr>InJob := None\<rparr>) s) a' s')"
proof -
  define s0 where "s0 = snd (sockWant c (CHR 0x00) s)"
  define s1 where "s1 = modC c (\<lambda>x. x\<lparr>InJob := None, OutJob := None, InJobRead := 0\<rparr>) s0"
  define s2 where "s2 = (if CType (C s1 c) AND ConnTypeProducer > 0 then s1\<lparr>CurProducerCt := CurProducerCt s1 - 1\<rparr> else s1)"
  define s3 where "s3 = (if CType (C s2 c) AND ConnTypeWorker > 0 then s2\<lparr>CurWorkerCt := CurWorkerCt s2 - 1\<rparr> else s2)"
  define s4 where "s4 = s3\<lparr>CurConnCt := CurConnCt s3 - 1\<rparr>"
  define s5 where "s5 = removeWaitingCoon c s4"
  have b0: "kept_books s s0" "allJobs s0 = allJobs s" by (simp_all add: s0_def sockWant_def syscall_ok_def Let_def upd kept_books_def)
  have f0: "J s0 = J s" "T s0 = T s" "nT s0 = nT s" "nC s0 = nC s" "tubes s0 = tubes s" "Connes s0 = Connes s" "Wal s0 = Wal s"
    "same_conn (C s0 d) (C s d)" "InCoons (C s0 d) = InCoons (C s d)" "Use (C s0 d) = Use (C s d)" "CState (C s0 d) = CState (C s d)" for d
    by (simp_all add: s0_def sockWant_def syscall_ok_def Let_def upd same_conn_def)
  have f4: "J s4 = J s" "T s4 = T s" "nT s4 = nT s" "nC s4 = nC s" "tubes s4 = tubes s" "Connes s4 = Connes s" "Wal s4 = Wal s"
    "same_conn (C s4 d) (C s d)" "InCoons (C s4 d) = InCoons (C s d)" "Use (C s4 d) = Use (C s d)" for d
    using f0 by (simp_all add: s4_def s3_def s2_def s1_def upd same_conn_def)
  have "sched_ok s4" using f4(8,9) by (intro sched_ok_cong [OF holds_D(7) [OF assms(1)]]) (simp_all add: f4 same_conn_def)
  then have h4: "holds a s4" by (intro holds_frame [OF assms(1)]) (simp_all add: f4)
  have c4: "c < nC s4" using assms(2) f4(4) by simp
  note w = removeWaitingCoon_moves [OF h4 c4, folded s5_def]
  have f5: "nT s5 = nT s" "nC s5 = nC s" "Wal s5 = Wal s" "Use (C s5 c) = Use (C s c)"
    using same_jobs_unwaited [OF w(2)] unwaited_use [OF w(2)] f4 by (simp_all add: same_jobs_def)
  have "\<forall>t<nT s5. c \<notin># a_waiting (wait_out c a) t" "\<not> WalUse (Wal s5)" "c < nC s5"
    using assms(2,3) f5 by (simp_all add: wait_out_def)
  then obtain s6 a' where 6: "enqueueReservedJobs c s5 = Some s6" "gave_back c (wait_out c a) a' s5 s6" "a_held a' c = []"
    using enqueueReservedJobs_gives_back [OF w(1)] by blast
  have g: "holds a' s6" "active_jobs s5 a' = active_jobs s5 (wait_out c a)" "a_delayed a' = a_delayed a" "a_buried a' = a_buried a"
    "nC s6 = nC s5" "nT s6 = nT s5" "Use (C s6 c) = Use (C s c)"
    using 6(2) f5(4) by (auto simp: gave_back_def wait_out_def)
  have nw: "c \<notin># a_waiting a' t" for t
    using 6(2) by (auto simp: gave_back_def wait_out_def dest!: spec [of _ t] dest: mset_subset_eqD)
  note k = Watch_Clear_moves [OF g(1), of c]
  have sock: "sockWant c (CHR 0x00) s = (True, s0)" using assms(4) by (simp add: s0_def prod_eq_iff)
  have given: "(if hasReservedJob c s5 then enqueueReservedJobs c s5 else Some s5) = Some s6"
    using 6(1) by (auto simp: hasReservedJob_def enqueueReservedJobs.simps)
  have tube: "Use (C (Watch_Clear c s6) c) = Use (C s c)" using k(4) nw g(7) by simp
  show ?thesis
  proof (cases "Use (C s c)")
    case None
    then have "connClose c s = None"
      using sock given tube by (simp add: connClose_def Let_def s5_def s4_def s3_def s2_def s1_def cong: if_cong)
    then show ?thesis using None by blast
  next
    case (Some u)
    define s7 where "s7 = modC c (\<lambda>x. x\<lparr>Use := None\<rparr>) (modT u (\<lambda>x. x\<lparr>UsingCt := UsingCt x - 1\<rparr>) (Watch_Clear c s6))"
    have h7: "holds a' s7" unfolding s7_def
      using nw by (intro holds_modC holds_modT k(1)) (simp_all add: same_conn_def same_tube_def)
    have c7: "c < nC s7" "Use (C s7 c) = None" "Watch (C s7 c) = NewMs"
      using k(2,4) nw g(5) f5(2) assms(2) by (simp_all add: s7_def upd)
    obtain s' where 8: "(if InCoons (C s7 c) > 0 then do { s \<leftarrow> Connes_Remove (TickPos (C s7 c)) s7; Some (modC c (\<lambda>x. x\<lparr>InCoons := 0\<rparr>) s) }
        else Some s7) = Some s'" "answered c s7 s'" "holds a' s'" "Use (C s' c) = Use (C s7 c)"
      using connUnschedule_total [OF h7 c7(1)] by blast
    have "connClose c s = Some s'"
      using sock given tube Some 8(1) by (simp add: connClose_def Let_def s7_def s5_def s4_def s3_def s2_def s1_def cong: if_cong)
    moreover have "\<not> InCoons (C s' c) > 0" using 8(1) by (auto simp: upd split: if_splits bind_splits)
    moreover have "ms_items (Watch (C s' c)) = []"
      using answered_D(13) [OF 8(2)] c7(3) by (simp add: kept_conn_def same_conn_def NewMs_def)
    moreover have "active_jobs s a' = active_jobs s a" using g(2) f5 by (simp add: active_jobs_def wait_out_def)
    moreover have "kept {c} {} a (modC c (\<lambda>x. x\<lparr>InJob := None\<rparr>) s) a' s'"
    proof -
      have "kept {c} {} a (modC c (\<lambda>x. x\<lparr>InJob := None\<rparr>) s) a s4"
        by (rule kept_frame; use b0(1) in \<open>simp add: kept_books_def s4_def s3_def s2_def s1_def upd f0\<close>)
      moreover have "kept {c} {} a' (Watch_Clear c s6) a' s7" by (rule kept_frame; simp add: kept_books_def s7_def upd)
      moreover have "kept {c} {} (wait_out c a) s5 a' s6" using 6(2) kept_mono unfolding gave_back_def by blast
      moreover have "kept {c} {} a' s6 a' (Watch_Clear c s6)" by (rule k(5)) (use nw in simp)
      ultimately show ?thesis using kept_trans kept_unwaited [OF w(2)] kept_answered [OF 8(2)] by metis
    qed
    moreover have "allJobs s5 = allJobs s" using same_jobs_unwaited [OF w(2)] b0(2) by (simp add: same_jobs_def s4_def s3_def s2_def s1_def upd)
    then have "allJobs s' = allJobs s"
      using 6(2) k(6) nw answered_D(8) [OF 8(2)] by (simp add: gave_back_def s7_def upd)
    ultimately have "connClose c s = Some s' \<and> holds a' s' \<and> a_held a' c = [] \<and> active_jobs s a' = active_jobs s a \<and>
        a_delayed a' = a_delayed a \<and> a_buried a' = a_buried a \<and> (\<forall>t. c \<notin># a_waiting a' t) \<and>
        Use (C s' c) = None \<and> ms_items (Watch (C s' c)) = [] \<and> \<not> InCoons (C s' c) > 0 \<and>
        allJobs s' = allJobs s \<and> kept {c} {} a (modC c (\<lambda>x. x\<lparr>InJob := None\<rparr>) s) a' s'"
      using 8(3,4) 6(3) g(3,4) nw c7(2) by simp
    then show ?thesis by blast
  qed
qed

text \<open>C6: Closing a connection, when its socket can be taken from the poll set, terminates: every job it held is
  ready again on its tube or held by another connection, no job is lost or handed out twice, buried and
  delayed jobs stay, and the connection waits on nothing, watches nothing and has no deadline any more.\<close>

theorem connClose_gives_back:
  assumes "holds a s" "c < nC s" "\<not> WalUse (Wal s)" "fst (sockWant c (CHR 0x00) s)" "Use (C s c) = Some u"
  shows "\<exists>s' a'. connClose c s = Some s' \<and> holds a' s' \<and> a_held a' c = [] \<and> active_jobs s a' = active_jobs s a \<and>
    a_delayed a' = a_delayed a \<and> a_buried a' = a_buried a \<and> (\<forall>t. c \<notin># a_waiting a' t) \<and>
    Use (C s' c) = None \<and> ms_items (Watch (C s' c)) = [] \<and> \<not> InCoons (C s' c) > 0"
  using connClose_moves [OF assms(1-4)] unfolding assms(5) by blast

end
