(* ===== verification/Polling.thy ===== *)
theory Polling
  imports Service
begin

text \<open>
  What one turn of the main loop does with the queue of connections whose socket interest has changed:
  \<open>EpollQApply\<close> (\<open>net/prot.go\<close>) as one update of the state.
\<close>

text \<open>The reference: every queued connection leaves the queue and is known to the kernel from now on, unless it
  asked for nothing and was not known before. One system call is made for each connection but these.\<close>

definition asks_kernel :: "coon \<Rightarrow> bool" where
  "asks_kernel x \<longleftrightarrow> SockAdded x \<or> Rw x \<noteq> CHR 0x00"

definition polled :: "cref list \<Rightarrow> world \<Rightarrow> world" where
  "polled xs s = s\<lparr>epollQ := None, ios := ios s + length (filter (\<lambda>c. asks_kernel (C s c)) xs),
     C := (\<lambda>c. if c \<in> set xs then (C s c)\<lparr>CNext := None, SockAdded := asks_kernel (C s c)\<rparr> else C s c)\<rparr>"

definition poll_one :: "cref \<Rightarrow> world \<Rightarrow> world" where
  "poll_one c s = snd (sockWant c (Rw (C s c)) (modC c (\<lambda>x. x\<lparr>CNext := None\<rparr>) s))"

lemma poll_one_eq:
  "poll_one c s = s\<lparr>C := (C s)(c := (C s c)\<lparr>CNext := None, SockAdded := asks_kernel (C s c)\<rparr>),
     ios := ios s + (if asks_kernel (C s c) then 1 else 0)\<rparr>"
proof -
  have e: "SockAdded x = b \<Longrightarrow> x\<lparr>CNext := None, SockAdded := b\<rparr> = x\<lparr>CNext := None\<rparr>" for x b
    by (intro coon.equality) simp_all
  show ?thesis
    by (cases "SockAdded (C s c)")
      (simp_all add: poll_one_def asks_kernel_def sockWant_def syscall_ok_def Let_def upd e)
qed

lemma sockWant_works: "\<forall>n. io s n \<Longrightarrow> sockWant c rw s = (True, snd (sockWant c rw s))"
  by (simp add: sockWant_def syscall_ok_def Let_def upd)

lemma polled_Cons:
  assumes "x \<notin> set xs"
  shows "polled xs (poll_one x (s\<lparr>epollQ := p\<rparr>)) = polled (x # xs) s"
proof -
  have "filter (\<lambda>c. asks_kernel (if c = x then y else C s c)) xs = filter (\<lambda>c. asks_kernel (C s c)) xs" for y
    using assms by (intro filter_cong) auto
  then show ?thesis using assms
    by (intro world.equality) (auto simp: polled_def poll_one_eq fun_eq_iff)
qed

text \<open>C39: while no system call fails, \<open>EpollQApply\<close> on a queue that links the connections \<open>xs\<close> returns, and is
  equivalent to that update.\<close>

theorem EpollQApply_polled:
  assumes "cpath (C s) (epollQ s) xs" "distinct xs" "\<forall>n. io s n"
  shows "EpollQApply s = Some (polled xs s)"
  using assms
proof (induction xs arbitrary: s)
  case Nil
  then have "epollQ s = None" by simp
  moreover from this have "polled [] s = s" by (simp add: polled_def)
  ultimately show ?case by (simp add: EpollQApply.simps)
next
  case (Cons x xs)
  let ?q = "s\<lparr>epollQ := CNext (C s x)\<rparr>"
  let ?s = "poll_one x ?q"
  have x: "epollQ s = Some x" "x \<notin> set xs" and p: "cpath (C s) (CNext (C s x)) xs" using Cons.prems by auto
  have "C ?s c = C s c" if "c \<in> set xs" for c using that x(2) by (auto simp: poll_one_eq)
  then have "cpath (C ?s) (epollQ ?s) xs" using p by (auto simp: poll_one_eq intro: cpath_cong [OF _ p])
  moreover have "\<forall>n. io ?s n" using Cons.prems(3) by (simp add: poll_one_eq)
  ultimately have "EpollQApply ?s = Some (polled xs ?s)" using Cons.IH Cons.prems(2) by auto
  moreover have "EpollQApply s = EpollQApply ?s"
  proof -
    let ?t = "modC x (\<lambda>x. x\<lparr>CNext := None\<rparr>) ?q"
    have "sockWant x (Rw (C ?t x)) ?t = (True, ?s)"
      using sockWant_works [of ?t x "Rw (C ?t x)"] Cons.prems(3) by (simp add: poll_one_def upd)
    then show ?thesis by (subst EpollQApply.simps) (simp add: x(1) Let_def)
  qed
  ultimately show ?case by (simp add: polled_Cons [OF x(2)])
qed

end
