(* ===== verification/HostInfo.thy ===== *)
theory HostInfo
  imports Model
begin

text \<open>
  What the server knows of its host (\<open>utils/instance_info*.go\<close>): the instance id it prints in its statistics,
  made of random bytes, the names \<open>uname\<close> returns and the resource usage. Random bytes and the results of the
  system calls are arguments.
\<close>

section \<open>The instance id\<close>

definition InstanceIDBytes :: nat where "InstanceIDBytes = 8"

text \<open>\<open>fmt.Sprintf("%02x", b)\<close> of a byte: two lower case digits.\<close>

definition hex_digit :: "nat \<Rightarrow> char" where
  "hex_digit n = ''0123456789abcdef'' ! n"

definition Sprintf_02x :: "8 word \<Rightarrow> string" where
  "Sprintf_02x b = [hex_digit (unat b div 16), hex_digit (unat b mod 16)]"

text \<open>\<open>init\<close>: the loop writes the digits into a buffer of zeros that has one byte more than it fills.\<close>

definition put_hex :: "8 word list \<Rightarrow> nat \<Rightarrow> string \<Rightarrow> string" where
  "put_hex randData i buf = (let d = Sprintf_02x (randData ! i) in buf[i * 2 := d ! 0, i * 2 + 1 := d ! 1])"

definition init_InstanceHex :: "8 word list option \<Rightarrow> string option" where
  "init_InstanceHex rd =
     (case rd of
        None \<Rightarrow> None
      | Some randData \<Rightarrow>
          Some (fold (put_hex randData) [0..<InstanceIDBytes]
            (replicate (InstanceIDBytes * 2 + 1) (CHR 0x00))))"

text \<open>The reference: the digits of all bytes in order, and back.\<close>

definition hex_value :: "char \<Rightarrow> nat" where
  "hex_value c = (let n = of_char c in if n < 58 then n - 48 else n - 87)"

fun unhex :: "string \<Rightarrow> 8 word list" where
  "unhex (a # b # cs) = word_of_nat (hex_value a * 16 + hex_value b) # unhex cs"
| "unhex _ = []"

lemma hex_value_digit: "n < 16 \<Longrightarrow> hex_value (hex_digit n) = n"
proof -
  have "list_all (\<lambda>n. hex_value (hex_digit n) = n) [0..<16]" by code_simp
  then show "n < 16 \<Longrightarrow> hex_value (hex_digit n) = n" by (simp add: list_all_iff)
qed

lemma unhex_digits: "unhex (concat (map Sprintf_02x bs)) = bs"
proof (induction bs)
  case (Cons b bs)
  have "unat b < 2 ^ LENGTH(8)" by (rule unsigned_less)
  then have "unat b < 256" by simp
  then have "unat b div 16 < 16" "unat b mod 16 < 16" by (simp_all add: less_mult_imp_div_less)
  then have "word_of_nat (hex_value (hex_digit (unat b div 16)) * 16 + hex_value (hex_digit (unat b mod 16))) = b"
    by (simp add: hex_value_digit)
  then show ?case using Cons by (simp add: Sprintf_02x_def)
qed simp

lemma length_digits: "length (concat (map Sprintf_02x bs)) = 2 * length bs"
  by (induction bs) (simp_all add: Sprintf_02x_def)

lemma fold_put_hex:
  "n \<le> length bs \<Longrightarrow> fold (put_hex bs) [0..<n] (replicate (n * 2 + k) z) = concat (map Sprintf_02x (take n bs)) @ replicate k z"
proof (induction n arbitrary: k)
  case (Suc n)
  have z: "replicate (Suc n * 2 + k) z = replicate (n * 2 + Suc (Suc k)) z" by simp
  have l: "length (concat (map Sprintf_02x (take n bs))) = n * 2" using Suc.prems by (simp add: length_digits)
  have "fold (put_hex bs) [0..<Suc n] (replicate (Suc n * 2 + k) z) =
      put_hex bs n (concat (map Sprintf_02x (take n bs)) @ replicate (Suc (Suc k)) z)"
    unfolding z using Suc.IH [of "Suc (Suc k)"] Suc.prems by simp
  also have "\<dots> = concat (map Sprintf_02x (take n bs)) @ Sprintf_02x (bs ! n) @ replicate k z"
    by (simp add: put_hex_def Let_def list_update_append l Sprintf_02x_def)
  finally show ?case using Suc.prems by (simp add: take_Suc_conv_app_nth)
qed simp

text \<open>The instance id is the 16 digits of the random bytes in order and one NUL behind them, which is printed with
  it; the bytes can be read back, so two servers have the same id only if they drew the same bytes.\<close>

lemma InstanceHex_restores:
  assumes "length bs = InstanceIDBytes"
  shows "\<exists>h. init_InstanceHex (Some bs) = Some h \<and> length h = 2 * InstanceIDBytes + 1 \<and> last h = CHR 0x00 \<and>
    unhex (butlast h) = bs \<and> (\<forall>bs'. length bs' = length bs \<longrightarrow> init_InstanceHex (Some bs') = Some h \<longrightarrow> bs' = bs)"
proof -
  let ?h = "\<lambda>bs. concat (map Sprintf_02x bs) @ [CHR 0x00]"
  have e: "init_InstanceHex (Some xs) = Some (?h xs)" if "length xs = InstanceIDBytes" for xs
    using fold_put_hex [of "InstanceIDBytes" xs 1 "CHR 0x00"] that by (simp add: init_InstanceHex_def)
  have "?h xs = ?h bs \<Longrightarrow> xs = bs" for xs using unhex_digits by (metis append_same_eq)
  then show ?thesis using e assms by (auto simp: length_digits unhex_digits)
qed

section \<open>The system's names and the resource usage\<close>

record SysInfo =
  si_SysName :: string
  si_NodeName :: string
  si_Release :: string
  si_Version :: string
  si_Machine :: string

record Rusage =
  Usec :: int
  Ssec :: int
  Total :: int

text \<open>What \<open>unix.Uname\<close> fills in: arrays of bytes, the names padded with zeros.\<close>

record Utsname =
  Sysname :: "8 word list"
  Nodename :: "8 word list"
  Release :: "8 word list"
  uts_Version :: "8 word list"
  uts_Machine :: "8 word list"

definition string_of :: "8 word list \<Rightarrow> string" where
  "string_of = map (\<lambda>b. char_of (unat b))"

text \<open>\<open>init\<close>; it stops the server when the call fails. \<open>Machine\<close> is filled from \<open>uname.Version\<close>.\<close>

definition init_systemInfo :: "Utsname option \<Rightarrow> SysInfo option" where
  "init_systemInfo u =
     (case u of
        None \<Rightarrow> None
      | Some uname \<Rightarrow> Some \<lparr>si_SysName = string_of (Sysname uname), si_NodeName = string_of (Nodename uname),
          si_Release = string_of (Release uname), si_Version = string_of (uts_Version uname),
          si_Machine = string_of (uts_Version uname)\<rparr>)"

definition GetSysInfo :: "SysInfo \<Rightarrow> SysInfo" where
  "GetSysInfo systemInfo = \<lparr>si_SysName = si_SysName systemInfo, si_NodeName = si_NodeName systemInfo,
     si_Release = si_Release systemInfo, si_Version = si_Version systemInfo, si_Machine = si_Machine systemInfo\<rparr>"

text \<open>\<open>Getrusage\<close> over the call of the system, which takes the processes asked for and returns the user time
  (seconds and microseconds) and the system time; an error is ignored and leaves the record of zeros. The
  argument is the number of this process, where the call takes a selector. Of the microseconds one
  field is called the total.\<close>

type_synonym rusage_call = "int \<Rightarrow> ((int \<times> int) \<times> (int \<times> int)) option"

definition Getrusage :: "rusage_call \<Rightarrow> int \<Rightarrow> Rusage" where
  "Getrusage call pid =
     (let (utime, stime) = (case call pid of None \<Rightarrow> ((0, 0), (0, 0)) | Some ru \<Rightarrow> ru)
      in \<lparr>Usec = fst utime, Ssec = fst stime, Total = snd utime\<rparr>)"

text \<open>The selectors are -1, 0 and 1 (Linux): for any process but the first one the usage is reported as zero.\<close>

lemma Getrusage_zero:
  assumes "\<And>who. who \<notin> {-1, 0, 1} \<Longrightarrow> call who = None" "1 < pid"
  shows "Getrusage call pid = \<lparr>Usec = 0, Ssec = 0, Total = 0\<rparr>"
  using assms(1) [of pid] assms(2) by (simp add: Getrusage_def)

text \<open>On Windows the host library is asked, and the release stays empty.\<close>

record host_InfoStat =
  hi_OS :: string
  HostID :: string
  Hostname :: string
  PlatformVersion :: string

definition init_sysInfo_windows :: "host_InfoStat option \<Rightarrow> SysInfo option" where
  "init_sysInfo_windows i =
     (case i of
        None \<Rightarrow> None
      | Some info \<Rightarrow> Some \<lparr>si_SysName = hi_OS info, si_NodeName = Hostname info, si_Release = [],
          si_Version = PlatformVersion info, si_Machine = HostID info\<rparr>)"

definition GetSysInfo_windows :: "SysInfo \<Rightarrow> SysInfo" where
  "GetSysInfo_windows sysInfo = \<lparr>si_SysName = si_SysName sysInfo, si_NodeName = si_NodeName sysInfo,
     si_Release = si_Release sysInfo, si_Version = si_Version sysInfo, si_Machine = si_Machine sysInfo\<rparr>"

section \<open>What the statistics print\<close>

text \<open>The fields of the host in the environment of the process; \<open>doStats\<close> (theory Stats) prints them.\<close>

definition host_env :: "SysInfo \<Rightarrow> Rusage \<Rightarrow> string \<Rightarrow> sysenv \<Rightarrow> sysenv" where
  "host_env info ru hex e = e\<lparr>RuUsec := Usec ru, RuSsec := Ssec ru, RuTotal := Total ru, InstanceHex := hex,
     NodeName := si_NodeName info, OsVersion := si_Version info, Machine := si_Machine info\<rparr>"

text \<open>On Unix the machine the statistics report is the version of the system, whatever the machine is, and the names
  keep the zeros they are padded with.\<close>

lemma machine_is_version:
  assumes "init_systemInfo (Some u) = Some info"
  shows "Machine (host_env (GetSysInfo info) ru hex e) = string_of (uts_Version u)"
    "OsVersion (host_env (GetSysInfo info) ru hex e) = string_of (uts_Version u)"
    "length (NodeName (host_env (GetSysInfo info) ru hex e)) = length (Nodename u)"
  using assms by (auto simp: init_systemInfo_def GetSysInfo_def host_env_def string_of_def)

end
