(* ===== verification/RunPlaces.thy ===== *)
theory RunPlaces
  imports Witnesses Returns Polling HostInfo
begin

text \<open>
  The theorems on places applied to concrete states: one connection, one tube and one job, which is put,
  waited for, reserved, given back, buried, dug out and deleted.
\<close>

section \<open>A job that stands nowhere\<close>

definition empty_places :: places where
  "empty_places = \<lparr>a_ready = \<lambda>_. {#}, a_delayed = \<lambda>_. {#}, a_buried = \<lambda>_. [], a_held = \<lambda>_. [], a_waiting = \<lambda>_. {#}\<rparr>"

text \<open>The job at 2, made for the default tube, is known under the id 7.\<close>

definition made7 :: world where
  "made7 = (modR 2 (\<lambda>r. r\<lparr>ID := 7\<rparr>) one_more)\<lparr>allJobs := [7 \<mapsto> 2]\<rparr>"

lemma made7_facts:
  "nT made7 = 1" "nC made7 = 1" "ms_items (tubes made7) = [0]" "ReadyQ (T made7 0) = []" "DelayQ (T made7 0) = []"
  "BuriedL (T made7 0) = 0" "ReservedJobs (C made7 0) = 1" "dll (J made7) 0 []" "dll (J made7) 1 []"
  "RState (R (J made7 0)) = Invalid" "RState (R (J made7 1)) = Invalid" "ms_items (WaitingConns (T made7 0)) = []"
  "Connes made7 = []" "InCoons (C made7 0) = 0" "ms_items (Watch (C made7 0)) = [0]" "Use (C made7 0) = Some 0"
  "JTube (J made7 2) = Some 0" "Next (J made7 2) = Some 2" "Prev (J made7 2) = Some 2" "WalUse (Wal made7) = False"
  "ID (R (J made7 2)) = 7" "JobFind 7 made7 = Some 2" "WalResv (J made7 2) = 0" "DrainMode made7 = 0"
  "Delay (R (J made7 2)) = 0" "Body (J made7 2) = ''x'' @ CRLF" "Pause (T made7 0) = 0"
  by code_simp+

lemma accepted_inv: "sinv 0 accepted"
proof -
  obtain s1 where "Start_step AcceptEvent demo = Some s1" using demo_accept by auto
  moreover have "served demo s1" using served_accept [OF served_init calculation] .
  ultimately have "served (boot (\<lambda>_. 0) (\<lambda>_. True) demo_env 65535) accepted" by (simp add: accepted_def demo_def)
  then show ?thesis by (rule served_boot_inv)
qed

lemma made7_index: "HeapIndex (J made7 j) = 0" "TickPos (C made7 c) = 0"
proof -
  have "sinv 0 (snd (NewJob (Some 3) accepted))" by (rule NewJob_inv [OF accepted_inv])
  then show "HeapIndex (J made7 j) = 0" "TickPos (C made7 c) = 0"
    by (auto simp: made7_def one_more_def invk_def index_zero_def upd)
qed

lemma made7_holds: "holds empty_places made7" "nowhere empty_places made7 2" "calm empty_places made7"
proof -
  have "{c. c < nC made7 \<and> InCoons (C made7 c) > 0} = {}" using made7_facts(2,14) by auto
  then have "sched_ok made7" using made7_facts(13) made7_index by (simp add: sched_ok_def)
  moreover have "heap_ok lt []" for lt :: "jref \<Rightarrow> jref \<Rightarrow> bool" by (simp add: heap_ok_def heap_upto_def)
  moreover have "heads_ok made7" by (simp add: heads_ok_def inj_on_def made7_facts)
  ultimately show "holds empty_places made7"
    by (simp add: holds_def empty_places_def queued_def buried_at_def held_by_def waits_ok_def made7_facts heap_vals_def
        del: One_nat_def)
  show "nowhere empty_places made7 2"
    by (simp add: nowhere_def loose_links_def placed_def empty_places_def made7_facts)
  show "calm empty_places made7" by (simp add: calm_def empty_places_def)
qed

section \<open>The job is put, and served\<close>

lemma put_x_body: "bytes_Index (''x'' @ CRLF) CRLF \<noteq> -1"
  by code_simp

theorem put_moves_witness:
  "\<exists>s' a'. enqueueInComingJob 0 (modC 0 (\<lambda>x. x\<lparr>InJob := Some 2\<rparr>) made7) = Some s' \<and>
     Reply (C s' 0) = MsgInsertedFmt 7 \<and> holds a' s' \<and> a_ready a' 0 = {#2#} \<and> JobFind 7 s' = Some 2"
proof -
  let ?s = "modC 0 (\<lambda>x. x\<lparr>InJob := Some 2\<rparr>) made7"
  have h: "holds empty_places ?s" by (rule holds_modC [OF made7_holds(1)]) (simp_all add: same_conn_def)
  have n: "nowhere empty_places ?s 2" by (rule nowhere_frame [OF made7_holds(2)]) (simp_all add: upd)
  have d: "\<not> 0 < Delay (R (J ?s 2))" by (simp add: upd made7_facts)
  obtain s' a' where r: "enqueueInComingJob 0 ?s = Some s'" "Reply (C s' 0) = MsgInsertedFmt 7" "holds a' s'"
    "served_after (enqueue_in 0 0 2 empty_places) a' s'" "allJobs s' = allJobs ?s"
    using put_moves [OF h _ _ n, of 0 0] put_x_body by (auto simp: upd made7_facts empty_places_def)
  have "unmatched ts (enqueue_in 0 0 2 empty_places)" for ts
    by (simp add: unmatched_def enqueue_in_def ready_in_def empty_places_def)
  then have "a' = enqueue_in 0 0 2 empty_places" using r(4) unmatched_stop by (auto simp: served_after_def Let_def)
  then have "a_ready a' 0 = {#2#}" by (simp add: enqueue_in_def ready_in_def empty_places_def)
  moreover have "JobFind 7 s' = Some 2" using r(5) made7_facts(22) by (simp add: JobFind_def upd)
  ultimately show ?thesis using r(1-3) by blast
qed

text \<open>The job is ready; it is ready and the connection waits.\<close>

definition ready7 :: world where
  "ready7 = snd (the (enqueueJob 2 0 True made7))"

definition pushed7 :: world where
  "pushed7 = snd (Ready_Push 0 2 (modR 2 (\<lambda>r. r\<lparr>RState := Ready\<rparr>) made7))"

definition waiting7 :: world where
  "waiting7 = enqueueWaitingConn 0 pushed7"

lemma ready7_pause: "map_option (\<lambda>p. Pause (T (snd p) 0)) (enqueueJob 2 0 True made7) = Some 0"
  by code_simp

lemma ready7_holds:
  "holds (ready_in 0 2 empty_places) ready7" "C ready7 = C made7" "nT ready7 = 1" "nC ready7 = 1"
  "ms_items (tubes ready7) = [0]" "Pause (T ready7 0) = 0"
proof -
  have "JTube (J made7 2) = Some 0" "0 < nT made7" "\<not> WalUse (Wal made7)" "a_waiting empty_places 0 = {#}"
    by (simp_all add: made7_facts empty_places_def)
  from enqueueJob_calm [OF made7_holds(1,2) this(1-3) made7_holds(3) this(4), of True] obtain s where
    s: "enqueueJob 2 0 True made7 = Some (1, s)" "holds (ready_in 0 2 empty_places) s" "C s = C made7"
    "settled (clock made7 (ticks made7)) made7 s" by blast
  have e: "ready7 = s" by (simp add: ready7_def s(1))
  show "holds (ready_in 0 2 empty_places) ready7" "C ready7 = C made7" using s by (simp_all add: e)
  show "nT ready7 = 1" "nC ready7 = 1" "ms_items (tubes ready7) = [0]"
    using s(4) made7_facts by (simp_all add: e settled_def)
  show "Pause (T ready7 0) = 0" using ready7_pause s(1) by (simp add: e)
qed


lemma waiting7_holds:
  "holds (wait_in 0 [0] (ready_in 0 2 empty_places)) waiting7" "same_jobs pushed7 waiting7" "nC waiting7 = 1"
  "Pause (T pushed7 0) = 0" "ms_items (tubes pushed7) = [0]"
proof -
  let ?s = "modR 2 (\<lambda>r. r\<lparr>RState := Ready\<rparr>) made7"
  have h: "holds empty_places ?s" unfolding modR_def
    by (rule holds_modJ [OF made7_holds(1)]) (use made7_holds(2) in \<open>simp_all add: nowhere_def\<close>)
  have n: "nowhere empty_places ?s 2" by (rule nowhere_frame [OF made7_holds(2)]) (simp_all add: upd loose_links_def)
  obtain q where p: "Ready_Push 0 2 ?s = (True, modT 0 (\<lambda>x. x\<lparr>ReadyQ := q\<rparr>) ?s)"
    "holds (ready_in 0 2 empty_places) (modT 0 (\<lambda>x. x\<lparr>ReadyQ := q\<rparr>) ?s)"
    using Ready_Push_moves [OF h _ n] by (auto simp: upd made7_facts)
  have e: "pushed7 = modT 0 (\<lambda>x. x\<lparr>ReadyQ := q\<rparr>) ?s" by (simp add: pushed7_def p(1))
  have c: "0 < nC pushed7" "\<forall>t<nT pushed7. 0 \<notin># a_waiting (ready_in 0 2 empty_places) t" "ms_items (Watch (C pushed7 0)) = [0]"
    "nC pushed7 = 1"
    by (simp_all add: e upd made7_facts ready_in_def empty_places_def)
  note w = enqueueWaitingConn_moves [OF p(2) [folded e] c(1,2), unfolded c(3), folded waiting7_def]
  show "holds (wait_in 0 [0] (ready_in 0 2 empty_places)) waiting7" "same_jobs pushed7 waiting7" "nC waiting7 = 1"
    using w c(4) by simp_all
  show "Pause (T pushed7 0) = 0" "ms_items (tubes pushed7) = [0]" by (simp_all add: e upd made7_facts)
qed

theorem processQueue_serves_witness:
  "\<exists>s'. processQueue waiting7 = Some s' \<and> OutJob (C s' 0) = Some 2 \<and> CState (C s' 0) = StateSendJob"
proof -
  let ?a = "wait_in 0 [0] (ready_in 0 2 empty_places)" and ?now = "clock waiting7 (ticks waiting7)"
  obtain s' a' where r: "processQueue waiting7 = Some s'"
    "(serve (open_tubes ?now waiting7) (JobPriLess (J waiting7)))\<^sup>*\<^sup>* ?a a'" "unmatched (open_tubes ?now waiting7) a'"
    "got ?a a' waiting7 s' 0"
    using processQueue_serves [OF waiting7_holds(1)] by blast
  have o: "0 \<in> open_tubes ?now waiting7"
    using waiting7_holds(2,4,5) by (simp add: open_tubes_def same_jobs_def)
  have a: "a_ready ?a t = (if t = 0 then {#2#} else {#})" "a_waiting ?a t = (if t = 0 then {#0#} else {#})" "a_held ?a 0 = []" for t
    by (simp_all add: wait_in_def ready_in_def empty_places_def)
  have "d = 0" if "d \<in># a_waiting ?a t" for t d using that unfolding a by (cases "t = 0") simp_all
  moreover have "a_ready ?a 0 \<noteq> {#}" "a_waiting ?a 0 \<noteq> {#}" by (simp_all only: a) simp_all
  ultimately obtain t j where g: "j \<in># a_ready ?a t" "a' = give t j 0 ?a"
    using serve_only_one [OF r(2,3) _ o, of 0] by blast
  have "j = 2" using g(1) unfolding a by (cases "t = 0") simp_all
  then have "a_held a' 0 = [2]" by (simp add: g(2) give_places a)
  then show ?thesis using r(1,4) by (auto simp: got_def a)
qed

section \<open>The job is reserved, and comes back\<close>

definition held7 :: world where
  "held7 = the (reserveJob 0 2 made7)"

text \<open>The connection that holds the job has sent a command.\<close>

definition sent :: "string \<Rightarrow> world" where
  "sent x = modC 0 (\<lambda>y. y\<lparr>Cmd := x\<rparr>) held7"

lemma held7_holds:
  "holds (hold_in 0 2 empty_places) held7" "same_jobs made7 held7" "Use (C held7 0) = Some 0"
proof -
  have "0 < nC made7" "JTube (J made7 2) = Some 0" "0 < nT made7" by (simp_all add: made7_facts)
  from reserveJob_moves [OF made7_holds(1) this(1) made7_holds(2) this(2,3)] obtain s p where
    s: "reserveJob 0 2 made7 = Some s" "holds (hold_in 0 2 empty_places) s" "same_jobs made7 s"
    "C s 0 = (C made7 0)\<lparr>PendingTimeout := -1, SoonestJob := p\<rparr>" by blast
  have e: "held7 = s" by (simp add: held7_def s(1))
  show "holds (hold_in 0 2 empty_places) held7" "same_jobs made7 held7" using s by (simp_all add: e)
  show "Use (C held7 0) = Some 0" by (simp add: e s(4) made7_facts)
qed

lemma held7_facts:
  "nT held7 = 1" "nC held7 = 1" "JobFind 7 held7 = Some 2" "ID (R (J held7 2)) = 7" "WalUse (Wal held7) = False"
  "JTube (J held7 2) = Some 0"
  using held7_holds(2) made7_facts by (simp_all add: same_jobs_def same_job_def JobFind_def)

lemma sent_holds: "holds (hold_in 0 2 empty_places) (sent x)"
  unfolding sent_def by (rule holds_modC [OF held7_holds(1)]) (simp_all add: same_conn_def)

lemma sent_facts:
  "nT (sent x) = 1" "nC (sent x) = 1" "JobFind 7 (sent x) = Some 2" "ID (R (J (sent x) 2)) = 7" "WalUse (Wal (sent x)) = False"
  "JTube (J (sent x) 2) = Some 0" "Cmd (C (sent x) 0) = x"
  using held7_facts by (simp_all add: sent_def JobFind_def upd)

lemma sent_numbers:
  "read_int 0 (len CmdDelete) (sent (''delete 7'' @ CRLF)) = Some (Inr (7, 8))"
  "read_int 0 (len CmdRelease) (sent (''release 7 5 0'' @ CRLF)) = Some (Inr (7, 9))"
  "read_int 0 9 (sent (''release 7 5 0'' @ CRLF)) = Some (Inr (5, 11))"
  "read_int 0 11 (sent (''release 7 5 0'' @ CRLF)) = Some (Inr (0, 13))"
  "read_int 0 (len CmdRelease) (sent (''bury   7 5'' @ CRLF)) = Some (Inr (7, 8))"
  "read_int 0 8 (sent (''bury   7 5'' @ CRLF)) = Some (Inr (5, 10))"
  unfolding read_int_def sent_facts by code_simp+

lemma held_places:
  "a_held (hold_in 0 2 empty_places) 0 = [2]" "a_waiting (hold_in 0 2 empty_places) t = {#}"
  "a_ready (hold_in 0 2 empty_places) t = {#}"
  by (simp_all add: hold_in_def empty_places_def)

theorem delete_reserved_witness:
  "\<exists>s'. dispatchOpDelete 0 (sent (''delete 7'' @ CRLF)) = Some s' \<and> Reply (C s' 0) = MsgDeleted \<and> JobFind 7 s' = None"
  using delete_reserved [OF sent_holds [of "''delete 7'' @ CRLF"], of 0 2 7] sent_numbers(1)
  by (simp add: sent_facts held_places) blast

theorem release_moves_witness:
  "\<exists>s' a'. dispatchOpRelease 0 (sent (''release 7 5 0'' @ CRLF)) = Some s' \<and> Reply (C s' 0) = MsgReleased \<and>
     Pri (R (J s' 2)) = 5 \<and> holds a' s' \<and> a_held a' 0 = []"
  using release_moves [OF sent_holds [of "''release 7 5 0'' @ CRLF"], of 0 2 7 9 5 11 0 13] sent_numbers(2-4)
  by (simp add: sent_facts held_places) blast


lemma held7_socket: "map_option (\<lambda>s. fst (sockWant 0 (CHR 0x00) s)) (reserveJob 0 2 made7) = Some True"
  by code_simp

theorem connClose_gives_back_witness:
  "\<exists>s' a'. connClose 0 held7 = Some s' \<and> holds a' s' \<and> a_held a' 0 = [] \<and> active_jobs held7 a' = {#2#} \<and> Use (C s' 0) = None"
proof -
  have "fst (sockWant 0 (CHR 0x00) held7)" using held7_socket by (auto simp: held7_def)
  moreover have "0 < nC held7" "\<not> WalUse (Wal held7)" by (simp_all add: held7_facts)
  ultimately obtain s' a' where "connClose 0 held7 = Some s'" "holds a' s'" "a_held a' 0 = []" "Use (C s' 0) = None"
    "active_jobs held7 a' = active_jobs held7 (hold_in 0 2 empty_places)"
    using connClose_gives_back [OF held7_holds(1) _ _ _ held7_holds(3)] by blast
  moreover have "active_jobs held7 (hold_in 0 2 empty_places) = {#2#}"
    by (simp add: active_jobs_def held7_facts hold_in_def empty_places_def)
  ultimately show ?thesis by auto
qed

text \<open>The job is buried.\<close>

theorem kickJobs_digs_out_witness:
  "\<exists>s s'. BuryJob 2 False made7 = Some (True, s) \<and> kickJobs 0 5 s = Some (1, s') \<and>
     holds (dig 5 0 (bury_in 0 2 empty_places)) s'"
proof -
  have m: "JTube (J made7 2) = Some 0" "0 < nT made7" "\<not> WalUse (Wal made7)" by (simp_all add: made7_facts)
  obtain s where s: "BuryJob 2 False made7 = Some (True, s)" "holds (bury_in 0 2 empty_places) s" "same_jobs made7 s"
    using BuryJob_moves [OF made7_holds(1,2) m, of False] by blast
  have "0 < nT s" "\<not> WalUse (Wal s)" using s(3) m by (simp_all add: same_jobs_def)
  moreover have "calm (bury_in 0 2 empty_places) s" "a_waiting (bury_in 0 2 empty_places) 0 = {#}"
    "a_buried (bury_in 0 2 empty_places) 0 = [2]"
    by (simp_all add: calm_def bury_in_def empty_places_def)
  ultimately show ?thesis using s(1) kickJobs_digs_out [OF s(2), of 0 5] by auto
qed

section \<open>The queue of sockets\<close>

theorem EpollQApply_polled_witness: "\<exists>s'. EpollQApply three_queued = Some s' \<and> epollQ s' = None \<and> CNext (C s' 1) = None"
proof -
  have "\<forall>n. io three_queued n" by (simp add: three_queued_def demo_def boot_def core_init_def zero_world_def Let_def upd
        NewTube_def MakeAndInsertTube_def NewJob_def time_Now_def ListReset_def ms_Append_def ms_fire_def)
  then show ?thesis using EpollQApply_polled [OF three_queued_path] by (simp add: polled_def)
qed

end
