(* ===== verification/Reservations.thy ===== *)
theory Reservations
  imports Recovery
begin

text \<open>
  Space in the write-ahead log. Records are written to the current file only, and only into space that has been
  reserved; the reservations are balanced so that a record never has to be split between two files
  (\<open>reserve\<close>, \<open>balance\<close>, \<open>balanceRest\<close>, \<open>moveResv\<close>, \<open>needFree\<close>, \<open>makeNextFile\<close>, \<open>useNext\<close> in \<open>core/wal.go\<close>). Here the linked
  list of files is written as the files before the current one, the current one and the files after it.
\<close>

section \<open>The list of files\<close>

fun fpath :: "(fref \<Rightarrow> gofile) \<Rightarrow> fref option \<Rightarrow> fref list \<Rightarrow> fref option \<Rightarrow> bool" where
  "fpath m p [] q \<longleftrightarrow> p = q"
| "fpath m p (f # fs) q \<longleftrightarrow> p = Some f \<and> fpath m (FileNext (m f)) fs q"

lemma fpath_append: "fpath m p (xs @ ys) q \<longleftrightarrow> (\<exists>r. fpath m p xs r \<and> fpath m r ys q)"
  by (induction xs arbitrary: p) auto

lemma fpath_cong: "(\<And>f. f \<in> set fs \<Longrightarrow> FileNext (m' f) = FileNext (m f)) \<Longrightarrow> fpath m' p fs q \<longleftrightarrow> fpath m p fs q"
  by (induction fs arbitrary: p) auto

text \<open>The size of a short record: what every update of a job will write.\<close>

definition short_size :: int where
  "short_size = int64_size + rec_size"

lemma short_size_eq: "short_size = 81"
  by (simp add: short_size_def int64_size_eq rec_size_eq)

text \<open>A file that can be written: the bytes written, reserved and free make up the size of a file.\<close>

definition file_ok :: "int \<Rightarrow> gofile \<Rightarrow> bool" where
  "file_ok sz x \<longleftrightarrow> IsWOpen x \<and> 0 < Refs x \<and> 0 \<le> FFree x \<and> 0 \<le> FResv x \<and> 8 \<le> length (FBytes x) \<and>
     FFree x + FResv x + int (length (FBytes x)) = sz"

definition log_ok :: "fref list \<Rightarrow> fref \<Rightarrow> fref list \<Rightarrow> world \<Rightarrow> bool" where
  "log_ok ds c rs s \<longleftrightarrow> fpath (F s) (Head (Wal s)) (ds @ c # rs) None \<and> distinct (ds @ c # rs) \<and>
     Cur (Wal s) = Some c \<and> Tail (Wal s) = Some (last (c # rs)) \<and> (\<forall>f\<in>set (ds @ c # rs). f < nF s) \<and>
     (\<forall>f\<in>set (c # rs). file_ok (FileSize (Wal s)) (F s f)) \<and> 8 + 2 * short_size \<le> FileSize (Wal s)"

text \<open>What the operations here touch: the files, the log, the new sentinels and the system calls made. No file gains a
  reference, and a new one has the reference of being open only.\<close>

abbreviation outside :: "world \<Rightarrow> world \<Rightarrow> world" where
  "outside s s' \<equiv> s'\<lparr>J := J s, nJ := nJ s, F := F s, nF := nF s, Wal := Wal s, ios := ios s\<rparr>"

definition logged :: "world \<Rightarrow> world \<Rightarrow> bool" where
  "logged s s' \<longleftrightarrow> outside s s' = s \<and> nF s \<le> nF s' \<and> nJ s \<le> nJ s' \<and> (\<forall>x<nJ s. J s' x = J s x) \<and>
     (\<forall>f<nF s'. Refs (F s' f) \<le> (if f < nF s then Refs (F s f) else 1)) \<and>
     FileSize (Wal s') = FileSize (Wal s) \<and> WalUse (Wal s') = WalUse (Wal s)"

lemma logged_D:
  assumes "logged s s'"
  shows "T s' = T s" "C s' = C s" "allJobs s' = allJobs s" "io s' = io s" "nF s \<le> nF s'" "x < nJ s \<Longrightarrow> J s' x = J s x"
    "nJ s \<le> nJ s'" "FileSize (Wal s') = FileSize (Wal s)" "WalUse (Wal s') = WalUse (Wal s)"
proof -
  have e: "outside s s' = s" using assms unfolding logged_def by blast
  show "T s' = T s" "C s' = C s" "allJobs s' = allJobs s" "io s' = io s"
    using arg_cong [OF e, of T] arg_cong [OF e, of C] arg_cong [OF e, of allJobs] arg_cong [OF e, of io] by simp_all
qed (use assms in \<open>simp_all add: logged_def\<close>)

lemma logged_refs: "logged s s' \<Longrightarrow> f < nF s' \<Longrightarrow> Refs (F s' f) \<le> (if f < nF s then Refs (F s f) else 1)"
  unfolding logged_def by blast

lemma logged_refl: "logged s s"
  by (simp add: logged_def)

lemma logged_trans:
  assumes "logged s t" "logged t u"
  shows "logged s u"
proof -
  have "outside s u = outside s (outside t u)" by simp
  also have "\<dots> = s" using assms unfolding logged_def by simp
  finally have "outside s u = s" .
  moreover have "Refs (F u f) \<le> (if f < nF s then Refs (F s f) else 1)" if f: "f < nF u" for f
  proof (cases "f < nF t")
    case True
    then show ?thesis using logged_refs [OF assms(2) f] logged_refs [OF assms(1) True] by simp
  next
    case False
    then show ?thesis using logged_refs [OF assms(2) f] logged_D(5) [OF assms(1)] by simp
  qed
  ultimately show ?thesis using assms unfolding logged_def by auto
qed

lemma logged_modF: "(\<And>x. Refs (g x) = Refs x) \<Longrightarrow> logged s (modF f g s)"
  by (simp add: logged_def upd)

lemma logged_modW: "FileSize (g (Wal s)) = FileSize (Wal s) \<Longrightarrow> WalUse (g (Wal s)) = WalUse (Wal s) \<Longrightarrow> logged s (modW g s)"
  by (simp add: logged_def upd)

section \<open>A new file\<close>

lemma rawFAlloc_works: "\<forall>n. io s n \<Longrightarrow> \<exists>k. rawFAlloc l i s = (True, s\<lparr>ios := k\<rparr>)"
proof (induction l i s rule: rawFAlloc.induct)
  case (1 l i s)
  show ?case
  proof (cases "i < l")
    case True
    have "syscall_ok s = (True, s\<lparr>ios := Suc (ios s)\<rparr>)" using "1.prems" by (simp add: syscall_ok_def)
    then have "\<exists>k. rawFAlloc l (i + 4096) (s\<lparr>ios := Suc (ios s)\<rparr>) = (True, s\<lparr>ios := Suc (ios s), ios := k\<rparr>)"
      using "1.IH" [OF True] "1.prems" by simp
    then show ?thesis using True \<open>syscall_ok s = _\<close> by (subst rawFAlloc.simps) simp
  next
    case False
    then show ?thesis by (subst rawFAlloc.simps) (auto intro: exI [of _ "ios s"])
  qed
qed

lemma makeNextFile_works:
  assumes "\<forall>n. io s n" "Tail (Wal s) = Some t" "Head (Wal s) \<noteq> None" "t < nF s"
  shows "\<exists>s' k. makeNextFile s = Some (True, s') \<and> s' = s\<lparr>nF := Suc (nF s), nJ := Suc (nJ s), J := (J s)(nJ s := zero_job), ios := k,
      F := (F s)(nF s := F s' (nF s), t := (F s t)\<lparr>FileNext := Some (nF s)\<rparr>),
      Wal := (Wal s)\<lparr>WNext := WNext (Wal s) + 1, Tail := Some (nF s), NFile := NFile (Wal s) + 1\<rparr>\<rparr> \<and>
    FileNext (F s' (nF s)) = None \<and> Refs (F s' (nF s)) = 1 \<and> IsWOpen (F s' (nF s)) \<and>
    FFree (F s' (nF s)) = FileSize (Wal s) - 8 \<and> FResv (F s' (nF s)) = 0 \<and> length (FBytes (F s' (nF s))) = 8"
proof -
  define s1 where "s1 = snd (newFile s)"
  define p where "p = Dir (Wal s) @ ''/binlog.'' @ dec_int (WNext (Wal s))"
  define s2 where "s2 = modF (nF s) (\<lambda>x. x\<lparr>Seq := WNext (Wal s), Path := p\<rparr>) s1"
  have io2: "\<forall>n. io (s2\<lparr>ios := k\<rparr>) n" for k using assms(1) by (simp add: s2_def s1_def newFile_def Let_def upd)
  obtain k where r: "rawFAlloc (FileSize (Wal s)) 0 (s2\<lparr>ios := Suc (ios s2)\<rparr>) = (True, s2\<lparr>ios := k\<rparr>)"
    using rawFAlloc_works [OF io2 [of "Suc (ios s2)"]] by fastforce
  have io: "io s2 n" for n using io2 [of "ios s2"] by simp
  have w: "Wal s2 = Wal s" by (simp add: s2_def s1_def newFile_def Let_def upd)
  define s3 where "s3 = modF (nF s) (\<lambda>x. x\<lparr>FBytes := binary_bytes (WInt64 WalVer), IsWOpen := True\<rparr>) (s2\<lparr>ios := Suc k\<rparr>)"
  define s4 where "s4 = modF (nF s) (\<lambda>x. x\<lparr>FResv := 0\<rparr>) (modF (nF s) (\<lambda>x. x\<lparr>FFree := FileSize (Wal s) - 8\<rparr>) (fileIncRef (Some (nF s)) s3))"
  have o: "fileWOpen (nF s) s2 = Some s4"
    using r io w by (simp add: fileWOpen_def syscall_ok_def Let_def s4_def s3_def upd fileIncRef_def binary_Size_def)
  have i: "fileInit (nF s) (WNext (Wal s)) s1 = (True, s2)"
    by (simp add: fileInit_def s2_def p_def s1_def newFile_def Let_def upd)
  have n: "newFile s = (nF s, s1)" "Wal s1 = Wal s" by (simp_all add: s1_def newFile_def Let_def)
  define s5 where "s5 = fileAdd (nF s) (modW (\<lambda>w. w\<lparr>WNext := WNext w + 1\<rparr>) s4)"
  have "makeNextFile s = Some (True, s5)"
    using n i o by (simp add: makeNextFile_def s5_def) (simp add: s4_def s3_def upd fileIncRef_def)
  moreover have "s5 = s\<lparr>nF := Suc (nF s), nJ := Suc (nJ s), J := (J s)(nJ s := zero_job), ios := Suc k,
      F := (F s)(nF s := F s5 (nF s), t := (F s t)\<lparr>FileNext := Some (nF s)\<rparr>),
      Wal := (Wal s)\<lparr>WNext := WNext (Wal s) + 1, Tail := Some (nF s), NFile := NFile (Wal s) + 1\<rparr>\<rparr>"
    using assms(2-4)
    by (auto simp: s5_def fileAdd_def s4_def s3_def s2_def s1_def newFile_def Let_def upd fileIncRef_def)
  moreover have "FileNext (F s5 (nF s)) = None" "Refs (F s5 (nF s)) = 1" "IsWOpen (F s5 (nF s))"
    "FFree (F s5 (nF s)) = FileSize (Wal s) - 8" "FResv (F s5 (nF s)) = 0" "length (FBytes (F s5 (nF s))) = 8"
    using assms(2-4)
    by (auto simp: s5_def fileAdd_def s4_def s3_def s2_def s1_def newFile_def Let_def upd fileIncRef_def)
  ultimately show ?thesis by blast
qed

text \<open>What an operation does to the space of the files: nothing.\<close>

definition same_space :: "fref list \<Rightarrow> world \<Rightarrow> world \<Rightarrow> bool" where
  "same_space fs s s' \<longleftrightarrow> (\<forall>f\<in>set fs. FResv (F s' f) = FResv (F s f) \<and> FFree (F s' f) = FFree (F s f)) \<and>
     (\<forall>f<nF s. FBytes (F s' f) = FBytes (F s f)) \<and>
     WResv (Wal s') = WResv (Wal s) \<and> Alive (Wal s') = Alive (Wal s)"

lemma same_space_refl: "same_space fs s s"
  by (simp add: same_space_def)

lemma fpath_extend:
  assumes "fpath m p (xs @ [t]) None" "f \<notin> set (xs @ [t])" "t \<notin> set xs" "FileNext x = None"
  shows "fpath (m(f := x, t := (m t)\<lparr>FileNext := Some f\<rparr>)) p ((xs @ [t]) @ [f]) None"
proof -
  have "fpath m p xs (Some t)" using assms(1) by (auto simp: fpath_append)
  then have "fpath (m(f := x, t := (m t)\<lparr>FileNext := Some f\<rparr>)) p xs (Some t)"
    using assms(2,3) by (subst fpath_cong [of _ _ m]) auto
  then show ?thesis using assms(2,4) by (auto simp: fpath_append)
qed

lemma makeNextFile_grows:
  assumes "log_ok ds c rs s" "\<forall>n. io s n"
  shows "\<exists>s'. makeNextFile s = Some (True, s') \<and> log_ok ds c (rs @ [nF s]) s' \<and> logged s s' \<and> same_space (ds @ c # rs) s s' \<and>
    FFree (F s' (nF s)) = FileSize (Wal s) - 8 \<and> FResv (F s' (nF s)) = 0"
proof -
  let ?t = "last (c # rs)" and ?f = "nF s"
  have w: "fpath (F s) (Head (Wal s)) (ds @ c # rs) None" "distinct (ds @ c # rs)" "Cur (Wal s) = Some c" "Tail (Wal s) = Some ?t"
    "\<forall>f\<in>set (ds @ c # rs). f < nF s" "\<forall>f\<in>set (c # rs). file_ok (FileSize (Wal s)) (F s f)" "8 + 2 * short_size \<le> FileSize (Wal s)"
    using assms(1) by (simp_all add: log_ok_def)
  obtain xs where xs: "ds @ c # rs = xs @ [?t]" by (metis append_butlast_last_id append_is_Nil_conv last_append list.distinct(1))
  have t: "?t \<in> set (c # rs)" by (rule last_in_set) simp
  then have tn: "?t < nF s" using w(5) by auto
  have "Head (Wal s) \<noteq> None" using w(1) by (cases ds) auto
  from makeNextFile_works [OF assms(2) w(4) this tn] obtain s' k where s': "makeNextFile s = Some (True, s')"
    "s' = s\<lparr>nF := Suc (nF s), nJ := Suc (nJ s), J := (J s)(nJ s := zero_job), ios := k,
      F := (F s)(?f := F s' ?f, ?t := (F s ?t)\<lparr>FileNext := Some ?f\<rparr>),
      Wal := (Wal s)\<lparr>WNext := WNext (Wal s) + 1, Tail := Some ?f, NFile := NFile (Wal s) + 1\<rparr>\<rparr>" and
    f: "FileNext (F s' ?f) = None" "Refs (F s' ?f) = 1" "IsWOpen (F s' ?f)" "FFree (F s' ?f) = FileSize (Wal s) - 8"
      "FResv (F s' ?f) = 0" "length (FBytes (F s' ?f)) = 8"
    by blast
  define x where "x = F s' ?f"
  note e = s'(2) [folded x_def]
  have F: "F s' = (F s)(?f := x, ?t := (F s ?t)\<lparr>FileNext := Some ?f\<rparr>)"
    and W: "Wal s' = (Wal s)\<lparr>WNext := WNext (Wal s) + 1, Tail := Some ?f, NFile := NFile (Wal s) + 1\<rparr>" and N: "nF s' = Suc (nF s)"
    using arg_cong [OF e, of F] arg_cong [OF e, of Wal] arg_cong [OF e, of nF] by simp_all
  have fx: "F s' ?f = x" using tn by (simp add: F)
  have new: "?f \<notin> set (ds @ c # rs)" using w(5) by auto
  have F': "FileNext (F s' g) = FileNext (F s g) \<or> g = ?t" "FResv (F s' g) = FResv (F s g)" "FFree (F s' g) = FFree (F s g)"
    "FBytes (F s' g) = FBytes (F s g)" "file_ok n (F s' g) = file_ok n (F s g)" if "g < nF s" for g n
    using that by (auto simp: F file_ok_def)
  have "fpath (F s') (Head (Wal s)) ((xs @ [?t]) @ [?f]) None" unfolding F
    by (rule fpath_extend) (use w(1,2) new f(1) fx in \<open>auto simp: xs\<close>)
  moreover have "(xs @ [?t]) @ [?f] = ds @ c # rs @ [?f]" unfolding xs [symmetric] by simp
  ultimately have "fpath (F s') (Head (Wal s')) (ds @ c # rs @ [?f]) None" by (simp only: W) simp
  moreover have "\<forall>g\<in>set (c # rs @ [?f]). file_ok (FileSize (Wal s')) (F s' g)"
  proof
    fix g assume "g \<in> set (c # rs @ [?f])"
    then consider "g \<in> set (c # rs)" | "g = ?f" by auto
    then show "file_ok (FileSize (Wal s')) (F s' g)"
    proof cases
      case 1
      then have "g < nF s" using w(5) by auto
      moreover have "file_ok (FileSize (Wal s)) (F s g)" using w(6) 1 by blast
      ultimately show ?thesis using F'(5) by (simp add: W)
    next
      case 2
      then show ?thesis using f w(7) by (simp add: file_ok_def W short_size_eq)
    qed
  qed
  moreover have "\<forall>g\<in>set (ds @ c # rs @ [?f]). g < nF s'" using w(5) by (auto simp: N less_Suc_eq)
  ultimately have ok: "log_ok ds c (rs @ [?f]) s'" using w(2,3,7) new by (simp add: log_ok_def W)
  have "\<forall>g<Suc (nF s). Refs (F s' g) \<le> (if g < nF s then Refs (F s g) else 1)"
    using tn f(2) fx by (auto simp: F less_Suc_eq)
  moreover have "outside s s' = s" by (subst e) simp
  moreover have "nJ s' = Suc (nJ s)" "J s' = (J s)(nJ s := zero_job)" using arg_cong [OF e, of nJ] arg_cong [OF e, of J] by simp_all
  ultimately have "logged s s'" unfolding logged_def by (simp add: N W)
  moreover have "same_space (ds @ c # rs) s s'" using w(5) F'(2-4) by (auto simp: same_space_def W)
  ultimately show ?thesis using ok s'(1) f(4,5) by blast
qed

text \<open>After \<open>needFree\<close> the last file has the space asked for; at most one file has been added.\<close>

lemma needFree_works:
  assumes "log_ok ds c rs s" "\<forall>n. io s n" "n \<le> FileSize (Wal s) - 8"
  shows "\<exists>s' fs. needFree n s = Some (n, s') \<and> log_ok ds c (rs @ fs) s' \<and> logged s s' \<and> same_space (ds @ c # rs) s s' \<and>
    n \<le> FFree (F s' (last (c # rs @ fs))) \<and>
    (fs = [] \<or> (\<exists>f. fs = [f] \<and> FResv (F s' f) = 0 \<and> FFree (F s' f) = FileSize (Wal s) - 8 \<and> FFree (F s (last (c # rs))) < n))"
proof -
  have t: "Tail (Wal s) = Some (last (c # rs))" using assms(1) by (simp add: log_ok_def)
  show ?thesis
  proof (cases "n \<le> FFree (F s (last (c # rs)))")
    case True
    then have "needFree n s = Some (n, s)" using t by (simp add: needFree_def)
    then show ?thesis using assms(1) True logged_refl same_space_refl
      by (intro exI [of _ s] exI [of _ "[]"]) simp
  next
    case False
    obtain s' where s': "makeNextFile s = Some (True, s')" "log_ok ds c (rs @ [nF s]) s'" "logged s s'" "same_space (ds @ c # rs) s s'"
      "FFree (F s' (nF s)) = FileSize (Wal s) - 8" "FResv (F s' (nF s)) = 0"
      using makeNextFile_grows [OF assms(1,2)] by blast
    then have "needFree n s = Some (n, s')" using t False by (simp add: needFree_def)
    then show ?thesis using s' False assms(3) by (intro exI [of _ s'] exI [of _ "[nF s]"]) simp
  qed
qed

section \<open>Moving reservations\<close>

text \<open>All that is reserved in the current file and those after it.\<close>

definition resv_total :: "fref list \<Rightarrow> world \<Rightarrow> int" where
  "resv_total fs s = sum_list (map (\<lambda>f. FResv (F s f)) fs)"

lemma resv_total_same: "same_space fs s s' \<Longrightarrow> resv_total fs s' = resv_total fs s"
  unfolding resv_total_def by (intro arg_cong [where f = sum_list] map_cong) (simp_all add: same_space_def)

lemma log_ok_space:
  assumes "log_ok ds c rs s" "nF s' = nF s" "Wal s' = (Wal s)\<lparr>WResv := k\<rparr>"
    and "\<And>f. FileNext (F s' f) = FileNext (F s f)" "\<And>f. f \<in> set (c # rs) \<Longrightarrow> file_ok (FileSize (Wal s)) (F s' f)"
  shows "log_ok ds c rs s'"
  using assms(1) assms(5) unfolding log_ok_def
  by (simp add: assms(2,3) fpath_cong [of _ "F s'" "F s", OF assms(4)])

lemma sum_list_move:
  fixes g :: "'a \<Rightarrow> int"
  assumes "distinct fs" "a \<in> set fs"
  shows "sum_list (map (\<lambda>f. g f + (if f = a then n else 0)) fs) = sum_list (map g fs) + n"
  using assms by (simp add: sum_list_distinct_conv_sum_set sum.distrib)

lemma moveResv_moves:
  assumes "log_ok ds c rs s" "to \<in> set (c # rs)" "from \<in> set (c # rs)" "0 \<le> n" "n \<le> FResv (F s from)" "n \<le> FFree (F s to)"
  shows "log_ok ds c rs (moveResv to from n s)" "logged s (moveResv to from n s)"
    "Wal (moveResv to from n s) = Wal s" "io (moveResv to from n s) = io s"
    "FResv (F (moveResv to from n s) f) = FResv (F s f) + (if f = to then n else 0) - (if f = from then n else 0)"
    "FFree (F (moveResv to from n s) f) = FFree (F s f) - (if f = to then n else 0) + (if f = from then n else 0)"
    "FBytes (F (moveResv to from n s) f) = FBytes (F s f)"
    "resv_total (c # rs) (moveResv to from n s) = resv_total (c # rs) s"
proof -
  let ?s = "moveResv to from n s"
  show r: "FResv (F ?s f) = FResv (F s f) + (if f = to then n else 0) - (if f = from then n else 0)"
    and "FFree (F ?s f) = FFree (F s f) - (if f = to then n else 0) + (if f = from then n else 0)"
    and "FBytes (F ?s f) = FBytes (F s f)" and "Wal ?s = Wal s" "io ?s = io s" for f
    by (auto simp: moveResv_def Let_def upd)
  have ok: "file_ok (FileSize (Wal s)) (F s f)" if "f \<in> set (c # rs)" for f
    using assms(1) that unfolding log_ok_def by blast
  have "FileNext (F ?s f) = FileNext (F s f)" for f by (simp add: moveResv_def Let_def upd)
  moreover have "file_ok (FileSize (Wal s)) (F ?s f)" if "f \<in> set (c # rs)" for f
    using ok [OF that] ok [OF assms(2)] ok [OF assms(3)] assms(4-6)
    by (auto simp: moveResv_def Let_def upd file_ok_def)
  ultimately show "log_ok ds c rs ?s"
    by (intro log_ok_space [OF assms(1), where k = "WResv (Wal s)"]) (simp_all add: moveResv_def Let_def upd)
  show "logged s ?s" unfolding moveResv_def Let_def by (intro logged_trans [OF logged_modF logged_modF]) simp_all
  have d: "distinct (c # rs)" using assms(1) by (simp add: log_ok_def)
  have "resv_total (c # rs) ?s = sum_list (map (\<lambda>f. (FResv (F s f) + (if f = to then n else 0)) + (if f = from then - n else 0)) (c # rs))"
    unfolding resv_total_def by (intro arg_cong [where f = sum_list] map_cong) (auto simp: r)
  also have "\<dots> = resv_total (c # rs) s"
    unfolding sum_list_move [OF d assms(3)] sum_list_move [OF d assms(2)] resv_total_def by simp
  finally show "resv_total (c # rs) ?s = resv_total (c # rs) s" .
qed

section \<open>The next file becomes the current one\<close>

text \<open>Files at the front that no job refers to are dropped, at most up to a file that is referred to.\<close>

lemma walGc_stops:
  assumes "fpath (F s) (Head (Wal s)) (xs @ r # ys) None" "distinct (xs @ r # ys)" "0 < Refs (F s r)"
    and "Tail (Wal s) = Some (last (r # ys))"
  shows "\<exists>ds h k. walGc s = Some (s\<lparr>Wal := (Wal s)\<lparr>Head := h, NFile := k\<rparr>\<rparr>) \<and>
    fpath (F s) h (ds @ r # ys) None \<and> set ds \<subseteq> set xs \<and> distinct ds"
  using assms
proof (induction xs arbitrary: s)
  case Nil
  then have "walGc s = Some s" by (simp add: walGc.simps)
  then show ?case using Nil.prems(1)
    by (intro exI [of _ "[]"] exI [of _ "Head (Wal s)"] exI [of _ "NFile (Wal s)"]) simp
next
  case (Cons x xs)
  show ?case
  proof (cases "Refs (F s x) > 0")
    case True
    then have "walGc s = Some s" using Cons.prems(1) by (simp add: walGc.simps)
    then show ?thesis using Cons.prems(1,2)
      by (intro exI [of _ "x # xs"] exI [of _ "Head (Wal s)"] exI [of _ "NFile (Wal s)"]) simp
  next
    case False
    let ?w = "(Wal s)\<lparr>Head := FileNext (F s x), NFile := NFile (Wal s) - 1\<rparr>"
    have "last (r # ys) \<in> set (r # ys)" by (rule last_in_set) simp
    then have "Tail (Wal s) \<noteq> Some x" using Cons.prems(2,4) by auto
    then have e: "walGc s = walGc (s\<lparr>Wal := ?w\<rparr>)"
      using False Cons.prems(1) by (subst walGc.simps) (simp add: Let_def upd)
    have "fpath (F (s\<lparr>Wal := ?w\<rparr>)) (Head (Wal (s\<lparr>Wal := ?w\<rparr>))) (xs @ r # ys) None" "distinct (xs @ r # ys)"
      "0 < Refs (F (s\<lparr>Wal := ?w\<rparr>) r)" "Tail (Wal (s\<lparr>Wal := ?w\<rparr>)) = Some (last (r # ys))"
      using Cons.prems by simp_all
    from Cons.IH [OF this] obtain ds h k where
      "walGc (s\<lparr>Wal := ?w\<rparr>) = Some (s\<lparr>Wal := ?w, Wal := ?w\<lparr>Head := h, NFile := k\<rparr>\<rparr>)"
      "fpath (F s) h (ds @ r # ys) None" "set ds \<subseteq> set xs" "distinct ds" by auto
    then show ?thesis using e by (intro exI [of _ ds] exI [of _ h] exI [of _ k]) auto
  qed
qed

lemma useNext_works:
  assumes "log_ok ds c (r # rs) s"
  shows "\<exists>ds' s'. useNext s = Some (True, s') \<and> log_ok ds' r rs s' \<and> logged s s' \<and> (\<forall>fs. same_space fs s s') \<and>
    (\<forall>f. f \<noteq> c \<longrightarrow> F s' f = F s f) \<and> J s' = J s"
proof -
  have w: "fpath (F s) (Head (Wal s)) (ds @ c # r # rs) None" "distinct (ds @ c # r # rs)" "Cur (Wal s) = Some c"
    "Tail (Wal s) = Some (last (r # rs))" "\<forall>f\<in>set (ds @ c # r # rs). f < nF s" "8 + 2 * short_size \<le> FileSize (Wal s)"
    and ok: "\<And>f. f \<in> set (c # r # rs) \<Longrightarrow> file_ok (FileSize (Wal s)) (F s f)"
    using assms unfolding log_ok_def by auto
  have n: "FileNext (F s c) = Some r" using w(1) by (auto simp: fpath_append)
  define s1 where "s1 = modF c (\<lambda>x. x\<lparr>Refs := Refs x - 1\<rparr>) (modF c (\<lambda>x. x\<lparr>IsWOpen := False\<rparr>) (modW (\<lambda>w. w\<lparr>Cur := Some r\<rparr>) s))"
  have F1: "F s1 = (F s)(c := (F s c)\<lparr>IsWOpen := False, Refs := Refs (F s c) - 1\<rparr>)" and W1: "Wal s1 = (Wal s)\<lparr>Cur := Some r\<rparr>"
    and e1: "s1 = s\<lparr>F := F s1, Wal := Wal s1\<rparr>"
    by (simp_all add: s1_def upd)
  have "IsWOpen (F s c)" using ok [of c] by (simp add: file_ok_def)
  then have u: "useNext s = map_option (\<lambda>s. (True, s)) (if Refs (F s1 c) < 1 then walGc s1 else Some s1)"
    using w(3) n
    by (simp add: useNext_def fileWClose_def fileDecRef_def s1_def upd Let_def map_conv_bind_option comp_def)
  have p1: "fpath (F s1) (Head (Wal s1)) ((ds @ [c]) @ r # rs) None"
    using w(1) by (simp add: W1) (subst fpath_cong [of _ _ "F s"], simp_all add: F1)
  have d1: "distinct ((ds @ [c]) @ r # rs)" "0 < Refs (F s1 r)" "Tail (Wal s1) = Some (last (r # rs))"
    using w(2,4) ok [of r] by (auto simp: F1 W1 file_ok_def)
  have "\<exists>ds' h k. (if Refs (F s1 c) < 1 then walGc s1 else Some s1) = Some (s1\<lparr>Wal := (Wal s1)\<lparr>Head := h, NFile := k\<rparr>\<rparr>) \<and>
    fpath (F s1) h (ds' @ r # rs) None \<and> set ds' \<subseteq> set (ds @ [c]) \<and> distinct ds'"
  proof (cases "Refs (F s1 c) < 1")
    case True
    then show ?thesis using walGc_stops [OF p1 d1] by auto
  next
    case False
    then show ?thesis using p1 w(2)
      by (intro exI [of _ "ds @ [c]"] exI [of _ "Head (Wal s1)"] exI [of _ "NFile (Wal s1)"]) simp
  qed
  then obtain ds' h k where g: "(if Refs (F s1 c) < 1 then walGc s1 else Some s1) = Some (s1\<lparr>Wal := (Wal s1)\<lparr>Head := h, NFile := k\<rparr>\<rparr>)"
    "fpath (F s1) h (ds' @ r # rs) None" "set ds' \<subseteq> set (ds @ [c])" "distinct ds'" by blast
  define s' where "s' = s1\<lparr>Wal := (Wal s1)\<lparr>Head := h, NFile := k\<rparr>\<rparr>"
  have f': "F s' = F s1" "Wal s' = (Wal s)\<lparr>Cur := Some r, Head := h, NFile := k\<rparr>" "nF s' = nF s" "J s' = J s"
    by (simp_all add: s'_def W1) (simp_all add: s1_def upd)
  have "c \<notin> set (r # rs)" using w(2) by auto
  then have "file_ok (FileSize (Wal s')) (F s' f)" if "f \<in> set (r # rs)" for f
    using that ok [of f] by (auto simp: f' F1)
  moreover have "distinct (ds' @ r # rs)" "\<forall>f\<in>set (ds' @ r # rs). f < nF s'" using g(3,4) w(2,5) f'(3) by auto
  ultimately have lg: "log_ok ds' r rs s'" using g(2) w(4,6) f' by (simp add: log_ok_def)
  have "Refs (F s1 f) \<le> Refs (F s f)" for f
    using word_sub_le [of 1 "Refs (F s c)"] inc_le [of 0 "Refs (F s c)"] ok [of c] by (simp add: F1 file_ok_def)
  moreover have "outside s s' = s" unfolding s'_def by (subst e1) simp
  ultimately have "logged s s'" using f' by (simp add: logged_def) (simp add: s'_def s1_def upd)
  moreover have "same_space fs s s'" for fs by (simp add: same_space_def f' F1)
  moreover have "F s' f = F s f" if "f \<noteq> c" for f using that by (simp add: f' F1)
  moreover have "useNext s = Some (True, s')" using u g(1) by (simp add: s'_def)
  ultimately show ?thesis using f'(4) lg by blast
qed

section \<open>Balancing\<close>

text \<open>All that happens to the log while it is balanced: reservations are moved and files are added.\<close>

definition resv_kept :: "fref list \<Rightarrow> fref list \<Rightarrow> world \<Rightarrow> world \<Rightarrow> bool" where
  "resv_kept fs fs' s s' \<longleftrightarrow> logged s s' \<and> resv_total fs' s' = resv_total fs s \<and> WResv (Wal s') = WResv (Wal s) \<and>
     Alive (Wal s') = Alive (Wal s) \<and> (\<forall>f<nF s. FBytes (F s' f) = FBytes (F s f))"

lemma resv_kept_refl: "resv_kept fs fs s s"
  by (simp add: resv_kept_def logged_refl)

lemma resv_kept_trans: "resv_kept fs gs s t \<Longrightarrow> resv_kept gs hs t u \<Longrightarrow> resv_kept fs hs s u"
  unfolding resv_kept_def using logged_D(5) [of s t] by (auto intro: logged_trans)

lemma needFree_keeps:
  assumes "log_ok ds c rs s" "\<forall>n. io s n" "n \<le> FileSize (Wal s) - 8"
  shows "\<exists>s' fs. needFree n s = Some (n, s') \<and> log_ok ds c (rs @ fs) s' \<and> resv_kept (c # rs) (c # rs @ fs) s s' \<and>
    same_space (ds @ c # rs) s s' \<and> n \<le> FFree (F s' (last (c # rs @ fs))) \<and>
    (fs = [] \<or> (\<exists>f. fs = [f] \<and> FResv (F s' f) = 0 \<and> FFree (F s' f) = FileSize (Wal s) - 8 \<and> FFree (F s (last (c # rs))) < n))"
proof -
  obtain s' fs where s': "needFree n s = Some (n, s')" "log_ok ds c (rs @ fs) s'" "logged s s'" "same_space (ds @ c # rs) s s'"
    "n \<le> FFree (F s' (last (c # rs @ fs)))"
    "fs = [] \<or> (\<exists>f. fs = [f] \<and> FResv (F s' f) = 0 \<and> FFree (F s' f) = FileSize (Wal s) - 8 \<and> FFree (F s (last (c # rs))) < n)"
    using needFree_works [OF assms] by blast
  have sp: "same_space (c # rs) s s'" using s'(4) by (simp add: same_space_def)
  have "resv_total (c # rs @ fs) s' = resv_total (c # rs) s'" using s'(6) by (auto simp: resv_total_def)
  then have "resv_total (c # rs @ fs) s' = resv_total (c # rs) s" using resv_total_same [OF sp] by simp
  then have "resv_kept (c # rs) (c # rs @ fs) s s'" using s'(3) sp by (auto simp: resv_kept_def same_space_def)
  then show ?thesis using s' by blast
qed

text \<open>Every file but the current one has whole short records reserved, the current one so many and \<open>n\<close> more.\<close>

definition even_resv :: "int \<Rightarrow> fref \<Rightarrow> fref \<Rightarrow> world \<Rightarrow> bool" where
  "even_resv n c f s \<longleftrightarrow> short_size dvd FResv (F s f) - (if f = c then n else 0)"

definition balanced :: "int \<Rightarrow> fref \<Rightarrow> fref list \<Rightarrow> world \<Rightarrow> bool" where
  "balanced n c rs s \<longleftrightarrow> n \<le> FResv (F s c) \<and> (\<forall>f\<in>set (c # rs). even_resv n c f s)"

lemma total_even:
  assumes "distinct (c # rs)" "\<forall>f\<in>set (c # rs). f \<noteq> b \<longrightarrow> even_resv n c f s" "b \<in> set (c # rs)"
    and "short_size dvd resv_total (c # rs) s - n"
  shows "even_resv n c b s"
proof -
  let ?g = "\<lambda>f. FResv (F s f) - (if f = c then n else 0)"
  have "(\<Sum>f\<in>set (c # rs). ?g f) = (\<Sum>f\<in>set (c # rs). FResv (F s f)) - (\<Sum>f\<in>set (c # rs). if f = c then n else 0)"
    by (rule sum_subtractf)
  also have "\<dots> = resv_total (c # rs) s - n"
    using sum_list_distinct_conv_sum_set [OF assms(1), of "\<lambda>f. FResv (F s f)"] by (simp add: resv_total_def)
  also have "(\<Sum>f\<in>set (c # rs). ?g f) = ?g b + (\<Sum>f\<in>set (c # rs) - {b}. ?g f)"
    using assms(3) by (intro sum.remove) simp_all
  finally have e: "?g b + (\<Sum>f\<in>set (c # rs) - {b}. ?g f) = resv_total (c # rs) s - n" .
  have "short_size dvd (\<Sum>f\<in>set (c # rs) - {b}. ?g f)"
    using assms(2) unfolding even_resv_def by (intro dvd_sum) blast
  from dvd_add_left_iff [OF this, of "?g b"] show ?thesis unfolding e even_resv_def using assms(4) by simp
qed

text \<open>One step of the walk over the files: a file \<open>b\<close> that is not the last one is brought to a multiple, with space
  from the last file or by adding to it. The measure is twice the number of files ahead, and one more when the last file is
  nearly full: a file is added only then, and the new one is not nearly full.\<close>

definition ahead :: "fref list \<Rightarrow> world \<Rightarrow> nat" where
  "ahead vs s = 2 * length vs + (if FFree (F s (last vs)) < short_size then 1 else 0)"

lemma even_resv_same:
  "FResv (F s' f) = FResv (F s f) \<Longrightarrow> even_resv n c f s' = even_resv n c f s"
  by (simp add: even_resv_def)

lemma balance_turn:
  assumes "log_ok ds c rs s" "\<forall>n. io s n" "c # rs = us @ b # v # vs" "\<not> even_resv n c b s" "0 \<le> n" "n \<le> FResv (F s c)"
  shows "\<exists>s' fs. balanceRest (Some b) (if b = c then n else 0) s = balanceRest (Some v) 0 s' \<and>
    log_ok ds c (rs @ fs) s' \<and> resv_kept (c # rs) (c # rs @ fs) s s' \<and> n \<le> FResv (F s' c) \<and>
    even_resv n c b s' \<and> (\<forall>f\<in>set us. FResv (F s' f) = FResv (F s f)) \<and> ahead (v # vs @ fs) s' < ahead (b # v # vs) s"
proof -
  let ?m = "if b = c then n else 0"
  define tt where "tt = last (c # rs)"
  define rest r where "rest = FResv (F s b) - ?m" and "r = go_rem rest short_size"
  have d: "distinct (us @ b # v # vs)" and ok: "file_ok (FileSize (Wal s)) (F s b)" and big: "8 + 2 * short_size \<le> FileSize (Wal s)"
    and p: "fpath (F s) (Head (Wal s)) (ds @ us @ b # v # vs) None" and tl: "Tail (Wal s) = Some tt"
    using assms(1,3) unfolding log_ok_def tt_def by auto
  have t: "tt = last (v # vs)" using assms(3) by (simp add: tt_def last_append)
  have tin: "tt \<in> set (v # vs)" unfolding t by (rule last_in_set) simp
  have di: "b \<notin> set (v # vs)" "set us \<inter> set (v # vs) = {}" "b \<notin> set us" using d by auto
  have b_in: "b \<in> set (c # rs)" and t_in: "tt \<in> set (c # rs)" using tin unfolding assms(3) by auto
  have bt: "b \<noteq> tt" "tt \<notin> set us" "b \<notin> set us" "b \<in> set (c # rs)" "tt \<in> set (c # rs)"
    using tin di b_in t_in by (simp_all only:) blast+
  have ct: "c \<noteq> tt"
  proof (cases us)
    case Nil
    then show ?thesis using assms(3) bt(1) by simp
  next
    case (Cons u us')
    then show ?thesis using assms(3) bt(2) by auto
  qed
  have rest0: "0 \<le> rest" using ok assms(5,6) by (auto simp: rest_def file_ok_def)
  have r: "r = rest mod short_size" "0 < short_size"
    using rest0 by (simp_all add: r_def go_rem_nonneg short_size_eq)
  have "\<not> short_size dvd rest" using assms(4) by (simp add: even_resv_def rest_def)
  then have "r \<noteq> 0" by (simp add: r dvd_eq_mod_eq_0)
  moreover have "0 \<le> r" "r < short_size" "r \<le> rest"
    unfolding r(1) using r(2) rest0 by (simp_all add: zmod_le_nonneg_dividend)
  ultimately have rs: "0 < r" "r < short_size" "r \<le> rest" by simp_all
  have nx: "FileNext (F s b) = Some v" using p by (auto simp: fpath_append)
  have z: "int64_size + rec_size = short_size" by (simp add: short_size_def)
  show ?thesis
  proof (cases "FResv (F s tt) \<ge> short_size - r \<and> FFree (F s b) \<ge> short_size - r")
    case True
    let ?s = "moveResv b tt (short_size - r) s"
    note mv = moveResv_moves [OF assms(1) bt(4,5), of "short_size - r"]
    have "FileNext (F ?s f) = FileNext (F s f)" for f by (simp add: moveResv_def Let_def upd)
    then have "FileNext (F ?s b) = Some v" using nx by simp
    then have e: "balanceRest (Some b) ?m s = balanceRest (Some v) 0 ?s"
      using True tl rs(1) by (subst balanceRest.simps) (simp add: Let_def z rest_def [symmetric] r_def [symmetric])
    have "log_ok ds c rs ?s" "logged s ?s" "Wal ?s = Wal s" "resv_total (c # rs) ?s = resv_total (c # rs) s"
      "\<And>f. FBytes (F ?s f) = FBytes (F s f)"
      "\<And>f. FResv (F ?s f) = FResv (F s f) + (if f = b then short_size - r else 0) - (if f = tt then short_size - r else 0)"
      "\<And>f. FFree (F ?s f) = FFree (F s f) - (if f = b then short_size - r else 0) + (if f = tt then short_size - r else 0)"
      using mv rs True by simp_all
    note q = this
    have kept: "resv_kept (c # rs) (c # rs) s ?s" using q(2-5) by (simp add: resv_kept_def)
    have "rest + (short_size - r) = short_size * (rest div short_size) + short_size"
      using r(1) by (simp add: minus_mod_eq_mult_div [symmetric])
    then have "short_size dvd rest + (short_size - r)" by (metis dvd_add dvd_refl dvd_triv_left)
    moreover have "FResv (F ?s b) - ?m = rest + (short_size - r)" using bt(1) by (simp add: q(6) rest_def)
    ultimately have "even_resv n c b ?s" by (simp only: even_resv_def)
    moreover have "n \<le> FResv (F ?s c)" using assms(6) ct rs(2) by (cases "c = b") (simp_all add: q(6))
    moreover have "\<forall>f\<in>set us. FResv (F ?s f) = FResv (F s f)" using bt(2,3) by (auto simp: q(6))
    moreover have "ahead (v # vs) ?s < ahead (b # v # vs) s" by (simp add: ahead_def)
    ultimately show ?thesis using e q(1) kept
      by (intro exI [of _ ?s] exI [of _ "[]"]) (unfold append_Nil2, blast)
  next
    case False
    obtain s1 fs where 1: "needFree r s = Some (r, s1)" "log_ok ds c (rs @ fs) s1" "resv_kept (c # rs) (c # rs @ fs) s s1"
      "same_space (ds @ c # rs) s s1" "r \<le> FFree (F s1 (last (c # rs @ fs)))" and
      fs: "fs = [] \<or> (\<exists>f. fs = [f] \<and> FResv (F s1 f) = 0 \<and> FFree (F s1 f) = FileSize (Wal s) - 8 \<and> FFree (F s tt) < r)"
      using needFree_keeps [OF assms(1,2), of r] rs(2) big short_size_eq unfolding tt_def by auto
    define u where "u = last (c # rs @ fs)"
    let ?s = "moveResv u b r s1"
    have sp: "FResv (F s1 f) = FResv (F s f)" "FFree (F s1 f) = FFree (F s f)" if "f \<in> set (c # rs)" for f
      using 1(4) that by (auto simp: same_space_def)
    have u: "u \<in> set (c # rs @ fs)" unfolding u_def by (rule last_in_set) simp
    have all: "c # rs @ fs = us @ b # v # vs @ fs" using arg_cong [OF assms(3), of "\<lambda>xs. xs @ fs"] by simp
    have "distinct (c # rs @ fs)" using 1(2) unfolding log_ok_def by simp
    then have d1: "distinct (us @ b # v # vs @ fs)" unfolding all .
    have ul: "u = last (v # vs @ fs)" unfolding u_def all by simp
    have "u \<in> set (v # vs @ fs)" unfolding ul by (rule last_in_set) simp
    then have ub: "u \<noteq> b" "u \<notin> set us" using d1 by auto
    have b1: "b \<in> set (c # rs @ fs)" "r \<le> FResv (F s1 b)"
      using bt(4) rs(3) sp(1) [OF bt(4)] assms(5) by (auto simp: rest_def split: if_splits)
    note mv = moveResv_moves [OF 1(2) u b1(1) _ b1(2) 1(5) [folded u_def]]
    have q: "log_ok ds c (rs @ fs) ?s" "logged s1 ?s" "Wal ?s = Wal s1" "resv_total (c # rs @ fs) ?s = resv_total (c # rs @ fs) s1"
      "\<And>f. FBytes (F ?s f) = FBytes (F s1 f)"
      "\<And>f. FResv (F ?s f) = FResv (F s1 f) + (if f = u then r else 0) - (if f = b then r else 0)"
      "\<And>f. FFree (F ?s f) = FFree (F s1 f) - (if f = u then r else 0) + (if f = b then r else 0)"
      using mv rs(1) by simp_all
    have nx1: "FileNext (F ?s b) = Some v"
    proof -
      have "fpath (F ?s) (Head (Wal ?s)) (ds @ us @ b # v # vs @ fs) None"
        unfolding all [symmetric] using q(1) unfolding log_ok_def by simp
      then show ?thesis by (auto simp: fpath_append)
    qed
    have tl1: "Tail (Wal s1) = Some u" using 1(2) unfolding log_ok_def u_def by blast
    have "balanceRest (Some b) ?m s = balanceRest (Some v) 0 ?s"
      using False tl rs(1) 1(1) tl1 nx1
      by (subst balanceRest.simps) (auto simp: Let_def z rest_def [symmetric] r_def [symmetric] simp del: last.simps)
    moreover have "resv_kept (c # rs) (c # rs @ fs) s ?s"
    proof (rule resv_kept_trans [OF 1(3)])
      show "resv_kept (c # rs @ fs) (c # rs @ fs) s1 ?s" using q(2-5) by (simp add: resv_kept_def)
    qed
    moreover have "FResv (F ?s b) - ?m = rest - r" using ub(1) sp(1) [OF bt(4)] by (simp add: q(6) rest_def)
    then have "even_resv n c b ?s" by (simp only: even_resv_def r(1) dvd_minus_mod)
    moreover have "n \<le> FResv (F ?s c)"
      using assms(6) sp(1) [of c] rs(1,3) by (auto simp: q(6) rest_def)
    moreover have "FResv (F ?s f) = FResv (F s f)" if "f \<in> set us" for f
    proof -
      have "f \<noteq> u" "f \<noteq> b" using that ub(2) bt(3) by auto
      moreover have "f \<in> set (c # rs)" using that unfolding assms(3) by simp
      ultimately show ?thesis using sp(1) by (simp add: q(6))
    qed
    moreover have "ahead (v # vs @ fs) ?s < ahead (b # v # vs) s"
    proof -
      consider "fs = []" | f where "fs = [f]" "FFree (F s1 f) = FileSize (Wal s) - 8" "FFree (F s tt) < r" using fs by blast
      then show ?thesis
      proof cases
        case 1
        then show ?thesis by (simp add: ahead_def)
      next
        case 2
        have "u = f" using ul 2(1) by simp
        then have "FFree (F ?s f) = FileSize (Wal s) - 8 - r" using 2(2) ub(1) q(7) [of f] by simp
        then have "\<not> FFree (F ?s (last (v # vs @ fs))) < short_size" using 2(1) big rs(2) by simp
        moreover have "FFree (F s (last (b # v # vs))) < short_size" using 2(3) rs(2) t by simp
        ultimately show ?thesis using 2(1) by (simp add: ahead_def)
      qed
    qed
    ultimately show ?thesis using q(1) by (intro exI [of _ ?s] exI [of _ fs]) blast
  qed
qed

text \<open>The walk over the files, from a file on: the files before are already even.\<close>

lemma balanceRest_works:
  assumes "log_ok ds c rs s" "\<forall>n. io s n" "c # rs = us @ vs" "\<forall>f\<in>set us. even_resv n c f s"
    and "short_size dvd resv_total (c # rs) s - n" "0 \<le> n" "n \<le> FResv (F s c)"
  shows "\<exists>s' fs. balanceRest (case vs of [] \<Rightarrow> None | b # _ \<Rightarrow> Some b) (if us = [] then n else 0) s = Some (1, s') \<and>
    log_ok ds c (rs @ fs) s' \<and> resv_kept (c # rs) (c # rs @ fs) s s' \<and> balanced n c (rs @ fs) s'"
  using assms
proof (induction "ahead vs s" arbitrary: us vs rs s rule: less_induct)
  case less
  show ?case
  proof (cases vs)
    case Nil
    have "balanced n c rs s" using less.prems(3,4,7) Nil by (simp add: balanced_def)
    then show ?thesis using less.prems(1) Nil resv_kept_refl
      by (intro exI [of _ s] exI [of _ "[]"]) (simp add: balanceRest.simps)
  next
    case (Cons b bs)
    have dist: "distinct (us @ b # bs)" using less.prems(1,3) Cons unfolding log_ok_def by auto
    have cb: "(us = []) = (b = c)" using less.prems(3) Cons dist by (cases us) auto
    have m: "(if us = [] then n else 0) = (if b = c then n else 0)" using cb by simp
    have nx: "FileNext (F s b) = (case bs of [] \<Rightarrow> None | v # _ \<Rightarrow> Some v)"
    proof -
      have "fpath (F s) (Head (Wal s)) (ds @ us @ b # bs) None"
        using less.prems(1,3) Cons unfolding log_ok_def by simp
      then show ?thesis by (cases bs) (auto simp: fpath_append)
    qed
    show ?thesis
    proof (cases "even_resv n c b s")
      case True
      have ok: "0 \<le> FResv (F s b) - (if b = c then n else 0)"
        using less.prems(1,3,6,7) Cons unfolding log_ok_def by (auto simp: file_ok_def)
      have "balanceRest (Some b) (if b = c then n else 0) s = balanceRest (FileNext (F s b)) 0 s"
        using True go_rem_nonneg [OF ok, of short_size]
        by (subst balanceRest.simps) (simp add: Let_def even_resv_def short_size_eq dvd_eq_mod_eq_0 int64_size_eq rec_size_eq)
      moreover have "\<exists>s' fs. balanceRest (case bs of [] \<Rightarrow> None | b # _ \<Rightarrow> Some b) (if us @ [b] = [] then n else 0) s = Some (1, s') \<and>
          log_ok ds c (rs @ fs) s' \<and> resv_kept (c # rs) (c # rs @ fs) s s' \<and> balanced n c (rs @ fs) s'"
      proof (cases bs)
        case Nil
        have "balanced n c rs s" using less.prems(3,4,7) Cons Nil True by (simp add: balanced_def)
        then show ?thesis using less.prems(1) Nil resv_kept_refl
          by (intro exI [of _ s] exI [of _ "[]"]) (simp add: balanceRest.simps)
      next
        case (Cons v vs')
        show ?thesis
        proof (rule less.hyps)
          show "ahead bs s < ahead vs s" using \<open>vs = b # bs\<close> Cons by (simp add: ahead_def)
        qed (use less.prems \<open>vs = b # bs\<close> True in simp_all)
      qed
      ultimately show ?thesis unfolding m using Cons nx by simp
    next
      case False
      have "bs \<noteq> []"
      proof
        assume "bs = []"
        then have "\<forall>f\<in>set (c # rs). f \<noteq> b \<longrightarrow> even_resv n c f s" "b \<in> set (c # rs)" "distinct (c # rs)"
          using less.prems(3,4) Cons dist by auto
        then show False using total_even less.prems(5) False by blast
      qed
      then obtain v vs' where bs: "bs = v # vs'" by (cases bs) auto
      have "c # rs = us @ b # v # vs'" using less.prems(3) Cons bs by simp
      from balance_turn [OF less.prems(1,2) this False less.prems(6,7)]
      obtain s1 fs where 1: "balanceRest (Some b) (if b = c then n else 0) s = balanceRest (Some v) 0 s1"
        "log_ok ds c (rs @ fs) s1" "resv_kept (c # rs) (c # rs @ fs) s s1" "n \<le> FResv (F s1 c)" "even_resv n c b s1"
        "\<forall>f\<in>set us. FResv (F s1 f) = FResv (F s f)" "ahead (v # vs' @ fs) s1 < ahead (b # v # vs') s" by blast
      have all: "c # rs @ fs = (us @ [b]) @ (v # vs' @ fs)" using less.prems(3) Cons bs arg_cong [of "c # rs" _ "\<lambda>xs. xs @ fs"] by simp
      have "\<exists>s' gs. balanceRest (case v # vs' @ fs of [] \<Rightarrow> None | b # _ \<Rightarrow> Some b) (if us @ [b] = [] then n else 0) s1 = Some (1, s') \<and>
          log_ok ds c ((rs @ fs) @ gs) s' \<and> resv_kept (c # rs @ fs) (c # (rs @ fs) @ gs) s1 s' \<and> balanced n c ((rs @ fs) @ gs) s'"
      proof (rule less.hyps [OF _ 1(2)])
        show "ahead (v # vs' @ fs) s1 < ahead vs s" using 1(7) Cons bs by simp
        show "\<forall>n. io s1 n" using less.prems(2) logged_D(4) [of s s1] 1(3) by (simp add: resv_kept_def)
        show "c # rs @ fs = (us @ [b]) @ (v # vs' @ fs)" by (rule all)
        show "\<forall>f\<in>set (us @ [b]). even_resv n c f s1" using less.prems(4) 1(5,6) even_resv_same [of s1 _ s] by simp
        show "short_size dvd resv_total (c # rs @ fs) s1 - n" using 1(3) less.prems(5) by (simp add: resv_kept_def)
      qed (use less.prems(6) 1(4) in simp_all)
      then obtain s' gs where 2: "balanceRest (Some v) 0 s1 = Some (1, s')" "log_ok ds c ((rs @ fs) @ gs) s'"
        "resv_kept (c # rs @ fs) (c # (rs @ fs) @ gs) s1 s'" "balanced n c ((rs @ fs) @ gs) s'" by auto
      have "resv_kept (c # rs) (c # rs @ fs @ gs) s s'" using resv_kept_trans [OF 1(3) 2(3) [simplified]] by simp
      then show ?thesis unfolding m using Cons 1(1) 2
        by (intro exI [of _ s'] exI [of _ "fs @ gs"]) simp
    qed
  qed
qed

text \<open>The whole of \<open>balance\<close>: as long as the current file has less than \<open>n\<close> bytes reserved, its reservation moves to the
  last file and the next file becomes the current one.\<close>

lemma balance_works:
  assumes "log_ok ds c rs s" "\<forall>n. io s n" "short_size dvd resv_total (c # rs) s - n" "0 \<le> n" "c # rs = us @ v # vs"
    and "n \<le> FResv (F s v)"
  shows "\<exists>s' ds' c' rs'. balance n s = Some (1, s') \<and> log_ok ds' c' rs' s' \<and> resv_kept (c # rs) (c' # rs') s s' \<and>
    balanced n c' rs' s'"
  using assms
proof (induction us arbitrary: ds c rs vs s)
  case Nil
  have cur: "Cur (Wal s) = Some c" using Nil.prems(1) by (simp add: log_ok_def)
  have "balance n s = balanceRest (Some c) n s" using Nil.prems(5,6) cur by (subst balance.simps) (simp add: Let_def)
  moreover obtain s' fs where "balanceRest (Some c) n s = Some (1, s')" "log_ok ds c (rs @ fs) s'"
    "resv_kept (c # rs) (c # rs @ fs) s s'" "balanced n c (rs @ fs) s'"
    using balanceRest_works [OF Nil.prems(1,2), of "[]" "c # rs" n] Nil.prems(3-6) by auto
  ultimately show ?case by auto
next
  case (Cons u us)
  have cur: "Cur (Wal s) = Some c" using Cons.prems(1) by (simp add: log_ok_def)
  have uc: "u = c" "rs = us @ v # vs" using Cons.prems(5) by simp_all
  show ?case
  proof (cases "n \<le> FResv (F s c)")
    case True
    have "balance n s = balanceRest (Some c) n s" using True cur by (subst balance.simps) (simp add: Let_def)
    moreover obtain s' fs where "balanceRest (Some c) n s = Some (1, s')" "log_ok ds c (rs @ fs) s'"
      "resv_kept (c # rs) (c # rs @ fs) s s'" "balanced n c (rs @ fs) s'"
      using balanceRest_works [OF Cons.prems(1,2), of "[]" "c # rs" n] Cons.prems(3,4) True by auto
    ultimately show ?thesis by auto
  next
    case False
    define m where "m = FResv (F s c)"
    have okc: "file_ok (FileSize (Wal s)) (F s c)" using Cons.prems(1) by (simp add: log_ok_def)
    then have m: "0 \<le> m" "m \<le> FileSize (Wal s) - 8" by (simp_all add: m_def file_ok_def)
    obtain s1 fs where 1: "needFree m s = Some (m, s1)" "log_ok ds c (rs @ fs) s1" "resv_kept (c # rs) (c # rs @ fs) s s1"
      "same_space (ds @ c # rs) s s1" "m \<le> FFree (F s1 (last (c # rs @ fs)))"
      using needFree_keeps [OF Cons.prems(1,2) m(2)] by blast
    define t where "t = last (c # rs @ fs)"
    have tl: "Tail (Wal s1) = Some t" "Cur (Wal s1) = Some c" using 1(2) unfolding log_ok_def t_def by blast+
    obtain r ys where ry: "us @ v # vs @ fs = r # ys" by (cases us) auto
    have rfs: "rs @ fs = r # ys" using uc(2) ry by simp
    have ct: "t \<noteq> c"
    proof -
      have "t \<in> set (r # ys)" unfolding t_def rfs last_ConsR [OF list.distinct(2)] by (rule last_in_set) simp
      moreover have "c \<notin> set (r # ys)" using 1(2) unfolding rfs log_ok_def by auto
      ultimately show ?thesis by blast
    qed
    have "t \<in> set (c # rs @ fs)" unfolding t_def by (rule last_in_set) simp
    moreover have "m \<le> FResv (F s1 c)" using 1(4) by (simp add: same_space_def m_def)
    ultimately have mv: "log_ok ds c (rs @ fs) (moveResv t c m s1)" "logged s1 (moveResv t c m s1)" "Wal (moveResv t c m s1) = Wal s1"
      "resv_total (c # rs @ fs) (moveResv t c m s1) = resv_total (c # rs @ fs) s1"
      "\<And>f. FBytes (F (moveResv t c m s1) f) = FBytes (F s1 f)"
      "\<And>f. FResv (F (moveResv t c m s1) f) = FResv (F s1 f) + (if f = t then m else 0) - (if f = c then m else 0)"
      using moveResv_moves [OF 1(2), of t c m] m(1) 1(5) by (simp_all add: t_def)
    define s2 where "s2 = moveResv t c m s1"
    note mv = mv [folded s2_def]
    obtain ds' s3 where 3: "useNext s2 = Some (True, s3)" "log_ok ds' r ys s3" "logged s2 s3" "\<And>fs. same_space fs s2 s3"
      using useNext_works [of ds c r ys s2] mv(1) unfolding rfs by blast
    have c0: "FResv (F s2 c) = 0" using ct 1(4) by (simp add: mv(6) same_space_def m_def)
    have sp: "FResv (F s3 f) = FResv (F s2 f)" for f using 3(4) [of "[f]"] by (simp add: same_space_def)
    have "resv_total (r # ys) s3 = resv_total (c # r # ys) s2" using c0 by (simp add: resv_total_def sp)
    then have k: "resv_kept (c # rs) (r # ys) s s3"
      using 1(3) mv(2-5) 3(3) 3(4) [of "[]"] logged_D(5) [of s s1] logged_D(5) [of s1 s2]
      unfolding rfs by (auto simp: resv_kept_def same_space_def intro: logged_trans)
    have ios: "\<forall>n. io s3 n" using Cons.prems(2) logged_D(4) [of s s3] k by (simp add: resv_kept_def)
    have "FResv (F s3 v) = FResv (F s1 v) + (if v = t then m else 0) - (if v = c then m else 0)" by (simp add: sp mv(6))
    moreover have "FResv (F s1 v) = FResv (F s v)" using 1(4) uc(2) by (simp add: same_space_def)
    moreover have "v \<noteq> c" using Cons.prems(1) uc(2) by (auto simp: log_ok_def)
    ultimately have v: "n \<le> FResv (F s3 v)" using Cons.prems(6) m(1) by (auto split: if_splits)
    have "short_size dvd resv_total (r # ys) s3 - n" using Cons.prems(3) k by (simp add: resv_kept_def)
    from Cons.IH [OF 3(2) ios this Cons.prems(4) ry [symmetric] v] obtain s' ds'' c' rs' where
      4: "balance n s3 = Some (1, s')" "log_ok ds'' c' rs' s'" "resv_kept (r # ys) (c' # rs') s3 s'" "balanced n c' rs' s'" by blast
    have "balance n s = balance n s3"
      using False cur 1(1) tl 3(1) by (subst balance.simps) (simp add: Let_def m_def [symmetric] s2_def)
    then show ?thesis using 4 resv_kept_trans [OF k 4(3)] by auto
  qed
qed

section \<open>Reserving\<close>

text \<open>The log between two records: what is reserved in all is in the current file and those after it, in whole short
  records each.\<close>

definition at_rest :: "fref list \<Rightarrow> fref \<Rightarrow> fref list \<Rightarrow> world \<Rightarrow> bool" where
  "at_rest ds c rs s \<longleftrightarrow> log_ok ds c rs s \<and> balanced 0 c rs s \<and> WResv (Wal s) = resv_total (c # rs) s"

definition reserved_in :: "fref \<Rightarrow> int \<Rightarrow> world \<Rightarrow> world" where
  "reserved_in f n s = modW (\<lambda>w. w\<lparr>WResv := WResv w + n\<rparr>) (modF f (\<lambda>x. x\<lparr>FFree := FFree x - n, FResv := FResv x + n\<rparr>) s)"

lemma reserved_in_works:
  assumes "log_ok ds c rs s" "f \<in> set (c # rs)" "0 \<le> n" "n \<le> FFree (F s f)"
  shows "log_ok ds c rs (reserved_in f n s)" "logged s (reserved_in f n s)" "io (reserved_in f n s) = io s"
    "FResv (F (reserved_in f n s) g) = FResv (F s g) + (if g = f then n else 0)" "FBytes (F (reserved_in f n s) g) = FBytes (F s g)"
    "resv_total (c # rs) (reserved_in f n s) = resv_total (c # rs) s + n"
    "Wal (reserved_in f n s) = (Wal s)\<lparr>WResv := WResv (Wal s) + n\<rparr>"
proof -
  let ?s = "reserved_in f n s"
  show r: "FResv (F ?s g) = FResv (F s g) + (if g = f then n else 0)" and "FBytes (F ?s g) = FBytes (F s g)"
    and "io ?s = io s" "Wal ?s = (Wal s)\<lparr>WResv := WResv (Wal s) + n\<rparr>" for g
    by (simp_all add: reserved_in_def upd)
  show "logged s ?s" unfolding reserved_in_def by (intro logged_trans [OF logged_modF logged_modW]) simp_all
  have "file_ok (FileSize (Wal s)) (F ?s g)" if "g \<in> set (c # rs)" for g
  proof -
    have "file_ok (FileSize (Wal s)) (F s g)" using assms(1) that unfolding log_ok_def by blast
    then show ?thesis using assms(3,4) by (auto simp: reserved_in_def upd file_ok_def)
  qed
  then show "log_ok ds c rs ?s"
    by (intro log_ok_space [OF assms(1), where k = "WResv (Wal s) + n"]) (simp_all add: reserved_in_def upd)
  have "distinct (c # rs)" using assms(1) by (simp add: log_ok_def)
  from sum_list_move [OF this assms(2)] show "resv_total (c # rs) ?s = resv_total (c # rs) s + n"
    unfolding resv_total_def r .
qed

lemma balanced_total:
  assumes "distinct (c # rs)" "balanced n c rs s"
  shows "short_size dvd resv_total (c # rs) s - n"
proof -
  have "(\<Sum>f\<in>set (c # rs). FResv (F s f) - (if f = c then n else 0)) = resv_total (c # rs) s - n"
    unfolding sum_subtractf using sum_list_distinct_conv_sum_set [OF assms(1), of "\<lambda>f. FResv (F s f)"]
    by (simp add: resv_total_def)
  moreover have "short_size dvd (\<Sum>f\<in>set (c # rs). FResv (F s f) - (if f = c then n else 0))"
    using assms(2) unfolding balanced_def even_resv_def by (intro dvd_sum) blast
  ultimately show ?thesis by simp
qed

lemma reserve_works:
  assumes "at_rest ds c rs s" "\<forall>n. io s n" "WalUse (Wal s)" "0 \<le> n" "n \<le> FileSize (Wal s) - 8"
  shows "\<exists>s' ds' c' rs'. reserve n s = Some (n, s') \<and> log_ok ds' c' rs' s' \<and> balanced n c' rs' s' \<and> logged s s' \<and>
    resv_total (c' # rs') s' = resv_total (c # rs) s + n \<and> WResv (Wal s') = WResv (Wal s) + n \<and> Alive (Wal s') = Alive (Wal s) \<and>
    (\<forall>f<nF s. FBytes (F s' f) = FBytes (F s f))"
proof -
  have ok: "log_ok ds c rs s" and bal: "balanced 0 c rs s" using assms(1) by (simp_all add: at_rest_def)
  have cur: "Cur (Wal s) = Some c" and dist: "distinct (c # rs)" and c0: "0 \<le> FResv (F s c)"
    using ok by (simp_all add: log_ok_def file_ok_def)
  show ?thesis
  proof (cases "n \<le> FFree (F s c)")
    case True
    let ?s = "reserved_in c n s"
    have q: "log_ok ds c rs ?s" "logged s ?s" "\<And>g. FResv (F ?s g) = FResv (F s g) + (if g = c then n else 0)"
      "\<And>g. FBytes (F ?s g) = FBytes (F s g)" "resv_total (c # rs) ?s = resv_total (c # rs) s + n"
      "Wal ?s = (Wal s)\<lparr>WResv := WResv (Wal s) + n\<rparr>"
      using reserved_in_works [OF ok _ assms(4) True] by simp_all
    have "reserve n s = Some (n, ?s)" using True assms(3) cur by (simp add: reserve_def reserved_in_def)
    moreover have "balanced n c rs ?s" using bal c0 by (auto simp: balanced_def even_resv_def q(3))
    ultimately show ?thesis using q by (intro exI [of _ ?s] exI [of _ ds] exI [of _ c] exI [of _ rs]) simp
  next
    case False
    obtain s1 fs where 1: "needFree n s = Some (n, s1)" "log_ok ds c (rs @ fs) s1" "resv_kept (c # rs) (c # rs @ fs) s s1"
      "n \<le> FFree (F s1 (last (c # rs @ fs)))"
      using needFree_keeps [OF ok assms(2,5)] by blast
    define t where "t = last (c # rs @ fs)"
    have t: "t \<in> set (c # rs @ fs)" "Tail (Wal s1) = Some t" "n \<le> FFree (F s1 t)"
      unfolding t_def using 1(2,4) last_in_set [of "c # rs @ fs"] by (simp_all only: log_ok_def) simp_all
    define s2 where "s2 = reserved_in t n s1"
    have q: "log_ok ds c (rs @ fs) s2" "logged s1 s2" "io s2 = io s1" "\<And>g. FResv (F s2 g) = FResv (F s1 g) + (if g = t then n else 0)"
      "\<And>g. FBytes (F s2 g) = FBytes (F s1 g)" "resv_total (c # rs @ fs) s2 = resv_total (c # rs @ fs) s1 + n"
      "Wal s2 = (Wal s1)\<lparr>WResv := WResv (Wal s1) + n\<rparr>"
      using reserved_in_works [OF 1(2) t(1) assms(4) t(3)] by (simp_all add: s2_def)
    have io2: "\<forall>n. io s2 n" using assms(2) 1(3) logged_D(4) [of s s1] by (simp add: q(3) resv_kept_def)
    have tot: "short_size dvd resv_total (c # rs @ fs) s2 - n"
      using balanced_total [OF dist bal] 1(3) by (simp add: q(6) resv_kept_def)
    have "0 \<le> FResv (F s1 t)" using 1(2) t(1) unfolding log_ok_def by (auto simp: file_ok_def)
    then have nt: "n \<le> FResv (F s2 t)" by (simp add: q(4))
    obtain us vs where "c # rs @ fs = us @ t # vs" using t(1) by (metis split_list)
    from balance_works [OF q(1) io2 tot assms(4) this nt] obtain s' ds' c' rs' where
      2: "balance n s2 = Some (1, s')" "log_ok ds' c' rs' s'" "resv_kept (c # rs @ fs) (c' # rs') s2 s'" "balanced n c' rs' s'" by blast
    have "reserve n s = Some (n, s')" using False assms(3) cur 1(1) t(2) 2(1)
      by (simp add: reserve_def Let_def) (simp add: s2_def reserved_in_def)
    moreover have "logged s s'" using 1(3) q(2) 2(3) by (auto simp: resv_kept_def intro: logged_trans)
    moreover have "\<forall>f<nF s. FBytes (F s' f) = FBytes (F s f)"
      using 1(3) 2(3) logged_D(5) [OF q(2)] logged_D(5) [of s s1] by (simp add: resv_kept_def q(5))
    ultimately show ?thesis using 1(3) 2 q(6,7) by (auto simp: resv_kept_def)
  qed
qed

section \<open>Writing what was reserved\<close>

lemma wrote_rest:
  assumes "log_ok ds c rs s" "balanced n c rs s" "WResv (Wal s) = resv_total (c # rs) s"
    and "int (length bs) \<le> n" "short_size dvd n - int (length bs)"
  shows "at_rest ds c rs (wrote c j k bs s)"
proof -
  let ?s = "wrote c j k bs s"
  have F: "F ?s = (F s)(c := (F s c)\<lparr>FBytes := FBytes (F s c) @ bs, FResv := FResv (F s c) - int (length bs)\<rparr>)"
    and W: "Wal ?s = (Wal s)\<lparr>WResv := WResv (Wal s) - int (length bs), Alive := Alive (Wal s) + int (length bs)\<rparr>" and N: "nF ?s = nF s"
    by (simp_all add: wrote_def Let_def)
  have nc: "n \<le> FResv (F s c)" and ev: "\<And>f. f \<in> set (c # rs) \<Longrightarrow> even_resv n c f s"
    using assms(2) unfolding balanced_def by blast+
  have d: "distinct (c # rs)" using assms(1) by (simp add: log_ok_def)
  have "fpath (F ?s) (Head (Wal s)) (ds @ c # rs) None \<longleftrightarrow> fpath (F s) (Head (Wal s)) (ds @ c # rs) None"
    by (rule fpath_cong) (simp add: F)
  moreover have "file_ok (FileSize (Wal s)) (F ?s f)" if "f \<in> set (c # rs)" for f
  proof -
    have "file_ok (FileSize (Wal s)) (F s f)" using assms(1) that unfolding log_ok_def by blast
    then show ?thesis using nc assms(4) by (auto simp: F file_ok_def)
  qed
  ultimately have "log_ok ds c rs ?s" using assms(1) unfolding log_ok_def by (simp add: W N)
  moreover have "even_resv 0 c f ?s" if "f \<in> set (c # rs)" for f
  proof (cases "f = c")
    case True
    have "short_size dvd (FResv (F s c) - n) + (n - int (length bs))"
      using ev [of c] assms(5) by (intro dvd_add) (simp_all add: even_resv_def)
    then show ?thesis using True by (simp add: even_resv_def F)
  next
    case False
    then show ?thesis using ev [OF that] by (simp add: even_resv_def F)
  qed
  moreover have "0 \<le> FResv (F ?s c)" using nc assms(4) by (simp add: F)
  moreover have "resv_total (c # rs) ?s = resv_total (c # rs) s - int (length bs)"
  proof -
    have m: "map (\<lambda>f. FResv (F ?s f)) (c # rs) = map (\<lambda>f. FResv (F s f) + (if f = c then - int (length bs) else 0)) (c # rs)"
      by (rule map_cong) (simp_all add: F)
    show ?thesis unfolding resv_total_def m by (subst sum_list_move [OF d]) simp_all
  qed
  ultimately show ?thesis using assms(3) by (simp add: at_rest_def balanced_def W)
qed

lemma at_rest_Nrec: "at_rest ds c rs (modW (\<lambda>w. w\<lparr>Nrec := Nrec w + 1\<rparr>) s) = at_rest ds c rs s"
  by (simp add: at_rest_def log_ok_def balanced_def even_resv_def resv_total_def upd)

text \<open>Entering a job in the list of the current file adds a reference to it and leaves the space alone.\<close>

lemma log_ok_refs:
  assumes "log_ok ds c rs s" "F s' = (F s)(c := (F s c)\<lparr>Refs := Refs (F s c) + 1\<rparr>)" "Wal s' = Wal s" "nF s' = nF s"
    and "Refs (F s c) \<noteq> - 1"
  shows "log_ok ds c rs s'" "balanced n c rs s' = balanced n c rs s" "resv_total fs s' = resv_total fs s"
proof -
  have "file_ok (FileSize (Wal s)) (F s' f)" if "f \<in> set (c # rs)" for f
  proof -
    have "file_ok (FileSize (Wal s)) (F s f)" using assms(1) that unfolding log_ok_def by blast
    moreover have "0 < Refs (F s c) + 1" using assms(5) by (simp add: word_neq_0_conv [symmetric] add_eq_0_iff2)
    ultimately show ?thesis by (auto simp: assms(2) file_ok_def)
  qed
  then show "log_ok ds c rs s'"
    by (intro log_ok_space [OF assms(1), where k = "WResv (Wal s)"]) (simp_all add: assms(2-4))
  show "balanced n c rs s' = balanced n c rs s" by (simp add: balanced_def even_resv_def assms(2))
  show "resv_total fs s' = resv_total fs s"
    unfolding resv_total_def by (intro arg_cong [where f = sum_list] map_cong) (simp_all add: assms(2))
qed

lemma record_sizes:
  "int (length (short_record r)) = short_size"
  "int (length (full_record nm r b)) = short_size + int (length nm) + int (length b)"
  by (simp_all add: short_record_def full_record_def short_size_eq rec_decode(2))

lemma space_modJ [simp]:
  "log_ok ds c rs (modJ j g s) = log_ok ds c rs s" "balanced n c rs (modJ j g s) = balanced n c rs s"
  "resv_total fs (modJ j g s) = resv_total fs s"
  by (simp_all add: log_ok_def balanced_def even_resv_def resv_total_def upd)

lemma WalWrite_short:
  assumes "WalUse (Wal s)" "Cur (Wal s) = Some f" "0 < FResv (F s f)" "io s = (\<lambda>_. True)" "JFile (J s j) \<noteq> None"
    and "RState (R (J s j)) \<noteq> Invalid"
  shows "WalWrite j s = Some (True, modW (\<lambda>w. w\<lparr>Nrec := Nrec w + 1\<rparr>) (wrote f j (Suc (Suc 0)) (short_record (R (J s j))) s))"
proof -
  have "R (J (wrote f j 1 bs s) j) = R (J s j)" for bs by (simp add: wrote_def Let_def)
  then have "fileWrJobShort f j s = Some (True, wrote f j (Suc (Suc 0)) (short_record (R (J s j))) s)"
    using assms(4,6) by (simp add: fileWrJobShort_def fileWrite_wrote wrote_wrote short_record_def)
      (simp add: wrote_def Let_def)
  then show ?thesis using assms(1-3,5) by (simp add: WalWrite_def)
qed

lemma wrote_file: "FBytes (F (modW g (wrote c j k bs s)) f) = FBytes (F s f) @ (if f = c then bs else [])"
  by (simp add: wrote_def Let_def upd)

lemma wrote_log:
  "WResv (Wal (modW (\<lambda>w. w\<lparr>Nrec := Nrec w + 1\<rparr>) (wrote c j k bs s))) = WResv (Wal s) - int (length bs)"
  "Alive (Wal (modW (\<lambda>w. w\<lparr>Nrec := Nrec w + 1\<rparr>) (wrote c j k bs s))) = Alive (Wal s) + int (length bs)"
  "WalResv (J (modW g (wrote c j k bs s)) j) = WalResv (J s j) - int (length bs)"
  "WalUsed (J (modW g (wrote c j k bs s)) j) = WalUsed (J s j) + int (length bs)"
  "JFile (J (modW g (wrote c j k bs s)) j) = JFile (J s j)" "io (modW g (wrote c j k bs s)) = io s"
  "WalUse (Wal (modW (\<lambda>w. w\<lparr>Nrec := Nrec w + 1\<rparr>) (wrote c j k bs s))) = WalUse (Wal s)"
  by (simp_all add: wrote_def Let_def upd)

text \<open>C9: space is reserved for a job that is put, and its first record is then written, without fail: when no system
  call fails, the log is at rest and the two records of the job fit in a file of the log, the reservation is made, the whole
  record is appended to the one file that is current afterwards, no byte of another file changes, and the log is at rest again
  with the length of one short record more reserved: the record that the job's deletion will write.\<close>

theorem put_is_logged:
  assumes "at_rest ds c rs s" "io s = (\<lambda>_. True)" "WalUse (Wal s)" "j < nJ s" "JFile (J s j) = None" "JTube (J s j) = Some t"
    and "BodySize (R (J s j)) = int (length (Body (J s j)))" "\<forall>f<nF s. Refs (F s f) \<noteq> - 1"
    and "8 + 2 * short_size + int (length (Name (T s t))) + int (length (Body (J s j))) \<le> FileSize (Wal s)"
  shows "\<exists>z s1 s2 ds' c' rs'. WalResvPut j s = Some (z, s1) \<and> WalWrite j (modJ j (\<lambda>x. x\<lparr>WalResv := z\<rparr>) s1) = Some (True, s2) \<and>
    at_rest ds' c' rs' s2 \<and>
    FBytes (F s2 c') = FBytes (F s1 c') @ full_record (Name (T s t)) (R (J s j)) (Body (J s j)) \<and>
    (\<forall>f<nF s. FBytes (F s1 f) = FBytes (F s f) \<and> (f \<noteq> c' \<longrightarrow> FBytes (F s2 f) = FBytes (F s f))) \<and>
    WResv (Wal s2) = WResv (Wal s) + short_size \<and> WalResv (J s2 j) = short_size \<and> JFile (J s2 j) = Some c' \<and>
    (let n = int (length (full_record (Name (T s t)) (R (J s j)) (Body (J s j)))) in
      Alive (Wal s2) = Alive (Wal s) + n \<and> WalUsed (J s2 j) = WalUsed (J s j) + n) \<and> io s2 = io s \<and> WalUse (Wal s2)"
proof -
  let ?bs = "full_record (Name (T s t)) (R (J s j)) (Body (J s j))"
  define z where "z = int (length ?bs) + short_size"
  have z: "0 \<le> z" "z \<le> FileSize (Wal s) - 8" using assms(9) by (simp_all add: z_def record_sizes short_size_eq)
  have "\<forall>n. io s n" using assms(2) by simp
  from reserve_works [OF assms(1) this assms(3) z] obtain s1 ds' c' rs' where
    1: "reserve z s = Some (z, s1)" "log_ok ds' c' rs' s1" "balanced z c' rs' s1" "logged s s1"
      "resv_total (c' # rs') s1 = resv_total (c # rs) s + z" "WResv (Wal s1) = WResv (Wal s) + z"
      "\<forall>f<nF s. FBytes (F s1 f) = FBytes (F s f)" "Alive (Wal s1) = Alive (Wal s)" by blast
  have "WalResvPut j s = Some (z, s1)"
    using 1(1) assms(6,7) by (simp add: WalResvPut_def z_def record_sizes short_size_eq int64_size_eq rec_size_eq add_ac)
  moreover
  define s1' where "s1' = modJ j (\<lambda>x. x\<lparr>WalResv := z\<rparr>) s1"
  have s1': "F s1' = F s1" "Wal s1' = Wal s1" "nF s1' = nF s1" "T s1' = T s" "io s1' = (\<lambda>_. True)" "J s1' j = (J s j)\<lparr>WalResv := z\<rparr>"
    using logged_D(1,4) [OF 1(4)] logged_D(6) [OF 1(4) assms(4)] assms(2) by (simp_all add: s1'_def upd)
  have cur: "Cur (Wal s1) = Some c'" "c' < nF s1" using 1(2) by (simp_all add: log_ok_def)
  have "z \<le> FResv (F s1 c')" "0 < z" using 1(3) by (simp_all add: balanced_def z_def record_sizes short_size_eq)
  then have "0 < FResv (F s1 c')" by simp
  then obtain s1'' where 2: "FileAddJob c' j s1' = Some s1''"
    "WalWrite j s1' = Some (True, modW (\<lambda>w. w\<lparr>Nrec := Nrec w + 1\<rparr>) (wrote c' j (Suc (Suc (Suc (Suc 0)))) ?bs s1''))"
    using WalWrite_full [of s1' c' j t] assms(3,5,6) cur(1) s1' logged_D(9) [OF 1(4)] by auto
  note sp = FileAddJob_space [OF 2(1)]
  have "Refs (F s1 c') \<noteq> - 1"
  proof
    assume "Refs (F s1 c') = - 1"
    then have "(if c' < nF s then Refs (F s c') else 1) = - 1" using word_order.extremum_uniqueI logged_refs [OF 1(4) cur(2)] by metis
    then show False using assms(8) by (auto split: if_splits)
  qed
  then have lk: "log_ok ds' c' rs' s1''" "balanced z c' rs' s1''" "resv_total (c' # rs') s1'' = resv_total (c' # rs') s1"
    using log_ok_refs [of ds' c' rs' s1 s1''] 1(2,3) sp(1-3) by (simp_all add: s1'(1-3))
  define s2 where "s2 = modW (\<lambda>w. w\<lparr>Nrec := Nrec w + 1\<rparr>) (wrote c' j (Suc (Suc (Suc (Suc 0)))) ?bs s1'')"
  have "at_rest ds' c' rs' s2" unfolding s2_def at_rest_Nrec
    by (rule wrote_rest [OF lk(1,2)]) (use lk(3) 1(5,6) sp(2) s1'(2) assms(1) in \<open>simp_all add: z_def at_rest_def short_size_eq\<close>)
  moreover have b: "FBytes (F s2 f) = FBytes (F s1 f) @ (if f = c' then ?bs else [])" for f
    unfolding s2_def wrote_file by (simp add: sp(1) s1'(1))
  have "WResv (Wal s2) = WResv (Wal s) + short_size" "WalResv (J s2 j) = short_size" "JFile (J s2 j) = Some c'"
    "Alive (Wal s2) = Alive (Wal s) + int (length ?bs)" "WalUsed (J s2 j) = WalUsed (J s j) + int (length ?bs)"
    "io s2 = io s" "WalUse (Wal s2)"
    unfolding s2_def wrote_log using sp 1(6,8) s1' assms(2,3) logged_D(9) [OF 1(4)] by (simp_all add: z_def)
  ultimately show ?thesis using 1(7) 2(2) b unfolding s1'_def s2_def Let_def by auto
qed

text \<open>What the daemon does between a reservation and the record leaves the log and its files alone.\<close>

definition same_log :: "world \<Rightarrow> world \<Rightarrow> bool" where
  "same_log s s' \<longleftrightarrow> F s' = F s \<and> nF s' = nF s \<and> Wal s' = Wal s \<and> io s' = io s"

lemma same_log_D:
  assumes "same_log s s'"
  shows "log_ok ds c rs s' = log_ok ds c rs s" "balanced n c rs s' = balanced n c rs s" "resv_total fs s' = resv_total fs s"
  using assms by (simp_all add: same_log_def log_ok_def balanced_def even_resv_def resv_total_def)

text \<open>C10: a change of a job that is in the log (\<open>bury\<close>, \<open>kick\<close>, a delayed \<open>release\<close>) can always be logged: when no
  system call fails and the log is at rest, one short record is reserved; whatever the daemon then does to jobs and tubes, the
  record of the job as it is by then is appended to the file that is current, no byte of another file changes, and the log is
  at rest again with as much reserved as before.\<close>

theorem update_is_logged:
  assumes "at_rest ds c rs s" "io s = (\<lambda>_. True)" "WalUse (Wal s)"
  shows "\<exists>s1 ds' c' rs'. WalResvUpdate s = Some (short_size, s1) \<and> (\<forall>f<nF s. FBytes (F s1 f) = FBytes (F s f)) \<and>
    (\<forall>j<nJ s. J s1 j = J s j) \<and>
    (\<forall>t j. same_log s1 t \<and> JFile (J t j) \<noteq> None \<and> RState (R (J t j)) \<noteq> Invalid \<longrightarrow>
      (\<exists>s2. WalWrite j t = Some (True, s2) \<and> at_rest ds' c' rs' s2 \<and> FBytes (F s2 c') = FBytes (F s1 c') @ short_record (R (J t j)) \<and>
        (\<forall>f<nF s. f \<noteq> c' \<longrightarrow> FBytes (F s2 f) = FBytes (F s f)) \<and> WResv (Wal s2) = WResv (Wal s) \<and>
        WalResv (J s2 j) = WalResv (J t j) - short_size \<and> io s2 = io s \<and> WalUse (Wal s2)))"
proof -
  have z: "0 \<le> short_size" "short_size \<le> FileSize (Wal s) - 8" "\<forall>n. io s n"
    using assms(1,2) by (simp_all add: at_rest_def log_ok_def short_size_eq)
  obtain s1 ds' c' rs' where
    1: "reserve short_size s = Some (short_size, s1)" "log_ok ds' c' rs' s1" "balanced short_size c' rs' s1" "logged s s1"
      "resv_total (c' # rs') s1 = resv_total (c # rs) s + short_size" "WResv (Wal s1) = WResv (Wal s) + short_size"
      "\<forall>f<nF s. FBytes (F s1 f) = FBytes (F s f)"
    using reserve_works [OF assms(1) z(3) assms(3) z(1,2)] by blast
  have "\<exists>s2. WalWrite j t = Some (True, s2) \<and> at_rest ds' c' rs' s2 \<and> FBytes (F s2 c') = FBytes (F s1 c') @ short_record (R (J t j)) \<and>
      (\<forall>f<nF s. f \<noteq> c' \<longrightarrow> FBytes (F s2 f) = FBytes (F s f)) \<and> WResv (Wal s2) = WResv (Wal s) \<and>
      WalResv (J s2 j) = WalResv (J t j) - short_size \<and> io s2 = io s \<and> WalUse (Wal s2)"
    if t: "same_log s1 t" "JFile (J t j) \<noteq> None" "RState (R (J t j)) \<noteq> Invalid" for t j
  proof -
    have e: "F t = F s1" "nF t = nF s1" "Wal t = Wal s1" "io t = (\<lambda>_. True)"
      using t(1) logged_D(4) [OF 1(4)] assms(2) by (simp_all add: same_log_def)
    let ?bs = "short_record (R (J t j))"
    define s2 where "s2 = modW (\<lambda>w. w\<lparr>Nrec := Nrec w + 1\<rparr>) (wrote c' j (Suc (Suc 0)) ?bs t)"
    have "Cur (Wal t) = Some c'" "0 < FResv (F t c')" using 1(2,3) e by (simp_all add: log_ok_def balanced_def short_size_eq)
    then have "WalWrite j t = Some (True, s2)"
      using WalWrite_short [of t c' j] t(2,3) e assms(3) logged_D(9) [OF 1(4)] by (simp add: s2_def)
    moreover have "at_rest ds' c' rs' s2" unfolding s2_def at_rest_Nrec
      by (rule wrote_rest [where n = short_size])
        (use 1(2,3,5,6) assms(1) in \<open>simp_all add: same_log_D [OF t(1)] e(3) record_sizes at_rest_def\<close>)
    moreover have "FBytes (F s2 f) = FBytes (F s1 f) @ (if f = c' then ?bs else [])" for f
      unfolding s2_def wrote_file by (simp add: e)
    moreover have "WResv (Wal s2) = WResv (Wal s)" "WalResv (J s2 j) = WalResv (J t j) - short_size"
      "io s2 = io s" "WalUse (Wal s2)"
      unfolding s2_def wrote_log using 1(6) assms(2,3) logged_D(9) [OF 1(4)] by (simp_all add: e record_sizes)
    ultimately show ?thesis using 1(7) by auto
  qed
  moreover have "WalResvUpdate s = Some (short_size, s1)" using 1(1) by (simp add: WalResvUpdate_def short_size_def)
  moreover have "\<forall>j<nJ s. J s1 j = J s j" using logged_D(6) [OF 1(4)] by blast
  ultimately show ?thesis using 1(7) by blast
qed

end
