(* ===== verification/RunLog.thy ===== *)
theory RunLog
  imports Reservations Witnesses
begin

text \<open>
  The properties of the write-ahead log applied to a log in files of 4096 bytes that \<open>WalInit\<close> has just made in an
  empty directory, and to the log after a first job.
\<close>

definition fresh_log :: world where
  "fresh_log = the (WalInit (DirFiles []) (\<lambda>_. None) 1
     (modW (\<lambda>w. w\<lparr>WalUse := True, FileSize := 4096, Dir := ''wal''\<rparr>)
       (modJ 1 (\<lambda>x. x\<lparr>JTube := Some 0, Body := ''x'' @ CRLF\<rparr>) (snd (NewJob (Some 3) demo)))))"

lemma fresh_facts:
  "at_rest [] 0 [] fresh_log" "WalUse (Wal fresh_log)" "1 < nJ fresh_log" "JFile (J fresh_log 1) = None" "JTube (J fresh_log 1) = Some 0"
  "BodySize (R (J fresh_log 1)) = int (length (Body (J fresh_log 1)))" "nF fresh_log = 1" "Refs (F fresh_log 0) = 1"
  "FileSize (Wal fresh_log) = 4096" "Name (T fresh_log 0) = ''default''" "Body (J fresh_log 1) = ''x'' @ CRLF" "WResv (Wal fresh_log) = 0"
  by code_simp+

lemma fresh_io: "io fresh_log = (\<lambda>_. True)"
  by (simp add: fresh_log_def WalInit_def walScanDir_def walRead.simps makeNextFile_def newFile_def fileInit_def fileWOpen_def
      rawFAlloc.simps syscall_ok_def fileAdd_def fileIncRef_def demo_def boot_def core_init_def Let_def zero_world_def upd NewTube_def
      MakeAndInsertTube_def NewJob_def time_Now_def ListReset_def ms_Append_def ms_fire_def i64_def zero_wal_def)

theorem put_is_logged_witness:
  "\<exists>z s1 s2. WalResvPut 1 fresh_log = Some (z, s1) \<and> WalWrite 1 (modJ 1 (\<lambda>x. x\<lparr>WalResv := z\<rparr>) s1) = Some (True, s2) \<and>
    WResv (Wal s2) = 81 \<and> WalResv (J s2 1) = 81"
proof -
  have "8 + 2 * short_size + int (length (Name (T fresh_log 0))) + int (length (Body (J fresh_log 1))) \<le> FileSize (Wal fresh_log)"
    by (simp add: fresh_facts short_size_eq del: One_nat_def)
  moreover have "\<forall>f<nF fresh_log. Refs (F fresh_log f) \<noteq> - 1" by (simp add: fresh_facts)
  ultimately show ?thesis
    using put_is_logged [OF fresh_facts(1) fresh_io fresh_facts(2-6)] by (auto simp: fresh_facts short_size_eq simp del: One_nat_def)
qed

text \<open>The log after the first record of that job; the job is then buried.\<close>

definition reserved_log :: world where
  "reserved_log = modF 0 (\<lambda>f. f\<lparr>FFree := FFree f - 172, FResv := 172\<rparr>) (modW (\<lambda>w. w\<lparr>WResv := 172\<rparr>) fresh_log)"

definition one_logged :: world where
  "one_logged = snd (the (WalWrite 1 reserved_log))"

lemma reserved_facts:
  "WalUse (Wal reserved_log)" "Cur (Wal reserved_log) = Some 0" "0 < FResv (F reserved_log 0)" "JFile (J reserved_log 1) = None"
  "JTube (J reserved_log 1) = Some 0"
  by code_simp+

lemma logged_facts:
  "at_rest [] 0 [] one_logged" "WalUse (Wal one_logged)" "1 < nJ one_logged" "JFile (J one_logged 1) = Some 0"
  "WResv (Wal one_logged) = 81"
  by code_simp+

lemma logged_io: "io one_logged = (\<lambda>_. True)"
proof -
  have "io reserved_log = (\<lambda>_. True)" by (simp add: reserved_log_def upd fresh_io)
  from WalWrite_full [OF reserved_facts(1-3) this reserved_facts(4,5)] FileAddJob_space(5) this
  show ?thesis by (fastforce simp: one_logged_def upd)
qed

theorem update_is_logged_witness:
  "\<exists>s1 s2. WalResvUpdate one_logged = Some (81, s1) \<and> WalWrite 1 (modR 1 (\<lambda>r. r\<lparr>RState := Buried\<rparr>) s1) = Some (True, s2) \<and>
    WResv (Wal s2) = 81"
proof -
  obtain s1 where 1: "WalResvUpdate one_logged = Some (81, s1)" "J s1 1 = J one_logged 1"
    "\<And>t j. same_log s1 t \<Longrightarrow> JFile (J t j) \<noteq> None \<Longrightarrow> RState (R (J t j)) \<noteq> Invalid \<Longrightarrow>
      \<exists>s2. WalWrite j t = Some (True, s2) \<and> WResv (Wal s2) = WResv (Wal one_logged)"
    using update_is_logged [OF logged_facts(1) logged_io logged_facts(2)] logged_facts(3) short_size_eq by metis
  let ?t = "modR 1 (\<lambda>r. r\<lparr>RState := Buried\<rparr>) s1"
  have "same_log s1 ?t" "JFile (J ?t 1) \<noteq> None" "RState (R (J ?t 1)) \<noteq> Invalid"
    using 1(2) logged_facts(4) by (simp_all add: same_log_def upd Buried_def Invalid_def)
  from 1(3) [OF this] show ?thesis using 1(1) logged_facts(5) by auto
qed

end
