(* ===== verification/Overflow.thy ===== *)
theory Overflow
  imports Behaviour Reachable
begin

text \<open>
  Sizes of bodies that wrap around: the length of the line end is added to the size of a \<open>put\<close> in an \<open>int64\<close>
  (\<open>dispatchOpPut\<close> and \<open>skip\<close> in \<open>net/prot.go\<close>, \<open>StateBitbucket\<close> of \<open>connProcessIO\<close> in \<open>net/serv.go\<close>).
\<close>

section \<open>Discarding a body of negative size\<close>

lemma negative_minf: "minf (i64 (2 ^ 63)) BucketBufSize < 0" "minf (i64 (2 ^ 63 + 1)) BucketBufSize < 0"
  by (simp_all add: minf_def f64_def i64_def i64_of_f64_def in_i64_def BucketBufSize_def bit_length.simps Let_def)

lemma i64_cases: "2 ^ 63 - 2 \<le> n \<Longrightarrow> n < 2 ^ 63 \<Longrightarrow> i64 (n + 2) < 0"
proof -
  assume "2 ^ 63 - 2 \<le> n" "n < 2 ^ 63"
  then have "n = 2 ^ 63 - 2 \<or> n = 2 ^ 63 - 1" by presburger
  then show "i64 (n + 2) < 0" by (auto simp: i64_def)
qed

text \<open>Discarding what cannot be counted: the buffer to be made for the next read has a negative length.\<close>

lemma bitbucket_negative:
  assumes "InJobRead (C s c) = i64 (bsz + 2)" "2 ^ 63 - 2 \<le> bsz" "bsz < 2 ^ 63"
  shows "io_bitbucket k c s = None"
proof -
  have "bsz = 2 ^ 63 - 2 \<or> bsz = 2 ^ 63 - 1" using assms(2,3) by presburger
  then have "minf (InJobRead (C s c)) BucketBufSize < 0" using negative_minf unfolding assms(1) by auto
  then show ?thesis by (simp add: io_bitbucket_def sock_Read_def)
qed

text \<open>C35: a \<open>put\<close> whose size is one of the two largest numbers an \<open>int64\<close> holds stops the server: its body is to be
  discarded because it is too big, but two is added to the size, which wraps around; nothing is discarded, and at
  the connection's next read, whatever the socket delivers, a buffer of negative length is asked for.\<close>

theorem put_size_overflow:
  assumes "read_int c 4 s = Some (Inr (pri, i1))" "read_duration c i1 s = Some (Inr (delay, i2))"
    and "read_duration c i2 s = Some (Inr (ttr, i3))" "read_int c i3 s = Some (Inr (bsz, i4))"
    and "2 ^ 63 - 2 \<le> bsz" "MaxJobSize s < 2 ^ 63 - 2"
    and "CmdRead (C s c) = int (length (Cmd (C s c)))" "0 < CmdLen (C s c)" "CmdLen (C s c) \<le> CmdRead (C s c)"
  shows "\<exists>s'. dispatchOpPut c s = Some s' \<and> CState (C s' c) = StateBitbucket \<and> InJobRead (C s' c) < 0 \<and>
    (\<forall>k. io_bitbucket k c s' = None)"
proof -
  obtain b where "slice_from (Cmd (C s c)) i3 = Some b" "ReadInt b i3 = Some (Inr (bsz, i4))"
    using assms(4) by (auto simp: read_int_def split: Option.bind_splits)
  then have bsz: "bsz < 2 ^ 63" using ReadInt_in_i64 [of b i3 bsz i4] by (simp add: in_i64_def)
  then have n: "i64 (bsz + 2) < 0" using assms(5) i64_cases by blast
  obtain l where l: "CmdLen (C s c) = int l" "l \<le> length (Cmd (C s c))"
    using assms(7-9) by (metis zero_le_imp_eq_int less_imp_le of_nat_le_iff)
  have sl: "slice (Cmd (C s c)) (int l) (int (length (Cmd (C s c)))) = Some (drop l (Cmd (C s c)))"
    using slice_int [of "Cmd (C s c)" l "length (Cmd (C s c))"] l(2) by simp
  define s1 where "s1 = modC c (\<lambda>x. x\<lparr>InJobRead := i64 (bsz + 2)\<rparr>) (modC c (\<lambda>x. x\<lparr>InJob := None\<rparr>) (count_op OpPut s))"
  have x: "C s1 c = (C s c)\<lparr>InJob := None, InJobRead := i64 (bsz + 2)\<rparr>" by (simp add: s1_def upd)
  have "\<exists>s2. fillExtraData c s1 = Some s2 \<and> InJobRead (C s2 c) = i64 (bsz + 2)"
  proof (cases "SockF (C s c)")
    case True
    then have "fillExtraData c s1 = Some (modC c (\<lambda>y. y\<lparr>Cmd := drop l (Cmd (C s c)), CmdRead := CmdRead (C s c) - int l, CmdLen := 0\<rparr>) s1)"
      using n l sl assms(7,8) by (simp add: fillExtraData_def Let_def x)
    then show ?thesis by (simp add: upd x)
  qed (simp add: fillExtraData_def x)
  then obtain s2 where f: "fillExtraData c s1 = Some s2" "InJobRead (C s2 c) = i64 (bsz + 2)" by blast
  let ?s' = "modC c (\<lambda>x. x\<lparr>Reply := MsgJobTooBig, ReplyLen := int (length MsgJobTooBig), ReplySent := 0, CState := StateBitbucket\<rparr>) s2"
  have "dispatchOpPut c s = Some ?s'"
    using assms(1-6) f n unfolding s1_def by (simp add: dispatchOpPut_def on_ok_def skip_def count_op_def)
  moreover have "io_bitbucket k c ?s' = None" for k
    by (rule bitbucket_negative [OF _ assms(5) bsz]) (simp add: upd f(2))
  ultimately show ?thesis using n f(2) by (intro exI [of _ ?s']) (simp add: upd)
qed

section \<open>One command from a client\<close>

definition huge_put :: string where
  "huge_put = ''put 0 0 60 9223372036854775806'' @ CRLF"

definition huge_arrived :: world where
  "huge_arrived = modC 0 (\<lambda>x. x\<lparr>Cmd := huge_put, CmdRead := int (length huge_put), CmdLen := int (length huge_put)\<rparr>)
     (the (Start [AcceptEvent] demo))"

theorem put_size_overflow_witness:
  "\<exists>s'. dispatchOpPut 0 huge_arrived = Some s' \<and> (\<forall>k. io_bitbucket k 0 s' = None)"
proof -
  have "read_int 0 4 huge_arrived = Some (Inr (0, 5))" "read_duration 0 5 huge_arrived = Some (Inr (0, 7))"
    "read_duration 0 7 huge_arrived = Some (Inr (60000000000, 10))" "MaxJobSize huge_arrived < 2 ^ 63 - 2" "CmdRead (C huge_arrived 0) = int (length (Cmd (C huge_arrived 0)))"
    "0 < CmdLen (C huge_arrived 0)" "CmdLen (C huge_arrived 0) \<le> CmdRead (C huge_arrived 0)"
    by code_simp+
  moreover have "read_int 0 10 huge_arrived = Some (Inr (9223372036854775806, 30))"
    by (simp add: read_int_def huge_arrived_def upd huge_put_def slice_from_def slice_def ReadInt_def nth_opt_def is_digit_def
        ParseInt_def parse_digits_def digits_val_def digit_val_def go_const)
  ultimately show ?thesis using put_size_overflow [of 0 huge_arrived 0 5 0 7 60000000000 10 9223372036854775806 30] by auto
qed

end
