(* ===== verification/Ledger.thy ===== *)
theory Ledger
  imports Returns Reachable
begin

text \<open>
  The books of the running server: every job of the table whose \<open>put\<close> is complete stands in exactly one place
  of theory Places, and nobody waits for a tube that has a ready job. \<open>orderly m s\<close> says that the books of the
  state \<open>s\<close> are in order, \<open>busy c m s\<close> that they are while a command of connection \<open>c\<close> is carried out, which then does
  not wait. The rules here say which assignments and which building blocks of the handlers keep them so. The log is not in use.
\<close>

section \<open>All jobs that stand somewhere\<close>

definition standing :: "world \<Rightarrow> places \<Rightarrow> jref multiset" where
  "standing s a = active_jobs s a + (\<Sum>t<nT s. a_delayed a t) + (\<Sum>t<nT s. mset (a_buried a t))"

lemma standing_cong: "nT s' = nT s \<Longrightarrow> nC s' = nC s \<Longrightarrow> standing s' a = standing s a"
  by (simp add: standing_def active_jobs_def)

lemma active_cong: "a_ready b = a_ready a \<Longrightarrow> a_held b = a_held a \<Longrightarrow> active_jobs s b = active_jobs s a"
  by (simp add: active_jobs_def)

lemma standing_ready:
  "t < nT s \<Longrightarrow> standing s (ready_in t j a) = add_mset j (standing s a)"
  "t < nT s \<Longrightarrow> j \<in># a_ready a t \<Longrightarrow> add_mset j (standing s (ready_out t j a)) = standing s a"
proof -
  show "t < nT s \<Longrightarrow> standing s (ready_in t j a) = add_mset j (standing s a)"
    using active_ready_in [of t s j a] by (simp add: standing_def) (simp add: ready_in_def)
  show "t < nT s \<Longrightarrow> j \<in># a_ready a t \<Longrightarrow> add_mset j (standing s (ready_out t j a)) = standing s a"
    using active_ready_out [of t s j a] by (simp add: standing_def) (simp add: ready_out_def)
qed

lemma standing_held:
  "c < nC s \<Longrightarrow> standing s (hold_in c j a) = add_mset j (standing s a)"
  "c < nC s \<Longrightarrow> j \<in> set (a_held a c) \<Longrightarrow> add_mset j (standing s (hold_out c j a)) = standing s a"
proof -
  show "c < nC s \<Longrightarrow> standing s (hold_in c j a) = add_mset j (standing s a)"
    using active_hold_in [of c s j a] by (simp add: standing_def) (simp add: hold_in_def)
  show "c < nC s \<Longrightarrow> j \<in> set (a_held a c) \<Longrightarrow> add_mset j (standing s (hold_out c j a)) = standing s a"
    using active_hold_out [of c s j a] by (simp add: standing_def) (simp add: hold_out_def)
qed

lemma standing_delayed:
  assumes "t < nT s"
  shows "standing s (delay_in t j a) = add_mset j (standing s a)"
    "j \<in># a_delayed a t \<Longrightarrow> add_mset j (standing s (delay_out t j a)) = standing s a"
proof -
  have act: "active_jobs s (delay_in t j a) = active_jobs s a" "active_jobs s (delay_out t j a) = active_jobs s a"
    by (rule active_cong; simp add: move_defs)+
  show "standing s (delay_in t j a) = add_mset j (standing s a)"
    using sum_upd_mset [OF assms, of "a_delayed a" "add_mset j (a_delayed a t)"]
    by (simp add: standing_def act) (simp add: delay_in_def)
  assume "j \<in># a_delayed a t"
  then obtain m where m: "a_delayed a t = add_mset j m" by (meson multi_member_split)
  show "add_mset j (standing s (delay_out t j a)) = standing s a"
    using sum_upd_mset [OF assms, of "a_delayed a" m] by (simp add: standing_def act) (simp add: delay_out_def m)
qed

lemma standing_buried:
  assumes "t < nT s"
  shows "standing s (bury_in t j a) = add_mset j (standing s a)"
    "j \<in> set (a_buried a t) \<Longrightarrow> add_mset j (standing s (bury_out t j a)) = standing s a"
proof -
  have act: "active_jobs s (bury_in t j a) = active_jobs s a" "active_jobs s (bury_out t j a) = active_jobs s a"
    by (rule active_cong; simp add: move_defs)+
  define B where "B b = (\<Sum>u<nT s. mset (a_buried b u))" for b :: places
  have "B (bury_in t j a) + mset (a_buried a t) = B a + mset (a_buried a t @ [j])"
    using sum_upd_list [OF assms, of "a_buried a" "a_buried a t @ [j]"] by (simp add: B_def bury_in_def)
  then have "B (bury_in t j a) = add_mset j (B a)" by simp
  moreover have "a_delayed (bury_in t j a) = a_delayed a" by (simp add: bury_in_def)
  ultimately show "standing s (bury_in t j a) = add_mset j (standing s a)" by (simp add: standing_def act B_def)
  assume "j \<in> set (a_buried a t)"
  then have m: "mset (a_buried a t) = add_mset j (mset (remove1 j (a_buried a t)))" by simp
  have "B (bury_out t j a) + mset (a_buried a t) = B a + mset (remove1 j (a_buried a t))"
    using sum_upd_list [OF assms, of "a_buried a" "remove1 j (a_buried a t)"] by (simp add: B_def bury_out_def)
  then have "add_mset j (B (bury_out t j a)) = B a" unfolding m by simp
  moreover have "a_delayed (bury_out t j a) = a_delayed a" by (simp add: bury_out_def)
  ultimately show "add_mset j (standing s (bury_out t j a)) = standing s a" by (simp add: standing_def act B_def)
qed

lemma standing_waiting [simp]: "standing s (wait_out c a) = standing s a" "standing s (wait_in c ts a) = standing s a"
proof -
  show "standing s (wait_out c a) = standing s a" "standing s (wait_in c ts a) = standing s a"
    by (simp_all add: standing_def) (simp_all add: wait_out_def wait_in_def)
qed

text \<open>Serving waiting connections moves jobs only from one place to another.\<close>

lemma standing_served:
  assumes "(serve ts lt)\<^sup>*\<^sup>* a b" "ts \<subseteq> {..<nT s}" "\<forall>t<nT s. \<forall>d\<in>#a_waiting a t. d < nC s"
  shows "standing s b = standing s a"
  using serves_active [OF assms] serves_keep(2,3) [OF assms(1)] by (simp add: standing_def)

lemma waits_bound: "waits_ok a s \<Longrightarrow> \<forall>t<nT s. \<forall>d\<in>#a_waiting a t. d < nC s"
  by (simp add: waits_ok_def)

lemma open_bound: "holds a s \<Longrightarrow> open_tubes now s \<subseteq> {..<nT s}"
  using holds_D(6) [of a s] by (auto simp: open_tubes_def waits_ok_def)

lemma standing_matched:
  assumes "matched now b a' s s'" "holds a s" "a_waiting b = a_waiting a"
  shows "standing s' a' = standing s b"
proof -
  have "standing s a' = standing s b"
    using assms(1) waits_bound [OF holds_D(6) [OF assms(2)]] assms(3)
    by (intro standing_served [OF _ open_bound [OF assms(2)]]) (auto simp: matched_def)
  then show ?thesis using assms(1) standing_cong [of s' s] by (simp add: matched_def settled_def)
qed

lemma standing_served_after:
  assumes "served_after b a' s'" "holds a s" "a_waiting b = a_waiting a" "nT s' = nT s" "nC s' = nC s" "tubes s' = tubes s"
  shows "standing s' a' = standing s' b"
proof -
  obtain n where sv: "(serve (open_tubes (clock s' n) s') (JobPriLess (J s')))\<^sup>*\<^sup>* b a'"
    using assms(1) by (auto simp: served_after_def Let_def)
  have "open_tubes (clock s' n) s' \<subseteq> {..<nT s'}"
    using holds_D(6) [OF assms(2)] assms(4,6) by (auto simp: open_tubes_def waits_ok_def)
  moreover have "\<forall>t<nT s'. \<forall>d\<in>#a_waiting b t. d < nC s'"
    using waits_bound [OF holds_D(6) [OF assms(2)]] assms(3-5) by simp
  ultimately show ?thesis by (rule standing_served [OF sv])
qed

section \<open>Books in order\<close>

text \<open>The jobs of the table that have been put; a job whose body is still awaited has no state yet.\<close>

definition live :: "world \<Rightarrow> jref set" where
  "live s = {j \<in> ran (allJobs s). RState (R (J s j)) \<noteq> Invalid}"

definition heads :: "world \<Rightarrow> jref set" where
  "heads s = (\<lambda>t. BuriedL (T s t)) ` {..<nT s} \<union> (\<lambda>c. ReservedJobs (C s c)) ` {..<nC s}"

definition arriving :: "world \<Rightarrow> jref \<Rightarrow> bool" where
  "arriving s j \<longleftrightarrow> RState (R (J s j)) = Invalid \<and> loose_links (J s) j \<and>
     allJobs s (ID (R (J s j))) = Some j"

text \<open>The connections in \<open>W\<close> do not wait; every other connection that waits is in the state for it.\<close>

definition listed :: "cref set \<Rightarrow> places \<Rightarrow> world \<Rightarrow> bool" where
  "listed W a s \<longleftrightarrow> holds a s \<and> \<not> WalUse (Wal s) \<and> finite (ran (allJobs s)) \<and>
     standing s a = mset_set (live s) \<and> heads s \<inter> ran (allJobs s) = {} \<and>
     (\<forall>c<nC s. \<forall>j. InJob (C s c) = Some j \<longrightarrow> arriving s j \<and> (\<forall>d<nC s. InJob (C s d) = Some j \<longrightarrow> d = c)) \<and>
     (\<forall>t<nT s. \<forall>d\<in>#a_waiting a t. d \<notin> W \<and> CState (C s d) = StateWait)"

definition ordered :: "cref set \<Rightarrow> places \<Rightarrow> world \<Rightarrow> bool" where
  "ordered W a s \<longleftrightarrow> listed W a s \<and> idle a s"

lemma listed_D:
  assumes "listed W a s"
  shows "holds a s" "\<not> WalUse (Wal s)" "finite (ran (allJobs s))" "standing s a = mset_set (live s)"
    "heads s \<inter> ran (allJobs s) = {}" "t < nT s \<Longrightarrow> d \<in># a_waiting a t \<Longrightarrow> d \<notin> W \<and> CState (C s d) = StateWait"
    "c < nC s \<Longrightarrow> InJob (C s c) = Some j \<Longrightarrow> arriving s j"
    "c < nC s \<Longrightarrow> InJob (C s c) = Some j \<Longrightarrow> d < nC s \<Longrightarrow> InJob (C s d) = Some j \<Longrightarrow> d = c"
  using assms unfolding listed_def by blast+

lemma ordered_D:
  assumes "ordered W a s"
  shows "holds a s" "\<not> WalUse (Wal s)" "idle a s" "finite (ran (allJobs s))" "standing s a = mset_set (live s)"
    "heads s \<inter> ran (allJobs s) = {}" "t < nT s \<Longrightarrow> d \<in># a_waiting a t \<Longrightarrow> d \<notin> W \<and> CState (C s d) = StateWait"
    "c < nC s \<Longrightarrow> InJob (C s c) = Some j \<Longrightarrow> arriving s j"
    "c < nC s \<Longrightarrow> InJob (C s c) = Some j \<Longrightarrow> d < nC s \<Longrightarrow> InJob (C s d) = Some j \<Longrightarrow> d = c"
  using assms unfolding ordered_def listed_def by blast+

lemma ordered_finite: "ordered W a s \<Longrightarrow> finite (live s)"
  using ordered_D(4) by (auto simp: live_def intro: finite_subset)

lemma ordered_live: "ordered W a s \<Longrightarrow> j \<in># standing s a \<longleftrightarrow> j \<in> live s"
  using ordered_finite by (simp add: ordered_D(5))

lemma in_sum_iff: "x \<in># (\<Sum>t<n. f t) \<longleftrightarrow> (\<exists>t<n. x \<in># f t)" for n :: nat
  by (induction n) (auto simp: less_Suc_eq)

lemma standing_iff:
  "j \<in># standing s a \<longleftrightarrow> (\<exists>t<nT s. j \<in># a_ready a t \<or> j \<in># a_delayed a t \<or> j \<in> set (a_buried a t)) \<or>
     (\<exists>c<nC s. j \<in> set (a_held a c))"
  by (auto simp: standing_def active_jobs_def in_sum_iff)

lemma placed_split: "placed a s = set_mset (standing s a) \<union> heads s"
  by (auto simp: placed_def standing_iff heads_def)

text \<open>What stands somewhere has a state that says where; so a job without one is a sentinel or stands nowhere.\<close>

lemma standing_state:
  assumes "holds a s" "j \<in># standing s a"
  shows "RState (R (J s j)) \<in> {Ready, Delayed, Buried, Reserved}"
  using assms(2) where_ready [OF assms(1)] where_delayed [OF assms(1)] where_buried [OF assms(1)] where_held [OF assms(1)]
  unfolding standing_iff by blast

lemma unplaced:
  assumes "listed W a s" "RState (R (J s j)) \<notin> {Ready, Delayed, Buried, Reserved}" "j \<notin> heads s"
  shows "j \<notin> placed a s"
  using assms standing_state [OF listed_D(1) [OF assms(1)]] by (auto simp: placed_split)

lemma listed_unplaced:
  assumes "listed W a s" "arriving s j"
  shows "j \<notin> placed a s" "nowhere a s j" "j \<in> ran (allJobs s)"
proof -
  show r: "j \<in> ran (allJobs s)" using assms(2) by (auto simp: arriving_def ran_def)
  show "j \<notin> placed a s"
    using assms listed_D(5) [OF assms(1)] r by (intro unplaced [OF assms(1)]) (auto simp: arriving_def)
  then show "nowhere a s j" using assms(2) by (simp add: nowhere_def arriving_def)
qed

lemma arriving_unplaced:
  assumes "ordered W a s" "arriving s j"
  shows "j \<notin> placed a s" "nowhere a s j" "j \<in> ran (allJobs s)"
  using listed_unplaced assms by (auto simp: ordered_def)

text \<open>How the books stay in order: \<open>X\<close> are the jobs that enter or leave.\<close>

lemma listed_step:
  assumes o: "listed W a s" and k: "spared D X a s a' s'" and D: "D \<subseteq> W" and h: "holds a' s'"
    and tab: "ran (allJobs s') \<subseteq> ran (allJobs s)" and st: "standing s' a' = mset_set (live s')"
    and X: "\<And>c j. c < nC s \<Longrightarrow> InJob (C s c) = Some j \<Longrightarrow> j \<notin> X \<and> allJobs s' (ID (R (J s j))) = Some j"
  shows "listed W a' s'"
proof -
  have b: "Wal s' = Wal s" "nT s' = nT s" "nC s' = nC s" "\<And>t. BuriedL (T s' t) = BuriedL (T s t)"
    "\<And>c. ReservedJobs (C s' c) = ReservedJobs (C s c)" "\<And>c. InJob (C s' c) = InJob (C s c)"
    using k by (simp_all add: spared_def kept_books_def)
  have hd: "heads s' = heads s" by (simp add: heads_def b)
  have J: "J s' x = J s x" if "x \<notin> placed a s" "x \<notin> X" for x using k that by (simp add: spared_def)
  have ar: "arriving s' j" if "c < nC s" "InJob (C s c) = Some j" for c j
    using listed_D(7) [OF o that] X [OF that] J [OF listed_unplaced(1) [OF o listed_D(7) [OF o that]]]
    by (simp add: arriving_def loose_links_def)
  have cs: "\<forall>d. (\<exists>t<nT s. d \<in># a_waiting a' t) \<longrightarrow> d \<notin> D \<longrightarrow> CState (C s' d) = CState (C s d)"
    using k by (simp add: spared_def)
  have w: "d \<notin> W \<and> CState (C s' d) = StateWait" if "t < nT s" "d \<in># a_waiting a' t" for t d
  proof -
    have "a_waiting a' t \<subseteq># a_waiting a t" using k that(1) by (simp add: spared_def)
    then have "d \<in># a_waiting a t" using that(2) by (rule mset_subset_eqD)
    then have "d \<notin> W \<and> CState (C s d) = StateWait" by (rule listed_D(6) [OF o that(1)])
    moreover from this have "CState (C s' d) = CState (C s d)" using cs D that by blast
    ultimately show ?thesis by simp
  qed
  have "finite (ran (allJobs s'))" using tab listed_D(3) [OF o] by (rule finite_subset)
  moreover have "heads s' \<inter> ran (allJobs s') = {}" using hd listed_D(5) [OF o] tab by auto
  moreover have "\<forall>c<nC s. \<forall>j. InJob (C s c) = Some j \<longrightarrow> arriving s' j \<and> (\<forall>d<nC s. InJob (C s d) = Some j \<longrightarrow> d = c)"
    using ar listed_D(8) [OF o] by blast
  moreover have "\<forall>t<nT s. \<forall>d\<in>#a_waiting a' t. d \<notin> W \<and> CState (C s' d) = StateWait" using w by blast
  moreover have "\<not> WalUse (Wal s')" using listed_D(2) [OF o] b(1) by simp
  moreover note h st
  ultimately show ?thesis unfolding listed_def b(2,3,6) by - (intro conjI; assumption)
qed

lemma ordered_step:
  assumes o: "ordered W a s" and k: "kept D X a s a' s'" and D: "D \<subseteq> W" and h: "holds a' s'"
    and tab: "ran (allJobs s') \<subseteq> ran (allJobs s)" and st: "standing s' a' = mset_set (live s')"
    and X: "\<And>c j. c < nC s \<Longrightarrow> InJob (C s c) = Some j \<Longrightarrow> j \<notin> X \<and> allJobs s' (ID (R (J s j))) = Some j"
  shows "ordered W a' s'"
  using listed_step [OF _ _ D h tab st X] o k by (auto simp: ordered_def kept_def)

text \<open>The usual case: no job enters or leaves.\<close>

lemma listed_spared:
  assumes o: "listed W a s" and k: "spared D {} a s a' s'" "D \<subseteq> W" "holds a' s'" "allJobs s' = allJobs s" "standing s' a' = standing s a"
  shows "listed W a' s'"
proof (rule listed_step [OF o k(1-3)])
  show "ran (allJobs s') \<subseteq> ran (allJobs s)" by (simp add: k(4))
  have "RState (R (J s' j)) \<noteq> Invalid \<longleftrightarrow> RState (R (J s j)) \<noteq> Invalid" if "j \<in> ran (allJobs s)" for j
  proof (cases "j \<in># standing s a")
    case True
    then have "j \<in># standing s' a'" by (simp add: k(5))
    then have "RState (R (J s' j)) \<noteq> Invalid" using standing_state [OF k(3)] state_codes by fastforce
    moreover have "RState (R (J s j)) \<noteq> Invalid" using standing_state [OF listed_D(1) [OF o] True] state_codes by fastforce
    ultimately show ?thesis by simp
  next
    case False
    then have "j \<notin> placed a s" using listed_D(5) [OF o] that by (auto simp: placed_split)
    then show ?thesis using k(1) by (simp add: spared_def)
  qed
  then have "live s' = live s" using k(4) by (auto simp: live_def)
  then show "standing s' a' = mset_set (live s')" using listed_D(4) [OF o] k(5) by simp
  show "j \<notin> {} \<and> allJobs s' (ID (R (J s j))) = Some j" if "c < nC s" "InJob (C s c) = Some j" for c j
    using listed_D(7) [OF o that] by (simp add: arriving_def k(4))
qed

lemma ordered_kept:
  assumes "ordered W a s" "kept D {} a s a' s'" "D \<subseteq> W" "holds a' s'" "allJobs s' = allJobs s" "standing s' a' = standing s a"
  shows "ordered W a' s'"
  using listed_spared [OF _ _ assms(3-6)] assms(1,2) by (auto simp: ordered_def kept_def)

lemma listed_less: "listed W a s \<Longrightarrow> W' \<subseteq> W \<Longrightarrow> listed W' a s"
  unfolding listed_def by blast

lemma ordered_less: "ordered W a s \<Longrightarrow> W' \<subseteq> W \<Longrightarrow> ordered W' a s"
  unfolding ordered_def using listed_less by blast

section \<open>Steps that move nothing\<close>

lemma listed_same:
  assumes o: "listed W a s" and h: "holds a s'"
    and w: "Wal s' = Wal s" "nT s' = nT s" "nC s' = nC s" "allJobs s' = allJobs s"
    and hd: "\<And>t. BuriedL (T s' t) = BuriedL (T s t)" "\<And>d. ReservedJobs (C s' d) = ReservedJobs (C s d)"
    and ij: "\<And>d. InJob (C s' d) = None \<or> InJob (C s' d) = InJob (C s d)"
    and J: "\<And>j. j \<in> ran (allJobs s) \<Longrightarrow> RState (R (J s' j)) = RState (R (J s j)) \<and> ID (R (J s' j)) = ID (R (J s j)) \<and>
      loose_links (J s') j = loose_links (J s) j"
    and cs: "\<And>d. d \<notin> W \<Longrightarrow> CState (C s' d) = CState (C s d)"
  shows "listed W a s'"
proof -
  have "live s' = live s" using J by (auto simp: live_def w)
  then have st: "standing s' a = mset_set (live s')" using listed_D(4) [OF o] standing_cong [OF w(2,3)] by simp
  have "heads s' = heads s" by (simp add: heads_def w hd)
  then have hs: "heads s' \<inter> ran (allJobs s') = {}" using listed_D(5) [OF o] w(4) by simp
  have "arriving s' j \<and> (\<forall>d<nC s'. InJob (C s' d) = Some j \<longrightarrow> d = c)" if c: "c < nC s'" "InJob (C s' c) = Some j" for c j
  proof -
    have i: "InJob (C s c) = Some j" "c < nC s" using ij [of c] c w(3) by auto
    have a: "arriving s j" by (rule listed_D(7) [OF o i(2,1)])
    then have "arriving s' j" using J [OF listed_unplaced(3) [OF o a]] by (simp add: arriving_def w(4))
    moreover have "d = c" if "d < nC s'" "InJob (C s' d) = Some j" for d
      using listed_D(8) [OF o i(2,1), of d] ij [of d] that w(3) by auto
    ultimately show ?thesis by blast
  qed
  moreover have "\<forall>t<nT s'. \<forall>d\<in>#a_waiting a t. d \<notin> W \<and> CState (C s' d) = StateWait"
    using listed_D(6) [OF o] cs w(2) by simp
  moreover have "\<not> WalUse (Wal s')" "finite (ran (allJobs s'))" using listed_D(2,3) [OF o] w by simp_all
  ultimately show ?thesis unfolding listed_def using h st hs by blast
qed

lemma ordered_same:
  assumes o: "ordered W a s" and h: "holds a s'"
    and w: "Wal s' = Wal s" "nT s' = nT s" "nC s' = nC s" "allJobs s' = allJobs s"
    and hd: "\<And>t. BuriedL (T s' t) = BuriedL (T s t)" "\<And>d. ReservedJobs (C s' d) = ReservedJobs (C s d)"
    and ij: "\<And>d. InJob (C s' d) = None \<or> InJob (C s' d) = InJob (C s d)"
    and J: "\<And>j. j \<in> ran (allJobs s) \<Longrightarrow> RState (R (J s' j)) = RState (R (J s j)) \<and> ID (R (J s' j)) = ID (R (J s j)) \<and>
      loose_links (J s') j = loose_links (J s) j"
    and cs: "\<And>d. d \<notin> W \<Longrightarrow> CState (C s' d) = CState (C s d)" and idle: "idle a s'"
  shows "ordered W a s'"
  using listed_same [OF _ h w hd ij J cs] o idle by (auto simp: ordered_def)

lemma idle_cong: "idle a s \<Longrightarrow> tubes s' = tubes s \<Longrightarrow> (\<And>t. Pause (T s' t) = 0 \<Longrightarrow> Pause (T s t) = 0) \<Longrightarrow> idle a s'"
  by (simp add: idle_def)

lemma ordered_modC_any:
  assumes "ordered W a s" "\<And>x. same_conn (f x) x \<and> InCoons (f x) = InCoons x \<and> CState (f x) = CState x \<and>
      (InJob (f x) = None \<or> InJob (f x) = InJob x)"
  shows "ordered W a (modC c f s)"
proof (rule ordered_same [OF assms(1)])
  show "holds a (modC c f s)" using assms by (intro holds_modC ordered_D(1)) simp_all
  show "idle a (modC c f s)" by (rule idle_cong [OF ordered_D(3) [OF assms(1)]]) (simp_all add: upd)
qed (use assms(2) in \<open>simp_all add: upd same_conn_def\<close>)

lemma ordered_modC:
  assumes "ordered W a s" "c \<in> W" "\<And>x. ReservedJobs (f x) = ReservedJobs x \<and> TickPos (f x) = TickPos x \<and>
      InCoons (f x) = InCoons x \<and> (InJob (f x) = None \<or> InJob (f x) = InJob x)"
  shows "ordered W a (modC c f s)"
proof (rule ordered_same [OF assms(1)])
  show "holds a (modC c f s)"
    by (rule holds_modC_free [OF ordered_D(1) [OF assms(1)]]) (use ordered_D(7) [OF assms(1)] assms(2,3) in auto)
  show "idle a (modC c f s)" by (rule idle_cong [OF ordered_D(3) [OF assms(1)]]) (simp_all add: upd)
qed (use assms(2,3) in \<open>auto simp: upd\<close>)

lemma ordered_modT:
  assumes "ordered W a s" "\<And>x. same_tube (f x) x" "\<And>x. Pause (f x) = 0 \<Longrightarrow> Pause x = 0"
  shows "ordered W a (modT t f s)"
proof (rule ordered_same [OF assms(1)])
  show "holds a (modT t f s)" using assms(1,2) by (intro holds_modT ordered_D(1)) simp_all
  show "idle a (modT t f s)" by (rule idle_cong [OF ordered_D(3) [OF assms(1)]]) (auto simp: upd assms(3) split: if_splits)
qed (use assms(2) in \<open>simp_all add: upd same_tube_def\<close>)

lemma ordered_other:
  assumes "ordered W a s" "J s' = J s" "T s' = T s" "C s' = C s" "nT s' = nT s" "nC s' = nC s" "tubes s' = tubes s"
    "Wal s' = Wal s" "allJobs s' = allJobs s" "Connes s' = Connes s"
  shows "ordered W a s'"
proof (rule ordered_same [OF assms(1)])
  show "holds a s'" using holds_D(7) [OF ordered_D(1) [OF assms(1)]]
    by (intro holds_frame [OF ordered_D(1) [OF assms(1)]]) (auto simp: assms(2-) intro: sched_ok_cong [of s])
  show "idle a s'" by (rule idle_cong [OF ordered_D(3) [OF assms(1)]]) (simp_all add: assms(2-))
qed (simp_all add: assms(2-))

lemma ordered_answered:
  assumes "ordered W a s" "answered c s s'" "holds a s'" "c \<in> W"
  shows "ordered W a s'"
proof (rule ordered_kept [OF assms(1) kept_answered [OF assms(2)] _ assms(3)])
  show "standing s' a = standing s a" by (rule standing_cong) (simp_all add: answered_D [OF assms(2)])
qed (use assms(4) answered_D(8) [OF assms(2)] in auto)

text \<open>Jobs that are in no list and not in the table, such as those made for a reply.\<close>

definition spare :: "jref \<Rightarrow> world \<Rightarrow> bool" where
  "spare j s \<longleftrightarrow> j \<notin> ran (allJobs s) \<and> j \<notin> heads s"

lemma spare_unplaced: "ordered W a s \<Longrightarrow> spare j s \<Longrightarrow> j \<notin> placed a s"
  using ordered_live by (auto simp: placed_split spare_def live_def)

lemma spare_new: "sinv m s \<Longrightarrow> spare (nJ s) s"
  by (fastforce simp: spare_def heads_def inv_defs ran_def)

lemma spare_cong: "spare j s \<Longrightarrow> allJobs s' = allJobs s \<Longrightarrow> heads s' = heads s \<Longrightarrow> spare j s'"
  by (simp add: spare_def)

lemma ordered_spare:
  assumes "ordered W a s" "spare j s" "\<And>x. HeapIndex (f x) = HeapIndex x"
  shows "ordered W a (modJ j f s)"
proof (rule ordered_same [OF assms(1)])
  show "holds a (modJ j f s)"
    by (rule holds_modJ [OF ordered_D(1) [OF assms(1)] spare_unplaced [OF assms(1,2)]]) (rule assms(3))
  show "idle a (modJ j f s)" by (rule idle_cong [OF ordered_D(3) [OF assms(1)]]) (simp_all add: upd)
  have "x \<noteq> j" if "x \<in> ran (allJobs s)" for x using assms(2) that by (auto simp: spare_def)
  then show "x \<in> ran (allJobs s) \<Longrightarrow> RState (R (J (modJ j f s) x)) = RState (R (J s x)) \<and> ID (R (J (modJ j f s) x)) = ID (R (J s x)) \<and>
      loose_links (J (modJ j f s)) x = loose_links (J s) x" for x
    by (simp add: upd loose_links_def)
qed (simp_all add: upd)

lemma ordered_contents:
  assumes "ordered W a s" "\<And>x. R (f x) = R x \<and> JTube (f x) = JTube x \<and> Next (f x) = Next x \<and> Prev (f x) = Prev x \<and>
      Reservoir (f x) = Reservoir x \<and> HeapIndex (f x) = HeapIndex x"
  shows "ordered W a (modJ j f s)"
proof (rule ordered_same [OF assms(1)])
  show "holds a (modJ j f s)" by (rule holds_contents [OF ordered_D(1) [OF assms(1)]]) (simp add: assms(2))
  show "idle a (modJ j f s)" by (rule idle_cong [OF ordered_D(3) [OF assms(1)]]) (simp_all add: upd)
qed (simp_all add: upd assms(2) loose_links_def)

lemma ordered_new_job:
  assumes "ordered W a s" "sinv m s" "HeapIndex x = 0"
  shows "ordered W a (s\<lparr>nJ := Suc (nJ s), J := (J s)(nJ s := x)\<rparr>)" (is "ordered W a ?s")
proof (rule ordered_same [OF assms(1)])
  have np: "nJ s \<notin> placed a s" by (rule spare_unplaced [OF assms(1) spare_new [OF assms(2)]])
  have "HeapIndex (J s j) = 0" for j using holds_D(7) [OF ordered_D(1) [OF assms(1)]] by (simp add: sched_ok_def)
  then have "sched_ok ?s" using assms(3)
    by (intro sched_ok_cong [OF holds_D(7) [OF ordered_D(1) [OF assms(1)]]]) simp_all
  then show "holds a ?s" using np by (intro holds_frame [OF ordered_D(1) [OF assms(1)]]) auto
  show "idle a ?s" by (rule idle_cong [OF ordered_D(3) [OF assms(1)]]) simp_all
  have "nJ s \<notin> ran (allJobs s)" using spare_new [OF assms(2)] by (simp add: spare_def)
  then show "j \<in> ran (allJobs s) \<Longrightarrow> RState (R (J ?s j)) = RState (R (J s j)) \<and> ID (R (J ?s j)) = ID (R (J s j)) \<and>
      loose_links (J ?s) j = loose_links (J s) j" for j
    by (auto simp: loose_links_def)
qed simp_all

end
