(* ===== verification/Handlers.thy ===== *)
theory Handlers
  imports Ledger
begin

text \<open>
  The handlers of the commands keep the books of theory Ledger in order: for each, that a result it has, if it does
  not panic, is a state whose books are in order again. \<open>ord\<close> collects these rules; they are applied along the syntax of
  a handler, as those of \<open>pres\<close> in theory Invariants.
\<close>

named_theorems ord "what keeps the books in order"

definition orderly :: "nat \<Rightarrow> world \<Rightarrow> bool" where
  "orderly m s \<longleftrightarrow> sinv m s \<and> (\<exists>a. ordered {} a s)"

definition busy :: "cref \<Rightarrow> nat \<Rightarrow> world \<Rightarrow> bool" where
  "busy c m s \<longleftrightarrow> c < m \<and> sinv m s \<and> (\<exists>a. ordered {c} a s)"

interpretation bz: steady "busy c m" for c m .

lemmas [ord] = bz.sequence bz.cases bz.let_state bz.let_pair bz.triple bz.results bz.branch bz.branch_option
  ens_if ens_option ens_sum

lemmas busy_let_values [ord] =
  bz.let_value [where 'v = int] bz.let_value [where 'v = nat] bz.let_value [where 'v = bool]
  bz.let_value [where 'v = string] bz.let_value [where 'v = job_rec] bz.let_value [where 'v = coon]
  bz.let_value [where 'v = "nat option"] bz.let_value [where 'v = "8 word"]

lemma busy_D: "busy c m s \<Longrightarrow> sinv m s" "busy c m s \<Longrightarrow> c < m" "busy c m s \<Longrightarrow> c < nC s"
  by (auto simp: busy_def invk_def)

lemma busy_orderly: "busy c m s \<Longrightarrow> orderly m s"
  unfolding busy_def orderly_def using ordered_less by blast

lemma ens_ex: "\<exists>y. r = Some y \<and> Q y \<Longrightarrow> ens Q r"
  by (auto simp: ens_def)

text \<open>The invariant of theory Invariants is known of every operation; so only the places remain to be shown.\<close>

lemma busy_ens:
  assumes "busy c m s" "ens (sinv m) r" "\<And>a. ordered {c} a s \<Longrightarrow> ens (\<lambda>s'. \<exists>a'. ordered {c} a' s') r"
  shows "ens (busy c m) r"
  using assms by (auto simp: busy_def ens_def)

lemma busy_I:
  assumes "busy c m s" "sinv m s'" "\<And>a. ordered {c} a s \<Longrightarrow> \<exists>a'. ordered {c} a' s'"
  shows "busy c m s'"
  using assms by (auto simp: busy_def)

section \<open>Assignments\<close>

lemma busy_modC [ord]:
  assumes "busy c m s" "\<And>x. ReservedJobs (f x) = ReservedJobs x \<and> TickPos (f x) = TickPos x \<and> InCoons (f x) = InCoons x \<and>
      Use (f x) = Use x \<and> Watch (f x) = Watch x \<and> (InJob (f x) = None \<or> InJob (f x) = InJob x)"
  shows "busy c m (modC c f s)"
proof (rule busy_I [OF assms(1)])
  show "sinv m (modC c f s)" by (rule inv_modC [OF busy_D(1) [OF assms(1)]]) (simp_all add: assms(2))
  show "\<exists>a'. ordered {c} a' (modC c f s)" if "ordered {c} a s" for a
    using ordered_modC [OF that, of c f] assms(2) by blast
qed

lemma busy_modT [ord]:
  assumes "busy c m s" "\<And>x. same_tube (f x) x \<and> Name (f x) = Name x \<and> UsingCt (f x) = UsingCt x \<and> WatchingCt (f x) = WatchingCt x \<and>
      (Pause (f x) = 0 \<longrightarrow> Pause x = 0)"
  shows "busy c m (modT t f s)"
proof (rule busy_I [OF assms(1)])
  show "sinv m (modT t f s)"
    using assms(2) by (intro inv_modT [OF busy_D(1) [OF assms(1)]]) (simp_all add: same_tube_def)
  show "\<exists>a'. ordered {c} a' (modT t f s)" if "ordered {c} a s" for a
    using ordered_modT [OF that, of f t] assms(2) by blast
qed

lemma busy_modStat [ord]: "busy c m s \<Longrightarrow> busy c m (modStat t f s)"
  unfolding modStat_def by (rule busy_modT) (simp_all add: same_tube_def)

lemma busy_other [ord]:
  assumes "busy c m s"
  shows "busy c m (modG h s)" "busy c m (count_op x s)" "busy c m (snd (time_Now s))" "busy c m (snd (syscall_ok s))"
    "busy c m (s\<lparr>CurProducerCt := n\<rparr>)" "busy c m (s\<lparr>CurWorkerCt := n\<rparr>)" "busy c m (s\<lparr>epollQ := q\<rparr>)"
    "busy c m (s\<lparr>ReadyCt := ReadyCt s\<rparr>)"
proof -
  obtain a where s: "sinv m s" "c < m" "ordered {c} a s" using assms by (auto simp: busy_def)
  show "busy c m (modG h s)" "busy c m (count_op x s)" "busy c m (snd (time_Now s))" "busy c m (snd (syscall_ok s))"
    "busy c m (s\<lparr>CurProducerCt := n\<rparr>)" "busy c m (s\<lparr>CurWorkerCt := n\<rparr>)" "busy c m (s\<lparr>epollQ := q\<rparr>)"
    "busy c m (s\<lparr>ReadyCt := ReadyCt s\<rparr>)"
    using s inv_other unfolding busy_def
    by (auto intro!: exI [of _ a] ordered_other [OF s(3)] simp: modG_def count_op_def time_Now_def syscall_ok_def)
qed

lemma busy_contents [ord]:
  assumes "busy c m s" "\<And>x. R (f x) = R x \<and> JTube (f x) = JTube x \<and> Next (f x) = Next x \<and> Prev (f x) = Prev x \<and>
      Reservoir (f x) = Reservoir x \<and> HeapIndex (f x) = HeapIndex x"
  shows "busy c m (modJ j f s)"
proof (rule busy_I [OF assms(1)])
  show "sinv m (modJ j f s)" by (rule inv_modJ [OF busy_D(1) [OF assms(1)]]) (simp_all add: assms(2))
  show "\<exists>a'. ordered {c} a' (modJ j f s)" if "ordered {c} a s" for a
    using ordered_contents [OF that, of f j] assms(2) by blast
qed

lemma busy_spare:
  assumes "busy c m s" "spare j s" "\<And>x. HeapIndex (f x) = HeapIndex x \<and> ID (R (f x)) = ID (R x) \<and> (JTube (f x) = JTube x \<or> JTube (f x) = None)"
  shows "busy c m (modJ j f s)"
proof (rule busy_I [OF assms(1)])
  show "sinv m (modJ j f s)"
  proof (rule inv_modJ [OF busy_D(1) [OF assms(1)]])
    show "JTube (f x) = Some t \<Longrightarrow> JTube x = Some t \<or> t < nT s" for x t using assms(3) [of x] by auto
  qed (simp_all add: assms(3))
  show "\<exists>a'. ordered {c} a' (modJ j f s)" if "ordered {c} a s" for a
    using ordered_spare [OF that assms(2), of f] assms(3) by blast
qed

section \<open>Replies\<close>

lemma busy_answers:
  assumes "busy c m s" "ens (sinv m) r"
    and "\<And>xs. dll (J s) (ReservedJobs (C s c)) xs \<Longrightarrow> sched_ok s \<Longrightarrow> \<exists>s'. r = Some s' \<and> answered c s s' \<and> sched_ok s'"
  shows "ens (busy c m) r"
proof (rule busy_ens [OF assms(1,2)])
  fix a assume o: "ordered {c} a s"
  note h = ordered_D(1) [OF o]
  obtain s' where "r = Some s'" "answered c s s'" "sched_ok s'"
    using assms(3) [OF holds_dll(1) [OF h busy_D(3) [OF assms(1)]] holds_D(7) [OF h]] by blast
  note s' = this
  have "holds a s'" by (rule answered_holds [OF s'(2) h s'(3)])
  then have "ordered {c} a s'" by (intro ordered_answered [OF o s'(2)]) simp_all
  then show "ens (\<lambda>s'. \<exists>a'. ordered {c} a' s') r" using s'(1) by (intro ens_ex) blast
qed

lemma busy_EpollQAdd [ord]: "busy c m s \<Longrightarrow> ens (busy c m) (EpollQAdd c rw s)"
  by (rule busy_answers) (auto intro: pres EpollQAdd_total dest: busy_D)

lemma busy_reply [ord]: "busy c m s \<Longrightarrow> ens (busy c m) (reply c line l st s)"
  unfolding reply_def by (intro ord) simp_all

lemma busy_replyMsg [ord]: "busy c m s \<Longrightarrow> ens (busy c m) (replyMsg c msg s)"
  unfolding replyMsg_def by (rule busy_reply)

lemma busy_replyErr [ord]: "busy c m s \<Longrightarrow> ens (busy c m) (replyErr c msg s)"
  unfolding replyErr_def by (rule busy_replyMsg)

lemma busy_replyLine [ord]: "busy c m s \<Longrightarrow> ens (busy c m) (replyLine c st txt s)"
  unfolding replyLine_def by (intro ord) simp_all

lemma busy_replyJob [ord]: "busy c m s \<Longrightarrow> ens (busy c m) (replyJob c j msg s)"
  unfolding replyJob_def by (intro ord) simp_all

lemma busy_on_ok [ord]:
  assumes "busy c m s" "\<And>v idx. r = Some (Inr (v, idx)) \<Longrightarrow> ens (busy c m) (k v idx)"
  shows "ens (busy c m) (on_ok c s r k)"
  unfolding on_ok_def using assms by (intro ens_bind_eq) (auto intro: ord split: sum.splits prod.splits)

section \<open>Jobs made for a reply\<close>

text \<open>A job that is not in the table, together with the books.\<close>

definition beside :: "jref \<Rightarrow> cref \<Rightarrow> nat \<Rightarrow> world \<Rightarrow> bool" where
  "beside j c m s \<longleftrightarrow> busy c m s \<and> spare j s"

interpretation bs: steady "beside j c m" for j c m .

lemma beside_busy: "beside j c m s \<Longrightarrow> busy c m s"
  by (simp add: beside_def)

lemma beside_modJ:
  assumes "beside j c m s" "\<And>x. HeapIndex (f x) = HeapIndex x \<and> ID (R (f x)) = ID (R x) \<and> (JTube (f x) = JTube x \<or> JTube (f x) = None)"
  shows "beside j c m (modJ j f s)"
proof -
  have "heads (modJ j f s) = heads s" by (simp add: heads_def upd)
  then have "spare j (modJ j f s)" using assms(1) spare_cong [of j s "modJ j f s"] by (simp add: beside_def upd)
  then show ?thesis using assms busy_spare [of c m s j f] by (simp add: beside_def)
qed

lemma beside_modC:
  assumes "beside j c m s" "\<And>x. ReservedJobs (f x) = ReservedJobs x \<and> TickPos (f x) = TickPos x \<and> InCoons (f x) = InCoons x \<and>
      Use (f x) = Use x \<and> Watch (f x) = Watch x \<and> (InJob (f x) = None \<or> InJob (f x) = InJob x)"
  shows "beside j c m (modC c f s)"
proof -
  have "ReservedJobs (C (modC c f s) d) = ReservedJobs (C s d)" for d using assms(2) by (simp add: upd)
  moreover have "T (modC c f s) = T s" "nT (modC c f s) = nT s" "nC (modC c f s) = nC s" by (simp_all add: upd)
  ultimately have "heads (modC c f s) = heads s" by (simp add: heads_def)
  then have "spare j (modC c f s)" using assms(1) spare_cong [of j s "modC c f s"] by (simp add: beside_def upd)
  then show ?thesis using assms busy_modC [of c m s f] by (simp add: beside_def)
qed

lemma beside_NewJob:
  assumes "busy c m s"
  shows "beside (fst (NewJob b s)) c m (snd (NewJob b s))"
proof -
  let ?s = "s\<lparr>nJ := Suc (nJ s), J := (J s)(nJ s := zero_job)\<rparr>"
  have "sinv m ?s" by (rule inv_new_job [OF busy_D(1) [OF assms]]) (simp_all add: zero_job_def)
  then have "busy c m ?s"
    using ordered_new_job [OF _ busy_D(1) [OF assms], of _ _ zero_job] by (intro busy_I [OF assms]) (auto simp: zero_job_def)
  then have "busy c m (snd (time_Now ?s))" by (rule ord)
  moreover have "spare (nJ s) (snd (time_Now ?s))"
    by (rule spare_cong [OF spare_new [OF busy_D(1) [OF assms]]]) (simp_all add: time_Now_def heads_def)
  ultimately have "beside (nJ s) c m (snd (time_Now ?s))" by (simp add: beside_def)
  then show ?thesis
    unfolding NewJob_def ListReset_def Let_def modR_def
    by (auto simp: split_beta intro!: beside_modJ split: option.splits)
qed

lemma busy_text:
  assumes "busy c m s" "\<And>j s. beside j c m s \<Longrightarrow> beside j c m (f j s)"
  shows "ens (busy c m) (case NewJob b s of (j, s) \<Rightarrow> replyLine c st txt (f j s))"
  using beside_NewJob [OF assms(1), of b] assms(2) by (auto simp: split_beta intro!: busy_replyLine beside_busy)

lemma Copy_spare:
  assumes "ordered W a s" "RState (R (J s j)) = Copy"
  shows "spare j s"
proof -
  have h: "holds a s" by (rule ordered_D(1) [OF assms(1)])
  have "j \<notin># standing s a" using standing_state [OF h, of j] assms(2) by (auto simp: go_const)
  then have "j \<notin> ran (allJobs s)" using ordered_live [OF assms(1)] assms(2) by (auto simp: live_def go_const)
  moreover have "j \<notin> heads s"
    using holds_D(3,4) [OF h] assms(2) by (auto simp: heads_def buried_at_def held_by_def go_const)
  ultimately show ?thesis by (simp add: spare_def)
qed

lemma busy_JobFree_copy [ord]:
  assumes "busy c m s" "RState (R (J s j)) = Copy"
  shows "busy c m (JobFree (Some j) s)"
proof -
  have "JobFree (Some j) s = modJ j (\<lambda>x. x\<lparr>JTube := None\<rparr>) s" using assms(2) by (simp add: JobFree_def upd)
  moreover have "spare j s" using assms Copy_spare by (auto simp: busy_def)
  ultimately show ?thesis using busy_spare [OF assms(1)] by simp
qed

lemma busy_JobCopy [ord]:
  assumes "busy c m s"
  shows "busy c m (snd (JobCopy jp s))"
proof (cases jp)
  case (Some j)
  let ?s = "s\<lparr>nJ := Suc (nJ s), J := (J s)(nJ s := J s j)\<rparr>"
  have z: "HeapIndex (J s j) = 0" "JTube (J s j) = Some t \<Longrightarrow> t < nT s" for t
    using busy_D(1) [OF assms] by (auto simp: inv_defs)
  have "busy c m ?s"
    using ordered_new_job [OF _ busy_D(1) [OF assms] z(1)] z by (intro busy_I [OF assms] inv_new_job [OF busy_D(1) [OF assms]]) auto
  moreover have "spare (nJ s) ?s"
    by (rule spare_cong [OF spare_new [OF busy_D(1) [OF assms]]]) (simp_all add: heads_def)
  ultimately have "beside (nJ s) c m ?s" by (simp add: beside_def)
  then have "beside (nJ s) c m (snd (JobCopy jp s))"
    unfolding JobCopy_def Some Let_def modR_def JobListRest_def by (auto intro!: beside_modJ)
  then show ?thesis by (rule beside_busy)
qed (use assms in \<open>simp add: JobCopy_def\<close>)

section \<open>Statistics, lists and peeking\<close>

lemma busy_ticked: "busy c m s \<Longrightarrow> busy c m (s\<lparr>ticks := n\<rparr>)"
proof -
  assume b: "busy c m s"
  then obtain a where o: "ordered {c} a s" by (auto simp: busy_def)
  have "sinv m (s\<lparr>ticks := n\<rparr>)" using busy_D(1) [OF b] by (simp add: inv_defs)
  moreover have "ordered {c} a (s\<lparr>ticks := n\<rparr>)" by (rule ordered_other [OF o]) simp_all
  ultimately show ?thesis using b by (auto simp: busy_def)
qed

lemma busy_stats [ord]:
  assumes "busy c m s"
  shows "busy c m (snd (fmtStats s))" "busy c m (snd (fmtStatsTube t s))" "ens (\<lambda>p. busy c m (snd p)) (fmtStatsJob j s)"
proof -
  note t = busy_ticked [OF assms, of "Suc (ticks s)"]
  show "busy c m (snd (fmtStats s))" using t by (simp add: fmtStats_def uptime_def time_Now_def Let_def)
  show "busy c m (snd (fmtStatsTube t s))" using t assms by (simp add: fmtStatsTube_def time_Now_def Let_def)
  show "ens (\<lambda>p. busy c m (snd p)) (fmtStatsJob j s)"
    using t by (auto simp: fmtStatsJob_def time_Now_def Let_def ens_def split: Option.bind_splits)
qed

lemmas beside_text = beside_modJ beside_modC

lemma busy_doStats [ord]:
  assumes "busy c m s"
  shows "ens (busy c m) (doStats c what s)"
proof -
  have "ens (\<lambda>p. busy c m (snd p)) (case what of AllStats \<Rightarrow> Some (fmtStats s) | JobStats j \<Rightarrow> fmtStatsJob j s
      | TubeStats t \<Rightarrow> Some (fmtStatsTube t s))"
    using busy_stats [OF assms] by (cases what) simp_all
  then show ?thesis
    unfolding doStats_def Let_def modR_def
    by (rule ens_bind) (simp only: split_beta, rule busy_text [unfolded split_beta], assumption, (intro beside_text; simp))
qed

lemma busy_doListTubes [ord]:
  assumes "busy c m s"
  shows "ens (busy c m) (doListTubes c l s)"
proof -
  have "beside j c m (ms_each (\<lambda>t s. modJ j (\<lambda>x. x\<lparr>Body := Body x @ ''- '' @ Name (T s t) @ [LF]\<rparr>) s) l s)"
    if "beside j c m s" for j s
    unfolding ms_each_def by (rule fold_inv [where P = "beside j c m"]) (rule that, rule beside_modJ, simp_all)
  note each = this
  show ?thesis
    unfolding doListTubes_def Let_def modR_def
    by (rule busy_text [OF assms]) (intro beside_text each; simp)
qed

lemma busy_reply_found [ord]: "busy c m s \<Longrightarrow> ens (busy c m) (reply_found c jp s)"
  unfolding reply_found_def by (intro ord) simp_all

lemma busy_dispatchOpPeekReady [ord]: "busy c m s \<Longrightarrow> ens (busy c m) (dispatchOpPeekReady c s)"
  unfolding dispatchOpPeekReady_def by (intro ord) simp_all

lemma busy_dispatchOpPeekDelayed [ord]: "busy c m s \<Longrightarrow> ens (busy c m) (dispatchOpPeekDelayed c s)"
  unfolding dispatchOpPeekDelayed_def by (intro ord) simp_all

lemma busy_dispatchOpPeekBuried [ord]: "busy c m s \<Longrightarrow> ens (busy c m) (dispatchOpPeekBuried c s)"
  unfolding dispatchOpPeekBuried_def by (intro ord) simp_all

lemma busy_dispatchOpPeekJob [ord]: "busy c m s \<Longrightarrow> ens (busy c m) (dispatchOpPeekJob c s)"
  unfolding dispatchOpPeekJob_def by (intro ord) simp_all

lemma busy_dispatchStats [ord]: "busy c m s \<Longrightarrow> ens (busy c m) (dispatchStats c s)"
  unfolding dispatchStats_def by (intro ord) simp_all

lemma busy_dispatchStatsJob [ord]: "busy c m s \<Longrightarrow> ens (busy c m) (dispatchStatsJob c s)"
  unfolding dispatchStatsJob_def by (intro ord) simp_all

lemma busy_dispatchStatsTube [ord]: "busy c m s \<Longrightarrow> ens (busy c m) (dispatchStatsTube c s)"
  unfolding dispatchStatsTube_def by (intro ord) simp_all

lemma busy_dispatchOpListTubes [ord]: "busy c m s \<Longrightarrow> ens (busy c m) (dispatchOpListTubes c s)"
  unfolding dispatchOpListTubes_def by (intro ord) simp_all

lemma busy_dispatchOpListTubeUsed [ord]: "busy c m s \<Longrightarrow> ens (busy c m) (dispatchOpListTubeUsed c s)"
  unfolding dispatchOpListTubeUsed_def by (intro ord) simp_all

lemma busy_dispatchOpListTubesWatched [ord]: "busy c m s \<Longrightarrow> ens (busy c m) (dispatchOpListTubesWatched c s)"
  unfolding dispatchOpListTubesWatched_def by (intro ord) simp_all

lemma busy_dispatchOpQuit [ord]: "busy c m s \<Longrightarrow> ens (busy c m) (dispatchOpQuit c s)"
  unfolding dispatchOpQuit_def by (intro ord) simp_all

lemma busy_dispatchOpPauseTube [ord]: "busy c m s \<Longrightarrow> ens (busy c m) (dispatchOpPauseTube c s)"
  unfolding dispatchOpPauseTube_def by (intro ord) (simp_all add: same_tube_def)

lemma busy_fillExtraData [ord]: "busy c m s \<Longrightarrow> ens (busy c m) (fillExtraData c s)"
  unfolding fillExtraData_def by (intro ord) simp_all

section \<open>New tubes\<close>

definition empty_at :: "tref \<Rightarrow> places \<Rightarrow> places" where
  "empty_at t a = a\<lparr>a_ready := (a_ready a)(t := {#}), a_delayed := (a_delayed a)(t := {#}),
     a_buried := (a_buried a)(t := []), a_waiting := (a_waiting a)(t := {#})\<rparr>"

definition tube_added :: "tube \<Rightarrow> job \<Rightarrow> nat \<Rightarrow> world \<Rightarrow> world" where
  "tube_added u x k s = s\<lparr>nT := Suc (nT s), nJ := Suc (nJ s), J := (J s)(nJ s := x), ticks := k,
     T := (T s)(nT s := u), tubes := (tubes s)\<lparr>ms_items := ms_items (tubes s) @ [nT s]\<rparr>\<rparr>"

lemma MakeAndInsertTube_shape:
  "\<exists>u x k. MakeAndInsertTube nm s = (nT s, tube_added u x k s) \<and> ReadyQ u = [] \<and> DelayQ u = [] \<and> ms_items (WaitingConns u) = [] \<and>
     BuriedL u = nJ s \<and> RState (R x) = Invalid \<and> Next x = Some (nJ s) \<and> Prev x = Some (nJ s) \<and> HeapIndex x = 0"
  by (rule exI [of _ "T (snd (MakeAndInsertTube nm s)) (nT s)"], rule exI [of _ "J (snd (MakeAndInsertTube nm s)) (nJ s)"],
      rule exI [of _ "Suc (ticks s)"])
    (simp add: MakeAndInsertTube_def NewTube_def NewJob_def time_Now_def ListReset_def ms_Append_def ms_fire_def NewMs_def
      tube_added_def zero_job_def zero_rec_def upd Let_def go_const)

lemma holds_tube_added:
  assumes "holds a s" "nJ s \<notin> placed a s" "ReadyQ u = []" "DelayQ u = []" "ms_items (WaitingConns u) = []"
    "BuriedL u = nJ s" "RState (R x) = Invalid" "Next x = Some (nJ s)" "Prev x = Some (nJ s)" "HeapIndex x = 0"
  shows "holds (empty_at (nT s) a) (tube_added u x k s)" (is "holds ?a ?s")
proof -
  have new: "nJ s \<noteq> ReservedJobs (C s c)" "nJ s \<notin> set (a_held a c)" if "c < nC s" for c
    using assms(2) that by (auto simp: placed_def)
  have old: "nJ s \<noteq> BuriedL (T s t)" "nJ s \<notin># a_ready a t" "nJ s \<notin># a_delayed a t" "nJ s \<notin> set (a_buried a t)" if "t < nT s" for t
    using assms(2) that by (auto simp: placed_def)
  have q: "queued JobPriLess Ready (J ?s) t (ReadyQ (T ?s t)) (a_ready ?a t) \<and>
      queued JobDelayLess Delayed (J ?s) t (DelayQ (T ?s t)) (a_delayed ?a t) \<and>
      buried_at (J ?s) t (BuriedL (T ?s t)) (a_buried ?a t)" if "t < nT ?s" for t
  proof (cases "t = nT s")
    case True
    then show ?thesis using assms(3-)
      by (simp add: tube_added_def empty_at_def queued_def buried_at_def dll_def heap_vals_def heap_ok_def heap_upto_def)
  next
    case False
    then have t: "t < nT s" using that by (simp add: tube_added_def)
    have "queued JobPriLess Ready (J ?s) t (ReadyQ (T s t)) (a_ready a t)"
      using old [OF t] by (intro queued_cong [OF holds_D(1) [OF assms(1) t] _ less_local(1)]) (auto simp: tube_added_def)
    moreover have "queued JobDelayLess Delayed (J ?s) t (DelayQ (T s t)) (a_delayed a t)"
      using old [OF t] by (intro queued_cong [OF holds_D(2) [OF assms(1) t] _ less_local(2)]) (auto simp: tube_added_def)
    moreover have "buried_at (J ?s) t (BuriedL (T s t)) (a_buried a t)"
      using old [OF t] by (intro buried_at_cong [OF holds_D(3) [OF assms(1) t]]) (auto simp: tube_added_def)
    ultimately show ?thesis using False by (simp add: tube_added_def empty_at_def)
  qed
  have h: "held_by (J ?s) c (ReservedJobs (C ?s c)) (a_held ?a c) (nT ?s)" if "c < nC ?s" for c
  proof -
    have c: "c < nC s" using that by (simp add: tube_added_def)
    have "held_by (J ?s) c (ReservedJobs (C s c)) (a_held a c) (nT s)"
      using new [OF c] by (intro held_by_cong [OF holds_D(4) [OF assms(1) c]]) (auto simp: tube_added_def)
    then have "held_by (J ?s) c (ReservedJobs (C s c)) (a_held a c) (Suc (nT s))"
      unfolding held_by_def using less_SucI by blast
    then show ?thesis by (simp add: tube_added_def empty_at_def)
  qed
  have "inj_on (\<lambda>t. BuriedL (T ?s t)) {..<nT ?s}"
    using holds_D(5) [OF assms(1)] old(1) assms(6) by (simp add: heads_ok_def tube_added_def inj_on_def Ball_def less_Suc_eq) metis
  moreover have "inj_on (\<lambda>c. ReservedJobs (C ?s c)) {..<nC ?s}" "\<forall>t<nT ?s. \<forall>c<nC ?s. BuriedL (T ?s t) \<noteq> ReservedJobs (C ?s c)"
    using holds_D(5) [OF assms(1)] new(1) assms(6) by (auto simp: heads_ok_def tube_added_def less_Suc_eq)
  ultimately have "heads_ok ?s" by (simp add: heads_ok_def)
  moreover have "waits_ok ?a ?s"
    using holds_D(6) [OF assms(1)] assms(5) by (auto simp: waits_ok_def tube_added_def empty_at_def less_Suc_eq)
  moreover have "sched_ok ?s"
    using assms(10) by (intro sched_ok_cong [OF holds_D(7) [OF assms(1)]])
      (use holds_D(7) [OF assms(1)] in \<open>auto simp: tube_added_def sched_ok_def\<close>)
  ultimately show ?thesis using q h by (simp add: holds_def)
qed

lemma standing_empty_at: "nC s' = nC s \<Longrightarrow> nT s' = Suc (nT s) \<Longrightarrow> standing s' (empty_at (nT s) a) = standing s a"
  by (simp add: standing_def active_jobs_def empty_at_def)

lemma ordered_tube_added:
  assumes o: "ordered W a s" and new: "spare (nJ s) s"
    and u: "ReadyQ u = []" "DelayQ u = []" "ms_items (WaitingConns u) = []" "BuriedL u = nJ s"
    and x: "RState (R x) = Invalid" "Next x = Some (nJ s)" "Prev x = Some (nJ s)" "HeapIndex x = 0"
  shows "ordered W (empty_at (nT s) a) (tube_added u x k s)" (is "ordered W ?a ?s")
proof -
  have np: "nJ s \<notin> placed a s" by (rule spare_unplaced [OF o new])
  have h: "holds ?a ?s" by (rule holds_tube_added [OF ordered_D(1) [OF o] np u x])
  have e: "Wal ?s = Wal s" "allJobs ?s = allJobs s" "C ?s = C s" "nC ?s = nC s" "nT ?s = Suc (nT s)" "tubes ?s = (tubes s)\<lparr>ms_items := ms_items (tubes s) @ [nT s]\<rparr>"
    by (simp_all add: tube_added_def)
  have J: "J ?s j = J s j" if "j \<in> ran (allJobs s)" for j using new that by (auto simp: tube_added_def spare_def)
  have "live ?s = live s" using J by (auto simp: live_def e)
  then have st: "standing ?s ?a = mset_set (live ?s)" using ordered_D(5) [OF o] standing_empty_at [OF e(4,5)] by simp
  have "heads ?s \<subseteq> insert (nJ s) (heads s)"
    using u(4) by (auto simp: heads_def tube_added_def less_Suc_eq)
  then have hs: "heads ?s \<inter> ran (allJobs ?s) = {}" using ordered_D(6) [OF o] new by (auto simp: e spare_def)
  have ar: "arriving ?s j" if "c < nC s" "InJob (C s c) = Some j" for c j
    using ordered_D(8) [OF o that] J [OF arriving_unplaced(3) [OF o ordered_D(8) [OF o that]]]
    by (simp add: arriving_def e loose_links_def)
  have "set (ms_items (tubes s)) \<subseteq> {..<nT s}" using holds_D(6) [OF ordered_D(1) [OF o]] by (simp add: waits_ok_def)
  then have i: "idle ?a ?s"
    using ordered_D(3) [OF o] by (auto simp: idle_def e(6) empty_at_def tube_added_def)
  have w: "\<forall>t<nT ?s. \<forall>d\<in>#a_waiting ?a t. d \<notin> W \<and> CState (C ?s d) = StateWait"
    using ordered_D(7) [OF o] by (auto simp: e empty_at_def less_Suc_eq)
  have "\<forall>c<nC ?s. \<forall>j. InJob (C ?s c) = Some j \<longrightarrow> arriving ?s j \<and> (\<forall>d<nC ?s. InJob (C ?s d) = Some j \<longrightarrow> d = c)"
    unfolding e using ar ordered_D(9) [OF o] by blast
  moreover have "\<not> WalUse (Wal ?s)" "finite (ran (allJobs ?s))" unfolding e by (rule ordered_D(2,4) [OF o])+
  moreover note h st hs i w
  ultimately show ?thesis unfolding ordered_def listed_def by - (intro conjI; assumption)
qed

lemma busy_TubeFindOrMake:
  assumes "busy c m s" "IsValidTube nm"
  shows "busy c m (snd (TubeFindOrMake nm s)) \<and> fst (TubeFindOrMake nm s) < nT (snd (TubeFindOrMake nm s))"
proof -
  note i = TubeFindOrMake_inv [OF busy_D(1) [OF assms(1)] assms(2)]
  have "\<exists>a'. ordered {c} a' (snd (TubeFindOrMake nm s))" if "ordered {c} a s" for a
  proof (cases "ms_search (\<lambda>t. Name (T s t) = nm) (tubes s)")
    case None
    obtain u x k where m: "MakeAndInsertTube nm s = (nT s, tube_added u x k s)" "ReadyQ u = []" "DelayQ u = []"
      "ms_items (WaitingConns u) = []" "BuriedL u = nJ s" "RState (R x) = Invalid" "Next x = Some (nJ s)" "Prev x = Some (nJ s)" "HeapIndex x = 0"
      using MakeAndInsertTube_shape by blast
    have "ordered {c} (empty_at (nT s) a) (tube_added u x k s)"
      by (rule ordered_tube_added [OF that spare_new [OF busy_D(1) [OF assms(1)]] m(2-)])
    then show ?thesis using None m(1) by (auto simp: TubeFindOrMake_def)
  qed (use that in \<open>auto simp: TubeFindOrMake_def\<close>)
  then show ?thesis using i assms(1) by (auto intro!: busy_I [OF assms(1)])
qed

lemma busy_find_tube [ord]:
  "busy c m s \<Longrightarrow> IsValidTube nm \<Longrightarrow> (\<And>t s. busy c m s \<Longrightarrow> t < nT s \<Longrightarrow> ens (busy c m) (f t s)) \<Longrightarrow>
   ens (busy c m) (let (t, s) = TubeFindOrMake nm s in f t s)"
  using busy_TubeFindOrMake [of c m s nm] by (cases "TubeFindOrMake nm s") auto

lemma busy_use:
  assumes "busy c m s" "t < nT s" "Use (C s c) = Some u"
  shows "busy c m (modT t (\<lambda>x. x\<lparr>UsingCt := UsingCt x + 1\<rparr>) (modC c (\<lambda>x. x\<lparr>Use := Some t\<rparr>)
      (modT u (\<lambda>x. x\<lparr>UsingCt := UsingCt x - 1\<rparr>) s)))"
proof (rule busy_I [OF assms(1) use_tube_inv [OF busy_D(1) [OF assms(1)] assms(2,3)]])
  fix a assume "ordered {c} a s"
  then show "\<exists>a'. ordered {c} a' (modT t (\<lambda>x. x\<lparr>UsingCt := UsingCt x + 1\<rparr>) (modC c (\<lambda>x. x\<lparr>Use := Some t\<rparr>)
      (modT u (\<lambda>x. x\<lparr>UsingCt := UsingCt x - 1\<rparr>) s)))"
    by (intro exI [of _ a] ordered_modT ordered_modC) (simp_all add: same_tube_def)
qed

lemma busy_dispatchOpUse [ord]: "busy c m s \<Longrightarrow> ens (busy c m) (dispatchOpUse c s)"
  unfolding dispatchOpUse_def Let_def
  by (intro busy_on_ok ens_if busy_find_tube [unfolded Let_def] ens_bind_eq busy_other busy_replyMsg busy_replyLine busy_use) auto

section \<open>Watching\<close>

lemma ordered_watching:
  assumes o: "ordered W a s" and c: "c \<in> W" and s1: "only_watching s s1"
  shows "ordered W a (modC c (\<lambda>x. x\<lparr>Watch := m\<rparr>) s1)"
proof -
  obtain w where s1: "s1 = s\<lparr>T := \<lambda>t. T s t\<lparr>WatchingCt := w t\<rparr>\<rparr>" using s1 by (auto simp: only_watching_def)
  have "ordered W a s1"
  proof (rule ordered_same [OF o])
    show "holds a s1"
      by (rule holds_frame [OF ordered_D(1) [OF o]])
        (use holds_D(7) [OF ordered_D(1) [OF o]] in \<open>auto simp: s1 same_tube_def intro: sched_ok_cong\<close>)
    show "idle a s1" by (rule idle_cong [OF ordered_D(3) [OF o]]) (simp_all add: s1)
  qed (simp_all add: s1 loose_links_def)
  then show ?thesis using c by (intro ordered_modC) simp_all
qed

lemma busy_Watch [ord]:
  assumes "busy c m s"
  shows "t < nT s \<Longrightarrow> busy c m (Watch_Append c t s)" "busy c m (Watch_Remove c t s)"
proof -
  show "busy c m (Watch_Append c t s)" if "t < nT s"
    using only_watching_ms(1) [of s "[t]" "Watch (C s c)"]
    by (intro busy_I [OF assms] Watch_Append_inv [OF busy_D(1,2) [OF assms] that])
      (auto simp: Watch_Append_def split: prod.splits intro!: exI ordered_watching)
  show "busy c m (Watch_Remove c t s)"
    using only_watching_ms(2) [of s t "Watch (C s c)"]
    by (intro busy_I [OF assms] Watch_Remove_inv [OF busy_D(1) [OF assms]])
      (auto simp: Watch_Remove_def split: prod.splits intro!: exI ordered_watching)
qed

lemma busy_dispatchOpIgnore [ord]: "busy c m s \<Longrightarrow> ens (busy c m) (dispatchOpIgnore c s)"
  unfolding dispatchOpIgnore_def by (intro ord) simp_all

lemma busy_dispatchOpWatch [ord]: "busy c m s \<Longrightarrow> ens (busy c m) (dispatchOpWatch c s)"
  unfolding dispatchOpWatch_def by (intro ord) simp_all

end
