(* ===== verification/JobHandlers.thy ===== *)
theory JobHandlers
  imports Handlers
begin

text \<open>
  The handlers that move jobs keep the books in order. Most of them take one job from where it stands and put it
  somewhere else or drop it; in between the books are in order but for this job: they are in order once it is struck
  from the table. So there is one rule for each way to take a job and one for each way to put it down.
\<close>

section \<open>A job in hand\<close>

definition struck :: "jref \<Rightarrow> world \<Rightarrow> world" where
  "struck j s = s\<lparr>allJobs := (allJobs s)(ID (R (J s j)) := None)\<rparr>"

lemma struck_sel [simp]:
  "J (struck j s) = J s" "T (struck j s) = T s" "C (struck j s) = C s" "nT (struck j s) = nT s" "nC (struck j s) = nC s"
  "nJ (struck j s) = nJ s" "tubes (struck j s) = tubes s" "Wal (struck j s) = Wal s" "Connes (struck j s) = Connes s"
  "allJobs (struck j s) = (allJobs s)(ID (R (J s j)) := None)"
  by (simp_all add: struck_def)

lemma struck_ran:
  assumes "sinv m s" "allJobs s (ID (R (J s j))) = Some j"
  shows "ran (allJobs (struck j s)) = ran (allJobs s) - {j}"
proof -
  have t: "ID (R (J s x)) = i" if "allJobs s i = Some x" for i x
    using assms(1) that unfolding invk_def table_ok_def by blast
  have "x \<in> ran (allJobs (struck j s)) \<longleftrightarrow> x \<in> ran (allJobs s) - {j}" for x
  proof
    assume "x \<in> ran (allJobs (struck j s))"
    then obtain i where i: "i \<noteq> ID (R (J s j))" "allJobs s i = Some x" by (auto simp: ran_def split: if_splits)
    then show "x \<in> ran (allJobs s) - {j}" using t [OF i(2)] by (auto simp: ran_def)
  next
    assume "x \<in> ran (allJobs s) - {j}"
    then obtain i where i: "allJobs s i = Some x" "x \<noteq> j" by (auto simp: ran_def)
    then have "i \<noteq> ID (R (J s j))" using assms(2) by auto
    then have "allJobs (struck j s) i = Some x" using i(1) by simp
    then show "x \<in> ran (allJobs (struck j s))" by (rule ranI)
  qed
  then show ?thesis by blast
qed

lemma struck_same [simp]:
  "holds a (struck j s) = holds a s" "placed a (struck j s) = placed a s" "heads (struck j s) = heads s"
  "standing (struck j s) a = standing s a" "idle a (struck j s) = idle a s" "nowhere a (struck j s) i = nowhere a s i"
  "kept_books (struck j s) u = kept_books s u" "kept_books s (struck j u) = kept_books s u"
proof -
  show "holds a (struck j s) = holds a s"
    unfolding holds_def heads_ok_def waits_ok_def sched_ok_def struck_sel by (rule refl)
  show p: "placed a (struck j s) = placed a s" unfolding placed_def struck_sel by (rule refl)
  show "heads (struck j s) = heads s" unfolding heads_def struck_sel by (rule refl)
  show "standing (struck j s) a = standing s a" unfolding standing_def active_jobs_def struck_sel by (rule refl)
  show "idle a (struck j s) = idle a s" unfolding idle_def struck_sel by (rule refl)
  show "nowhere a (struck j s) i = nowhere a s i" unfolding nowhere_def p struck_sel by (rule refl)
  show "kept_books (struck j s) u = kept_books s u" "kept_books s (struck j u) = kept_books s u"
    unfolding kept_books_def struck_sel by (rule refl)+
qed

text \<open>The job \<open>j\<close> has been taken from its place, or has just arrived.\<close>

definition taken :: "cref set \<Rightarrow> jref \<Rightarrow> places \<Rightarrow> world \<Rightarrow> bool" where
  "taken W j a s \<longleftrightarrow> ordered W a (struck j s) \<and> nowhere a s j \<and> allJobs s (ID (R (J s j))) = Some j \<and>
     ran (allJobs (struck j s)) = ran (allJobs s) - {j}"

lemma taken_D:
  assumes "taken W j a s"
  shows "holds a s" "nowhere a s j" "\<not> WalUse (Wal s)" "idle a s" "allJobs s (ID (R (J s j))) = Some j" "ordered W a (struck j s)"
    "j \<notin> placed a s" "spare j (struck j s)"
  using assms ordered_D(1-3) [of W a "struck j s"]
  by (simp_all add: taken_def nowhere_def spare_def placed_split del: struck_sel(10))

lemma live_struck: "taken W j a s \<Longrightarrow> live (struck j s) = live s - {j}"
  by (auto simp: taken_def live_def simp del: struck_sel(10))

text \<open>Taking a job.\<close>

lemma ordered_taken:
  assumes o: "ordered W a s" and i: "sinv m s" and k: "kept D {} a s a' s'" "D \<subseteq> W" "holds a' s'" "allJobs s' = allJobs s"
    and j: "allJobs s (ID (R (J s j))) = Some j" "ID (R (J s' j)) = ID (R (J s j))" "nowhere a' s' j"
    and st: "add_mset j (standing s' a') = standing s a"
  shows "taken W j a' s'"
proof -
  have l: "j \<in> live s" using ordered_live [OF o, of j] st by (metis union_single_eq_member)
  have r: "ran (allJobs (struck j s')) = ran (allJobs s) - {j}" using struck_ran [OF i j(1)] k(4) j(2) by simp
  have rs: "RState (R (J s' x)) \<noteq> Invalid \<longleftrightarrow> RState (R (J s x)) \<noteq> Invalid" if "x \<in> ran (allJobs s)" "x \<noteq> j" for x
  proof (cases "x \<in># standing s a")
    case True
    then have "x \<in># standing s' a'" using that(2) by (simp add: st [symmetric])
    then have "RState (R (J s' x)) \<noteq> Invalid" using standing_state [OF k(3)] state_codes by fastforce
    moreover have "RState (R (J s x)) \<noteq> Invalid" using standing_state [OF ordered_D(1) [OF o] True] state_codes by fastforce
    ultimately show ?thesis by simp
  next
    case False
    then have "x \<notin> placed a s" using ordered_D(6) [OF o] that by (auto simp: placed_split)
    then show ?thesis using k(1) by (simp add: kept_def spared_def)
  qed
  have lv: "live (struck j s') = live s - {j}" unfolding live_def r using rs by auto
  have "ordered W a' (struck j s')"
  proof (rule ordered_step [OF o _ k(2)])
    show "kept D {} a s a' (struck j s')" using k(1) by (simp add: kept_def spared_def)
    show "holds a' (struck j s')" using k(3) by simp
    show "ran (allJobs (struck j s')) \<subseteq> ran (allJobs s)" using r by auto
    have "add_mset j (standing s' a') = add_mset j (mset_set (live s - {j}))"
      using ordered_D(5) [OF o] st l ordered_finite [OF o] by (simp add: mset_set.remove)
    then show "standing (struck j s') a' = mset_set (live (struck j s'))" using lv by simp
    show "x \<notin> {} \<and> allJobs (struck j s') (ID (R (J s x))) = Some x" if "c < nC s" "InJob (C s c) = Some x" for c x
    proof -
      have a: "arriving s x" by (rule ordered_D(8) [OF o that])
      then have "x \<noteq> j" using l by (auto simp: arriving_def live_def)
      then have "ID (R (J s x)) \<noteq> ID (R (J s j))" using a j(1) by (auto simp: arriving_def)
      then show ?thesis using a k(4) j(2) by (simp add: arriving_def)
    qed
  qed
  then show ?thesis using j r k(4) by (simp add: taken_def del: struck_sel(10))
qed

text \<open>Putting it down.\<close>

lemma ordered_put:
  assumes t: "taken W j a s" and k: "kept D {j} a s a' s'" "D \<subseteq> W" "holds a' s'" "allJobs s' = allJobs s"
    and st: "standing s' a' = add_mset j (standing s a)"
  shows "ordered W a' s'"
proof -
  let ?s = "struck j s"
  note o = taken_D(6) [OF t]
  have b: "Wal s' = Wal s" "nT s' = nT s" "nC s' = nC s" "\<And>c. InJob (C s' c) = InJob (C s c)"
    "heads s' = heads s" using k(1) by (simp_all add: kept_def spared_def kept_books_def heads_def)
  have r: "ran (allJobs ?s) = ran (allJobs s) - {j}" "j \<in> ran (allJobs s)"
    using t by (auto simp: taken_def ran_def simp del: struck_sel(10))
  have J: "J s' x = J s x" if "x \<notin> placed a s" "x \<noteq> j" for x using k(1) that by (simp add: kept_def spared_def)
  have js: "j \<in># standing s' a'" by (simp add: st)
  have rs: "RState (R (J s' x)) \<noteq> Invalid \<longleftrightarrow> RState (R (J s x)) \<noteq> Invalid" if "x \<in> ran (allJobs s)" "x \<noteq> j" for x
  proof (cases "x \<in># standing s a")
    case True
    then have "x \<in># standing s' a'" by (simp add: st)
    then have "RState (R (J s' x)) \<noteq> Invalid" using standing_state [OF k(3)] state_codes by fastforce
    moreover have "RState (R (J s x)) \<noteq> Invalid" using standing_state [OF taken_D(1) [OF t] True] state_codes by fastforce
    ultimately show ?thesis by simp
  next
    case False
    then have "x \<notin> placed a s" using ordered_D(6) [OF o] r that by (auto simp: placed_split)
    then show ?thesis using J that by simp
  qed
  have jl: "RState (R (J s' j)) \<noteq> Invalid" using standing_state [OF k(3) js] state_codes by fastforce
  have lv: "live s' = insert j (live s - {j})" (is "_ = insert j ?L") unfolding live_def k(4) using rs jl r(2) by auto
  have st': "standing s' a' = mset_set (live s')"
    using ordered_D(5) [OF o] ordered_finite [OF o] live_struck [OF t] unfolding st lv by (subst mset_set.insert) simp_all
  have hs: "heads s' \<inter> ran (allJobs s') = {}"
    using ordered_D(6) [OF o] taken_D(7) [OF t] r by (auto simp: b k(4) placed_split)
  have ij: "arriving s' x \<and> (\<forall>d<nC s'. InJob (C s' d) = Some x \<longrightarrow> d = c)" if "c < nC s'" "InJob (C s' c) = Some x" for c x
  proof -
    have c: "c < nC ?s" "InJob (C ?s c) = Some x" using that by (simp_all add: b)
    have a: "arriving ?s x" by (rule ordered_D(8) [OF o c])
    have x: "x \<noteq> j" using arriving_unplaced(3) [OF o a] r by auto
    then have "x \<notin> placed a s" using arriving_unplaced(1) [OF o a] by simp
    then have "J s' x = J s x" using J x by blast
    then have "arriving s' x" using a by (simp add: arriving_def k(4) loose_links_def split: if_splits)
    then show ?thesis using ordered_D(9) [OF o c] by (simp add: b)
  qed
  have w: "d \<notin> W \<and> CState (C s' d) = StateWait" if "t < nT s'" "d \<in># a_waiting a' t" for t d
  proof -
    have t: "t < nT s" using that(1) b by simp
    have "a_waiting a' t \<subseteq># a_waiting a t" using k(1) t by (simp add: kept_def spared_def)
    then have "d \<in># a_waiting a t" using that(2) by (rule mset_subset_eqD)
    then have "d \<notin> W \<and> CState (C s d) = StateWait" using ordered_D(7) [OF o] t by simp
    moreover from this have "CState (C s' d) = CState (C s d)" using k(1,2) t that(2) unfolding kept_def spared_def by blast
    ultimately show ?thesis by simp
  qed
  have "idle a' s'" using k(1) taken_D(4) [OF t] by (simp add: kept_def)
  moreover have "finite (ran (allJobs s'))" using ordered_D(4) [OF o] r k(4) by simp
  moreover have "\<not> WalUse (Wal s')" using taken_D(3) [OF t] b by simp
  moreover note st' hs k(3)
  ultimately show ?thesis unfolding ordered_def listed_def using ij w by blast
qed

text \<open>Dropping it.\<close>

lemma taken_JobFree:
  assumes "taken W j a s" "RState (R (J s j)) \<noteq> Copy"
  shows "ordered W a (JobFree (Some j) s)"
proof -
  have "JobFree (Some j) s = modJ j (\<lambda>x. x\<lparr>JTube := None\<rparr>) (struck j s)" using assms(2) by (simp add: JobFree_def struck_def upd)
  then show ?thesis using ordered_spare [OF taken_D(6,8) [OF assms(1)]] by simp
qed

text \<open>Assignments to the job itself and elsewhere.\<close>

lemma taken_modJ:
  assumes t: "taken W j a s" and f: "\<And>x. HeapIndex (f x) = HeapIndex x \<and> ID (R (f x)) = ID (R x) \<and> Next (f x) = Next x \<and> Prev (f x) = Prev x"
  shows "taken W j a (modJ j f s)"
proof -
  have s: "struck j (modJ j f s) = modJ j f (struck j s)" by (simp add: struck_def upd f)
  have "ordered W a (modJ j f (struck j s))" by (rule ordered_spare [OF taken_D(6,8) [OF t]]) (simp add: f)
  moreover have "nowhere a (modJ j f s) j"
    by (rule nowhere_frame [OF taken_D(2) [OF t]]) (simp_all add: upd f loose_links_def)
  ultimately show ?thesis using t by (simp add: taken_def s) (simp add: upd f)
qed

lemma taken_modT:
  assumes "taken W j a s" "\<And>x. same_tube (f x) x" "\<And>x. Pause (f x) = 0 \<Longrightarrow> Pause x = 0"
  shows "taken W j a (modT t f s)"
proof -
  have s: "struck j (modT t f s) = modT t f (struck j s)" by (simp add: struck_def upd)
  have "nowhere a (modT t f s) j" using assms(2) by (intro nowhere_modT [OF taken_D(2) [OF assms(1)]]) (simp add: same_tube_def)
  then show ?thesis using assms ordered_modT [OF taken_D(6) [OF assms(1)], of f t] by (simp add: taken_def s) (simp add: upd)
qed

lemma taken_other:
  assumes "taken W j a s" "J s' = J s" "T s' = T s" "C s' = C s" "nT s' = nT s" "nC s' = nC s" "tubes s' = tubes s"
    "Wal s' = Wal s" "allJobs s' = allJobs s" "Connes s' = Connes s"
  shows "taken W j a s'"
proof -
  have "ordered W a (struck j s')" by (rule ordered_other [OF taken_D(6) [OF assms(1)]]) (simp_all add: assms(2-))
  moreover have "nowhere a s' j"
    by (rule nowhere_frame [OF taken_D(2) [OF assms(1)]]) (simp_all add: assms(2-))
  ultimately show ?thesis using assms(1) by (simp add: taken_def assms(2-))
qed

section \<open>Where a job of the table stands\<close>

lemma ordered_where:
  assumes o: "ordered W a s" and j: "j \<in> ran (allJobs s)"
  shows "RState (R (J s j)) = Ready \<Longrightarrow> \<exists>t<nT s. j \<in># a_ready a t" "RState (R (J s j)) = Delayed \<Longrightarrow> \<exists>t<nT s. j \<in># a_delayed a t"
    "RState (R (J s j)) = Buried \<Longrightarrow> \<exists>t<nT s. j \<in> set (a_buried a t)"
    "RState (R (J s j)) = Reserved \<Longrightarrow> Reservoir (J s j) = Some c \<Longrightarrow> c < nC s \<and> j \<in> set (a_held a c)"
proof -
  note h = ordered_D(1) [OF o]
  have st: "j \<in># standing s a" if "RState (R (J s j)) \<noteq> Invalid"
    using ordered_live [OF o, of j] j that by (simp add: live_def)
  note w = where_ready [OF h] where_delayed [OF h] where_buried [OF h] where_held [OF h]
  show "\<exists>t<nT s. j \<in># a_ready a t" if "RState (R (J s j)) = Ready"
    using st that w unfolding standing_iff by fastforce
  show "\<exists>t<nT s. j \<in># a_delayed a t" if "RState (R (J s j)) = Delayed"
    using st that w unfolding standing_iff by fastforce
  show "\<exists>t<nT s. j \<in> set (a_buried a t)" if "RState (R (J s j)) = Buried"
    using st that w unfolding standing_iff by fastforce
  show "c < nC s \<and> j \<in> set (a_held a c)" if "RState (R (J s j)) = Reserved" "Reservoir (J s j) = Some c"
    using st that w unfolding standing_iff by fastforce
qed

lemma JobFind_ran: "JobFind i s = Some j \<Longrightarrow> j \<in> ran (allJobs s)"
  by (auto simp: JobFind_def ran_def)

lemma JobFind_ID: "sinv m s \<Longrightarrow> JobFind i s = Some j \<Longrightarrow> allJobs s (ID (R (J s j))) = Some j"
  by (auto simp: JobFind_def invk_def table_ok_def)

section \<open>Taking a job from its place\<close>

definition carrying :: "cref set \<Rightarrow> jref \<Rightarrow> nat \<Rightarrow> world \<Rightarrow> bool" where
  "carrying W j m s \<longleftrightarrow> sinv m s \<and> (\<exists>a. taken W j a s)"

definition booked :: "cref set \<Rightarrow> nat \<Rightarrow> world \<Rightarrow> bool" where
  "booked W m s \<longleftrightarrow> sinv m s \<and> (\<exists>a. ordered W a s)"

lemma busy_booked: "busy c m s \<longleftrightarrow> c < m \<and> booked {c} m s"
  by (auto simp: busy_def booked_def)

lemma orderly_booked: "orderly m s \<longleftrightarrow> booked {} m s"
  by (auto simp: orderly_def booked_def)

text \<open>The job is the root of its queue, if it stands in one.\<close>

definition at_root :: "jref \<Rightarrow> world \<Rightarrow> bool" where
  "at_root j s \<longleftrightarrow> (case JTube (J s j) of None \<Rightarrow> True | Some t \<Rightarrow>
     (RState (R (J s j)) = Ready \<longrightarrow> root_of (ReadyQ (T s t)) = Some j) \<and>
     (RState (R (J s j)) = Delayed \<longrightarrow> root_of (DelayQ (T s t)) = Some j))"

text \<open>What a removal gives: no job, and nothing has happened; or the job asked for, which is then in hand.\<close>

definition takes :: "cref set \<Rightarrow> nat \<Rightarrow> jref option \<Rightarrow> world \<Rightarrow> jref option \<times> world \<Rightarrow> bool" where
  "takes W m jp s p \<longleftrightarrow> (case fst p of None \<Rightarrow> snd p = s | Some j \<Rightarrow> jp = Some j \<and> carrying W j m (snd p))"

lemma takes_I:
  assumes "sinv m s'" "ordered W a s" "sinv m s" "kept D {} a s a' s'" "D \<subseteq> W" "holds a' s'" "allJobs s' = allJobs s"
    and "JobFind i s = Some j" "ID (R (J s' j)) = ID (R (J s j))" "nowhere a' s' j"
    and "add_mset j (standing s' a') = standing s a"
  shows "takes W m (JobFind i s) s (Some j, s')"
  using ordered_taken [OF assms(2-7) JobFind_ID [OF assms(3,8)] assms(9-11)] assms(1,8)
  by (auto simp: takes_def carrying_def)

lemma take_reserved:
  assumes b: "busy c m s"
  shows "ens (takes {c} m (JobFind i s) s) (removeReservedJob c (JobFind i s) s)"
proof (cases "isJobReservedByConn c (JobFind i s) s")
  case True
  then obtain j where j: "JobFind i s = Some j" "Reservoir (J s j) = Some c" "RState (R (J s j)) = Reserved"
    by (auto simp: isJobReservedByConn_def split: option.splits)
  obtain a where o: "ordered {c} a s" using b by (auto simp: busy_def)
  have c: "c < nC s" "j \<in> set (a_held a c)" using ordered_where(4) [OF o JobFind_ran [OF j(1)] j(3,2)] by simp_all
  obtain s1 t where 1: "removeReservedJob c (Some j) s = Some (Some j, s1)" "holds (hold_out c j a) s1" "nowhere (hold_out c j a) s1 j"
    "same_jobs s s1" "\<And>x. R (J s1 x) = R (J s x)" "kept {} {} a s (hold_out c j a) s1"
    using removeReservedJob_moves [OF ordered_D(1) [OF o] c, of "{}"] by blast
  have e: "allJobs s1 = allJobs s" "nT s1 = nT s" "nC s1 = nC s" using 1(4) by (simp_all add: same_jobs_def)
  have "takes {c} m (JobFind i s) s (Some j, s1)"
  proof (rule takes_I [OF _ o busy_D(1) [OF b] 1(6) _ 1(2) e(1) j(1) _ 1(3)])
    show "sinv m s1" using ens_D [OF removeReservedJob_inv [OF busy_D(1) [OF b]] 1(1)] by simp
    show "add_mset j (standing s1 (hold_out c j a)) = standing s a"
      using standing_held(2) [OF c] standing_cong [OF e(2,3)] by simp
  qed (simp_all add: 1(5))
  then show ?thesis using 1(1) j(1) by simp
qed (simp add: removeReservedJob_def takes_def)

lemma take_from_buried:
  assumes o: "ordered W a s" and i: "sinv m s" and j: "JobFind i s = Some j" "RState (R (J s j)) = Buried"
  shows "\<exists>s'. removeBuriedJob (Some j) s = Some (Some j, s') \<and> carrying W j m s' \<and> nT s' = nT s"
proof -
  obtain t where t: "t < nT s" "j \<in> set (a_buried a t)" using ordered_where(3) [OF o JobFind_ran [OF j(1)] j(2)] by blast
  obtain s1 where 1: "removeBuriedJob (Some j) s = Some (Some j, s1)" "holds (bury_out t j a) s1" "nowhere (bury_out t j a) s1 j"
    "same_jobs s s1" "\<And>x. R (J s1 x) = R (J s x)" "kept {} {} a s (bury_out t j a) s1"
    using removeBuriedJob_moves [OF ordered_D(1) [OF o] t, of "{}"] by blast
  have e: "allJobs s1 = allJobs s" "nT s1 = nT s" "nC s1 = nC s" using 1(4) by (simp_all add: same_jobs_def)
  have "takes W m (JobFind i s) s (Some j, s1)"
  proof (rule takes_I [OF _ o i 1(6) _ 1(2) e(1) j(1) _ 1(3)])
    show "sinv m s1" using ens_D [OF removeBuriedJob_inv [OF i] 1(1)] by simp
    show "add_mset j (standing s1 (bury_out t j a)) = standing s a"
      using standing_buried(2) [OF t] standing_cong [OF e(2,3)] by simp
  qed (simp_all add: 1(5))
  then show ?thesis using 1(1) e(2) by (simp add: takes_def)
qed

lemma take_buried:
  assumes "ordered W a s" "sinv m s"
  shows "ens (takes W m (JobFind i s) s) (removeBuriedJob (JobFind i s) s)"
proof (cases "\<exists>j. JobFind i s = Some j \<and> RState (R (J s j)) = Buried")
  case True
  then obtain j where j: "JobFind i s = Some j" "RState (R (J s j)) = Buried" by blast
  show ?thesis using take_from_buried [OF assms j] j(1) by (auto simp: takes_def)
qed (auto simp: removeBuriedJob_def takes_def split: option.splits)

text \<open>The root of a queue.\<close>

lemma standing_ID: "ordered W a s \<Longrightarrow> sinv m s \<Longrightarrow> j \<in># standing s a \<Longrightarrow> allJobs s (ID (R (J s j))) = Some j"
  using ordered_live [of W a s j] by (fastforce simp: live_def ran_def invk_def table_ok_def)

lemma take_ready_root:
  assumes o: "ordered W a s" and i: "sinv m s" and t: "t < nT s" "root_of (ReadyQ (T s t)) = Some j"
  shows "\<exists>h. Ready_Remove t (HeapIndex (J s j)) s = Some (j, modT t (\<lambda>x. x\<lparr>ReadyQ := h\<rparr>) s) \<and>
    taken W j (ready_out t j a) (modT t (\<lambda>x. x\<lparr>ReadyQ := h\<rparr>) s)"
proof -
  let ?a = "ready_out t j a"
  obtain h where h: "Ready_Remove t (HeapIndex (J s j)) s = Some (j, modT t (\<lambda>x. x\<lparr>ReadyQ := h\<rparr>) s)"
    "holds ?a (modT t (\<lambda>x. x\<lparr>ReadyQ := h\<rparr>) s)" "nowhere ?a (modT t (\<lambda>x. x\<lparr>ReadyQ := h\<rparr>) s) j"
    using Ready_Remove_moves [OF ordered_D(1) [OF o] t] by blast
  let ?s = "modT t (\<lambda>x. x\<lparr>ReadyQ := h\<rparr>) s"
  have j: "j \<in># a_ready a t"
    using root_of_mem [OF t(2)] holds_D(1) [OF ordered_D(1) [OF o] t(1)] by (simp add: queued_def)
  have st: "add_mset j (standing ?s ?a) = standing s a"
    using standing_ready(2) [OF t(1) j] standing_cong [of ?s s] by (simp add: upd)
  then have "j \<in># standing s a" by (metis union_single_eq_member)
  note ID = standing_ID [OF o i this]
  have "kept {} {} a s ?a ?s"
    using placed_moves(5) [of t j a s] by (intro kept_I) (auto simp: kept_books_def upd ready_out_def)
  then have "taken W j ?a ?s"
    using ID h(2,3) st by (intro ordered_taken [OF o i, of "{}"]) (simp_all add: upd)
  then show ?thesis using h(1) by blast
qed

lemma take_delayed_root:
  assumes o: "ordered W a s" and i: "sinv m s" and t: "t < nT s" "root_of (DelayQ (T s t)) = Some j"
  shows "\<exists>h. Delay_Remove t (HeapIndex (J s j)) s = Some (j, modT t (\<lambda>x. x\<lparr>DelayQ := h\<rparr>) s) \<and>
    taken W j (delay_out t j a) (modT t (\<lambda>x. x\<lparr>DelayQ := h\<rparr>) s)"
proof -
  let ?a = "delay_out t j a"
  obtain h where h: "Delay_Remove t (HeapIndex (J s j)) s = Some (j, modT t (\<lambda>x. x\<lparr>DelayQ := h\<rparr>) s)"
    "holds ?a (modT t (\<lambda>x. x\<lparr>DelayQ := h\<rparr>) s)" "nowhere ?a (modT t (\<lambda>x. x\<lparr>DelayQ := h\<rparr>) s) j"
    using Delay_Remove_moves [OF ordered_D(1) [OF o] t] by blast
  let ?s = "modT t (\<lambda>x. x\<lparr>DelayQ := h\<rparr>) s"
  have j: "j \<in># a_delayed a t"
    using root_of_mem [OF t(2)] holds_D(2) [OF ordered_D(1) [OF o] t(1)] by (simp add: queued_def)
  have st: "add_mset j (standing ?s ?a) = standing s a"
    using standing_delayed(2) [OF t(1) j] standing_cong [of ?s s] by (simp add: upd)
  then have "j \<in># standing s a" by (metis union_single_eq_member)
  note ID = standing_ID [OF o i this]
  have "kept {} {} a s ?a ?s"
    using placed_moves(6) [of t j a s] by (intro kept_I) (auto simp: kept_books_def upd delay_out_def)
  then have "taken W j ?a ?s"
    using ID h(2,3) st by (intro ordered_taken [OF o i, of "{}"]) (simp_all add: upd)
  then show ?thesis using h(1) by blast
qed

lemma taken_ready_left: "taken W j a s \<Longrightarrow> taken W j a (ready_left k t s)"
  unfolding ready_left_def Let_def modStat_def
  by (auto intro!: taken_modT simp: same_tube_def intro: taken_other [of W j a s] simp: modG_def)

lemma take_ready:
  assumes o: "ordered W a s" and i: "sinv m s" and root: "\<And>j. JobFind k s = Some j \<Longrightarrow> at_root j s"
  shows "ens (takes W m (JobFind k s) s) (removeReadyJob (JobFind k s) s)"
proof (cases "\<exists>j. JobFind k s = Some j \<and> RState (R (J s j)) = Ready")
  case True
  then obtain j where j: "JobFind k s = Some j" "RState (R (J s j)) = Ready" by blast
  then obtain t where t: "t < nT s" "j \<in># a_ready a t" using ordered_where(1) [OF o JobFind_ran [OF j(1)] j(2)] by blast
  have jt: "JTube (J s j) = Some t" using where_ready [OF ordered_D(1) [OF o] t] by simp
  have "root_of (ReadyQ (T s t)) = Some j" using root [OF j(1)] jt j(2) by (simp add: at_root_def)
  then obtain h where h: "Ready_Remove t (HeapIndex (J s j)) s = Some (j, modT t (\<lambda>x. x\<lparr>ReadyQ := h\<rparr>) s)"
    "taken W j (ready_out t j a) (modT t (\<lambda>x. x\<lparr>ReadyQ := h\<rparr>) s)" using take_ready_root [OF o i t(1)] by blast
  have r: "removeReadyJob (JobFind k s) s = Some (Some j, ready_left j t (modT t (\<lambda>x. x\<lparr>ReadyQ := h\<rparr>) s))"
    using j jt h(1) by (simp add: removeReadyJob_def)
  moreover have "sinv m (ready_left j t (modT t (\<lambda>x. x\<lparr>ReadyQ := h\<rparr>) s))"
    using ens_D [OF removeReadyJob_inv [OF i] r] by simp
  ultimately show ?thesis using taken_ready_left [OF h(2)] j(1) by (auto simp: takes_def carrying_def)
qed (auto simp: removeReadyJob_def takes_def split: option.splits)

lemma take_delayed:
  assumes o: "ordered W a s" and i: "sinv m s" and root: "\<And>j. JobFind k s = Some j \<Longrightarrow> at_root j s"
  shows "ens (takes W m (JobFind k s) s) (removeDelayedJob (JobFind k s) s)"
proof (cases "\<exists>j. JobFind k s = Some j \<and> RState (R (J s j)) = Delayed")
  case True
  then obtain j where j: "JobFind k s = Some j" "RState (R (J s j)) = Delayed" by blast
  then obtain t where t: "t < nT s" "j \<in># a_delayed a t" using ordered_where(2) [OF o JobFind_ran [OF j(1)] j(2)] by blast
  have jt: "JTube (J s j) = Some t" using where_delayed [OF ordered_D(1) [OF o] t] by simp
  have "root_of (DelayQ (T s t)) = Some j" using root [OF j(1)] jt j(2) by (simp add: at_root_def)
  then obtain h where h: "Delay_Remove t (HeapIndex (J s j)) s = Some (j, modT t (\<lambda>x. x\<lparr>DelayQ := h\<rparr>) s)"
    "taken W j (delay_out t j a) (modT t (\<lambda>x. x\<lparr>DelayQ := h\<rparr>) s)" using take_delayed_root [OF o i t(1)] by blast
  have r: "removeDelayedJob (JobFind k s) s = Some (Some j, modT t (\<lambda>x. x\<lparr>DelayQ := h\<rparr>) s)"
    using j jt h(1) by (simp add: removeDelayedJob_def)
  moreover have "sinv m (modT t (\<lambda>x. x\<lparr>DelayQ := h\<rparr>) s)" using ens_D [OF removeDelayedJob_inv [OF i] r] by simp
  ultimately show ?thesis using h(2) j(1) by (auto simp: takes_def carrying_def)
qed (auto simp: removeDelayedJob_def takes_def split: option.splits)

section \<open>Putting a job down\<close>

lemma put_enqueue:
  assumes "carrying W j m s"
  shows "ens (\<lambda>(r, s'). r = 1 \<and> booked W m s' \<and> nT s' = nT s) (enqueueJob j d u s)"
proof (cases "JTube (J s j)")
  case None
  then show ?thesis by (simp add: enqueueJob_def upd time_Now_def Let_def)
next
  case (Some t)
  obtain a where i: "sinv m s" and t: "taken W j a s" using assms by (auto simp: carrying_def)
  have tt: "t < nT s" using i Some by (auto simp: inv_defs)
  have "\<forall>t<nT s. nC s \<notin># a_waiting a t" using waits_bound [OF holds_D(6) [OF taken_D(1) [OF t]]] by blast
  from enqueueJob_moves [OF taken_D(1,2) [OF t] Some tt taken_D(3) [OF t] this, of d u]
  obtain s' a' where 1: "enqueueJob j d u s = Some (1, s')" "holds a' s'" "served_after (enqueue_in d t j a) a' s'"
    "kept {} {j} a s a' s'" "nT s' = nT s" "nC s' = nC s" "allJobs s' = allJobs s" by blast
  have "tubes s' = tubes s" using 1(4) by (simp add: kept_def spared_def kept_books_def)
  moreover have "a_waiting (enqueue_in d t j a) = a_waiting a" by (simp add: enqueue_in_def move_defs)
  ultimately have "standing s' a' = standing s' (enqueue_in d t j a)"
    using 1(5,6) by (intro standing_served_after [OF 1(3) taken_D(1) [OF t]])
  then have "standing s' a' = add_mset j (standing s a)"
    using standing_ready(1) [OF tt] standing_delayed(1) [OF tt] standing_cong [OF 1(5,6)] by (simp add: enqueue_in_def)
  then have "ordered W a' s'" using 1(2,7) by (intro ordered_put [OF t 1(4)]) simp_all
  moreover have "sinv m s'" using ens_D [OF enqueueJob_inv [OF i] 1(1)] by simp
  ultimately show ?thesis using 1(1,5) by (auto simp: booked_def)
qed

lemma put_bury:
  assumes "carrying W j m s"
  shows "ens (\<lambda>(ok, s'). ok \<and> booked W m s') (BuryJob j u s)"
proof -
  obtain a where i: "sinv m s" and t: "taken W j a s" using assms by (auto simp: carrying_def)
  show ?thesis
  proof (cases "JTube (J s j)")
    case (Some t0)
    have tt: "t0 < nT s" using i Some by (auto simp: inv_defs)
    from BuryJob_moves [OF taken_D(1,2) [OF t] Some tt taken_D(3) [OF t], of u "{}"]
    obtain s' where 1: "BuryJob j u s = Some (True, s')" "holds (bury_in t0 j a) s'" "same_jobs s s'" "kept {} {j} a s (bury_in t0 j a) s'"
      by blast
    have e: "allJobs s' = allJobs s" "nT s' = nT s" "nC s' = nC s" using 1(3) by (simp_all add: same_jobs_def)
    have "standing s' (bury_in t0 j a) = add_mset j (standing s a)"
      using standing_buried(1) [OF tt] standing_cong [OF e(2,3)] by simp
    then have "ordered W (bury_in t0 j a) s'" using 1(2) e(1) by (intro ordered_put [OF t 1(4)]) simp_all
    moreover have "sinv m s'" using ens_D [OF BuryJob_inv [OF i] 1(1)] by simp
    ultimately show ?thesis using 1(1) by (auto simp: booked_def)
  qed (simp add: BuryJob_def WalResvUpdate_def reserve_def taken_D(3) [OF t] upd Let_def)
qed

lemma put_reserve:
  assumes "carrying W j m s" "c < nC s"
  shows "ens (booked W m) (reserveJob c j s)"
proof (cases "JTube (J s j)")
  case (Some t)
  obtain a where i: "sinv m s" and t: "taken W j a s" using assms(1) by (auto simp: carrying_def)
  have tt: "t < nT s" using i Some by (auto simp: inv_defs)
  from reserveJob_moves [OF taken_D(1) [OF t] assms(2) taken_D(2) [OF t] Some tt, of "{}"]
  obtain s' where 1: "reserveJob c j s = Some s'" "holds (hold_in c j a) s'" "same_jobs s s'" "kept {} {j} a s (hold_in c j a) s'"
    by blast
  have e: "allJobs s' = allJobs s" "nT s' = nT s" "nC s' = nC s" using 1(3) by (simp_all add: same_jobs_def)
  have "standing s' (hold_in c j a) = add_mset j (standing s a)" using standing_held(1) [OF assms(2)] standing_cong [OF e(2,3)] by simp
  then have "ordered W (hold_in c j a) s'" using 1(2) e(1) by (intro ordered_put [OF t 1(4)]) simp_all
  moreover have "sinv m s'" using ens_D [OF reserveJob_inv [OF i] 1(1)] by simp
  ultimately show ?thesis using 1(1) by (auto simp: booked_def)
qed (simp add: reserveJob_def upd Let_def)

section \<open>The handlers\<close>

lemma carrying_D:
  assumes "carrying W j m s"
  shows "sinv m s" "WalWrite k s = Some (True, s)" "WalMain s = Some s" "WalResvUpdate s = Some (1, s)"
    "WalResvPut k s = Some p \<Longrightarrow> p = (1, s)"
proof -
  show "sinv m s" using assms by (simp add: carrying_def)
  have "\<not> WalUse (Wal s)" using assms taken_D(3) unfolding carrying_def by blast
  then show "WalWrite k s = Some (True, s)" "WalMain s = Some s" "WalResvUpdate s = Some (1, s)"
    "WalResvPut k s = Some p \<Longrightarrow> p = (1, s)"
    by (simp_all add: WalWrite_def WalMain_def WalResvUpdate_def WalResvPut_def reserve_def split: Option.bind_splits)
qed

lemma carrying_modJ [ord]:
  assumes "carrying W j m s" "\<And>x. HeapIndex (f x) = HeapIndex x \<and> ID (R (f x)) = ID (R x) \<and> Next (f x) = Next x \<and> Prev (f x) = Prev x \<and>
      (JTube (f x) = JTube x \<or> JTube (f x) = None)"
  shows "carrying W j m (modJ j f s)"
proof -
  have "sinv m (modJ j f s)"
  proof (rule inv_modJ)
    show "JTube (f x) = Some t \<Longrightarrow> JTube x = Some t \<or> t < nT s" for x t using assms(2) [of x] by auto
  qed (use assms in \<open>simp_all add: carrying_def\<close>)
  then show ?thesis using assms taken_modJ [of W j _ s f] by (auto simp: carrying_def)
qed

lemma carrying_modR [ord]: "carrying W j m s \<Longrightarrow> (\<And>r. ID (f r) = ID r) \<Longrightarrow> carrying W j m (modR j f s)"
  unfolding modR_def by (intro carrying_modJ) simp_all

lemma carrying_count [ord]:
  assumes "carrying W j m s"
  shows "carrying W j m (modG h s)" "carrying W j m (modStat t g s)" "carrying W j m (s\<lparr>CurWorkerCt := n\<rparr>)"
proof -
  obtain a where i: "sinv m s" and t: "taken W j a s" using assms by (auto simp: carrying_def)
  show "carrying W j m (modG h s)" "carrying W j m (s\<lparr>CurWorkerCt := n\<rparr>)"
    using i inv_other by (auto simp: carrying_def modG_def intro!: exI [of _ a] taken_other [OF t])
  show "carrying W j m (modStat t g s)"
    using i t unfolding carrying_def modStat_def by (auto intro!: taken_modT inv_modT simp: same_tube_def)
qed

lemma booked_busy: "c < m \<Longrightarrow> booked {c} m s \<Longrightarrow> busy c m s"
  by (simp add: busy_booked)

text \<open>Taking and putting down, in the form in which the handlers use them.\<close>

lemma busy_take:
  assumes "busy c m s" "busy c m s \<Longrightarrow> ens Q (f (None, s))" "\<And>j s'. carrying {c} j m s' \<Longrightarrow> ens Q (f (Some j, s'))"
  shows "ens Q (removeReservedJob c (JobFind i s) s \<bind> f)"
proof (rule ens_bind [OF take_reserved [OF assms(1)]])
  fix p assume "takes {c} m (JobFind i s) s p"
  then show "ens Q (f p)" using assms by (cases p; cases "fst p") (auto simp: takes_def)
qed

lemma busy_enqueue:
  "carrying W j m s \<Longrightarrow> (\<And>s'. booked W m s' \<Longrightarrow> nT s' = nT s \<Longrightarrow> ens Q (f (1, s'))) \<Longrightarrow> ens Q (enqueueJob j d u s \<bind> f)"
  by (rule ens_bind [OF put_enqueue]) auto

lemma busy_bury:
  "carrying W j m s \<Longrightarrow> (\<And>s'. booked W m s' \<Longrightarrow> ens Q (f (True, s'))) \<Longrightarrow> ens Q (BuryJob j u s \<bind> f)"
  by (rule ens_bind [OF put_bury]) auto

lemma busy_dispatchOpBury [ord]:
  assumes "busy c m s"
  shows "ens (busy c m) (dispatchOpBury c s)"
proof -
  note c = busy_D(2) [OF assms]
  have "ens (busy c m) (BuryJob j True (modR j (\<lambda>r. r\<lparr>Pri := p\<rparr>) s) \<bind>
      (\<lambda>(ok, s). if \<not> ok then replyErr c MsgInternalError s else replyMsg c MsgBuried s))" if "carrying {c} j m s" for j p s
    by (rule busy_bury) (auto intro!: ord that booked_busy [OF c])
  note fin = this
  show ?thesis
    unfolding dispatchOpBury_def Let_def
    by (rule busy_on_ok [OF assms], rule busy_on_ok [OF assms], rule busy_take [OF busy_other(2) [OF assms]];
        simp add: busy_replyMsg fin)
qed

lemma busy_dispatchOpRelease [ord]:
  assumes "busy c m s"
  shows "ens (busy c m) (dispatchOpRelease c s)"
proof -
  note c = busy_D(2) [OF assms]
  have "ens (busy c m) (enqueueJob j d u s \<bind>
      (\<lambda>(r, s). if r < 0 then replyErr c MsgInternalError s else if r = 1 then replyMsg c MsgReleased s
        else BuryJob j False s \<bind> (\<lambda>(_, s). replyMsg c MsgBuried s)))" if "carrying {c} j m s" for j d u s
    by (rule busy_enqueue [OF that]) (simp add: busy_replyMsg booked_busy [OF c])
  note enq = this
  show ?thesis
    unfolding dispatchOpRelease_def Let_def
    by (rule busy_on_ok [OF assms], rule busy_on_ok [OF assms], rule busy_on_ok [OF assms],
        rule busy_take [OF busy_other(2) [OF assms]]; simp add: busy_replyMsg carrying_D(4) enq carrying_modR carrying_modJ)
qed

text \<open>\<open>delete\<close> and \<open>reserve-job\<close> of a job that the connection does not hold: it has to be at the root of its queue, if it
  stands in one.\<close>

lemma try_take:
  assumes "ens (takes W m jp s) r" "ens Q (f (None, s))" "\<And>j s'. carrying W j m s' \<Longrightarrow> ens Q (f (Some j, s'))"
  shows "ens Q (r \<bind> f)"
proof (rule ens_bind [OF assms(1)])
  fix p assume "takes W m jp s p"
  then show "ens Q (f p)" using assms(2,3) by (cases p; cases "fst p") (auto simp: takes_def)
qed

lemma busy_take_root:
  assumes "busy c m s" "\<And>j. JobFind i s = Some j \<Longrightarrow> at_root j s"
  shows "ens (takes {c} m (JobFind i s) s) (removeReadyJob (JobFind i s) s)" "ens (takes {c} m (JobFind i s) s) (removeBuriedJob (JobFind i s) s)"
    "ens (takes {c} m (JobFind i s) s) (removeDelayedJob (JobFind i s) s)"
proof -
  obtain a where "ordered {c} a s" "sinv m s" using assms(1) by (auto simp: busy_def)
  then show "ens (takes {c} m (JobFind i s) s) (removeReadyJob (JobFind i s) s)" "ens (takes {c} m (JobFind i s) s) (removeBuriedJob (JobFind i s) s)"
    "ens (takes {c} m (JobFind i s) s) (removeDelayedJob (JobFind i s) s)"
    using take_ready take_buried take_delayed assms(2) by blast+
qed

lemma drop_JobFree:
  assumes "carrying W j m s" "RState (R (J s j)) \<noteq> Copy"
  shows "booked W m (JobFree (Some j) s)"
  using assms taken_JobFree JobFree_inv unfolding carrying_def booked_def by blast

lemma counted_same [simp]: "JobFind i (count_op x s) = JobFind i s" "at_root j (count_op x s) = at_root j s"
  "J (count_op x s) = J s"
  by (simp_all add: JobFind_def at_root_def count_op_def split: option.split)

lemma busy_take_any:
  assumes "busy c m s" "\<And>j. JobFind i s = Some j \<Longrightarrow> at_root j s" "ens (busy c m) (f s)" and that: "s0 = s"
    and "\<And>j s. carrying {c} j m s \<Longrightarrow> ens (busy c m) (g j s)"
  shows "ens (busy c m) (do {
      (jp, s) \<leftarrow> removeReservedJob c (JobFind i s) s;
      (jp, s) \<leftarrow> (if jp = None then removeReadyJob (JobFind i s0) s else Some (jp, s));
      (jp, s) \<leftarrow> (if jp = None then removeBuriedJob (JobFind i s0) s else Some (jp, s));
      (jp, s) \<leftarrow> (if jp = None then removeDelayedJob (JobFind i s0) s else Some (jp, s));
      (case jp of None \<Rightarrow> f s | Some j \<Rightarrow> g j s)})"
proof -
  note take = take_reserved [OF assms(1), of i] busy_take_root [OF assms(1,2)]
  have d: "ens (busy c m) (do {
      (jp, s) \<leftarrow> removeDelayedJob (JobFind i s0) s;
      (case jp of None \<Rightarrow> f s | Some j \<Rightarrow> g j s)})"
    unfolding that by (rule try_take [OF take(4)]) (simp_all add: assms(3,5))
  have b: "ens (busy c m) (do {
      (jp, s) \<leftarrow> removeBuriedJob (JobFind i s0) s;
      (jp, s) \<leftarrow> (if jp = None then removeDelayedJob (JobFind i s0) s else Some (jp, s));
      (case jp of None \<Rightarrow> f s | Some j \<Rightarrow> g j s)})"
    unfolding that by (rule try_take [OF take(3)]) (use d [unfolded that] in \<open>simp_all add: assms(5)\<close>)
  have r: "ens (busy c m) (do {
      (jp, s) \<leftarrow> removeReadyJob (JobFind i s0) s;
      (jp, s) \<leftarrow> (if jp = None then removeBuriedJob (JobFind i s0) s else Some (jp, s));
      (jp, s) \<leftarrow> (if jp = None then removeDelayedJob (JobFind i s0) s else Some (jp, s));
      (case jp of None \<Rightarrow> f s | Some j \<Rightarrow> g j s)})"
    unfolding that by (rule try_take [OF take(2)]) (use b [unfolded that] in \<open>simp_all add: assms(5)\<close>)
  show ?thesis
    unfolding that by (rule try_take [OF take(1)]) (use r [unfolded that] in \<open>simp_all add: assms(5)\<close>)
qed

lemma busy_dispatchOpDelete:
  assumes "busy c m s"
    and root: "\<And>jid idx j. read_int c (len CmdDelete) s = Some (Inr (jid, idx)) \<Longrightarrow> JobFind (word_of_int jid) s = Some j \<Longrightarrow> at_root j s"
  shows "ens (busy c m) (dispatchOpDelete c s)"
proof -
  note c = busy_D(2) [OF assms(1)]
  let ?drop = "\<lambda>j s. JTube (J s j) \<bind> (\<lambda>t.
      let s = modStat t (\<lambda>g. g\<lparr>TotalJobsCt := TotalJobsCt g - 1, TotalDeleteCt := TotalDeleteCt g + 1\<rparr>) s;
          s = modG (\<lambda>g. g\<lparr>TotalJobsCt := TotalJobsCt g - 1, TotalDeleteCt := TotalDeleteCt g + 1\<rparr>) s;
          s = modR j (\<lambda>r. r\<lparr>RState := Invalid\<rparr>) s
      in WalWrite j s \<bind> (\<lambda>(ok, s). WalMain s \<bind> (\<lambda>s.
        let s = JobFree (Some j) s in if \<not> ok then replyErr c MsgInternalError s else replyMsg c MsgDeleted s)))"
  have drop: "ens (busy c m) (?drop j s)" if "carrying {c} j m s" for j s
  proof (rule ens_bind_eq)
    fix t
    define s1 where "s1 = modR j (\<lambda>r. r\<lparr>RState := Invalid\<rparr>) (modG (\<lambda>g. g\<lparr>TotalJobsCt := TotalJobsCt g - 1, TotalDeleteCt := TotalDeleteCt g + 1\<rparr>)
      (modStat t (\<lambda>g. g\<lparr>TotalJobsCt := TotalJobsCt g - 1, TotalDeleteCt := TotalDeleteCt g + 1\<rparr>) s))"
    have "carrying {c} j m s1" unfolding s1_def using that by (intro ord) simp_all
    moreover have "RState (R (J s1 j)) \<noteq> Copy" by (simp add: s1_def upd go_const)
    ultimately show "ens (busy c m) (let s = modStat t (\<lambda>g. g\<lparr>TotalJobsCt := TotalJobsCt g - 1, TotalDeleteCt := TotalDeleteCt g + 1\<rparr>) s;
          s = modG (\<lambda>g. g\<lparr>TotalJobsCt := TotalJobsCt g - 1, TotalDeleteCt := TotalDeleteCt g + 1\<rparr>) s;
          s = modR j (\<lambda>r. r\<lparr>RState := Invalid\<rparr>) s
      in WalWrite j s \<bind> (\<lambda>(ok, s). WalMain s \<bind> (\<lambda>s.
        let s = JobFree (Some j) s in if \<not> ok then replyErr c MsgInternalError s else replyMsg c MsgDeleted s)))"
      using drop_JobFree booked_busy [OF c] unfolding Let_def s1_def [symmetric] by (simp add: carrying_D busy_replyMsg)
  qed
  have root': "at_root j (count_op OpDelete s)" if "read_int c (len CmdDelete) s = Some (Inr (jid, idx))"
    "JobFind (word_of_int jid) (count_op OpDelete s) = Some j" for jid idx j
    using root that by simp
  show ?thesis
    unfolding dispatchOpDelete_def Let_def [of "count_op OpDelete s"] Let_def [of "JobFind _ _"]
    by (rule busy_on_ok [OF assms(1)], rule busy_take_any [OF busy_other(2) [OF assms(1)] root' _ refl drop], assumption+)
      (rule busy_replyMsg [OF busy_other(2) [OF assms(1)]])
qed

lemma carrying_modC:
  assumes "carrying W j m s" "c \<in> W" "\<And>x. ReservedJobs (f x) = ReservedJobs x \<and> TickPos (f x) = TickPos x \<and> InCoons (f x) = InCoons x \<and>
      Use (f x) = Use x \<and> Watch (f x) = Watch x \<and> (InJob (f x) = None \<or> InJob (f x) = InJob x)"
  shows "carrying W j m (modC c f s)"
proof -
  obtain a where i: "sinv m s" and t: "taken W j a s" using assms(1) by (auto simp: carrying_def)
  have "sinv m (modC c f s)" by (rule inv_modC [OF i]) (simp_all add: assms(3))
  moreover have "struck j (modC c f s) = modC c f (struck j s)" by (simp add: struck_def upd)
  then have "ordered W a (struck j (modC c f s))" using ordered_modC [OF taken_D(6) [OF t] assms(2), of f] assms(3) by simp
  moreover have "nowhere a (modC c f s) j"
    by (rule nowhere_frame [OF taken_D(2) [OF t]]) (simp_all add: upd assms(3))
  ultimately show ?thesis using t by (auto simp: carrying_def taken_def upd)
qed

lemma busy_worker [ord]: "busy c m s \<Longrightarrow> busy c m (connSetWorker c s)" "busy c m s \<Longrightarrow> busy c m (connSetProducer c s)"
  unfolding connSetWorker_def connSetProducer_def by (intro ord; simp)+

lemma carrying_worker: "carrying {c} j m s \<Longrightarrow> carrying {c} j m (connSetWorker c s)"
  unfolding connSetWorker_def Let_def by (auto intro!: carrying_count carrying_modC)

lemma busy_dispatchOpReserveJob:
  assumes b: "busy c m s"
    and root: "\<And>jid idx j. read_int c (len CmdReserveJob) s = Some (Inr (jid, idx)) \<Longrightarrow> JobFind (word_of_int jid) s = Some j \<Longrightarrow> at_root j s"
  shows "ens (busy c m) (dispatchOpReserveJob c s)"
proof -
  note c = busy_D(2) [OF b]
  let ?res = "\<lambda>(jp, s). let s = connSetWorker c s; s = modG (\<lambda>g. g\<lparr>ReservedCt := ReservedCt g + 1\<rparr>) s in
      jp \<bind> (\<lambda>j. connReserveJob c j s \<bind> replyJob c j MsgReserved)"
  have res: "ens (busy c m) (?res (Some j, s))" if "carrying {c} j m s" for j s
  proof -
    let ?s = "modG (\<lambda>g. g\<lparr>ReservedCt := ReservedCt g + 1\<rparr>) (connSetWorker c s)"
    have k: "carrying {c} j m ?s" using that by (intro carrying_count carrying_worker)
    then have "c < nC ?s" using c by (auto simp: carrying_def invk_def)
    then have "ens (booked {c} m) (connReserveJob c j ?s)" unfolding connReserveJob_same by (rule put_reserve [OF k])
    then have "ens (busy c m) (connReserveJob c j ?s \<bind> replyJob c j MsgReserved)"
      by (rule ens_bind) (simp add: booked_busy [OF c] busy_replyJob)
    then show ?thesis by (simp add: Let_def)
  qed
  have none: "ens (busy c m) (?res (None, s))" for s by (simp add: Let_def)
  have "ens (busy c m) ((if RState (R (J s j)) = Ready then removeReadyJob (Some j) s else if RState (R (J s j)) = Buried then removeBuriedJob (Some j) s
      else removeDelayedJob (Some j) s) \<bind> ?res)" if "busy c m s" "JobFind i s = Some j" "at_root j s" for i j s
  proof -
    have "ens (takes {c} m (Some j) s) (removeReadyJob (Some j) s)" "ens (takes {c} m (Some j) s) (removeBuriedJob (Some j) s)"
      "ens (takes {c} m (Some j) s) (removeDelayedJob (Some j) s)"
      using busy_take_root [OF that(1), of i] that(2,3) by simp_all
    then show ?thesis by (intro try_take [of "{c}" m "Some j" s] none res) simp_all
  qed
  note fin = this [of "count_op OpReserveJob s"]
  show ?thesis
    unfolding dispatchOpReserveJob_def Let_def [of "count_op OpReserveJob s"] Let_def [of "RState _"]
    by (rule busy_on_ok [OF b], rule ens_option, rule busy_replyMsg [OF busy_other(2) [OF b]], rule ens_if,
        rule busy_replyErr [OF busy_other(2) [OF b]], rule fin [OF busy_other(2) [OF b]], assumption)
      (use root in simp)
qed

section \<open>touch\<close>

lemma ordered_held_contents:
  assumes o: "ordered W a s" and c: "c < nC s" "j \<in> set (a_held a c)"
    and f: "\<And>x. RState (R (f x)) = RState (R x) \<and> ID (R (f x)) = ID (R x) \<and> JTube (f x) = JTube x \<and> Next (f x) = Next x \<and> Prev (f x) = Prev x \<and>
      Reservoir (f x) = Reservoir x \<and> HeapIndex (f x) = HeapIndex x"
  shows "ordered W a (modJ j f s)"
proof (rule ordered_same [OF o])
  let ?s = "modJ j f s"
  have k: "RState (R (J ?s x)) = RState (R (J s x))" "JTube (J ?s x) = JTube (J s x)" "Next (J ?s x) = Next (J s x)" "Prev (J ?s x) = Prev (J s x)"
    "Reservoir (J ?s x) = Reservoir (J s x)" "HeapIndex (J ?s x) = HeapIndex (J s x)" for x
    using f by (simp_all add: upd)
  note h = ordered_D(1) [OF o]
  have "held_by (J ?s) c (ReservedJobs (C s c)) (a_held a c) (nT s)"
    using holds_D(4) [OF h c(1)] dll_frame [of "J s" _ _ "J ?s"] by (auto simp: held_by_def k)
  then have "holds (a\<lparr>a_held := (a_held a)(c := a_held a c)\<rparr>) ?s"
    using c(2) by (intro holds_setHeld [OF h c(1), where j = j]) (auto simp: upd f intro!: sched_ok_cong [OF holds_D(7) [OF h]])
  then show "holds a ?s" by simp
  show "idle a ?s" by (rule idle_cong [OF ordered_D(3) [OF o]]) (simp_all add: upd)
qed (simp_all add: upd f loose_links_def)

lemma busy_dispatchOpTouch [ord]:
  assumes b: "busy c m s"
  shows "ens (busy c m) (dispatchOpTouch c s)"
proof -
  have "ens (\<lambda>p. busy c m (snd p)) (touchJob c (JobFind i s) s)" if b: "busy c m s" for i s
  proof (cases "isJobReservedByConn c (JobFind i s) s")
    case True
    then obtain j where j: "JobFind i s = Some j" "Reservoir (J s j) = Some c" "RState (R (J s j)) = Reserved"
      by (auto simp: isJobReservedByConn_def split: option.splits)
    obtain a where o: "ordered {c} a s" using b by (auto simp: busy_def)
    have c: "c < nC s" "j \<in> set (a_held a c)" using ordered_where(4) [OF o JobFind_ran [OF j(1)] j(3,2)] by simp_all
    let ?s = "snd (time_Now s)"
    let ?s' = "modC c (\<lambda>x. x\<lparr>SoonestJob := None\<rparr>) (modR j (\<lambda>r. r\<lparr>DeadlineAt := i64 (fst (time_Now s) + TTR r)\<rparr>) ?s)"
    have e: "touchJob c (JobFind i s) s = Some (True, ?s')" using True j(1) by (simp add: touchJob_def split_beta Let_def)
    have "ordered {c} a ?s" by (rule ordered_other [OF o]) (simp_all add: time_Now_def)
    then have "ordered {c} a ?s'" unfolding modR_def
      by (intro ordered_modC ordered_held_contents [where c = c]) (simp_all add: c time_Now_def)
    moreover have "sinv m ?s'" using ens_D [OF touchJob_inv [OF busy_D(1) [OF b]] e] by simp
    ultimately show ?thesis using b e by (auto simp: busy_def)
  qed (simp add: touchJob_def b)
  note touch = this [OF busy_other(2) [OF b]]
  show ?thesis
    unfolding dispatchOpTouch_def Let_def
    by (rule busy_on_ok [OF b], rule ens_bind [OF touch]) (auto intro!: busy_replyMsg)
qed

section \<open>kick\<close>

lemma booked_charge:
  assumes "booked W m s"
  shows "booked W m (modJ j (\<lambda>x. x\<lparr>WalResv := f x\<rparr>) s)"
proof -
  obtain a where o: "ordered W a s" and i: "sinv m s" using assms by (auto simp: booked_def)
  have "sinv m (modJ j (\<lambda>x. x\<lparr>WalResv := f x\<rparr>) s)" by (rule inv_modJ [OF i]) simp_all
  then show ?thesis using ordered_contents [OF o, of "\<lambda>x. x\<lparr>WalResv := f x\<rparr>" j] by (auto simp: booked_def)
qed

lemma booked_reserve: "booked W m s \<Longrightarrow> WalResvUpdate s = Some (1, s)"
  using ordered_D(2) by (auto simp: booked_def WalResvUpdate_def reserve_def)

lemma booked_kicked:
  assumes "carrying W j m s"
  shows "ens (\<lambda>p. fst p \<and> booked W m (snd p) \<and> nT (snd p) = nT s) (enqueueJob j 0 True (modR j (\<lambda>r. r\<lparr>KickCt := KickCt r + 1\<rparr>) s) \<bind>
    (\<lambda>(r, s). if r = 1 then Some (True, s) else g r s))"
  by (rule busy_enqueue [OF carrying_modR [OF assms]]) (simp_all add: upd)

lemma booked_kickBuriedJob:
  assumes "booked W m s" "JobFind i s = Some j" "RState (R (J s j)) = Buried"
  shows "ens (\<lambda>p. fst p \<and> booked W m (snd p) \<and> nT (snd p) = nT s) (kickBuriedJob j s)"
proof -
  let ?s = "modJ j (\<lambda>x. x\<lparr>WalResv := WalResv x + 1\<rparr>) s"
  have "booked W m ?s" by (rule booked_charge [OF assms(1)])
  then obtain a where o: "ordered W a ?s" and i: "sinv m ?s" by (auto simp: booked_def)
  have "JobFind i ?s = Some j" "RState (R (J ?s j)) = Buried" using assms(2,3) by (simp_all add: JobFind_def upd)
  then obtain s' where s': "removeBuriedJob (Some j) ?s = Some (Some j, s')" "carrying W j m s'" "nT s' = nT ?s"
    using take_from_buried [OF o i] by blast
  have "nT ?s = nT s" by (simp add: upd)
  show ?thesis
    using booked_kicked [OF s'(2)] by (simp add: kickBuriedJob_def booked_reserve [OF assms(1)] s'(1,3) \<open>nT ?s = nT s\<close> Let_def)
qed

lemma booked_kickDelayedJob:
  assumes "booked W m s" "t < nT s" "JTube (J s j) = Some t" "root_of (DelayQ (T s t)) = Some j"
  shows "ens (\<lambda>p. fst p \<and> booked W m (snd p) \<and> nT (snd p) = nT s) (kickDelayedJob j s)"
proof -
  let ?s = "modJ j (\<lambda>x. x\<lparr>WalResv := WalResv x + 1\<rparr>) s"
  have "booked W m ?s" by (rule booked_charge [OF assms(1)])
  then obtain a where o: "ordered W a ?s" and i: "sinv m ?s" by (auto simp: booked_def)
  have r: "t < nT ?s" "root_of (DelayQ (T ?s t)) = Some j" using assms(2,4) by (simp_all add: upd)
  obtain h where h: "Delay_Remove t (HeapIndex (J ?s j)) ?s = Some (j, modT t (\<lambda>x. x\<lparr>DelayQ := h\<rparr>) ?s)"
    "taken W j (delay_out t j a) (modT t (\<lambda>x. x\<lparr>DelayQ := h\<rparr>) ?s)"
    using take_delayed_root [OF o i r] by blast
  have "sinv m (modT t (\<lambda>x. x\<lparr>DelayQ := h\<rparr>) ?s)" using ens_D [OF Delay_ops_inv(2) [OF i] h(1)] by simp
  then have "carrying W j m (modT t (\<lambda>x. x\<lparr>DelayQ := h\<rparr>) ?s)" using h(2) by (auto simp: carrying_def)
  from booked_kicked [OF this] show ?thesis
    using h(1) assms(3) by (simp add: kickDelayedJob_def booked_reserve [OF assms(1)] Let_def upd)
qed

lemma booked_kickBuried_loop:
  "booked W m s \<Longrightarrow> t < nT s \<Longrightarrow> ens (\<lambda>p. booked W m (snd p)) (kickBuried_loop t n s)"
proof (induction n arbitrary: s)
  case (Suc n)
  show ?case
  proof (cases "buriedJobP t s")
    case True
    obtain a where o: "ordered W a s" and i: "sinv m s" using Suc.prems(1) by (auto simp: booked_def)
    note h = ordered_D(1) [OF o] and d = holds_dll(2) [OF ordered_D(1) [OF o] Suc.prems(2)]
    obtain j js where a: "a_buried a t = j # js" using True dll_empty_iff [OF d] by (auto simp: buriedJobP_def neq_Nil_conv)
    have n: "Next (J s (BuriedL (T s t))) = Some j" using dll_head d by (simp add: a)
    have "RState (R (J s j)) = Buried" using where_buried [OF h Suc.prems(2)] a by simp
    moreover have "j \<in># standing s a" unfolding standing_iff using Suc.prems(2) a by auto
    then have "JobFind (ID (R (J s j))) s = Some j" using standing_ID [OF o i] by (simp add: JobFind_def)
    ultimately have "ens (\<lambda>p. fst p \<and> booked W m (snd p) \<and> nT (snd p) = nT s) (kickBuriedJob j s)"
      by (intro booked_kickBuriedJob [OF Suc.prems(1)])
    then have "ens (\<lambda>p. booked W m (snd p)) (kickBuriedJob j s \<bind> (\<lambda>(_, s). kickBuried_loop t n s \<bind> (\<lambda>(i, s). Some (Suc i, s))))"
      by (rule ens_bind) (use Suc.IH Suc.prems(2) in \<open>auto simp: ens_def split: Option.bind_splits\<close>)
    then show ?thesis using True n by simp
  qed (use Suc.prems in simp)
qed simp

lemma booked_kickDelayed_loop:
  "booked W m s \<Longrightarrow> t < nT s \<Longrightarrow> ens (\<lambda>p. booked W m (snd p)) (kickDelayed_loop t n s)"
proof (induction n arbitrary: s)
  case (Suc n)
  show ?case
  proof (cases "DelayQ (T s t) = []")
    case False
    obtain a where o: "ordered W a s" and i: "sinv m s" using Suc.prems(1) by (auto simp: booked_def)
    let ?j = "Value (DelayQ (T s t) ! 0)"
    have r: "root_of (DelayQ (T s t)) = Some ?j" using False by (simp add: root_of_def)
    have "?j \<in># a_delayed a t"
      using root_of_mem [OF r] holds_D(2) [OF ordered_D(1) [OF o] Suc.prems(2)] by (simp add: queued_def)
    then have "JTube (J s ?j) = Some t" using where_delayed [OF ordered_D(1) [OF o] Suc.prems(2)] by blast
    then have "ens (\<lambda>p. fst p \<and> booked W m (snd p) \<and> nT (snd p) = nT s) (kickDelayedJob ?j s)"
      by (intro booked_kickDelayedJob [OF Suc.prems _ r])
    then have "ens (\<lambda>p. booked W m (snd p)) ((kickDelayedJob ?j s \<bind> (\<lambda>(_, s). Some s)) \<bind> (\<lambda>s. kickDelayed_loop t n s \<bind> (\<lambda>(i, s). Some (Suc i, s))))"
      unfolding Option.bind_assoc by (rule ens_bind) (use Suc.IH Suc.prems(2) in \<open>auto simp: ens_def split: Option.bind_splits\<close>)
    then show ?thesis using False by (simp add: heap_Len_def heap_Take_def)
  qed (use Suc.prems in \<open>simp add: heap_Len_def\<close>)
qed simp

lemma busy_dispatchOpKick [ord]:
  assumes b: "busy c m s"
  shows "ens (busy c m) (dispatchOpKick c s)"
proof -
  note c = busy_D(2) [OF b]
  have "ens (\<lambda>p. busy c m (snd p)) (kickJobs t n s)" if "busy c m s" "Use (C s c) = Some t" for t n s
  proof -
    have "t < nT s" "booked {c} m s" using that by (auto simp: busy_booked booked_def inv_defs)
    then have "ens (\<lambda>p. booked {c} m (snd p)) (kickJobs t n s)"
      by (simp add: kickJobs_def kickBuriedJobs_def kickDelayedJobs_def booked_kickBuried_loop booked_kickDelayed_loop)
    then show ?thesis by (rule ens_mono) (rule booked_busy [OF c])
  qed
  then show ?thesis
    unfolding dispatchOpKick_def Let_def
    by (intro ens_bind_eq [of "slice_from _ _"] ens_sum ens_bind_eq [of "Use _"])
      (auto intro!: busy_replyMsg b ens_bind busy_other(2) busy_replyLine split: prod.splits)
qed

lemma busy_dispatchOpKickJob:
  assumes b: "busy c m s"
    and root: "\<And>jid idx j. read_int c (len CmdRelease) s = Some (Inr (jid, idx)) \<Longrightarrow> JobFind (word_of_int jid) s = Some j \<Longrightarrow> at_root j s"
  shows "ens (busy c m) (dispatchOpKickJob c s)"
proof -
  note c = busy_D(2) [OF b]
  let ?rest = "\<lambda>j (ok, s). (if \<not> ok \<and> RState (R (J s j)) = Delayed then kickDelayedJob j s else Some (ok, s)) \<bind>
      (\<lambda>(ok, s). replyMsg c (if ok then MsgKicked else MsgNotFound) s)"
  have "ens (busy c m) ((if RState (R (J s j)) = Buried then kickBuriedJob j s else Some (False, s)) \<bind> ?rest j)"
    if g: "busy c m s" "JobFind i s = Some j" "at_root j s" for i j s
  proof -
    have k: "booked {c} m s" using g(1) by (simp add: busy_booked)
    consider "RState (R (J s j)) = Buried" | "RState (R (J s j)) = Delayed" | "RState (R (J s j)) \<notin> {Buried, Delayed}" by blast
    then show ?thesis
    proof cases
      case 1
      have "ens (busy c m) (kickBuriedJob j s \<bind> ?rest j)"
        by (rule ens_bind [OF booked_kickBuriedJob [OF k g(2) 1]]) (auto intro!: busy_replyMsg booked_busy [OF c])
      then show ?thesis using 1 by simp
    next
      case 2
      obtain a where o: "ordered {c} a s" using k by (auto simp: booked_def)
      obtain t where t: "t < nT s" "JTube (J s j) = Some t"
        using ordered_where(2) [OF o JobFind_ran [OF g(2)] 2] where_delayed [OF ordered_D(1) [OF o]] by blast
      then have "root_of (DelayQ (T s t)) = Some j" using g(3) 2 by (simp add: at_root_def)
      from booked_kickDelayedJob [OF k t this]
      have "ens (busy c m) (kickDelayedJob j s \<bind> (\<lambda>(ok, s). replyMsg c (if ok then MsgKicked else MsgNotFound) s))"
        by (rule ens_bind) (auto intro!: busy_replyMsg booked_busy [OF c])
      then show ?thesis using 2 by simp
    qed (use g(1) in \<open>simp add: busy_replyMsg\<close>)
  qed
  note fin = this [OF busy_other(2) [OF b]]
  show ?thesis
    unfolding dispatchOpKickJob_def Let_def
    by (rule busy_on_ok [OF b], rule ens_option, rule busy_replyMsg [OF busy_other(2) [OF b]], rule fin, assumption)
      (use root in simp)
qed

section \<open>reserve\<close>

lemma busy_connDeadLineSoon [ord]:
  assumes "busy c m s"
  shows "ens (\<lambda>p. busy c m (snd p)) (connDeadLineSoon c s)"
proof -
  obtain a where o: "ordered {c} a s" using assms by (auto simp: busy_def)
  obtain x s' where 1: "connDeadLineSoon c s = Some (x, s')" "answered c s s'" "holds a s'"
    using connDeadLineSoon_total [OF ordered_D(1) [OF o] busy_D(3) [OF assms]] by blast
  have "ordered {c} a s'" by (rule ordered_answered [OF o 1(2,3)]) simp
  then show ?thesis
    using 1(1) ens_D [OF connDeadLineSoon_inv [OF busy_D(1) [OF assms]] 1(1)] busy_D(2) [OF assms] by (auto simp: busy_def)
qed

text \<open>A connection that has begun to wait may stand beside ready jobs; the matching that follows puts an end to it.\<close>

lemma wait_then_match:
  assumes b: "busy c m s"
  shows "ens (orderly m) (waitForJob c timeout s \<bind> processQueue)"
proof -
  obtain a where o: "ordered {c} a s" using b by (auto simp: busy_def)
  note h = ordered_D(1) [OF o] and c = busy_D(3) [OF b]
  have nw: "\<forall>t<nT s. c \<notin># a_waiting a t" using ordered_D(7) [OF o] by blast
  let ?b = "wait_in c (ms_items (Watch (C s c))) a"
  obtain s1 where 1: "waitForJob c timeout s = Some s1" "holds ?b s1" "same_jobs s s1" "J s1 = J s" "\<And>d. d \<noteq> c \<Longrightarrow> C s1 d = C s d"
    "CState (C s1 c) = StateWait" using waitForJob_moves [OF h c nw] by blast
  obtain s' a' where 2: "processQueue s1 = Some s'" "matched (clock s1 (ticks s1)) ?b a' s1 s'"
    using processQueue_matches [OF 1(2)] by blast
  have e: "Wal s1 = Wal s" "nT s1 = nT s" "nC s1 = nC s" "allJobs s1 = allJobs s" "heads s1 = heads s"
    "\<And>d. InJob (C s1 d) = InJob (C s d)" using 1(3) by (simp_all add: same_jobs_def heads_def)
  have "listed {} ?b s1"
  proof -
    have "standing s1 ?b = mset_set (live s1)"
      using ordered_D(5) [OF o] standing_cong [OF e(2,3)] by (simp add: live_def 1(4) e(4))
    moreover have "d \<notin> {} \<and> CState (C s1 d) = StateWait" if "t < nT s1" "d \<in># a_waiting ?b t" for t d
    proof (cases "d = c")
      case False
      then have "d \<in># a_waiting a t" using that(2) by (auto simp: wait_in_def split: if_splits)
      then show ?thesis using ordered_D(7) [OF o] that(1) e(2) 1(5) [OF False] by simp
    qed (use 1(6) in simp)
    moreover have "arriving s1 j \<and> (\<forall>d<nC s1. InJob (C s1 d) = Some j \<longrightarrow> d = x)" if "x < nC s1" "InJob (C s1 x) = Some j" for x j
    proof -
      have i: "x < nC s" "InJob (C s x) = Some j" using that by (simp_all add: e(3,6))
      have "arriving s1 j" using ordered_D(8) [OF o i] by (simp add: arriving_def e(4) 1(4))
      then show ?thesis using ordered_D(9) [OF o i] by (simp add: e(3,6))
    qed
    moreover have "\<not> WalUse (Wal s1)" "finite (ran (allJobs s1))" "heads s1 \<inter> ran (allJobs s1) = {}"
      unfolding e by (rule ordered_D(2,4,6) [OF o])+
    ultimately show ?thesis unfolding listed_def using 1(2) by blast
  qed
  moreover have "spared {} {} ?b s1 a' s'" "holds a' s'" "allJobs s' = allJobs s1"
    using 2(2) by (simp_all add: matched_def settled_def)
  moreover have "standing s' a' = standing s1 ?b" by (rule standing_matched [OF 2(2) 1(2)]) simp
  ultimately have "listed {} a' s'" by - (rule listed_spared [of "{}" ?b s1 "{}"]; (assumption | rule empty_subsetI))
  then have o': "ordered {} a' s'" using matched_kept(2) [OF 2(2)] by (simp add: ordered_def)
  have "sinv m s1" using ens_D [OF waitForJob_inv [OF busy_D(1) [OF b]] 1(1)] .
  then have "sinv m s'" using ens_D [OF processQueue_inv 2(1)] by blast
  then show ?thesis using o' 1(1) 2(1) by (auto simp: orderly_def)
qed

lemma orderly_dispatchOpReserve:
  assumes b: "busy c m s"
  shows "ens (orderly m) (dispatchOpReserve c op timeout s)"
proof -
  have calm: "ens (orderly m) r" if "ens (busy c m) r" for r
    by (rule ens_mono [OF that busy_orderly])
  have "ens (orderly m) (if soon \<and> \<not> connReady c s then replyMsg c MsgDeadlineSoon s else waitForJob c timeout s \<bind> processQueue)"
    if "busy c m s" for soon s
    using that by (simp add: calm busy_replyMsg wait_then_match)
  note turn = this
  show ?thesis
    unfolding dispatchOpReserve_def Let_def
    by (rule ens_if, rule calm [OF busy_replyMsg [OF b]],
        rule ens_bind [OF busy_connDeadLineSoon [OF busy_worker(1) [OF busy_other(2) [OF b]]]]) (simp only: split_beta turn)
qed

section \<open>put\<close>

lemma arriving_taken:
  assumes o: "ordered W a s" and i: "sinv m s" and j: "arriving s j" "\<And>d. d < nC s \<Longrightarrow> InJob (C s d) \<noteq> Some j"
  shows "taken W j a s"
proof -
  have r: "ran (allJobs (struck j s)) = ran (allJobs s) - {j}" using struck_ran [OF i] j(1) by (simp add: arriving_def)
  have "live (struck j s) = live s" using j(1) unfolding live_def r by (auto simp: arriving_def)
  then have "standing (struck j s) a = mset_set (live (struck j s))" using ordered_D(5) [OF o] by simp
  moreover have "finite (ran (allJobs (struck j s)))" "heads (struck j s) \<inter> ran (allJobs (struck j s)) = {}"
    using ordered_D(4,6) [OF o] unfolding r by auto
  moreover have "arriving (struck j s) k \<and> (\<forall>d<nC (struck j s). InJob (C (struck j s) d) = Some k \<longrightarrow> d = c)"
    if "c < nC (struck j s)" "InJob (C (struck j s) c) = Some k" for c k
  proof -
    have k: "c < nC s" "InJob (C s c) = Some k" using that by simp_all
    have a: "arriving s k" by (rule ordered_D(8) [OF o k])
    have "k \<noteq> j" using j(2) [OF k(1)] k(2) by auto
    then have "ID (R (J s k)) \<noteq> ID (R (J s j))" using a j(1) by (auto simp: arriving_def)
    then show ?thesis using a ordered_D(9) [OF o k] by (simp add: arriving_def)
  qed
  moreover have "\<forall>t<nT (struck j s). \<forall>d\<in>#a_waiting a t. d \<notin> W \<and> CState (C (struck j s) d) = StateWait"
    using ordered_D(7) [OF o] by simp
  moreover have "holds a (struck j s)" "\<not> WalUse (Wal (struck j s))" "idle a (struck j s)" using ordered_D(1-3) [OF o] by simp_all
  ultimately have "ordered W a (struck j s)" unfolding ordered_def listed_def by blast
  then show ?thesis using arriving_unplaced(2) [OF o j(1)] r j(1) by (simp add: taken_def arriving_def del: struck_sel(10))
qed

lemma busy_enqueueInComingJob [ord]:
  assumes b: "busy c m s"
  shows "ens (busy c m) (enqueueInComingJob c s)"
proof (cases "InJob (C s c)")
  case (Some j)
  note c = busy_D(2) [OF b]
  define s1 where "s1 = modC c (\<lambda>x. x\<lparr>InJob := None, InJobRead := 0\<rparr>) s"
  have still: "busy c m s1" unfolding s1_def using b by (rule busy_modC) simp
  then obtain a where i1: "sinv m s1" and o1: "ordered {c} a s1" by (auto simp: busy_def)
  obtain a0 where o: "ordered {c} a0 s" using b by (auto simp: busy_def)
  have "arriving s j" by (rule ordered_D(8) [OF o busy_D(3) [OF b] Some])
  then have ar: "arriving s1 j" by (simp add: arriving_def s1_def upd loose_links_def)
  have "InJob (C s1 d) \<noteq> Some j" if "d < nC s1" for d
    using ordered_D(9) [OF o busy_D(3) [OF b] Some, of d] that by (auto simp: s1_def upd)
  then have "taken {c} j a s1" by (rule arriving_taken [OF o1 i1 ar])
  then have k: "carrying {c} j m s1" "RState (R (J s1 j)) = Invalid"
    using i1 ar by (auto simp: carrying_def arriving_def)
  have free: "busy c m (JobFree (Some j) s1)" using drop_JobFree [OF k(1)] k(2) booked_busy [OF c] by (simp add: go_const)
  let ?fin = "\<lambda>(r, s). if r < 0 then replyErr c MsgInternalError s else
      let s = modG (\<lambda>g. g\<lparr>TotalJobsCt := TotalJobsCt g + 1\<rparr>) s in JTube (J s j) \<bind> (\<lambda>t.
        let s = modStat t (\<lambda>g. g\<lparr>TotalJobsCt := TotalJobsCt g + 1\<rparr>) s in
        if r = 1 then replyLine c StateSendWord (MsgInsertedFmt (ID (R (J s j)))) s
        else BuryJob j False s \<bind> (\<lambda>(_, s). replyLine c StateSendWord (MsgBuriedFmt (ID (R (J s j)))) s))"
  have fin: "ens (busy c m) (?fin (1 :: int, s'))" if "booked {c} m s'" for s'
    using booked_busy [OF c that] unfolding Let_def
    by (auto intro!: ens_bind_eq [of "JTube _"] busy_replyLine busy_modStat busy_other(1))
  have "ens (busy c m) (enqueueJob j d True (modJ j (\<lambda>x. x\<lparr>WalResv := 1\<rparr>) s1) \<bind> ?fin)" for d
    by (rule busy_enqueue [OF carrying_modJ [OF k(1)]]) (simp, rule fin)
  note enq = this
  have "ens (busy c m) (WalResvPut j s1 \<bind> (\<lambda>(z, s). let s = modJ j (\<lambda>x. x\<lparr>WalResv := z\<rparr>) s in
      if WalResv (J s j) = 0 then replyErr c MsgOutOfMemory s else enqueueJob j (Delay (R (J s j))) True s \<bind> ?fin))"
    by (rule ens_bind_eq, drule carrying_D(5) [OF k(1)], simp only: prod.case Let_def [of "modJ _ _ _"], rule ens_if)
      (simp add: upd, rule enq)
  then show ?thesis
    unfolding enqueueInComingJob_def
    by (simp only: Some bind.simps s1_def [symmetric] Let_def [of s1])
      (intro ens_if busy_replyMsg [OF free] busy_replyErr [OF free] busy_replyErr [OF still]; assumption)
qed (simp add: enqueueInComingJob_def)

lemma busy_maybeEnqueueInComingJob [ord]: "busy c m s \<Longrightarrow> ens (busy c m) (maybeEnqueueInComingJob c s)"
  unfolding maybeEnqueueInComingJob_def by (intro ord) simp_all

lemma busy_skip [ord]: "busy c m s \<Longrightarrow> ens (busy c m) (skip c n msg s)"
  unfolding skip_def by (intro ord) simp_all

text \<open>The job of a \<open>put\<close> that has begun: in the table, under an id that was free, and known to its connection only.\<close>

definition job_made :: "cref \<Rightarrow> job \<Rightarrow> nat \<Rightarrow> int \<Rightarrow> world \<Rightarrow> world" where
  "job_made c x k n s = s\<lparr>nJ := Suc (nJ s), J := (J s)(nJ s := x), ticks := k, nextJobId := nextJobId s + 1,
     allJobs := (allJobs s)(nextJobId s \<mapsto> nJ s), AllJobsUsed := n, C := (C s)(c := (C s c)\<lparr>InJob := Some (nJ s)\<rparr>)\<rparr>"

lemma MakeJobWithID_shape:
  "\<exists>s' x k n. MakeJobWithID pri delay ttr b t None s = (nJ s, s') \<and> modC c (\<lambda>x. x\<lparr>InJob := Some (nJ s)\<rparr>) s' = job_made c x k n s \<and>
     RState (R x) = Invalid \<and> ID (R x) = nextJobId s \<and> Next x = Some (nJ s) \<and> Prev x = Some (nJ s) \<and> HeapIndex x = 0"
proof -
  let ?s = "snd (MakeJobWithID pri delay ttr b t None s)"
  show ?thesis
    by (rule exI [of _ ?s], rule exI [of _ "J ?s (nJ s)"], rule exI [of _ "ticks ?s"], rule exI [of _ "AllJobsUsed ?s"])
      (simp add: MakeJobWithID_def NewJob_def time_Now_def ListReset_def JobStore_def job_made_def zero_job_def zero_rec_def upd Let_def go_const)
qed

lemma ordered_job_made:
  assumes o: "ordered W a s" and i: "sinv m s" and id: "allJobs s (nextJobId s) = None" and c: "c < nC s"
    and x: "RState (R x) = Invalid" "ID (R x) = nextJobId s" "Next x = Some (nJ s)" "Prev x = Some (nJ s)" "HeapIndex x = 0"
  shows "ordered W a (job_made c x k n s)" (is "ordered W a ?s")
proof -
  have new: "spare (nJ s) s" by (rule spare_new [OF i])
  have np: "nJ s \<notin> placed a s" by (rule spare_unplaced [OF o new])
  have e: "Wal ?s = Wal s" "nT ?s = nT s" "nC ?s = nC s" "T ?s = T s" "tubes ?s = tubes s" "Connes ?s = Connes s"
    "allJobs ?s = (allJobs s)(nextJobId s \<mapsto> nJ s)" "ReservedJobs (C ?s d) = ReservedJobs (C s d)" "CState (C ?s d) = CState (C s d)" for d
    by (simp_all add: job_made_def)
  have J: "J ?s j = J s j" if "j \<noteq> nJ s" for j using that by (simp add: job_made_def)
  have r: "ran (allJobs ?s) = insert (nJ s) (ran (allJobs s))" unfolding e by (rule ran_map_upd) (rule id)
  have h: "holds a ?s"
  proof (rule holds_frame [OF ordered_D(1) [OF o]])
    show "J ?s j = J s j" if "j \<in> placed a s" for j using that np by (intro J) auto
    show "same_conn (C ?s d) (C s d)" for d by (simp add: job_made_def same_conn_def)
    have "HeapIndex (J ?s j) = HeapIndex (J s j)" for j
      using holds_D(7) [OF ordered_D(1) [OF o]] x(5) by (simp add: job_made_def sched_ok_def)
    then show "sched_ok ?s" by (intro sched_ok_cong [OF holds_D(7) [OF ordered_D(1) [OF o]]]) (simp_all add: job_made_def)
  qed (simp_all add: e)
  have "live ?s = live s"
    using new x(1) unfolding live_def r by (auto simp: job_made_def spare_def)
  then have st: "standing ?s a = mset_set (live ?s)" using ordered_D(5) [OF o] standing_cong [OF e(2,3)] by simp
  have "heads ?s = heads s" by (simp add: heads_def e)
  then have hs: "heads ?s \<inter> ran (allJobs ?s) = {}" using ordered_D(6) [OF o] new unfolding r by (auto simp: spare_def)
  have ar: "arriving ?s j \<and> (\<forall>d'<nC ?s. InJob (C ?s d') = Some j \<longrightarrow> d' = d)" if "d < nC ?s" "InJob (C ?s d) = Some j" for d j
  proof (cases "j = nJ s")
    case True
    have only: "InJob (C s d') \<noteq> Some (nJ s)" if "d' < nC s" for d'
      using arriving_unplaced(3) [OF o ordered_D(8) [OF o that]] new by (auto simp: spare_def)
    have own: "d' = c" if "d' < nC ?s" "InJob (C ?s d') = Some (nJ s)" for d'
      using only [of d'] that e(3) by (cases "d' = c") (simp_all add: job_made_def)
    have "arriving ?s (nJ s)" using x by (simp add: arriving_def job_made_def loose_links_def)
    then show ?thesis using own that True by blast
  next
    case False
    then have d: "d < nC s" "InJob (C s d) = Some j" using that e(3) by (auto simp: job_made_def split: if_splits)
    have a: "arriving s j" by (rule ordered_D(8) [OF o d])
    then have "ID (R (J s j)) \<noteq> nextJobId s" using id by (auto simp: arriving_def)
    then have "arriving ?s j" using a False by (simp add: arriving_def job_made_def loose_links_def)
    moreover have "d' = d" if "d' < nC ?s" "InJob (C ?s d') = Some j" for d'
      using ordered_D(9) [OF o d, of d'] that False e(3) by (auto simp: job_made_def split: if_splits)
    ultimately show ?thesis by blast
  qed
  have "idle a ?s" by (rule idle_cong [OF ordered_D(3) [OF o]]) (simp_all add: e)
  moreover have "finite (ran (allJobs ?s))" unfolding r using ordered_D(4) [OF o] by simp
  moreover have "\<not> WalUse (Wal ?s)" using ordered_D(2) [OF o] by (simp add: e)
  moreover have "\<forall>t<nT ?s. \<forall>d\<in>#a_waiting a t. d \<notin> W \<and> CState (C ?s d) = StateWait" using ordered_D(7) [OF o] by (simp add: e)
  ultimately show ?thesis unfolding ordered_def listed_def using h st hs ar by blast
qed

lemma busy_dispatchOpPut:
  assumes b: "busy c m s" and id: "JobFind (nextJobId s) s = None"
  shows "ens (busy c m) (dispatchOpPut c s)"
proof -
  have made: "ens (busy c m) (let (j, s) = MakeJobWithID p d t n (Use (C s c)) None s;
      s = modC c (\<lambda>x. x\<lparr>InJob := Some j\<rparr>) s in fillExtraData c s \<bind> maybeEnqueueInComingJob c)"
    if b: "busy c m s" and id: "allJobs s (nextJobId s) = None" for p d t n s
  proof -
    obtain s' x k n' where 1: "MakeJobWithID p d t n (Use (C s c)) None s = (nJ s, s')"
      "modC c (\<lambda>x. x\<lparr>InJob := Some (nJ s)\<rparr>) s' = job_made c x k n' s" and x: "RState (R x) = Invalid" "ID (R x) = nextJobId s"
      "Next x = Some (nJ s)" "Prev x = Some (nJ s)" "HeapIndex x = 0"
      using MakeJobWithID_shape by blast
    note i = busy_D(1) [OF b]
    have "sinv m s'" using MakeJobWithID_Use [OF i, of p d t n c None] by (simp add: 1(1))
    then have "sinv m (job_made c x k n' s)" unfolding 1(2) [symmetric] by (rule inv_modC) simp_all
    moreover have "ordered {c} a (job_made c x k n' s)" if "ordered {c} a s" for a
      by (rule ordered_job_made [OF that i id busy_D(3) [OF b] x])
    ultimately have "busy c m (job_made c x k n' s)" by (intro busy_I [OF b]) blast+
    then show ?thesis by (simp add: 1) (intro ord)
  qed
  define s1 where "s1 = count_op OpPut s"
  have s1: "busy c m s1" "allJobs s1 (nextJobId s1) = None"
    using busy_other(2) [OF b] id by (simp_all add: s1_def count_op_def JobFind_def)
  have "busy c m (connSetProducer c s1)" "allJobs (connSetProducer c s1) (nextJobId (connSetProducer c s1)) = None"
    using s1 by (simp_all add: busy_worker(2)) (simp add: connSetProducer_def upd)
  note put = made [OF this]
  show ?thesis
    unfolding dispatchOpPut_def s1_def [symmetric] Let_def [of s1] Let_def [of "connSetProducer c s1"]
      Let_def [of "if _ then _ else (_ :: int)"]
    by (intro busy_on_ok [OF b] ens_if busy_skip [OF s1(1)] ens_bind_eq busy_replyMsg [OF s1(1)] put)
qed

end
