(* ===== verification/Sessions.thy ===== *)
theory Sessions
  imports JobHandlers
begin

text \<open>
  The books of theory Ledger over whole runs of the server: reading and writing on the sockets, the commands, closing and
  accepting connections, the periodic work and the queue of changed sockets keep them in order. \<open>session\<close> is the relation
  of the states that these steps reach from the start; what the books say holds in all of them.
\<close>

section \<open>The number of connections\<close>

text \<open>Only accepting makes connections. So what has no number yet has no tube to leave, either.\<close>

named_theorems crew "what makes no connection"

definition manned :: "nat \<Rightarrow> world \<Rightarrow> bool" where
  "manned n s \<longleftrightarrow> nC s = n \<and> \<not> WalUse (Wal s)"

interpretation mn: steady "manned n" for n .

lemmas [crew] = mn.sequence mn.cases mn.let_state mn.let_pair mn.let_triple mn.triple mn.results mn.branch mn.branch_option
  ens_if ens_option ens_sum

lemmas manned_let_values [crew] =
  mn.let_value [where 'v = int] mn.let_value [where 'v = nat] mn.let_value [where 'v = bool]
  mn.let_value [where 'v = string] mn.let_value [where 'v = job_rec] mn.let_value [where 'v = coon]
  mn.let_value [where 'v = tube] mn.let_value [where 'v = "nat option"]

lemma manned_assign [crew]:
  assumes "manned n s"
  shows "manned n (modJ j fj s)" "manned n (modR j fr s)" "manned n (modT t ft s)" "manned n (modC c fc s)"
    "manned n (modG g s)" "manned n (modStat t g s)" "manned n (snd (time_Now s))" "manned n (snd (syscall_ok s))"
    "manned n (s\<lparr>ReadyCt := i\<rparr>)" "manned n (s\<lparr>epollQ := q\<rparr>)" "manned n (s\<lparr>Connes := h\<rparr>)" "manned n (s\<lparr>CurConnCt := k1\<rparr>)"
    "manned n (s\<lparr>CurProducerCt := k2\<rparr>)" "manned n (s\<lparr>CurWorkerCt := k3\<rparr>)"
  using assms by (simp_all add: manned_def upd time_Now_def syscall_ok_def)

lemma manned_each [crew]: "manned n s \<Longrightarrow> (\<And>x s. manned n s \<Longrightarrow> manned n (f x s)) \<Longrightarrow> manned n (ms_each f m s)"
  unfolding ms_each_def by (rule fold_inv) auto

lemma quiet_lists [simp]:
  "snd (snd (ms_Append None xs m s)) = s" "snd (snd (ms_Remove None x m s)) = s" "snd (snd (ms_Take None m s)) = s"
proof -
  have "fold (\<lambda>it s. s) xs s = s" for xs :: "'b list" and s :: "'c" by (induction xs) auto
  then show "snd (snd (ms_Append None xs m s)) = s" "snd (snd (ms_Remove None x m s)) = s" "snd (snd (ms_Take None m s)) = s"
    by (auto simp: ms_Append_def ms_Remove_def ms_Delete_def ms_Take_def ms_fire_def Let_def split: option.splits)
qed

lemma manned_lists [crew]:
  "manned n s \<Longrightarrow> manned n (snd (snd (ms_Append None xs m s)))" "manned n s \<Longrightarrow> manned n (snd (snd (ms_Remove None x m s)))"
  by simp_all

lemma manned_JobList [crew]:
  "manned n s \<Longrightarrow> ens (\<lambda>p. manned n (snd p)) (JobListRemove jp s)" "manned n s \<Longrightarrow> ens (manned n) (JobListInsert h j s)"
  unfolding JobListRemove_def JobListInsert_def JobListRest_def by (intro crew; simp)+

lemma manned_log [crew]:
  assumes "manned n s"
  shows "ens (\<lambda>p. manned n (snd p)) (WalWrite j s)" "ens (manned n) (WalMain s)" "ens (\<lambda>p. manned n (snd p)) (WalResvUpdate s)"
  using assms by (auto simp: manned_def WalWrite_def WalMain_def WalResvUpdate_def reserve_def ens_def)

lemma manned_heaps [crew]:
  assumes "manned n s"
  shows "manned n (snd (Ready_Push t j s))" "ens (\<lambda>p. manned n (snd p)) (Ready_Remove t i s)"
    "manned n (snd (Delay_Push t j s))" "ens (\<lambda>p. manned n (snd p)) (Delay_Remove t i s)" "manned n (ready_left j t s)" "manned n (snd (Waiting_Take t s))"
    "ens (manned n) (Connes_Remove i s)" "manned n (Connes_Push c s)"
proof -
  note m = manned_assign [OF assms]
  show "manned n (snd (Ready_Push t j s))" "ens (\<lambda>p. manned n (snd p)) (Ready_Remove t i s)" "manned n (snd (Delay_Push t j s))"
    "ens (\<lambda>p. manned n (snd p)) (Delay_Remove t i s)" "ens (manned n) (Connes_Remove i s)" "manned n (Connes_Push c s)"
    using m by (auto simp: Ready_Push_def Ready_Remove_def Delay_Push_def Delay_Remove_def Connes_Remove_def Connes_Push_def
        ens_def bind_eq_Some_conv split: prod.splits)
  show "manned n (ready_left j t s)"
    unfolding ready_left_def Let_def by (intro crew assms)
  show "manned n (snd (Waiting_Take t s))"
    using assms quiet_lists(3) [of "WaitingConns (T s t)" s] by (cases "ms_Take None (WaitingConns (T s t)) s") (simp add: Waiting_Take_def manned_assign)
qed

text \<open>The functions of \<open>net/conn.go\<close> and \<open>net/prot.go\<close> that closing a connection runs.\<close>

lemma manned_soonest [crew]:
  assumes "manned n s"
  shows "ens (manned n) (soonest_loop c jp s)"
proof (rule ens_I)
  fix y assume "soonest_loop c jp s = Some y"
  then show "manned n y" using assms
  proof (induction rule: soonest_loop.raw_induct [rotated, consumes 1])
    case (1 f c jp s y)
    have [crew]: "manned n s \<Longrightarrow> ens (manned n) (f c jp s)" for c jp s using 1(1) by (auto simp: ens_def)
    show ?case by (rule ens_D [OF _ 1(2)]) (use 1(3) in \<open>unfold setSoonestJob_def, intro crew; simp\<close>)
  qed
qed

lemma manned_connSched [crew]: "manned n s \<Longrightarrow> ens (manned n) (connSched c s)"
  unfolding connSched_def coonTickAt_def connSoonestJob_def by (intro crew) simp_all

lemma manned_replyJob [crew]: "manned n s \<Longrightarrow> ens (manned n) (replyJob c j msg s)"
  unfolding replyJob_def replyLine_def replyErr_def replyMsg_def reply_def EpollQAdd_def by (intro crew) simp_all

lemma manned_waiting [crew]: "manned n s \<Longrightarrow> manned n (removeWaitingCoon c s)"
  unfolding removeWaitingCoon_def by (intro crew) simp_all

lemma manned_reserveJob [crew]: "manned n s \<Longrightarrow> ens (manned n) (reserveJob c j s)"
  unfolding reserveJob_def setSoonestJob_def by (intro crew) simp_all

lemma manned_NextAwaitedJob [crew]: "manned n s \<Longrightarrow> manned n (snd (NextAwaitedJob now s))"
proof -
  have fold: "manned n (snd (fold f xs p))" if "manned n (snd p)" "\<And>t p. manned n (snd p) \<Longrightarrow> manned n (snd (f t p))"
    for f :: "tref \<Rightarrow> jref option \<times> world \<Rightarrow> jref option \<times> world" and xs p
    using that by (induction xs arbitrary: p) auto
  assume "manned n s"
  then show ?thesis
    unfolding NextAwaitedJob_def ms_each_def
    by (intro fold) (auto split: option.splits prod.splits simp: Let_def intro!: crew)
qed

lemma manned_processQueue [crew]:
  assumes "manned n s"
  shows "ens (manned n) (processQueue s)"
proof -
  have "ens (manned n) (processQueue_loop now s)" if "manned n s" for now s
  proof (rule ens_I)
    fix y assume "processQueue_loop now s = Some y"
    then show "manned n y" using that
    proof (induction rule: processQueue_loop.raw_induct [rotated, consumes 1])
      case (1 f now s y)
      have [crew]: "manned n s \<Longrightarrow> ens (manned n) (f now s)" for now s using 1(1) by (auto simp: ens_def)
      show ?case by (rule ens_D [OF _ 1(2)]) (use 1(3) in \<open>intro crew; simp\<close>)
    qed
  qed
  note [crew] = this
  show ?thesis unfolding processQueue_def using assms by (intro crew) simp_all
qed

lemma manned_enqueueJob [crew]: "manned n s \<Longrightarrow> ens (\<lambda>p. manned n (snd p)) (enqueueJob j delay u s)"
  unfolding enqueueJob_def by (intro crew) simp_all

lemma manned_BuryJob [crew]: "manned n s \<Longrightarrow> ens (\<lambda>p. manned n (snd p)) (BuryJob j u s)"
  unfolding BuryJob_def by (intro crew) simp_all

lemma manned_enqueueReservedJobs [crew]:
  assumes "manned n s"
  shows "ens (manned n) (enqueueReservedJobs c s)"
proof (rule ens_I)
  fix y assume "enqueueReservedJobs c s = Some y"
  then show "manned n y" using assms
  proof (induction rule: enqueueReservedJobs.raw_induct [rotated, consumes 1])
    case (1 f c s y)
    have [crew]: "manned n s \<Longrightarrow> ens (manned n) (f c s)" for c s using 1(1) by (auto simp: ens_def)
    show ?case by (rule ens_D [OF _ 1(2)]) (use 1(3) in \<open>intro crew; simp\<close>)
  qed
qed

lemma manned_Watch_Clear [crew]:
  assumes "manned n s"
  shows "manned n (Watch_Clear c s)"
proof -
  obtain m s1 where e: "ms_Clear (Some onIgnore) (Watch (C s c)) s = (m, s1)"
    by (cases "ms_Clear (Some onIgnore) (Watch (C s c)) s") auto
  then have "only_watching s s1" using only_watching_ms(3) [of s "Watch (C s c)"] by simp
  then have "manned n s1" using assms by (auto simp: only_watching_def manned_def)
  then show ?thesis using e by (simp add: Watch_Clear_def manned_assign)
qed

text \<open>What was never accepted is not closed, either: the socket resists, or \<open>connClose\<close> panics.\<close>

lemma connClose_unaccepted:
  assumes i: "sinv 0 s" and w: "\<not> WalUse (Wal s)" and c: "nC s \<le> c" and ok: "fst (sockWant c (CHR 0x00) s)"
  shows "connClose c s = None"
proof -
  define s0 where "s0 = snd (sockWant c (CHR 0x00) s)"
  define s1 where "s1 = modC c (\<lambda>x. x\<lparr>InJob := None, OutJob := None, InJobRead := 0\<rparr>) s0"
  define s2 where "s2 = (if CType (C s1 c) AND ConnTypeProducer > 0 then s1\<lparr>CurProducerCt := CurProducerCt s1 - 1\<rparr> else s1)"
  define s3 where "s3 = (if CType (C s2 c) AND ConnTypeWorker > 0 then s2\<lparr>CurWorkerCt := CurWorkerCt s2 - 1\<rparr> else s2)"
  define s4 where "s4 = removeWaitingCoon c (s3\<lparr>CurConnCt := CurConnCt s3 - 1\<rparr>)"
  have "manned (nC s) s" using w by (simp add: manned_def)
  then have "manned (nC s) s0" unfolding s0_def sockWant_def by (intro crew) simp_all
  then have m: "manned (nC s) s4" unfolding s4_def s3_def s2_def s1_def by (intro crew) simp_all
  have "sinv 0 s4" unfolding s4_def s3_def s2_def s1_def s0_def by (intro pres) (simp_all add: i)
  note i4 = this
  let ?r = "if hasReservedJob c s4 then enqueueReservedJobs c s4 else Some s4"
  have "Use (C (Watch_Clear c s5) c) = None" if "?r = Some s5" for s5
  proof -
    have "ens (sinv 0) ?r" "ens (manned (nC s)) ?r" using i4 m by (auto intro: pres crew)
    then have "sinv 0 s5" "manned (nC s) s5" using that by (auto dest: ens_D)
    then have "sinv 0 (Watch_Clear c s5)" "manned (nC s) (Watch_Clear c s5)" by (auto intro: pres crew)
    then show ?thesis using c by (simp add: manned_def invk_def conns_ok_def)
  qed
  note unused = this
  have sock: "sockWant c (CHR 0x00) s = (True, s0)" using ok by (simp add: s0_def prod_eq_iff)
  show ?thesis
  proof (cases ?r)
    case None
    then show ?thesis using sock by (simp add: connClose_def Let_def s4_def s3_def s2_def s1_def cong: if_cong)
  next
    case (Some s5)
    then show ?thesis using sock unused [OF Some] by (simp add: connClose_def Let_def s4_def s3_def s2_def s1_def cong: if_cong)
  qed
qed

section \<open>Between the commands\<close>

lemma orderly_D: "orderly m s \<Longrightarrow> sinv m s" "orderly m s \<Longrightarrow> sinv 0 s"
  by (auto simp: orderly_def invk_def)

lemma orderly_I:
  assumes "orderly m s" "sinv m s'" "\<And>a. ordered {} a s \<Longrightarrow> \<exists>a'. ordered {} a' s'"
  shows "orderly m s'"
  using assms by (auto simp: orderly_def)

lemma orderly_ens:
  assumes "orderly m s" "ens (sinv m) r" "\<And>a. ordered {} a s \<Longrightarrow> ens (\<lambda>s'. \<exists>a'. ordered {} a' s') r"
  shows "ens (orderly m) r"
  using assms by (auto simp: orderly_def ens_def)

lemma orderly_modC:
  assumes "orderly m s" "\<And>x. same_conn (f x) x \<and> InCoons (f x) = InCoons x \<and> CState (f x) = CState x \<and>
      Use (f x) = Use x \<and> (InJob (f x) = None \<or> InJob (f x) = InJob x)"
  shows "orderly m (modC c f s)"
proof (rule orderly_I [OF assms(1)])
  show "sinv m (modC c f s)"
    using assms(2) by (intro inv_modC [OF orderly_D(1) [OF assms(1)]]) (simp_all add: same_conn_def)
  show "\<exists>a'. ordered {} a' (modC c f s)" if "ordered {} a s" for a
    using ordered_modC_any [OF that, of f c] assms(2) by blast
qed

lemma orderly_other:
  assumes "orderly m s"
  shows "orderly m (s\<lparr>epollQ := q\<rparr>)" "orderly m (snd (time_Now s))" "orderly m (snd (syscall_ok s))"
proof -
  obtain a where i: "sinv m s" and o: "ordered {} a s" using assms by (auto simp: orderly_def)
  show "orderly m (s\<lparr>epollQ := q\<rparr>)" "orderly m (snd (time_Now s))" "orderly m (snd (syscall_ok s))"
    using i inv_other unfolding orderly_def
    by (auto intro!: exI [of _ a] ordered_other [OF o] simp: time_Now_def syscall_ok_def)
qed

lemma orderly_sockWant: "orderly m s \<Longrightarrow> orderly m (snd (sockWant c rw s))"
  by (simp add: sockWant_def Let_def orderly_other orderly_modC same_conn_def)

lemma orderly_contents:
  assumes "orderly m s" "\<And>x. R (f x) = R x \<and> JTube (f x) = JTube x \<and> Next (f x) = Next x \<and> Prev (f x) = Prev x \<and>
      Reservoir (f x) = Reservoir x \<and> HeapIndex (f x) = HeapIndex x"
  shows "orderly m (modJ j f s)"
proof (rule orderly_I [OF assms(1)])
  show "sinv m (modJ j f s)" by (rule inv_modJ [OF orderly_D(1) [OF assms(1)]]) (simp_all add: assms(2))
  show "\<exists>a'. ordered {} a' (modJ j f s)" if "ordered {} a s" for a
    using ordered_contents [OF that, of f j] assms(2) by blast
qed

lemma ordered_more:
  assumes "ordered W a s" "\<And>t. t < nT s \<Longrightarrow> c \<notin># a_waiting a t"
  shows "ordered (insert c W) a s"
proof -
  have "\<forall>t<nT s. \<forall>d\<in>#a_waiting a t. d \<notin> insert c W \<and> CState (C s d) = StateWait"
    using ordered_D(7) [OF assms(1)] assms(2) by blast
  then show ?thesis using assms(1) unfolding ordered_def listed_def by blast
qed

text \<open>A connection that is not in the state of waiting does not wait.\<close>

lemma orderly_busy:
  assumes "orderly m s" "c < nC s" "CState (C s c) \<noteq> StateWait"
  shows "busy c (nC s) s"
proof -
  obtain a where i: "sinv m s" and o: "ordered {} a s" using assms(1) by (auto simp: orderly_def)
  have "ordered {c} a s" using ordered_more [OF o] ordered_D(7) [OF o] assms(3) by blast
  moreover have "sinv (nC s) s" using i by (simp add: invk_def)
  ultimately show ?thesis using assms(2) by (auto simp: busy_def)
qed

lemma orderly_weaken: "orderly m s \<Longrightarrow> m' \<le> m \<Longrightarrow> orderly m' s"
  unfolding orderly_def using inv_weaken by blast

lemma busy_enough: "ens (busy c n) r \<Longrightarrow> m \<le> n \<Longrightarrow> ens (orderly m) r"
  using busy_orderly orderly_weaken by (blast intro: ens_mono)

lemma orderly_nC: "orderly m s \<Longrightarrow> m \<le> nC s"
  by (simp add: orderly_def invk_def)

section \<open>Closing connections\<close>

lemma orderly_connClose:
  assumes "orderly m s"
  shows "ens (orderly m) (connClose c s)"
proof (cases "fst (sockWant c (CHR 0x00) s)")
  case False
  then have "connClose c s = Some (snd (sockWant c (CHR 0x00) s))" by (simp add: connClose_def split_beta)
  then show ?thesis using orderly_sockWant [OF assms] by simp
next
  case ok: True
  show ?thesis
  proof (rule orderly_ens [OF assms connClose_inv [OF orderly_D(1) [OF assms]]])
    fix a assume o: "ordered {} a s"
    note h = ordered_D(1) [OF o] and w = ordered_D(2) [OF o]
    show "ens (\<lambda>s'. \<exists>a'. ordered {} a' s') (connClose c s)"
    proof (cases "c < nC s \<and> connClose c s \<noteq> None")
      case False
      then have "connClose c s = None" using connClose_unaccepted [OF orderly_D(2) [OF assms] w _ ok] by (meson leI)
      then show ?thesis by simp
    next
      case True
      let ?s = "modC c (\<lambda>x. x\<lparr>InJob := None\<rparr>) s"
      obtain s' a' where 1: "connClose c s = Some s'" "holds a' s'" "active_jobs s a' = active_jobs s a"
        "a_delayed a' = a_delayed a" "a_buried a' = a_buried a" "\<forall>t. c \<notin># a_waiting a' t"
        "allJobs s' = allJobs s" "kept {c} {} a ?s a' s'"
        using connClose_moves [OF h _ w ok] True by blast
      have k: "kept {} {} a ?s a' s'" using kept_gone [OF 1(8)] 1(6) by blast
      have o': "ordered {} a ?s" by (rule ordered_modC_any [OF o]) (simp add: same_conn_def)
      have n: "nT s' = nT s" "nC s' = nC s" using k by (simp_all add: kept_def spared_def kept_books_def upd)
      have "standing s' a' = standing s a'" by (rule standing_cong [OF n])
      also have "\<dots> = standing s a" by (simp add: standing_def 1(3-5))
      also have "\<dots> = standing ?s a" by (rule standing_cong [symmetric]) (simp_all add: upd)
      finally have "ordered {} a' s'" using 1(2,7) by (intro ordered_kept [OF o' k]) (simp_all add: upd)
      then show ?thesis using 1(1) by auto
    qed
  qed
qed

lemma orderly_EpollQApply:
  assumes "orderly m s"
  shows "ens (orderly m) (EpollQApply s)"
proof (rule ens_I)
  fix y assume "EpollQApply s = Some y"
  then show "orderly m y" using assms
  proof (induction rule: EpollQApply.raw_induct [rotated, consumes 1])
    case (1 f s y)
    show ?case
    proof (cases "epollQ s")
      case (Some c)
      define s1 where "s1 = modC c (\<lambda>x. x\<lparr>CNext := None\<rparr>) (s\<lparr>epollQ := CNext (C s c)\<rparr>)"
      have s1: "orderly m s1" unfolding s1_def by (intro orderly_modC orderly_other 1(3)) (simp add: same_conn_def)
      obtain ok s2 where 2: "sockWant c (Rw (C s1 c)) s1 = (ok, s2)" by force
      have s2: "orderly m s2" using orderly_sockWant [OF s1, of c "Rw (C s1 c)"] 2 by simp
      have "(if ok then f s2 else connClose c s2 \<bind> f) = Some y" using 1(2) Some 2 by (simp add: s1_def Let_def)
      then show ?thesis
        using 1(1) s2 orderly_connClose [OF s2, of c] by (auto split: if_splits simp: bind_eq_Some_conv ens_def)
    qed (use 1 in simp)
  qed
qed

lemma orderly_EpollQRmConn:
  assumes "orderly m s"
  shows "ens (orderly m) (EpollQRmConn c s)"
proof -
  have "ens (orderly m) (EpollQRm_loop c nh s)" if "orderly m s" for nh s
  proof (rule ens_I)
    fix y assume "EpollQRm_loop c nh s = Some y"
    then show "orderly m y" using that
    proof (induction rule: EpollQRm_loop.raw_induct [rotated, consumes 1])
      case (1 f c nh s y)
      show ?case
      proof (cases "epollQ s")
        case (Some x)
        define s1 where "s1 = modC x (\<lambda>y. y\<lparr>CNext := None\<rparr>) (s\<lparr>epollQ := CNext (C s x)\<rparr>)"
        have s1: "orderly m s1" unfolding s1_def by (intro orderly_modC orderly_other 1(3)) (simp add: same_conn_def)
        then have "orderly m (modC x (\<lambda>y. y\<lparr>CNext := nh\<rparr>) s1)" by (intro orderly_modC) (simp_all add: same_conn_def)
        moreover have "(if x \<noteq> c then f c (Some x) (modC x (\<lambda>y. y\<lparr>CNext := nh\<rparr>) s1) else f c nh s1) = Some y"
          using 1(2) Some by (cases "x = c") (simp_all add: s1_def Let_def)
        ultimately show ?thesis using 1(1) s1 by (auto split: if_splits)
      qed (use 1 orderly_other in auto)
    qed
  qed
  then show ?thesis using assms by (simp add: EpollQRmConn_def)
qed

section \<open>Reading and writing\<close>

lemma busy_socket [ord]:
  fixes m :: "rd_res option"
  shows
  "(r = RdErr \<Longrightarrow> ens Q a) \<Longrightarrow> (r = RdEof \<Longrightarrow> ens Q b) \<Longrightarrow> (\<And>d. r = RdOk d \<Longrightarrow> ens Q (f d)) \<Longrightarrow>
   ens Q (case r of RdErr \<Rightarrow> a | RdEof \<Rightarrow> b | RdOk d \<Rightarrow> f d)"
  "(w = WrErr \<Longrightarrow> ens Q a) \<Longrightarrow> (\<And>n. w = WrOk n \<Longrightarrow> ens Q (g n)) \<Longrightarrow>
   ens Q (case w of WrErr \<Rightarrow> a | WrOk n \<Rightarrow> g n)"
  "(\<And>x. m = Some x \<Longrightarrow> ens Q (h x)) \<Longrightarrow> ens Q (m \<bind> h)"
  by (fact ens_socket)+

lemma busy_connWantCommand [ord]: "busy c m s \<Longrightarrow> ens (busy c m) (connWantCommand c s)"
  unfolding connWantCommand_def by (intro ord) simp_all

lemma busy_conn_close_state [ord]: "busy c m s \<Longrightarrow> busy c m (conn_close_state c s)"
  unfolding conn_close_state_def by (intro ord) simp_all

lemma busy_reading:
  assumes "busy c m s"
  shows "ens (busy c m) (io_want_command k c s)" "ens (busy c m) (io_want_end_line k c s)" "ens (busy c m) (io_bitbucket k c s)"
    "ens (busy c m) (io_want_data k c s)" "ens (busy c m) (io_send_word k c s)" "ens (busy c m) (io_send_job k c s)"
  using assms unfolding io_want_command_def io_want_end_line_def io_bitbucket_def io_want_data_def io_send_word_def io_send_job_def
  by (intro ord; simp)+

text \<open>A client that waits and has closed its side stops waiting.\<close>

lemma orderly_io_wait:
  assumes "orderly m s" "c < nC s"
  shows "ens (orderly m) (io_wait c s)"
proof (cases "HalfClosed (C s c)")
  case True
  let ?s1 = "modC c (\<lambda>x. x\<lparr>PendingTimeout := -1\<rparr>) s"
  let ?s2 = "removeWaitingCoon c ?s1"
  have "orderly m ?s1" by (intro orderly_modC assms) (simp add: same_conn_def)
  then obtain a where i: "sinv m ?s1" and o: "ordered {} a ?s1" by (auto simp: orderly_def)
  have c: "c < nC ?s1" using assms(2) by (simp add: upd)
  note w = removeWaitingCoon_moves [OF ordered_D(1) [OF o] c]
  have e: "allJobs ?s2 = allJobs ?s1" "nT ?s2 = nT ?s1" "nC ?s2 = nC ?s1" using same_jobs_unwaited [OF w(2)] by (simp_all add: same_jobs_def)
  have o2: "ordered {} (wait_out c a) ?s2"
    by (rule ordered_kept [OF o kept_unwaited [OF w(2)] _ w(1)]) (simp_all add: e standing_cong [OF e(2,3)])
  have "ordered {c} (wait_out c a) ?s2" by (rule ordered_more [OF o2]) (simp add: wait_out_def)
  moreover have "sinv (nC s) ?s2" using removeWaitingCoon_inv [OF i, of c] e(3) by (simp add: invk_def upd)
  ultimately have "busy c (nC s) ?s2" using assms(2) by (auto simp: busy_def)
  then have "ens (orderly m) (replyMsg c MsgTimedOut ?s2)" by (rule busy_enough [OF busy_replyMsg orderly_nC [OF assms(1)]])
  then show ?thesis using True by (simp add: io_wait_def)
qed (use assms in \<open>simp add: io_wait_def\<close>)

lemma orderly_connProcessIO:
  assumes "orderly m s" "c < nC s"
  shows "ens (orderly m) (connProcessIO k c s)"
proof (cases "CState (C s c) = StateWait")
  case True
  then show ?thesis using orderly_io_wait [OF assms] by (simp add: connProcessIO_def)
next
  case False
  note b = orderly_busy [OF assms False]
  have "ens (busy c (nC s)) (connProcessIO k c s)"
    using busy_reading [OF b, of k] b False unfolding connProcessIO_def by (cases "CState (C s c)") simp_all
  then show ?thesis by (rule busy_enough) (rule orderly_nC [OF assms(1)])
qed

section \<open>Commands\<close>

interpretation od: steady "orderly m" for m .

lemmas orderly_block = od.sequence od.cases od.let_state od.let_pair od.results od.branch_option ens_if ens_option
  od.let_value [where 'v = int] od.let_value [where 'v = coon]

lemma orderly_fillExtraData:
  assumes "orderly m s"
  shows "ens (orderly m) (fillExtraData c s)"
  unfolding fillExtraData_def
  by (intro orderly_block orderly_modC orderly_contents) (simp_all add: assms same_conn_def)

text \<open>What a command is aimed at, where the code does not check: the id of a new job is free, and a job that
  \<open>delete\<close>, \<open>reserve-job\<close> or \<open>kick-job\<close> removes from a queue is the root of it (see \<open>HeapIndex\<close>, which always is 0).\<close>

definition names_root :: "int \<Rightarrow> cref \<Rightarrow> world \<Rightarrow> bool" where
  "names_root l c s \<longleftrightarrow> (case read_int c l s of
     Some (Inr (jid, idx)) \<Rightarrow> (case JobFind (word_of_int jid) s of None \<Rightarrow> True | Some j \<Rightarrow> at_root j s)
   | _ \<Rightarrow> True)"

definition aimed :: "cref \<Rightarrow> world \<Rightarrow> bool" where
  "aimed c s \<longleftrightarrow> (case whichCmd (Cmd (C s c)) of
     OpPut \<Rightarrow> JobFind (nextJobId s) s = None
   | OpDelete \<Rightarrow> names_root (len CmdDelete) c s
   | OpReserveJob \<Rightarrow> names_root (len CmdReserveJob) c s
   | OpKickJob \<Rightarrow> names_root (len CmdRelease) c s
   | _ \<Rightarrow> True)"

lemma names_root_D: "names_root l c s \<Longrightarrow> read_int c l s = Some (Inr (jid, idx)) \<Longrightarrow> JobFind (word_of_int jid) s = Some j \<Longrightarrow> at_root j s"
  by (simp add: names_root_def)

lemma orderly_reserve_timeout:
  assumes "busy c m s"
  shows "ens (orderly m) (dispatchOpReserveTimeout c s \<bind> (\<lambda>(timeout, s). dispatchOpReserve c OpReserveTimeout timeout s))"
proof -
  have "ens (\<lambda>p. busy c m (snd p)) (dispatchOpReserveTimeout c s)"
    unfolding dispatchOpReserveTimeout_def by (intro ord) (simp_all add: assms)
  then show ?thesis by (rule ens_bind) (auto intro: orderly_dispatchOpReserve)
qed

lemma orderly_dispatchCmd:
  assumes b: "busy c m s" and a: "aimed c s"
  shows "ens (orderly m) (dispatchCmd c s)"
proof -
  have calm: "ens (orderly m) r" if "ens (busy c m) r" for r
    by (rule ens_mono [OF that busy_orderly])
  show ?thesis
  proof (cases "StrLen (Cmd (C s c)) \<noteq> CmdLen (C s c) - 2")
    case True
    then show ?thesis using calm [OF busy_replyMsg [OF b]] by (simp add: dispatchCmd_def)
  next
    case len: False
    show ?thesis
    proof (cases "whichCmd (Cmd (C s c))")
      case OpPut
      then show ?thesis using len a calm [OF busy_dispatchOpPut [OF b]] by (simp add: dispatchCmd_def aimed_def)
    next
      case OpDelete
      then show ?thesis using len a calm [OF busy_dispatchOpDelete [OF b]] names_root_D by (simp add: dispatchCmd_def aimed_def)
    next
      case OpReserveJob
      then show ?thesis using len a calm [OF busy_dispatchOpReserveJob [OF b]] names_root_D by (simp add: dispatchCmd_def aimed_def)
    next
      case OpKickJob
      then show ?thesis using len a calm [OF busy_dispatchOpKickJob [OF b]] names_root_D by (simp add: dispatchCmd_def aimed_def)
    next
      case OpReserve
      then show ?thesis using len orderly_dispatchOpReserve [OF b] by (simp add: dispatchCmd_def)
    next
      case OpReserveTimeout
      then show ?thesis using len orderly_reserve_timeout [OF b] by (simp add: dispatchCmd_def)
    qed (simp_all add: dispatchCmd_def len, (rule calm, intro ord, rule b)+)
  qed
qed

section \<open>The periodic work\<close>

lemma SoonestDelayedJob_root:
  assumes "SoonestDelayedJob s = Some j"
  shows "\<exists>t\<in>set (ms_items (tubes s)). root_of (DelayQ (T s t)) = Some j"
proof -
  have "weak_less (\<lambda>a b. DeadlineAt (R (J s a)) < DeadlineAt (R (J s b)))" by unfold_locales auto
  from keep_best_fold [OF this, where pick = "\<lambda>t. root_of (DelayQ (T s t))" and xs = "ms_items (tubes s)" and b = None]
  show ?thesis using assms by (auto simp: SoonestDelayedJob_best)
qed

lemma orderly_tick_delayed:
  assumes "orderly m s"
  shows "ens (\<lambda>p. orderly m (snd p)) (tick_delayed now period s)"
proof (rule ens_I)
  fix y assume "tick_delayed now period s = Some y"
  then show "orderly m (snd y)" using assms
  proof (induction rule: tick_delayed.raw_induct [rotated, consumes 1])
    case (1 f now period s y)
    show ?case
    proof (cases "SoonestDelayedJob s")
      case None
      then show ?thesis using 1(2,3) by auto
    next
      case (Some j)
      show ?thesis
      proof (cases "i64 (DeadlineAt (R (J s j)) - now) > 0")
        case True
        then show ?thesis using 1(2,3) Some by (auto simp: Let_def)
      next
        case False
        obtain a where i: "sinv m s" and o: "ordered {} a s" using 1(3) by (auto simp: orderly_def)
        note h = ordered_D(1) [OF o]
        obtain t where t: "t < nT s" "root_of (DelayQ (T s t)) = Some j"
          using SoonestDelayedJob_root [OF Some] holds_D(6) [OF h] by (auto simp: waits_ok_def)
        have "j \<in># a_delayed a t" using root_of_mem [OF t(2)] holds_D(2) [OF h t(1)] by (simp add: queued_def)
        then have jt: "JTube (J s j) = Some t" using where_delayed [OF h t(1)] by simp
        obtain q where q: "Delay_Remove t (HeapIndex (J s j)) s = Some (j, modT t (\<lambda>x. x\<lparr>DelayQ := q\<rparr>) s)"
          "taken {} j (delay_out t j a) (modT t (\<lambda>x. x\<lparr>DelayQ := q\<rparr>) s)"
          using take_delayed_root [OF o i t] by blast
        have "sinv m (modT t (\<lambda>x. x\<lparr>DelayQ := q\<rparr>) s)" using ens_D [OF Delay_ops_inv(2) [OF i] q(1)] by simp
        then have k: "carrying {} j m (modT t (\<lambda>x. x\<lparr>DelayQ := q\<rparr>) s)" using q(2) by (auto simp: carrying_def)
        have "(enqueueJob j 0 False (modT t (\<lambda>x. x\<lparr>DelayQ := q\<rparr>) s)) \<bind> (\<lambda>(_, s). f now period s) = Some y"
          using 1(2) Some False q(1) jt by (simp add: Let_def)
        then obtain r s' where 2: "enqueueJob j 0 False (modT t (\<lambda>x. x\<lparr>DelayQ := q\<rparr>) s) = Some (r, s')" "f now period s' = Some y"
          by (auto simp: bind_eq_Some_conv)
        then have "orderly m s'" using ens_D [OF put_enqueue [OF k] 2(1)] by (simp add: orderly_booked)
        then show ?thesis using 1(1) 2(2) by blast
      qed
    qed
  qed
qed

text \<open>A pause that ends may leave a tube with ready jobs and waiting connections; \<open>processQueue\<close> matches them.\<close>

lemma orderly_match:
  assumes i: "sinv m s" and o: "listed {} a s"
  shows "ens (orderly m) (processQueue s)"
proof -
  obtain s' a' where 1: "processQueue s = Some s'" "matched (clock s (ticks s)) a a' s s'"
    using processQueue_matches [OF listed_D(1) [OF o]] by blast
  have m: "spared {} {} a s a' s'" "holds a' s'" "allJobs s' = allJobs s"
    using 1(2) by (simp_all add: matched_def settled_def)
  have "standing s' a' = standing s a" by (rule standing_matched [OF 1(2) listed_D(1) [OF o]]) simp
  then have "listed {} a' s'" by (intro listed_spared [OF o m(1) _ m(2,3)]) simp_all
  then have "ordered {} a' s'" using matched_kept(2) [OF 1(2)] by (simp add: ordered_def)
  moreover have "sinv m s'" by (rule ens_D [OF processQueue_inv [OF i] 1(1)])
  ultimately show ?thesis using 1(1) by (auto simp: orderly_def)
qed

lemma listed_modT:
  assumes "listed W a s" "\<And>x. same_tube (f x) x"
  shows "listed W a (modT t f s)"
proof (rule listed_same [OF assms(1)])
  show "holds a (modT t f s)" using assms by (intro holds_modT listed_D(1)) simp_all
qed (use assms(2) in \<open>simp_all add: upd same_tube_def\<close>)

lemma orderly_tick_tubes:
  assumes "orderly m s"
  shows "ens (\<lambda>p. orderly m (snd p)) (tick_tubes now period s)"
proof -
  have "ens (orderly m) (processQueue (modT t (\<lambda>x. x\<lparr>Pause := 0\<rparr>) s))" if start: "orderly m s" for t s
  proof -
    obtain a where i: "sinv m s" and o: "ordered {} a s" using start by (auto simp: orderly_def)
    have "sinv m (modT t (\<lambda>x. x\<lparr>Pause := 0\<rparr>) s)" by (rule inv_modT [OF i]) simp_all
    moreover have "listed {} a (modT t (\<lambda>x. x\<lparr>Pause := 0\<rparr>) s)"
      using o by (intro listed_modT) (simp_all add: ordered_def same_tube_def)
    ultimately show ?thesis by (rule orderly_match)
  qed
  note resumed = this
  have "ens (\<lambda>p. orderly m (snd p)) (processQueue (modT t (\<lambda>x. x\<lparr>Pause := 0\<rparr>) s) \<bind> (\<lambda>s. Some (period, s)))"
    if "orderly m s" for t s and period :: int by (rule ens_bind [OF resumed [OF that]]) simp
  then show ?thesis
    unfolding tick_tubes_def ms_eachM_def
    by (intro ens_foldM) (auto simp: Let_def assms split: prod.splits)
qed

lemma orderly_protTick:
  assumes "orderly m s"
  shows "ens (\<lambda>p. orderly m (snd p)) (protTick s)"
proof -
  have conns: "tick_connes (heap_Len (Connes s)) now period s = Some (period, s)" for now period s
    by (simp add: tick_connes.simps)
  have fin: "ens (\<lambda>p. orderly m (snd p)) (EpollQApply s \<bind> (\<lambda>s. Some (period, s)))" if "orderly m s" for period :: int and s
    by (rule ens_bind [OF orderly_EpollQApply [OF that]]) simp
  obtain now s1 where 1: "time_Now s = (now, s1)" by force
  then have "orderly m s1" using orderly_other(2) [OF assms] by simp
  then show ?thesis
    unfolding protTick_def Let_def 1 prod.case
    by (intro ens_bind [OF orderly_tick_delayed], assumption) (auto simp: conns intro!: ens_bind [OF orderly_tick_tubes] fin)
qed

section \<open>Accepting connections\<close>

definition empty_handed :: "cref \<Rightarrow> places \<Rightarrow> places" where
  "empty_handed c a = a\<lparr>a_held := (a_held a)(c := [])\<rparr>"

definition conn_added :: "job \<Rightarrow> nat \<Rightarrow> world \<Rightarrow> world" where
  "conn_added x k s = s\<lparr>nC := Suc (nC s), C := (C s)(nC s := zero_coon\<lparr>ReservedJobs := nJ s\<rparr>), nJ := Suc (nJ s),
     J := (J s)(nJ s := x), ticks := k\<rparr>"

lemma conn_added_sel [simp]:
  "nC (conn_added x k s) = Suc (nC s)" "T (conn_added x k s) = T s" "nT (conn_added x k s) = nT s" "tubes (conn_added x k s) = tubes s"
  "Wal (conn_added x k s) = Wal s" "allJobs (conn_added x k s) = allJobs s" "Connes (conn_added x k s) = Connes s"
  "J (conn_added x k s) = (J s)(nJ s := x)" "C (conn_added x k s) = (C s)(nC s := zero_coon\<lparr>ReservedJobs := nJ s\<rparr>)"
  by (simp_all add: conn_added_def)

lemma new_conn_shape:
  "\<exists>x k. modC (nC s) (\<lambda>x. x\<lparr>ReservedJobs := nJ s\<rparr>) (snd (NewJob None (s\<lparr>nC := Suc (nC s), C := (C s)(nC s := zero_coon)\<rparr>))) = conn_added x k s \<and>
     RState (R x) = Invalid \<and> Next x = Some (nJ s) \<and> Prev x = Some (nJ s) \<and> HeapIndex x = 0"
  by (rule exI [of _ "J (snd (NewJob None s)) (nJ s)"], rule exI [of _ "ticks (snd (NewJob None s))"])
    (simp add: NewJob_def time_Now_def ListReset_def conn_added_def zero_job_def zero_rec_def zero_coon_def upd Let_def go_const)

lemma holds_conn_added:
  assumes h: "holds a s" and new: "nJ s \<notin> placed a s"
    and x: "RState (R x) = Invalid" "Next x = Some (nJ s)" "Prev x = Some (nJ s)" "HeapIndex x = 0"
  shows "holds (empty_handed (nC s) a) (conn_added x k s)" (is "holds ?a ?s")
proof -
  have hd: "nJ s \<noteq> ReservedJobs (C s c)" "nJ s \<notin> set (a_held a c)" if "c < nC s" for c
    using new that by (auto simp: placed_def)
  have tb: "nJ s \<noteq> BuriedL (T s t)" "nJ s \<notin># a_ready a t" "nJ s \<notin># a_delayed a t" "nJ s \<notin> set (a_buried a t)" if "t < nT s" for t
    using new that by (auto simp: placed_def)
  have e: "a_ready ?a = a_ready a" "a_delayed ?a = a_delayed a" "a_buried ?a = a_buried a" "a_waiting ?a = a_waiting a"
    by (simp_all add: empty_handed_def)
  have q: "queued JobPriLess Ready (J ?s) t (ReadyQ (T s t)) (a_ready a t) \<and>
      queued JobDelayLess Delayed (J ?s) t (DelayQ (T s t)) (a_delayed a t) \<and>
      buried_at (J ?s) t (BuriedL (T s t)) (a_buried a t)" if t: "t < nT s" for t
  proof (intro conjI)
    show "queued JobPriLess Ready (J ?s) t (ReadyQ (T s t)) (a_ready a t)"
      using tb [OF t] by (intro queued_cong [OF holds_D(1) [OF h t] _ less_local(1)]) auto
    show "queued JobDelayLess Delayed (J ?s) t (DelayQ (T s t)) (a_delayed a t)"
      using tb [OF t] by (intro queued_cong [OF holds_D(2) [OF h t] _ less_local(2)]) auto
    show "buried_at (J ?s) t (BuriedL (T s t)) (a_buried a t)"
      using tb [OF t] by (intro buried_at_cong [OF holds_D(3) [OF h t]]) auto
  qed
  have hb: "held_by (J ?s) c (ReservedJobs (C ?s c)) (a_held ?a c) (nT s)" if "c < Suc (nC s)" for c
  proof (cases "c = nC s")
    case True
    then show ?thesis using x by (simp add: held_by_def dll_def empty_handed_def)
  next
    case False
    then have c: "c < nC s" using that by simp
    have "held_by (J ?s) c (ReservedJobs (C s c)) (a_held a c) (nT s)"
      using hd [OF c] by (intro held_by_cong [OF holds_D(4) [OF h c]]) auto
    then show ?thesis using False by (simp add: empty_handed_def)
  qed
  have hk: "heads_ok s" and w: "waits_ok a s" and sc: "sched_ok s" using holds_D(5-7) [OF h] by simp_all
  have "inj_on (\<lambda>c. ReservedJobs (C ?s c)) {..<Suc (nC s)}"
    using hk hd(1) by (simp add: heads_ok_def inj_on_def Ball_def less_Suc_eq) metis
  moreover have "\<forall>t<nT s. \<forall>c<Suc (nC s). BuriedL (T s t) \<noteq> ReservedJobs (C ?s c)"
    using hk not_sym [OF tb(1)] by (auto simp: heads_ok_def less_Suc_eq)
  ultimately have "heads_ok ?s" using hk by (simp add: heads_ok_def)
  moreover have "waits_ok ?a ?s" using w by (fastforce simp: waits_ok_def e)
  moreover have "{c. c < Suc (nC s) \<and> InCoons (C ?s c) > 0} = {c. c < nC s \<and> InCoons (C s c) > 0}"
    by (auto simp: less_Suc_eq zero_coon_def)
  then have "sched_ok ?s" using sc x(4) by (simp add: sched_ok_def zero_coon_def)
  ultimately show ?thesis unfolding holds_def using q hb by (simp add: e)
qed

lemma ordered_conn_added:
  assumes o: "ordered {} a s" and new: "spare (nJ s) s"
    and x: "RState (R x) = Invalid" "Next x = Some (nJ s)" "Prev x = Some (nJ s)" "HeapIndex x = 0"
  shows "ordered {nC s} (empty_handed (nC s) a) (conn_added x k s)" (is "ordered _ ?a ?s")
proof -
  have np: "nJ s \<notin> placed a s" by (rule spare_unplaced [OF o new])
  note h = holds_conn_added [OF ordered_D(1) [OF o] np x]
  have nr: "nJ s \<notin> ran (allJobs s)" using new by (simp add: spare_def)
  have lv: "live ?s = live s" using nr by (auto simp: live_def)
  have "mset (a_held ?a c) = (if c = nC s then {#} else mset (a_held a c))" for c by (simp add: empty_handed_def)
  then have "standing ?s ?a = standing s a" by (simp add: standing_def active_jobs_def) (simp add: empty_handed_def)
  then have st: "standing ?s ?a = mset_set (live ?s)" using ordered_D(5) [OF o] lv by simp
  have "heads ?s \<subseteq> insert (nJ s) (heads s)" by (auto simp: heads_def less_Suc_eq split: if_splits)
  then have hs: "heads ?s \<inter> ran (allJobs ?s) = {}" using ordered_D(6) [OF o] nr by auto
  have ij: "InJob (C ?s c) = Some j \<Longrightarrow> c < nC ?s \<Longrightarrow> c < nC s \<and> InJob (C s c) = Some j" for c j
    by (auto simp: zero_coon_def split: if_splits)
  have ar: "arriving ?s j \<and> (\<forall>d<nC ?s. InJob (C ?s d) = Some j \<longrightarrow> d = c)" if "c < nC ?s" "InJob (C ?s c) = Some j" for c j
  proof -
    have c: "c < nC s" "InJob (C s c) = Some j" using ij that by blast+
    have "arriving s j" by (rule ordered_D(8) [OF o c])
    then have "arriving ?s j" using arriving_unplaced(3) [OF o] nr by (auto simp: arriving_def loose_links_def)
    then show ?thesis using ordered_D(9) [OF o c] ij by blast
  qed
  have w: "\<forall>t<nT ?s. \<forall>d\<in>#a_waiting ?a t. d \<notin> {nC s} \<and> CState (C ?s d) = StateWait"
  proof (intro allI impI ballI)
    fix t d assume "t < nT ?s" "d \<in># a_waiting ?a t"
    then have "t < nT s" "d \<in># a_waiting a t" by (simp_all add: empty_handed_def)
    then have "d < nC s" "CState (C s d) = StateWait"
      using ordered_D(7) [OF o] holds_D(6) [OF ordered_D(1) [OF o]] by (auto simp: waits_ok_def)
    then show "d \<notin> {nC s} \<and> CState (C ?s d) = StateWait" by simp
  qed
  have "idle ?a ?s" using ordered_D(3) [OF o] by (simp add: idle_def empty_handed_def)
  moreover have "\<not> WalUse (Wal ?s)" "finite (ran (allJobs ?s))" using ordered_D(2,4) [OF o] by simp_all
  ultimately show ?thesis unfolding ordered_def listed_def using h st hs ar w by blast
qed

lemma ordered_Watch_Append:
  assumes "ordered W a s" "c \<in> W"
  shows "ordered W a (Watch_Append c t s)"
  using only_watching_ms(1) [of s "[t]" "Watch (C s c)"] assms
  by (auto simp: Watch_Append_def split: prod.splits intro!: ordered_watching)

text \<open>A new connection is not among those with a deadline, so that it may be counted out again.\<close>

lemma ordered_modC_state:
  assumes "ordered W a s" "c \<in> W" "\<And>x. ReservedJobs (f x) = ReservedJobs x \<and> (InJob (f x) = None \<or> InJob (f x) = InJob x)"
    "TickPos (f (C s c)) = TickPos (C s c)" "InCoons (f (C s c)) = InCoons (C s c)"
  shows "ordered W a (modC c f s)"
proof -
  let ?g = "\<lambda>x. (f x)\<lparr>TickPos := TickPos x, InCoons := InCoons x\<rparr>"
  have "?g (C s c) = f (C s c)" using assms(4,5) by (intro coon.equality) simp_all
  then have "modC c f s = modC c ?g s" by (simp add: upd)
  then show ?thesis using ordered_modC [OF assms(1,2), of ?g] assms(3) by simp
qed

lemma orderly_NewConn:
  assumes "orderly m s" "u < nT s" "w < nT s"
  shows "orderly m (snd (NewConn st u w s))"
proof -
  obtain a where i: "sinv m s" and o: "ordered {} a s" using assms(1) by (auto simp: orderly_def)
  let ?c = "nC s" and ?a = "empty_handed (nC s) a"
  obtain x k where s1: "modC ?c (\<lambda>x. x\<lparr>ReservedJobs := nJ s\<rparr>) (snd (NewJob None (s\<lparr>nC := Suc ?c, C := (C s)(?c := zero_coon)\<rparr>))) = conn_added x k s"
    "RState (R x) = Invalid" "Next x = Some (nJ s)" "Prev x = Some (nJ s)" "HeapIndex x = 0"
    using new_conn_shape [of s] by blast
  define s2 where "s2 = Watch_Append ?c w (conn_added x k s)"
  define s3 where "s3 = modC ?c (\<lambda>x. x\<lparr>SockF := True\<rparr>) (modT u (\<lambda>x. x\<lparr>UsingCt := UsingCt x + 1\<rparr>) (modC ?c (\<lambda>x. x\<lparr>Use := Some u\<rparr>) s2))"
  define s4 where "s4 = snd (syscall_ok s3)"
  have "ordered {?c} ?a s2"
    unfolding s2_def by (intro ordered_Watch_Append ordered_conn_added [OF o spare_new [OF i] s1(2-)]) simp
  then have 3: "ordered {?c} ?a s3"
    unfolding s3_def by (intro ordered_modC ordered_modT) (simp_all add: same_tube_def)
  then have 4: "ordered {?c} ?a s4" unfolding s4_def by (rule ordered_other) (simp_all add: syscall_ok_def)
  have z: "TickPos (C s4 ?c) = 0" "InCoons (C s4 ?c) = 0"
    by (simp_all add: s4_def s3_def s2_def syscall_ok_def upd Watch_Append_def ms_Append_def ms_fire_def onWatch_def zero_coon_def Let_def)
  let ?f = "\<lambda>x. x\<lparr>CState := st, PendingTimeout := -1, TickPos := 0, InCoons := 0\<rparr>"
  have "ordered {?c} ?a (modC ?c ?f s4)" by (rule ordered_modC_state [OF 4]) (simp_all add: z)
  then have 5: "ordered {?c} ?a ((modC ?c ?f s4)\<lparr>CurConnCt := n, TotalConnCt := n'\<rparr>)" for n n'
    by (rule ordered_other) simp_all
  have l: "fst (NewJob None (s\<lparr>nC := Suc ?c, C := (C s)(?c := zero_coon)\<rparr>)) = nJ s" by (simp add: NewJob_ref)
  have "snd (NewConn st u w s) = (if fst (syscall_ok s3)
      then (modC ?c ?f s4)\<lparr>CurConnCt := CurConnCt (modC ?c ?f s4) + 1, TotalConnCt := TotalConnCt (modC ?c ?f s4) + 1\<rparr> else s4)"
    by (simp add: NewConn_def Let_def case_prod_unfold l s1(1) s4_def s3_def s2_def)
  then have "ordered {?c} ?a (snd (NewConn st u w s))" using 4 5 by simp
  then have "ordered {} ?a (snd (NewConn st u w s))" by (rule ordered_less) simp
  then show ?thesis using NewConn_inv [OF i assms(2,3)] by (auto simp: orderly_def)
qed

lemma orderly_hAccept:
  assumes "orderly m s"
  shows "ens (orderly m) (hAccept s)"
proof -
  obtain b1 s1 where 1: "syscall_ok s = (b1, s1)" by force
  obtain b2 s2 where 2: "syscall_ok s1 = (b2, s2)" by force
  obtain b3 s3 where 3: "syscall_ok s2 = (b3, s3)" by force
  have o1: "orderly m s1" using orderly_other(3) [OF assms] 1 by simp
  have o2: "orderly m s2" using orderly_other(3) [OF o1] 2 by simp
  have o3: "orderly m s3" using orderly_other(3) [OF o2] 3 by simp
  then have d: "GetDefaultTube s3 < nT s3" by (auto simp: orderly_def inv_defs GetDefaultTube_def)
  obtain r s4 where 4: "NewConn StateWantCommand (GetDefaultTube s3) (GetDefaultTube s3) s3 = (r, s4)" by force
  have o4: "orderly m s4" using orderly_NewConn [OF o3 d d, of StateWantCommand] 4 by simp
  show ?thesis
    using o1 o2 orderly_EpollQApply [OF o3] orderly_EpollQApply [OF o4] orderly_EpollQApply [OF orderly_sockWant [OF o4]]
    by (simp add: hAccept_def 1 2 3 4 split: option.splits)
qed

section \<open>Runs\<close>

text \<open>The steps of \<open>Start\<close>, one by one: the periodic work, accepting, what an event of a connection sets off (the mark
  that the client has hung up, one transfer on the socket, each of the commands that have been read, an incomplete line, closing)
  and the queue of changed sockets. A step that the code would not take in a state has no result.\<close>

datatype deed = Tick | Accept | Hangup cref | Transfer cref sock_io | Command cref | Incomplete cref | Shut cref | Flush

definition line_read :: "cref \<Rightarrow> world \<Rightarrow> world" where
  "line_read c s = modC c (\<lambda>x. x\<lparr>CmdLen := scanLineEnd (Cmd x) (CmdRead x)\<rparr>) s"

fun perform :: "deed \<Rightarrow> world \<Rightarrow> world option" where
  "perform Tick s = map_option snd (protTick s)"
| "perform Accept s = hAccept s"
| "perform (Hangup c) s = Some (modC c (\<lambda>x. x\<lparr>HalfClosed := True\<rparr>) s)"
| "perform (Transfer c k) s = connProcessIO k c s"
| "perform (Command c) s =
     (if commandDataReady c s \<and> CmdLen (C (line_read c s) c) > 0
      then do { s \<leftarrow> dispatchCmd c (line_read c s); fillExtraData c s } else None)"
| "perform (Incomplete c) s =
     (if commandDataReady c s \<and> CmdLen (C (line_read c s) c) \<le> 0 then Some (line_read c s) else None)"
| "perform (Shut c) s =
     (if CState (C s c) = StateClose then do { s \<leftarrow> EpollQRmConn c s; connClose c s } else None)"
| "perform Flush s = EpollQApply s"

definition on_target :: "deed \<Rightarrow> world \<Rightarrow> bool" where
  "on_target d s \<longleftrightarrow> (case d of
     Transfer c k \<Rightarrow> c < nC s
   | Command c \<Rightarrow> c < nC s \<and> aimed c (line_read c s)
   | _ \<Rightarrow> True)"

inductive session :: "world \<Rightarrow> world \<Rightarrow> bool" for s0 where
  session_start: "session s0 s0"
| session_deed: "session s0 s \<Longrightarrow> on_target d s \<Longrightarrow> perform d s = Some s' \<Longrightarrow> session s0 s'"

inductive_cases session_cases: "session s0 s"

lemma ready_state: "commandDataReady c s \<Longrightarrow> CState (C s c) = StateWantCommand"
  by (simp add: commandDataReady_def wantCommand_def)

lemma orderly_line_read: "orderly m s \<Longrightarrow> orderly m (line_read c s)"
  unfolding line_read_def by (rule orderly_modC) (simp_all add: same_conn_def)

lemma orderly_perform:
  assumes o: "orderly 0 s" and a: "on_target d s"
  shows "ens (orderly 0) (perform d s)"
proof (cases d)
  case Tick
  then show ?thesis using orderly_protTick [OF o] by (auto simp: ens_def)
next
  case (Hangup c)
  then show ?thesis using orderly_modC [OF o, of "\<lambda>x. x\<lparr>HalfClosed := True\<rparr>" c] by (simp add: same_conn_def)
next
  case (Command c)
  have c: "c < nC s" "aimed c (line_read c s)" using a Command by (simp_all add: on_target_def)
  show ?thesis
  proof (cases "commandDataReady c s \<and> CmdLen (C (line_read c s) c) > 0")
    case True
    have "busy c (nC (line_read c s)) (line_read c s)"
      using True c(1) ready_state [of c s] by (intro orderly_busy [OF orderly_line_read [OF o]]) (auto simp: line_read_def upd)
    then have "ens (orderly (nC (line_read c s))) (dispatchCmd c (line_read c s))"
      using c(2) by (rule orderly_dispatchCmd)
    then have "ens (orderly 0) (dispatchCmd c (line_read c s))" by (rule ens_mono) (rule orderly_weaken, simp_all)
    then have "ens (orderly 0) (dispatchCmd c (line_read c s) \<bind> fillExtraData c)"
      by (rule ens_bind) (rule orderly_fillExtraData)
    then show ?thesis using True Command by simp
  qed (auto simp: Command)
next
  case (Shut c)
  then show ?thesis using ens_bind [OF orderly_EpollQRmConn [OF o] orderly_connClose] by simp
qed (use a in \<open>simp_all add: o on_target_def orderly_hAccept orderly_connProcessIO orderly_line_read orderly_EpollQApply\<close>)

lemma ordered_boot: "ordered {} \<lparr>a_ready = \<lambda>_. {#}, a_delayed = \<lambda>_. {#}, a_buried = \<lambda>_. [], a_held = \<lambda>_. [], a_waiting = \<lambda>_. {#}\<rparr>
    (boot clk sys env mx)" (is "ordered _ ?a ?s")
proof -
  have e: "nT ?s = 1" "nC ?s = 0" "allJobs ?s = Map.empty" "ReadyQ (T ?s 0) = []" "DelayQ (T ?s 0) = []" "BuriedL (T ?s 0) = 0"
    "ms_items (WaitingConns (T ?s 0)) = []" "Next (J ?s 0) = Some 0" "Prev (J ?s 0) = Some 0" "RState (R (J ?s 0)) = Invalid"
    "HeapIndex (J ?s j) = 0" "TickPos (C ?s c) = 0" "Connes ?s = []" "ms_items (tubes ?s) = [0]" "\<not> WalUse (Wal ?s)" for j c
    by (simp_all add: boot_def core_init_def Let_def zero_world_def upd NewTube_def MakeAndInsertTube_def NewJob_def time_Now_def
        ListReset_def ms_Append_def ms_fire_def NewMs_def zero_job_def zero_rec_def zero_coon_def blank_tube_def zero_wal_def go_const)
  have "holds ?a ?s"
    by (simp add: holds_def e queued_def buried_at_def dll_def heap_vals_def heap_ok_def heap_upto_def heads_ok_def waits_ok_def sched_ok_def
        lessThan_Suc inj_on_def)
  moreover have "live ?s = {}" by (simp add: live_def e)
  moreover have "standing ?s ?a = {#}" by (simp add: standing_def active_jobs_def)
  ultimately show ?thesis by (simp add: ordered_def listed_def e idle_def)
qed

lemma session_orderly: "session (boot clk sys env mx) s \<Longrightarrow> orderly 0 s"
proof (induction rule: session.induct)
  case session_start
  then show ?case using boot_inv ordered_boot unfolding orderly_def by blast
next
  case (session_deed s d s')
  then show ?case using ens_D [OF orderly_perform] by blast
qed

section \<open>What holds in every state of a run\<close>

text \<open>C1: in every state of a run of the server from its start, without the log, in which the commands of the clients are on
  target, every job that has been put and not deleted stands in exactly one place, in a ready queue, among the delayed or the buried jobs of a tube or in the list of a connection, nothing else stands there, and the
  queues and lists of the server represent these places.\<close>

theorem session_jobs_placed:
  assumes "session (boot clk sys env mx) s"
  shows "\<exists>a. holds a s \<and> (\<forall>j. count (standing s a) j =
    (if RState (R (J s j)) \<noteq> Invalid \<and> (\<exists>i. JobFind i s = Some j) then 1 else 0))"
proof -
  obtain a where o: "ordered {} a s" using session_orderly [OF assms] by (auto simp: orderly_def)
  have "j \<in> live s \<longleftrightarrow> RState (R (J s j)) \<noteq> Invalid \<and> (\<exists>i. JobFind i s = Some j)" for j
    by (auto simp: live_def JobFind_def ran_def)
  then show ?thesis
    using ordered_D(1,5) [OF o] ordered_finite [OF o] by (intro exI [of _ a]) (simp add: count_mset_set')
qed

text \<open>C2: in every state of such a run no tube of the list that is not paused has both a ready job and a connection that
  waits for one.\<close>

theorem session_matched:
  assumes "session (boot clk sys env mx) s" "t \<in> set (ms_items (GetTubes s))" "Pause (T s t) = 0"
  shows "ReadyQ (T s t) = [] \<or> ms_items (WaitingConns (T s t)) = []"
proof -
  obtain a where o: "ordered {} a s" using session_orderly [OF assms(1)] by (auto simp: orderly_def)
  note h = ordered_D(1) [OF o]
  have t: "t < nT s" using holds_D(6) [OF h] assms(2) by (auto simp: waits_ok_def GetTubes_def)
  have "heap_vals (ReadyQ (T s t)) = a_ready a t" "mset (ms_items (WaitingConns (T s t))) = a_waiting a t"
    using holds_D(1,6) [OF h] t by (simp_all add: queued_def waits_ok_def)
  moreover have "a_ready a t = {#} \<or> a_waiting a t = {#}"
    using ordered_D(3) [OF o] assms(2,3) by (simp add: idle_def GetTubes_def)
  ultimately show ?thesis by (auto simp: heap_vals_def)
qed

section \<open>The main loop as a run\<close>

definition run :: "deed list \<Rightarrow> world \<Rightarrow> world option" where
  "run ds s = foldM perform ds s"

fun all_on_target :: "deed list \<Rightarrow> world \<Rightarrow> bool" where
  "all_on_target [] s \<longleftrightarrow> True"
| "all_on_target (d # ds) s \<longleftrightarrow> on_target d s \<and> (case perform d s of None \<Rightarrow> False | Some s' \<Rightarrow> all_on_target ds s')"

lemma run_simps [simp]: "run [] = Some" "run (d # ds) s = perform d s \<bind> run ds"
  by (simp_all add: run_def [abs_def] fun_eq_iff)

lemma run_append: "run (ds @ es) s = run ds s \<bind> run es"
  by (induction ds arbitrary: s) (simp_all add: Option.bind_assoc, simp split: Option.bind_splits)

lemma session_run: "session s0 s \<Longrightarrow> all_on_target ds s \<Longrightarrow> run ds s = Some s' \<Longrightarrow> session s0 s'"
proof (induction ds arbitrary: s)
  case (Cons d ds)
  then obtain u where u: "perform d s = Some u" "run ds u = Some s'" by (auto simp: bind_eq_Some_conv simp del: perform.simps)
  have "on_target d s" "all_on_target ds u" using Cons.prems(2) u(1) by (simp_all del: perform.simps)
  then show ?case using session_deed [OF Cons.prems(1) _ u(1)] Cons.IH [OF _ _ u(2)] by blast
qed simp

text \<open>What comes from outside: a connection to accept, a transfer and the mark that the client has hung up.\<close>

fun outer :: "deed \<Rightarrow> bool" where
  "outer Accept = True" | "outer (Hangup c) = True" | "outer (Transfer c k) = True" | "outer _ = False"

fun heard :: "event \<Rightarrow> deed list" where
  "heard NoEvent = []"
| "heard AcceptEvent = [Accept]"
| "heard (ConnEvent c rw k) = (if rw = CHR ''h'' then [Hangup c] else []) @ [Transfer c k]"

lemma loop_run:
  assumes "hConn_loop c s = Some s'"
  shows "\<exists>ds. run ds s = Some s' \<and> filter outer ds = []"
  using assms
proof (induction rule: hConn_loop.raw_induct [rotated, consumes 1])
  case (1 f c s s')
  let ?l = "line_read c s"
  consider "\<not> commandDataReady c s" | "commandDataReady c s" "CmdLen (C ?l c) \<le> 0" | "commandDataReady c s" "CmdLen (C ?l c) > 0"
    by linarith
  then show ?case
  proof cases
    case 1
    then show ?thesis using \<open>_ = Some s'\<close> by (intro exI [of _ "[]"]) simp
  next
    case 2
    then have "s' = ?l" using 1(2) by (simp add: line_read_def Let_def)
    then show ?thesis using 2 by (intro exI [of _ "[Incomplete c]"]) simp
  next
    case 3
    have "perform (Command c) s \<bind> f c = Some s'" using 1(2) 3 by (simp add: line_read_def Let_def)
    then obtain u where u: "perform (Command c) s = Some u" "f c u = Some s'" by (auto simp: bind_eq_Some_conv simp del: perform.simps)
    obtain ds where "run ds u = Some s'" "filter outer ds = []" using 1(1) [OF u(2)] by blast
    then show ?thesis using u(1) by (intro exI [of _ "Command c # ds"]) (simp del: perform.simps)
  qed
qed

lemma hConn_run:
  assumes "hConn k c rw s = Some s'"
  shows "\<exists>ds. run ds s = Some s' \<and> filter outer ds = heard (ConnEvent c rw k)"
proof -
  define hs where "hs = (if rw = CHR ''h'' then [Hangup c] else [])"
  obtain s1 s2 s3 s4 where 1: "s1 = (if rw = CHR ''h'' then modC c (\<lambda>x. x\<lparr>HalfClosed := True\<rparr>) s else s)"
    "connProcessIO k c s1 = Some s2" "hConn_loop c s2 = Some s3"
    "(if CState (C s3 c) = StateClose then EpollQRmConn c s3 \<bind> connClose c else Some s3) = Some s4" "EpollQApply s4 = Some s'"
    using assms by (auto simp: hConn_def Let_def bind_eq_Some_conv)
  obtain ds where ds: "run ds s2 = Some s3" "filter outer ds = []" using loop_run [OF 1(3)] by blast
  define cs where "cs = (if CState (C s3 c) = StateClose then [Shut c] else [])"
  have "run (hs @ [Transfer c k]) s = Some s2" using 1(1,2) by (cases "rw = CHR ''h''") (simp_all add: hs_def)
  moreover have "run cs s3 = Some s4" using 1(4) by (cases "CState (C s3 c) = StateClose") (simp_all add: cs_def)
  then have "run (cs @ [Flush]) s3 = Some s'" using 1(5) by (simp add: run_append)
  ultimately have "run ((hs @ [Transfer c k]) @ ds @ cs @ [Flush]) s = Some s'" using ds(1) by (simp add: run_append del: append_assoc)
  moreover have "filter outer ((hs @ [Transfer c k]) @ ds @ cs @ [Flush]) = heard (ConnEvent c rw k)"
    using ds(2) by (simp add: hs_def cs_def)
  ultimately show ?thesis by blast
qed

lemma turn_run:
  assumes "Start_step e s = Some s'"
  shows "\<exists>ds. run ds s = Some s' \<and> filter outer ds = heard e"
proof -
  obtain p s1 where 1: "protTick s = Some (p, s1)"
    "(case e of NoEvent \<Rightarrow> Some s1 | AcceptEvent \<Rightarrow> hAccept s1 | ConnEvent c rw k \<Rightarrow> hConn k c rw s1) = Some s'"
    using assms by (auto simp: Start_step_def bind_eq_Some_conv)
  have "\<exists>ds. run ds s1 = Some s' \<and> filter outer ds = heard e"
  proof (cases e)
    case NoEvent
    then show ?thesis using 1(2) by (intro exI [of _ "[]"]) simp
  next
    case AcceptEvent
    then show ?thesis using 1(2) by (intro exI [of _ "[Accept]"]) simp
  next
    case (ConnEvent c rw k)
    then show ?thesis using 1(2) hConn_run [of k c rw s1 s'] by simp
  qed
  then obtain ds where "run ds s1 = Some s'" "filter outer ds = heard e" by blast
  then show ?thesis using 1(1) by (intro exI [of _ "Tick # ds"]) simp
qed



section \<open>A visit\<close>

text \<open>A client puts two jobs and deletes the first of them, which is at the root of the ready queue.\<close>

definition client :: "string \<Rightarrow> sock_io" where
  "client x = \<lparr>sock_rd = (\<lambda>n. RdOk x), sock_wr = (\<lambda>d. WrOk (int (length d)))\<rparr>"

definition talk :: "string \<Rightarrow> deed list" where
  "talk x = [Transfer 0 (client x), Command 0, Flush, Transfer 0 (client []), Flush]"

definition visit :: "deed list" where
  "visit = [Tick, Accept] @ talk put_x @ talk put_x @ talk (''delete 1'' @ CRLF)"

definition visit_end :: world where
  "visit_end = the (run visit demo)"

lemma visit_obs:
  "map_option (\<lambda>s. (nC s, JobFind 1 s, JobFind 2 s, RState (R (J s 3)), map Value (ReadyQ (T s 0)), Pause (T s 0),
     ms_items (GetTubes s), Reply (C s 0))) (run visit demo) =
   Some (1, None, Some 3, Ready, [3], 0, [0], ''DELETED'' @ CRLF)"
  by code_simp

lemma visit_on_target: "all_on_target visit demo"
  by code_simp

lemma visit_facts:
  "run visit demo = Some visit_end" "JobFind 2 visit_end = Some 3" "RState (R (J visit_end 3)) = Ready"
  "map Value (ReadyQ (T visit_end 0)) = [3]" "Pause (T visit_end 0) = 0" "ms_items (GetTubes visit_end) = [0]"
proof -
  obtain s where "run visit demo = Some s" using visit_obs by auto
  moreover from this have "visit_end = s" by (simp add: visit_end_def)
  ultimately show "run visit demo = Some visit_end" "JobFind 2 visit_end = Some 3" "RState (R (J visit_end 3)) = Ready"
    "map Value (ReadyQ (T visit_end 0)) = [3]" "Pause (T visit_end 0) = 0" "ms_items (GetTubes visit_end) = [0]"
    using visit_obs by simp_all
qed

lemma visit_session: "session (boot (\<lambda>_. 0) (\<lambda>_. True) demo_env 65535) visit_end"
  using session_run [OF session_start visit_on_target visit_facts(1)] by (simp add: demo_def)

theorem session_jobs_placed_witness: "\<exists>a. holds a visit_end \<and> count (standing visit_end a) 3 = 1"
proof -
  obtain a where "holds a visit_end" "count (standing visit_end a) 3 =
      (if RState (R (J visit_end 3)) \<noteq> Invalid \<and> (\<exists>i. JobFind i visit_end = Some 3) then 1 else 0)"
    using session_jobs_placed [OF visit_session] by blast
  moreover have "RState (R (J visit_end 3)) \<noteq> Invalid" by (simp add: visit_facts(3) go_const)
  moreover have "\<exists>i. JobFind i visit_end = Some 3" using visit_facts(2) by blast
  ultimately show ?thesis by auto
qed

theorem session_matched_witness: "ReadyQ (T visit_end 0) \<noteq> [] \<and> ms_items (WaitingConns (T visit_end 0)) = []"
proof -
  have "ReadyQ (T visit_end 0) \<noteq> []" using visit_facts(4) by auto
  then show ?thesis using session_matched [OF visit_session, of 0] visit_facts(5,6) by simp
qed

end
