(* ===== verification/Windows.thy ===== *)
theory Windows
  imports Setup HostInfo
begin

text \<open>
  The variants for Windows (\<open>net/windows.go\<close>, \<open>utils/su_windows.go\<close>, \<open>core/lockfile_windows.go\<close>): the sockets and the
  change of user are stubs, the lock of the log directory is the one of Unix with other system calls.
\<close>

definition sockWant_windows :: "cref \<Rightarrow> char \<Rightarrow> world \<Rightarrow> bool \<times> world" where
  "sockWant_windows c rw s = (True, s)"

text \<open>The code of the event, and whether there was an error.\<close>

definition sockNext_windows :: "8 word \<times> bool" where
  "sockNext_windows = (0, False)"

definition su_windows :: "string \<Rightarrow> world \<Rightarrow> world option" where
  "su_windows u s = Some s"

text \<open>\<open>MkdirAll\<close>, \<open>OpenFile\<close> and \<open>LockFileEx\<close> can fail.\<close>

definition WalDirLock_windows :: "world \<Rightarrow> bool \<times> world" where
  "WalDirLock_windows s =
     (let (made, s) = syscall_ok s in
      if \<not> made then (False, s)
      else let (opened, s) = syscall_ok s in
        if \<not> opened then (False, s)
        else let (locked, s) = syscall_ok s in if locked then (True, s) else (False, s))"

text \<open>Both variants of the lock agree, for every outcome of the three calls.\<close>

lemma WalDirLock_variants: "WalDirLock_windows = WalDirLock"
  by (auto simp: fun_eq_iff WalDirLock_windows_def WalDirLock_def syscall_ok_def Let_def)

text \<open>On Windows no event is ever reported: the loop only does its periodic work and no connection is served,
  although every registration of a socket succeeds.\<close>

lemma windows_reports_nothing:
  "fst sockNext_windows \<noteq> of_char (CHR ''r'')" "fst sockNext_windows \<noteq> of_char (CHR ''w'')"
  "fst sockNext_windows \<noteq> of_char (CHR ''h'')" "fst (sockWant_windows c rw s)"
  by (simp_all add: sockNext_windows_def sockWant_windows_def)

end
