(* ===== verification/Kqueue.thy ===== *)
theory Kqueue
  imports Bytes
begin

text \<open>
  The socket functions of \<open>net/darwin.go\<close>: what \<open>sockWant\<close> asks the kernel queue for and what
  \<open>sockNext\<close> makes of an event. The system call \<open>kevent\<close> is an argument of the definitions; what
  its manual says of a change list is the predicate \<open>kevent_spec\<close>: the changes are carried out in
  order, deleting a filter that is not registered is an error, and with no room for events the
  first error ends the call.
\<close>

unbundle bit_operations_syntax

section \<open>Events and the kernel queue\<close>

definition EVFILT_READ :: int where "EVFILT_READ = -1"
definition EVFILT_WRITE :: int where "EVFILT_WRITE = -2"
definition EV_ADD :: "16 word" where "EV_ADD = 0x1"
definition EV_DELETE :: "16 word" where "EV_DELETE = 0x2"
definition EV_EOF :: "16 word" where "EV_EOF = 0x8000"
definition NOTE_LOWAT :: "32 word" where "NOTE_LOWAT = 0x1"
definition Infinity :: int where "Infinity = 2 ^ 30"

lemmas kq_consts = EVFILT_READ_def EVFILT_WRITE_def EV_ADD_def EV_DELETE_def EV_EOF_def NOTE_LOWAT_def Infinity_def

record kevent_t =
  Ident :: int
  Filter :: int
  Flags :: "16 word"
  Fflags :: "32 word"
  Data :: int
  Udata :: nat

text \<open>The registered pairs of descriptor and filter, and what the manual says of one change and of
  a change list; \<open>kevent\<close> is a function with that behaviour.\<close>

type_synonym kqueue = "(int \<times> int) set"

definition kq_change :: "kevent_t \<Rightarrow> kqueue \<Rightarrow> kqueue option" where
  "kq_change ev q =
     (if Flags ev = EV_DELETE
      then if (Ident ev, Filter ev) \<in> q then Some (q - {(Ident ev, Filter ev)}) else None
      else Some (insert (Ident ev, Filter ev) q))"

fun kevent :: "kevent_t list \<Rightarrow> kqueue \<Rightarrow> bool \<times> kqueue" where
  "kevent [] q = (True, q)"
| "kevent (ev # evs) q = (case kq_change ev q of None \<Rightarrow> (False, q) | Some q \<Rightarrow> kevent evs q)"

type_synonym kevent_call = "kevent_t list \<Rightarrow> kqueue \<Rightarrow> bool \<times> kqueue"

definition kevent_spec :: "kevent_call \<Rightarrow> bool" where
  "kevent_spec call \<longleftrightarrow> (\<forall>q. call [] q = (True, q)) \<and>
     (\<forall>ev evs q. call (ev # evs) q = (case kq_change ev q of None \<Rightarrow> (False, q) | Some q \<Rightarrow> call evs q))"

lemma kevent_meets_spec: "kevent_spec kevent"
  by (simp add: kevent_spec_def)

section \<open>sockWant and sockNext\<close>

record ksocket =
  Fd :: int
  Added :: bool
  AddedFilter :: int

definition zero_kevent :: kevent_t where
  "zero_kevent = \<lparr>Ident = 0, Filter = 0, Flags = 0, Fflags = 0, Data = 0, Udata = 0\<rparr>"

text \<open>\<open>darwin_sockWant call p s rw q\<close>: \<open>p\<close> is the address of the socket \<open>s\<close>; the result is whether
  the call succeeded, the socket and the kernel queue.\<close>

definition darwin_sockWant :: "kevent_call \<Rightarrow> nat \<Rightarrow> ksocket \<Rightarrow> char \<Rightarrow> kqueue \<Rightarrow> bool \<times> ksocket \<times> kqueue" where
  "darwin_sockWant call p s rw q =
     (let evs = (if Added s
                 then [zero_kevent\<lparr>Ident := Fd s, Filter := AddedFilter s, Flags := EV_DELETE\<rparr>] else []);
          (evs, s) =
            (if rw \<noteq> CHR 0x00
             then
               let ev = zero_kevent\<lparr>Ident := Fd s\<rparr>;
                   ev = (if rw = CHR ''r'' then ev\<lparr>Filter := EVFILT_READ\<rparr>
                         else if rw = CHR ''w'' then ev\<lparr>Filter := EVFILT_WRITE\<rparr>
                         else ev\<lparr>Filter := EVFILT_READ, Fflags := NOTE_LOWAT, Data := Infinity\<rparr>);
                   ev = ev\<lparr>Flags := EV_ADD, Udata := p\<rparr>
               in (evs @ [ev], s\<lparr>Added := True, AddedFilter := Filter ev\<rparr>)
             else (evs, s));
          (ok, q) = call evs q
      in (ok, s, q))"

text \<open>\<open>wait\<close> is the call of \<open>kevent\<close> that fills the slice with one event: its count, whether it
  failed, and the event; it gets the time-out as seconds and nanoseconds. The result is the
  socket, if any, the byte and the error.\<close>

definition darwin_sockNext ::
  "int \<Rightarrow> (int \<times> int \<Rightarrow> int \<times> bool \<times> kevent_t) \<Rightarrow> nat option \<times> 8 word \<times> bool" where
  "darwin_sockNext timeout wait =
     (let (r, err, ev) = wait (go_quo timeout 1000000000, go_rem timeout 1000000000)
      in if r = -1 \<or> err then (None, word_of_int r, err)
         else if r > 0 then
           (Some (Udata ev),
            if Flags ev AND EV_EOF \<noteq> 0 then of_char (CHR ''h'')
            else if Filter ev = EVFILT_READ then of_char (CHR ''r'')
            else if Filter ev = EVFILT_WRITE then of_char (CHR ''w'')
            else 0, False)
         else (None, 0, False))"

section \<open>What is registered\<close>

definition wanted_filter :: "char \<Rightarrow> int" where
  "wanted_filter rw = (if rw = CHR ''w'' then EVFILT_WRITE else EVFILT_READ)"

definition registered :: "ksocket \<Rightarrow> kqueue \<Rightarrow> int set" where
  "registered s q = {flt. (Fd s, flt) \<in> q}"

text \<open>C36: as long as a socket is only asked to wait for something, exactly the filter asked for last
  is registered, and the other sockets keep theirs; asking for nothing removes it, but leaves
  the socket marked as added, so that the next request fails and registers nothing.\<close>

theorem darwin_sockWant_registers:
  assumes "kevent_spec call" "registered s q = (if Added s then {AddedFilter s} else {})" "rw \<noteq> CHR 0x00"
  shows "case darwin_sockWant call p s rw q of (ok, s', q') \<Rightarrow>
      ok \<and> registered s' q' = {wanted_filter rw} \<and> Added s' \<and> AddedFilter s' = wanted_filter rw \<and>
      (\<forall>fd flt. fd \<noteq> Fd s \<longrightarrow> ((fd, flt) \<in> q' \<longleftrightarrow> (fd, flt) \<in> q)) \<and>
      (case darwin_sockWant call p s' (CHR 0x00) q' of (ok0, s0, q0) \<Rightarrow>
         ok0 \<and> registered s0 q0 = {} \<and> Added s0 \<and>
         (\<forall>rw'. fst (darwin_sockWant call p s0 rw' q0) = False \<and> snd (snd (darwin_sockWant call p s0 rw' q0)) = q0))"
  using assms
  by (cases "rw = CHR ''r''"; cases "rw = CHR ''w''")
    (auto simp: darwin_sockWant_def kevent_spec_def registered_def wanted_filter_def kq_change_def zero_kevent_def kq_consts
      Let_def split: if_splits)

theorem darwin_sockWant_registers_witness:
  "snd (snd (darwin_sockWant kevent 8 \<lparr>Fd = 5, Added = True, AddedFilter = EVFILT_READ\<rparr> (CHR ''w'') {(5, EVFILT_READ), (6, EVFILT_READ)})) =
     {(5, EVFILT_WRITE), (6, EVFILT_READ)}"
proof -
  let ?s = "\<lparr>Fd = 5, Added = True, AddedFilter = EVFILT_READ\<rparr>" and ?q = "{(5, EVFILT_READ), (6, EVFILT_READ)}"
  obtain ok s' q' where w: "darwin_sockWant kevent 8 ?s (CHR ''w'') ?q = (ok, s', q')" by (metis prod_cases3)
  have "registered ?s ?q = (if Added ?s then {AddedFilter ?s} else {})" by (auto simp: registered_def)
  from darwin_sockWant_registers [OF kevent_meets_spec this, of "CHR ''w''" 8] w
  have q: "registered s' q' = {EVFILT_WRITE}" "\<forall>fd flt. fd \<noteq> 5 \<longrightarrow> ((fd, flt) \<in> q' \<longleftrightarrow> (fd, flt) \<in> ?q)"
    by (simp_all add: wanted_filter_def split: prod.splits)
  have "Fd s' = 5" using w by (auto simp: darwin_sockWant_def Let_def split: if_splits prod.splits)
  then have "(5, flt) \<in> q' \<longleftrightarrow> flt = EVFILT_WRITE" for flt using q(1) by (auto simp: registered_def)
  then have "q' = {(5, EVFILT_WRITE), (6, EVFILT_READ)}" using q(2) by (auto simp: set_eq_iff) (metis)+
  then show ?thesis using w by simp
qed

end
