(* ===== verification/Spec2Isabelle.thy ===== *)
theory Spec2Isabelle
  imports RunPlaces RunLog Overflow Sessions Windows Kqueue
begin

text \<open>
  gostalkd is a work queue server, a port of beanstalkd to Go. Clients put jobs into named tubes;
  workers reserve them, and delete, release, bury, kick or touch them. This development models
  the server as it is written, up to and including the steps where it stops, and proves what
  holds of it.

  \<^bold>\<open>The parts and how they interact.\<close> \<open>main\<close> makes the server (\<open>NewServer\<close>), reads the flags
  (\<open>OptParse\<close>), recovers the jobs of the write-ahead log (\<open>SrvAcquireWal\<close>) and enters the loop
  \<open>Start\<close>: do the periodic work (\<open>protTick\<close>), wait for one event (\<open>sockNext\<close>), and handle it:
  accept a connection (\<open>hAccept\<close>) or run one connection's state machine (\<open>hConn\<close>). A connection
  reads lines; \<open>dispatchCmd\<close> runs the handler of the command; the handlers move jobs between the
  ready and delay heaps and the buried list of a tube and the reserved list of a connection, and
  write records to the log; \<open>processQueue\<close> gives ready jobs to waiting connections. All of it is
  one thread over shared objects linked by pointers and a set of global counters.

  \<^bold>\<open>The state.\<close> Record \<open>world\<close> (theory Model) holds a store per kind of object, from addresses to
  records: jobs \<open>J\<close>, tubes \<open>T\<close>, connections \<open>C\<close>, binlog files \<open>F\<close>, with the number of objects made
  so far; the package variables of \<open>core\<close>, \<open>net\<close> and \<open>utils\<close>; the log \<open>Wal\<close>; a clock (the reading
  of the n-th call of \<open>time.Now\<close>) and the outcomes of the system calls that can fail, in order.
  \<open>modJ\<close>, \<open>modT\<close>, \<open>modC\<close>, \<open>modF\<close>, \<open>modW\<close> are assignments through a pointer. A result \<open>None\<close> is a
  panic (nil dereference, slice or index out of range, \<open>Log.Panic\<close>, an exit) or a loop that does
  not end; an error the code returns is a value. Integers of Go are \<open>int\<close> with the wrap-around of
  \<open>int64\<close> written out as \<open>i64\<close> where a sum or product may leave the range, and words where the code has
  unsigned or flag types; text is a list of characters, one per byte.

  \<^bold>\<open>Theories and the code they model.\<close>
  \<^item> Prelude: lists, slices, 64-bit integers and the rounding of \<open>math.Min\<close> on \<open>float64\<close>.
  \<^item> Bytes (\<open>utils/str.go\<close>, \<open>utils/tube.go\<close>, the parts of \<open>bytes\<close> and \<open>strconv\<close> they use): parsing of
    numbers, durations and tube names; that printing and reading a number round trip, where
    reading panics and where seconds overflow.
  \<^item> HeapQueue (\<open>structure/heap.go\<close> over \<open>container/heap\<close>): the priority queue, with the locale
    \<open>weak_less\<close> for the order it is given, interpreted for the two orders of jobs and for the
    connections; that every operation keeps the heap and its contents, and that draining sorts.
  \<^item> MsQueue (\<open>structure/ms.go\<close>): the rotating list with callbacks, with the locale \<open>ms_counted\<close> for
    callbacks that count, interpreted for \<open>onWatch\<close> and \<open>onIgnore\<close>.
  \<^item> Model (\<open>constant\<close>, \<open>model\<close>, \<open>utils/metrics.go\<close>): constants, structs, the state.
  \<^item> JobOps, TubeOps (\<open>core/job.go\<close>, \<open>core/tube.go\<close>): jobs, circular lists as pointers and the
    plain lists \<open>dll\<close> they stand for, the searches over all tubes.
  \<^item> WalOps (writing in \<open>core/file.go\<close>, \<open>core/wal.go\<close>, \<open>BuryJob\<close>) and Recovery (reading there,
    \<open>protReplay\<close>, \<open>SrvAcquireWal\<close>): the log. The encoding of a record, what a full record writes,
    what reading it back restores, and where recovery stops the server.
  \<^item> ConnOps, ProtOps, Stats, Dispatch (\<open>net/conn.go\<close>, \<open>net/prot.go\<close>): connections, the queue of
    changed sockets, \<open>processQueue\<close>, \<open>enqueueJob\<close>, time-outs, closing, the statistics, one definition
    per command.
  \<^item> Server (\<open>net/serv.go\<close>, \<open>net/linux.go\<close>): one definition per state of \<open>connProcessIO\<close>, \<open>hConn\<close>,
    \<open>protTick\<close>, \<open>Start_step\<close> (one turn of \<open>Start\<close>), and the inductive relation \<open>served\<close> of the states
    reachable from the start.
  \<^item> Setup (\<open>main.go\<close>, \<open>utils/options.go\<close>, \<open>model/srv.go\<close>, \<open>signal.go\<close>), Kqueue
    (\<open>net/darwin.go\<close>), HostInfo (\<open>utils/instance_info*.go\<close>) and Windows (\<open>net/windows.go\<close> and the other
    variants for that system).
  \<^item> Ensures, Invariants, Reachable: rules for what holds of a result if there is one, the invariant
    of the server, kept by every operation, and its consequences in every reachable state.
  \<^item> Behaviour, Service, Enqueue, Polling: what single operations do, each against an abstract description:
    how input is split and where a connection is stuck; the reserved jobs of a connection, waiting
    and the queue of sockets against plain lists; the release of delayed jobs; the queue of sockets applied.
  \<^item> Places: the abstract specification of where jobs and connections stand. A value of record \<open>places\<close> says
    which jobs are ready and delayed (multisets) and buried (lists) on each tube, which a connection holds
    (lists) and which connections wait on a tube; \<open>holds a s\<close> says that the heaps, linked lists and
    waiting lists of the state \<open>s\<close> represent \<open>a\<close>, that states, tubes and holders of the jobs agree with it and that
    no job stands in two places. \<open>nowhere a s j\<close> is a job that stands nowhere. Frames: what leaves \<open>holds\<close> alone,
    replying and scheduling among them.
  \<^item> Moves: the elementary moves \<open>ready_in\<close>, \<open>ready_out\<close>, \<open>delay_in\<close>, \<open>bury_in\<close>, \<open>hold_in\<close>, \<open>wait_in\<close> and so on, and
    that the operations on heaps and lists implement them. Matching: the relation \<open>serve\<close> (a least ready job of the
    open tubes goes to a connection waiting on its tube) and that \<open>processQueue\<close> implements it and ends.
    Lifecycle, Commands, Returns: enqueueing, \<open>put\<close>, \<open>reserve\<close>, \<open>release\<close>, \<open>delete\<close>, \<open>bury\<close>, kicking and the
    closing of a connection as moves followed by service.
  \<^item> Reservations: space in the log. \<open>log_ok\<close> writes the linked list of files as the files before the current one, the
    current one and those after it, each of these with its bytes written, reserved and free making up its size; \<open>balanced\<close>
    is what \<open>balance\<close> is for (whole short records reserved in every file), and \<open>at_rest\<close> holds between two records.
  \<^item> Ledger, Handlers, JobHandlers: the books of the running server. \<open>ordered W a s\<close> says that every job of the table that
    has been put stands in exactly one place of \<open>a\<close>, that nobody waits beside a ready job, and that the connections of \<open>W\<close> do not
    wait; the handlers of the commands keep it so, each by taking a job from its place (\<open>taken\<close>) and putting it down or dropping it.
  \<^item> Sessions: the same for whole runs. A \<open>deed\<close> is one step of \<open>Start\<close> (the periodic work, accepting, one transfer on a socket,
    one command, closing, applying the queue of sockets) and \<open>perform\<close> carries it out with the functions of theory Server; the inductive
    relation \<open>session\<close> holds of the states reached by deeds that are on target: events are of accepted connections, and where the code
    relies on a recorded heap position or a fresh job id without a check, the position and the id are right (\<open>aimed\<close>). In all of
    these states the books are in order; and the main loop on a list of events is such a run (\<open>Start_is_run\<close>).
  \<^item> Overflow: the size of a body wraps around.
  \<^item> Execute, Witnesses, RunPlaces, RunLog: code equations with which the simplifier runs the server, and the
    properties applied to states of such runs and to states reached by the moves.

  \<^bold>\<open>What the theorems show.\<close> Where the log is not used and the
  places of all jobs are known, \<open>processQueue\<close> and the commands of producers and workers on jobs they made or hold
  do what they promise, with any number of connections waiting: they end, move the
  job, serve waiting connections in order of priority until none can be served, answer, and touch
  no other job; closing a connection loses no job and hands none out twice. In every reachable state the
  counter of ready jobs, the counters of users and watchers of a tube, the table of jobs, the names of the
  tubes and all references are right. In every run on target each job that was put and not deleted stands in exactly one
  queue or list, and no tube that is not paused has both a ready job and a waiting connection. The heaps, the linked lists, the queue of sockets and the watch and
  waiting lists do what their abstract counterparts do, including that their loops end. The release of
  delayed jobs and a record of the log do what they should. While no system call fails, space for a record can always be
  reserved, the record fits into the current file, and reserving and writing keep the balance of the log. Several theorems show where the code does not
  do what it means to: the recorded heap positions are never updated, so a removal takes the
  first job of the queue; time-outs never fire; \<open>kick\<close> is always refused and \<open>touch\<close> works on another
  job; late bodies are refused; a \<open>put\<close> of nearly \<open>2 ^ 63\<close> bytes stops the server; long lines and partial writes leave a connection stuck or panic the
  server; recovery panics on any tube but the default one.

  \<^bold>\<open>Loops and bounds.\<close> Loops over lists are recursion on the list. Loops that consume input or files
  are \<open>function\<close>s with a measure (\<open>read_loop\<close>: every record read is at least 8 bytes; \<open>rawFAlloc\<close>: the
  bytes left). Loops whose end depends on the links in the state are partial functions into
  \<open>option\<close>; that they end is part of the theorems on them (\<open>processQueue_serves\<close>, \<open>connClose_gives_back\<close>,
  \<open>EpollQRmConn_removes\<close>, \<open>EpollQApply_polled\<close>, \<open>tick_delayed_releases\<close>, \<open>put_is_logged\<close>). No fuel is used. The bounds \<open>2 ^ 53\<close> in theorems on
  \<open>fillExtraData\<close> are those within which \<open>math.Min\<close> on \<open>float64\<close> is exact. Theorems on reachable states speak
  of the states between two turns of the main loop; they hold for every clock and every outcome of the
  system calls.

  \<^bold>\<open>Not modelled.\<close> The effect of \<open>recover\<close> in \<open>protTick\<close>: a panic there is \<open>None\<close>, like any other.
  Logging, and the unlinking of binlog files, which change no modelled state. The goroutines that
  wait for signals: what they do to the state is in Setup, when they run is not. Parsing the command line
  and resolving addresses, done by the standard library: the values of the flags and the outcomes of the calls are
  arguments. The resource usage on Windows, floating point times of a library. The system calls \<open>epoll_wait\<close> and \<open>kevent\<close>, a
  connection's socket, the directory and the contents of binlog files are arguments of the
  definitions that use them.
\<close>

section \<open>A command on one job reaches another\<close>

text \<open>C15: \<open>delete\<close> and \<open>reserve-job\<close> of a ready job take a job out of the ready queue of its tube, but
  the first one, whichever job was asked for: the recorded position is 0 in every reachable
  state. On an empty queue the server panics.\<close>

theorem removeReadyJob_takes_first:
  assumes "served (boot clk sys env mx) s" "RState (R (J s j)) = Ready" "JTube (J s j) = Some t"
  shows "case ReadyQ (T s t) of
      [] \<Rightarrow> removeReadyJob (Some j) s = None
    | it # rest \<Rightarrow> \<exists>s'. removeReadyJob (Some j) s = Some (Some j, s') \<and>
        heap_vals (ReadyQ (T s t)) = add_mset (Value it) (heap_vals (ReadyQ (T s' t)))"
proof -
  have z: "HeapIndex (J s j) = 0" using served_boot_inv [OF assms(1)] by (simp add: invk_def index_zero_def)
  show ?thesis
  proof (cases "ReadyQ (T s t)")
    case Nil
    then have "heap_Remove (JobPriLess (J s)) 0 (ReadyQ (T s t)) = None" by (simp add: heap_Remove_None_iff)
    then show ?thesis using assms(2,3) z Nil by (simp add: removeReadyJob_def Ready_Remove_def)
  next
    case (Cons it rest)
    then have "heap_Remove (JobPriLess (J s)) 0 (ReadyQ (T s t)) \<noteq> None" by (simp add: heap_Remove_None_iff)
    then obtain x h where r: "heap_Remove (JobPriLess (J s)) 0 (ReadyQ (T s t)) = Some (x, h)" by auto
    have v: "heap_vals (ReadyQ (T s t)) = add_mset (Value it) (heap_vals h)"
      using remove_vals(3,4) [OF r] Cons by simp
    let ?s' = "ready_left j t (modT t (\<lambda>x. x\<lparr>ReadyQ := h\<rparr>) s)"
    have "removeReadyJob (Some j) s = Some (Some j, ?s')"
      using assms(2,3) r z by (simp add: removeReadyJob_def Ready_Remove_def)
    moreover have "ReadyQ (T ?s' t) = h" by (simp add: ready_left_def upd Let_def)
    ultimately show ?thesis using v Cons by auto
  qed
qed

theorem removeReadyJob_takes_first_witness:
  "\<exists>s'. removeReadyJob (Some 3) demo_end = Some (Some 3, s') \<and> heap_vals (ReadyQ (T s' 0)) = {#3#}"
proof -
  obtain it rest where q: "ReadyQ (T demo_end 0) = it # rest" "Value it = 2"
    using demo_end_obs(7) by (cases "ReadyQ (T demo_end 0)") auto
  have "heap_vals (ReadyQ (T demo_end 0)) = {#2, 3#}" by (simp add: heap_vals_def demo_end_obs)
  then show ?thesis
    using removeReadyJob_takes_first [OF demo_served [unfolded demo_def], of 3 0] q demo_end_heaps(7,8) by auto
qed


end
